(* ===== verification/Prelude.thy ===== *)
theory Prelude
  imports Main "HOL-Library.Word"
begin

unbundle bit_operations_syntax

text \<open>
  Shared vocabulary of the development: the machine integer types of the C sources (the
  firmware is built for RV64, so \<open>long\<close>, \<open>size_t\<close> and \<open>uintptr_t\<close> are 64 bits wide), the
  collections of rewrite rules the component proofs draw on, little-endian byte images of
  words, and the facts about C shifts and byte lists that several components use.
\<close>

type_synonym u8 = "8 word"
type_synonym u16 = "16 word"
type_synonym u32 = "32 word"
type_synonym u64 = "64 word"

named_theorems field_simps_c \<open>bit fields extracted with shifts and masks\<close>
named_theorems bytes_simps \<open>little-endian byte images of words\<close>
named_theorems frame_simps \<open>what an operation leaves unchanged\<close>

section \<open>C integer idioms\<close>

text \<open>
  \<open>(intptr_t)v << k >> k\<close>: a left shift followed by an arithmetic right shift keeps the low
  bits and extends their sign.
\<close>

definition shl_sra :: "nat \<Rightarrow> u64 \<Rightarrow> u64" where
  "shl_sra k v = signed_drop_bit k (push_bit k v)"

lemma shl_sra_sign_extends [field_simps_c]:
  "k < 64 \<Longrightarrow> shl_sra k v = signed_take_bit (63 - k) v"
proof (rule bit_word_eqI)
  fix n
  assume k: "k < 64" and n: "n < LENGTH(64)"
  show "bit (shl_sra k v) n \<longleftrightarrow> bit (signed_take_bit (63 - k) v) n"
  proof (cases "n \<le> 63 - k")
    case True
    with k n show ?thesis by (auto simp: shl_sra_def bit_simps min_def)
  next
    case False
    with k n have "64 - k \<le> n" by arith
    with k n show ?thesis by (auto simp: shl_sra_def bit_simps min_def)
  qed
qed

text \<open>C division truncates towards zero, and the remainder takes the sign of the dividend.\<close>

definition c_div :: "int \<Rightarrow> int \<Rightarrow> int" where
  "c_div a b = sgn a * sgn b * (\<bar>a\<bar> div \<bar>b\<bar>)"

definition c_mod :: "int \<Rightarrow> int \<Rightarrow> int" where
  "c_mod a b = a - c_div a b * b"

lemma c_div_nonneg: "0 \<le> a \<Longrightarrow> 0 \<le> b \<Longrightarrow> c_div a b = a div b"
  by (cases "a = 0"; cases "b = 0") (auto simp: c_div_def)

lemma c_mod_nonneg: "0 \<le> a \<Longrightarrow> 0 \<le> b \<Longrightarrow> c_mod a b = a mod b"
  by (simp add: c_mod_def c_div_nonneg minus_div_mult_eq_mod)

text \<open>
  An instruction is recognised by \<open>(insn & MASK) == MATCH\<close>. Where the mask is a major part and
  one contiguous field, the test says what the major part and the field are.
\<close>

lemma mask_split:
  fixes x a m :: "'a::len word"
  shows "x AND (a OR push_bit k m) = (x AND a) OR push_bit k (drop_bit k x AND m)"
proof -
  have "push_bit k (drop_bit k x AND m) = x AND push_bit k m"
    by (rule bit_word_eqI) (auto simp: bit_simps)
  then show ?thesis by (simp add: bit.conj_disj_distrib)
qed

lemma mask_match_iff:
  fixes x a m c M :: "'a::len word"
  assumes M: "M = a OR push_bit k m" and c: "c AND M = c"
  shows "x AND M = c \<longleftrightarrow> x AND a = c AND a \<and> drop_bit k x AND m = drop_bit k c AND m"
proof
  assume *: "x AND M = c"
  have "c AND a = x AND a"
    unfolding * [symmetric] M by (rule bit_word_eqI) (auto simp: bit_simps)
  moreover have "drop_bit k c AND m = drop_bit k x AND m"
    unfolding * [symmetric] M
    by (rule bit_word_eqI) (auto simp: bit_simps dest: bit_imp_le_length)
  ultimately show "x AND a = c AND a \<and> drop_bit k x AND m = drop_bit k c AND m" by simp
next
  assume "x AND a = c AND a \<and> drop_bit k x AND m = drop_bit k c AND m"
  then have "x AND M = c AND M" unfolding M mask_split by simp
  with c show "x AND M = c" by simp
qed

section \<open>Little-endian byte images\<close>

definition le_bytes :: "nat \<Rightarrow> 'a::len word \<Rightarrow> u8 list" where
  "le_bytes n x = map (\<lambda>i. ucast (drop_bit (8 * i) x)) [0..<n]"

primrec le_word :: "u8 list \<Rightarrow> 'a::len word" where
  "le_word [] = 0"
| "le_word (b # bs) = ucast b OR push_bit 8 (le_word bs)"

lemma length_le_bytes [simp]: "length (le_bytes n x) = n"
  by (simp add: le_bytes_def)

lemma nth_le_bytes [bytes_simps]: "i < n \<Longrightarrow> le_bytes n x ! i = ucast (drop_bit (8 * i) x)"
  by (simp add: le_bytes_def)

lemma le_bytes_Suc [bytes_simps]:
  "le_bytes (Suc n) x = ucast x # le_bytes n (drop_bit 8 x)"
proof -
  have "[0..<Suc n] = 0 # map Suc [0..<n]"
    by (simp add: upt_conv_Cons map_Suc_upt del: upt_Suc)
  then show ?thesis
    by (simp add: le_bytes_def drop_bit_drop_bit ac_simps del: upt_Suc)
qed

text \<open>Reading back the first \<open>n\<close> bytes of a word gives its low \<open>8 * n\<close> bits.\<close>

lemma le_word_le_bytes [bytes_simps]:
  fixes x :: "'a::len word"
  shows "le_word (le_bytes n x) = take_bit (8 * n) x"
proof (induction n arbitrary: x)
  case 0
  show ?case by (simp add: le_bytes_def)
next
  case (Suc n)
  have "ucast (ucast x :: u8) OR push_bit 8 (take_bit (8 * n) (drop_bit 8 x)) = take_bit (8 * Suc n) x"
    by (rule bit_word_eqI) (auto simp: bit_simps)
  with Suc.IH show ?case
    by (simp add: le_bytes_Suc)
qed

lemma bit_le_word [bytes_simps]:
  "bit (le_word bs :: 'a::len word) i \<longleftrightarrow>
     i < LENGTH('a) \<and> i div 8 < length bs \<and> bit (bs ! (i div 8)) (i mod 8)"
proof (induction bs arbitrary: i)
  case Nil
  show ?case by simp
next
  case (Cons b bs)
  show ?case
  proof (cases "i < 8")
    case True
    then show ?thesis by (auto simp: bit_simps)
  next
    case False
    then obtain j where "i = j + 8" by (metis add.commute le_Suc_ex not_less)
    moreover have "(j + 8) div 8 = Suc (j div 8)" by simp
    ultimately have ij: "i = j + 8" "i div 8 = Suc (j div 8)" "i mod 8 = j mod 8" by simp_all
    have b8: "\<not> bit b (j + 8)"
      using bit_imp_le_length [of b "j + 8"] by auto
    have "bit (le_word (b # bs) :: 'a word) i \<longleftrightarrow> i < LENGTH('a) \<and> bit (le_word bs :: 'a word) j"
      using b8 ij(1) by (simp add: bit_or_iff bit_push_bit_iff bit_ucast_iff)
    also have "\<dots> \<longleftrightarrow> i < LENGTH('a) \<and> j div 8 < length bs \<and> bit (bs ! (j div 8)) (j mod 8)"
      unfolding Cons.IH [of j] using ij(1) by auto
    finally show ?thesis using ij by simp
  qed
qed

section \<open>Big-endian words\<close>

definition be_word :: "u8 list \<Rightarrow> u32" where
  "be_word cs = foldl (\<lambda>w c. push_bit 8 w OR (ucast c AND 0xFF)) 0 cs"

end
