(* ===== verification/Machine.thy ===== *)
theory Machine
  imports Prelude
begin

text \<open>
  The hart as the machine-mode firmware sees it (\<open>pk/machine/mtrap.c\<close>, \<open>emulation.h\<close>,
  \<open>unprivileged_memory.h\<close>): the trap frame of the interrupted context, the control and status
  registers the firmware reads and writes, and the memory of the interrupted context, a partial
  map whose holes are the addresses that fault. A handler ends in one of three ways: it returns
  to the interrupted context (\<open>Done\<close>), it leaves through \<open>redirect_trap\<close> (\<open>Redirected\<close>), or it
  stops the machine (\<open>Died\<close>).
\<close>

section \<open>State\<close>

datatype csr =
    Mstatus | Mepc | Mcause | Mbadaddr | Mip | Mie | Mideleg | Medeleg | Mcounteren | Mscratch
  | Misa | Mhartid | Mcycle | Minstret | Mhpmcounter3 | Mhpmcounter4 | Mhpmevent3 | Mhpmevent4
  | Scounteren | Sptbr | Stvec | Sepc | Scause | Sbadaddr | Fcsr | Pmpaddr0 | Pmpcfg0

record hart =
  gpr :: "nat \<Rightarrow> u64"
  fpr :: "nat \<Rightarrow> u64"
  csrs :: "csr \<Rightarrow> u64"
  mtime :: u64
  mem :: "u64 \<Rightarrow> u8 option"

datatype 'a res = Done 'a hart | Redirected hart | Died hart

abbreviation read_csr :: "csr \<Rightarrow> hart \<Rightarrow> u64" where
  "read_csr r s \<equiv> csrs s r"

definition write_csr :: "csr \<Rightarrow> u64 \<Rightarrow> hart \<Rightarrow> hart" where
  "write_csr r v s = s\<lparr>csrs := (csrs s)(r := v)\<rparr>"

lemma write_csr_sel [simp]:
  "csrs (write_csr r v s) = (csrs s)(r := v)"
  "gpr (write_csr r v s) = gpr s"
  "fpr (write_csr r v s) = fpr s"
  "mtime (write_csr r v s) = mtime s"
  "mem (write_csr r v s) = mem s"
  by (simp_all add: write_csr_def)

primrec bind_res :: "'a res \<Rightarrow> ('a \<Rightarrow> hart \<Rightarrow> 'b res) \<Rightarrow> 'b res" where
  "bind_res (Done x s) f = f x s"
| "bind_res (Redirected s) f = Redirected s"
| "bind_res (Died s) f = Died s"

section \<open>Constants of \<open>encoding.h\<close>\<close>

abbreviation (input) MSTATUS_SIE :: u64 where "MSTATUS_SIE \<equiv> 0x2"
abbreviation (input) MSTATUS_SPIE :: u64 where "MSTATUS_SPIE \<equiv> 0x20"
abbreviation (input) MSTATUS_SPP :: u64 where "MSTATUS_SPP \<equiv> 0x100"
abbreviation (input) MSTATUS_MPP :: u64 where "MSTATUS_MPP \<equiv> 0x1800"
abbreviation (input) MSTATUS_FS :: u64 where "MSTATUS_FS \<equiv> 0x6000"
abbreviation (input) MSTATUS_MPRV :: u64 where "MSTATUS_MPRV \<equiv> 0x20000"
abbreviation (input) MSTATUS_MXR :: u64 where "MSTATUS_MXR \<equiv> 0x80000"

abbreviation (input) CAUSE_FETCH_ACCESS :: u64 where "CAUSE_FETCH_ACCESS \<equiv> 0x1"
abbreviation (input) CAUSE_LOAD_ACCESS :: u64 where "CAUSE_LOAD_ACCESS \<equiv> 0x5"
abbreviation (input) CAUSE_STORE_ACCESS :: u64 where "CAUSE_STORE_ACCESS \<equiv> 0x7"
abbreviation (input) CAUSE_FETCH_PAGE_FAULT :: u64 where "CAUSE_FETCH_PAGE_FAULT \<equiv> 0xc"
abbreviation (input) CAUSE_LOAD_PAGE_FAULT :: u64 where "CAUSE_LOAD_PAGE_FAULT \<equiv> 0xd"
abbreviation (input) CAUSE_STORE_PAGE_FAULT :: u64 where "CAUSE_STORE_PAGE_FAULT \<equiv> 0xf"

section \<open>Instruction fields (\<open>emulation.h\<close>)\<close>

definition RV_X :: "u64 \<Rightarrow> nat \<Rightarrow> nat \<Rightarrow> u64" where
  "RV_X x s n = drop_bit s x AND (push_bit n 1 - 1)"

definition RVC_RS1S :: "u64 \<Rightarrow> u64" where "RVC_RS1S insn = 8 + RV_X insn 7 3"
definition RVC_RS2S :: "u64 \<Rightarrow> u64" where "RVC_RS2S insn = 8 + RV_X insn 2 3"
definition RVC_RS2 :: "u64 \<Rightarrow> u64" where "RVC_RS2 insn = RV_X insn 2 5"
definition RVC_LD_IMM :: "u64 \<Rightarrow> u64" where
  "RVC_LD_IMM x = push_bit 3 (RV_X x 10 3) OR push_bit 6 (RV_X x 5 2)"
definition RVC_LDSP_IMM :: "u64 \<Rightarrow> u64" where
  "RVC_LDSP_IMM x = push_bit 3 (RV_X x 5 2) OR push_bit 5 (RV_X x 12 1) OR push_bit 6 (RV_X x 2 3)"
definition RVC_SDSP_IMM :: "u64 \<Rightarrow> u64" where
  "RVC_SDSP_IMM x = push_bit 3 (RV_X x 10 3) OR push_bit 6 (RV_X x 7 3)"

text \<open>
  \<open>SHIFT_RIGHT(x, pos - 3)\<close> shifts left when the amount is negative; \<open>GET_REG\<close> masks the
  result to a byte offset into the array of 64-bit slots.
\<close>

definition SHIFT_RIGHT3 :: "u64 \<Rightarrow> nat \<Rightarrow> u64" where
  "SHIFT_RIGHT3 x pos = (if pos < 3 then push_bit (3 - pos) x else drop_bit (pos - 3) x)"

definition GET_REG :: "u64 \<Rightarrow> nat \<Rightarrow> nat" where
  "GET_REG insn pos = unat (SHIFT_RIGHT3 insn pos AND 0xF8) div 8"

definition GET_RS1 :: "u64 \<Rightarrow> hart \<Rightarrow> u64" where "GET_RS1 insn s = gpr s (GET_REG insn 15)"
definition GET_RS2 :: "u64 \<Rightarrow> hart \<Rightarrow> u64" where "GET_RS2 insn s = gpr s (GET_REG insn 20)"
definition GET_RS1S :: "u64 \<Rightarrow> hart \<Rightarrow> u64" where "GET_RS1S insn s = gpr s (GET_REG (RVC_RS1S insn) 0)"
definition GET_RS2S :: "u64 \<Rightarrow> hart \<Rightarrow> u64" where "GET_RS2S insn s = gpr s (GET_REG (RVC_RS2S insn) 0)"
definition GET_RS2C :: "u64 \<Rightarrow> hart \<Rightarrow> u64" where "GET_RS2C insn s = gpr s (GET_REG insn 2)"
definition GET_SP :: "hart \<Rightarrow> u64" where "GET_SP s = gpr s (GET_REG 2 0)"

definition SET_RD :: "u64 \<Rightarrow> u64 \<Rightarrow> hart \<Rightarrow> hart" where
  "SET_RD insn v s = s\<lparr>gpr := (gpr s)(GET_REG insn 7 := v)\<rparr>"

definition IMM_I :: "u64 \<Rightarrow> u64" where
  "IMM_I insn = scast (signed_drop_bit 20 (ucast insn :: u32))"

definition IMM_S :: "u64 \<Rightarrow> u64" where
  "IMM_S insn = scast (push_bit 5 (signed_drop_bit 25 (ucast insn :: u32)) OR
                       (ucast (drop_bit 7 insn AND 0x1f) :: u32))"

definition insn_len :: "u64 \<Rightarrow> u64" where
  "insn_len insn = (if insn AND 3 < 3 then 2 else 4)"

section \<open>Handing a trap to the supervisor (\<open>mtrap.c\<close>)\<close>

definition redirect_trap :: "u64 \<Rightarrow> u64 \<Rightarrow> u64 \<Rightarrow> hart \<Rightarrow> hart" where
  "redirect_trap epc mstatus badaddr s0 =
     (let s1 = write_csr Sbadaddr badaddr s0;
          s2 = write_csr Sepc epc s1;
          s3 = write_csr Scause (read_csr Mcause s2) s2;
          s4 = write_csr Mepc (read_csr Stvec s3) s3;
          m1 = mstatus AND NOT (MSTATUS_SPP OR MSTATUS_SPIE OR MSTATUS_SIE);
          mpp_s = MSTATUS_MPP AND drop_bit 1 MSTATUS_MPP;
          m2 = m1 OR ((mstatus * (MSTATUS_SPIE div MSTATUS_SIE)) AND MSTATUS_SPIE);
          m3 = m2 OR ((mstatus div (mpp_s div MSTATUS_SPP)) AND MSTATUS_SPP);
          m4 = m3 OR mpp_s
      in write_csr Mstatus m4 s4)"

definition truly_illegal_insn :: "u64 \<Rightarrow> u64 \<Rightarrow> u64 \<Rightarrow> hart \<Rightarrow> unit res" where
  "truly_illegal_insn mepc mstatus insn s = Redirected (redirect_trap mepc mstatus insn s)"

definition pmp_trap :: "u64 \<Rightarrow> hart \<Rightarrow> unit res" where
  "pmp_trap mepc s = Redirected (redirect_trap mepc (read_csr Mstatus s) (read_csr Mbadaddr s) s)"

definition bad_trap :: "hart \<Rightarrow> 'a res" where
  "bad_trap s = Died s"

definition machine_page_fault :: "(nat \<Rightarrow> u64) \<Rightarrow> u64 \<Rightarrow> hart \<Rightarrow> 'a res" where
  "machine_page_fault regs mcause s =
     (if read_csr Mstatus s AND MSTATUS_MPRV \<noteq> 0
      then if regs 11 = (MSTATUS_MPRV OR MSTATUS_MXR)
           then if mcause = CAUSE_LOAD_PAGE_FAULT
                then let s' = write_csr Mcause CAUSE_FETCH_PAGE_FAULT s
                     in Redirected (redirect_trap (regs 12) (regs 13) (read_csr Mbadaddr s') s')
                else if mcause = CAUSE_LOAD_ACCESS
                then let s' = write_csr Mcause CAUSE_FETCH_ACCESS s
                     in Redirected (redirect_trap (regs 12) (regs 13) (read_csr Mbadaddr s') s')
                else bad_trap s
           else if regs 11 \<noteq> MSTATUS_MPRV then bad_trap s
           else Redirected (redirect_trap (regs 12) (regs 13) (read_csr Mbadaddr s) s)
      else bad_trap s)"

definition trap_from_machine_mode :: "(nat \<Rightarrow> u64) \<Rightarrow> hart \<Rightarrow> 'a res" where
  "trap_from_machine_mode regs s =
     (let mcause = read_csr Mcause s
      in if mcause \<in> {CAUSE_LOAD_PAGE_FAULT, CAUSE_STORE_PAGE_FAULT, CAUSE_FETCH_ACCESS,
                      CAUSE_LOAD_ACCESS, CAUSE_STORE_ACCESS}
         then machine_page_fault regs mcause s
         else bad_trap s)"

section \<open>Accesses on behalf of the interrupted context (\<open>unprivileged_memory.h\<close>)\<close>

text \<open>
  The access sets \<open>MPRV\<close> (and \<open>MXR\<close> for an instruction fetch) with \<open>csrrs\<close>, which leaves the
  old \<open>mstatus\<close> in \<open>a3\<close>; \<open>a1\<close> holds the bits that were set and \<open>a2\<close> the interrupted pc. An access
  that faults traps into machine mode again, where \<open>trap_from_machine_mode\<close> finds those three
  registers; the hardware has written the cause and the address, and the mode \<open>M\<close> into
  \<open>mstatus.MPP\<close>.
\<close>

definition nested_fault :: "u64 \<Rightarrow> u64 \<Rightarrow> u64 \<Rightarrow> u64 \<Rightarrow> hart \<Rightarrow> 'a res" where
  "nested_fault adjust mepc cause addr s =
     (let old = read_csr Mstatus s;
          s1 = write_csr Mstatus (old OR adjust OR MSTATUS_MPP) s;
          s2 = write_csr Mbadaddr addr (write_csr Mcause cause s1)
      in trap_from_machine_mode ((gpr s)(11 := adjust, 12 := mepc, 13 := old)) s2)"

definition mem_bytes :: "nat \<Rightarrow> u64 \<Rightarrow> (u64 \<Rightarrow> u8 option) \<Rightarrow> u8 list option" where
  "mem_bytes n a m =
     (let bs = map (\<lambda>i. m (a + of_nat i)) [0..<n]
      in if list_all (\<lambda>b. b \<noteq> None) bs then Some (map the bs) else None)"

text \<open>
  Permissions are not distinguished: an address the context may not access counts as one without a byte. A nested trap because
  the address is not aligned is not modelled.
\<close>

definition uload :: "nat \<Rightarrow> u64 \<Rightarrow> u64 \<Rightarrow> u64 \<Rightarrow> hart \<Rightarrow> u64 res" where
  "uload n adjust mepc addr s =
     (case mem_bytes n addr (mem s) of
        Some bs \<Rightarrow> Done (le_word bs) s
      | None \<Rightarrow> nested_fault adjust mepc CAUSE_LOAD_PAGE_FAULT addr s)"

fun put_bytes :: "u64 \<Rightarrow> u8 list \<Rightarrow> (u64 \<Rightarrow> u8 option) \<Rightarrow> (u64 \<Rightarrow> u8 option)" where
  "put_bytes a [] m = m"
| "put_bytes a (b # bs) m = put_bytes (a + 1) bs (m(a := Some b))"

definition ustore :: "u64 \<Rightarrow> u64 \<Rightarrow> u8 list \<Rightarrow> hart \<Rightarrow> unit res" where
  "ustore mepc addr bs s =
     (case mem_bytes (length bs) addr (mem s) of
        Some _ \<Rightarrow> Done () (s\<lparr>mem := put_bytes addr bs (mem s)\<rparr>)
      | None \<Rightarrow> nested_fault MSTATUS_MPRV mepc CAUSE_STORE_PAGE_FAULT addr s)"

definition load_uint8_t :: "u64 \<Rightarrow> u64 \<Rightarrow> hart \<Rightarrow> u8 res" where
  "load_uint8_t addr mepc s =
     bind_res (uload 1 MSTATUS_MPRV mepc addr s) (\<lambda>v s. Done (ucast v) s)"

definition load_int32_t :: "u64 \<Rightarrow> u64 \<Rightarrow> hart \<Rightarrow> u32 res" where
  "load_int32_t addr mepc s =
     bind_res (uload 4 MSTATUS_MPRV mepc addr s) (\<lambda>v s. Done (ucast v) s)"

definition load_uint64_t :: "u64 \<Rightarrow> u64 \<Rightarrow> hart \<Rightarrow> u64 res" where
  "load_uint64_t addr mepc s = uload 8 MSTATUS_MPRV mepc addr s"

definition store_uint8_t :: "u64 \<Rightarrow> u8 \<Rightarrow> u64 \<Rightarrow> hart \<Rightarrow> unit res" where
  "store_uint8_t addr v mepc s = ustore mepc addr [v] s"

definition store_uint32_t :: "u64 \<Rightarrow> u32 \<Rightarrow> u64 \<Rightarrow> hart \<Rightarrow> unit res" where
  "store_uint32_t addr v mepc s = ustore mepc addr (le_bytes 4 v) s"

definition store_uint64_t :: "u64 \<Rightarrow> u64 \<Rightarrow> u64 \<Rightarrow> hart \<Rightarrow> unit res" where
  "store_uint64_t addr v mepc s = ustore mepc addr (le_bytes 8 v) s"

text \<open>
  \<open>get_insn\<close> of a build with the compressed extension: one aligned 32-bit load when bit 1 of the
  pc is clear, else one or two halfword loads. It returns the instruction and the \<open>mstatus\<close> of
  the interrupted context.
\<close>

definition get_insn :: "u64 \<Rightarrow> hart \<Rightarrow> (u64 \<times> u64) res" where
  "get_insn mepc s =
     (let adjust = MSTATUS_MPRV OR MSTATUS_MXR; old = read_csr Mstatus s
      in if mepc AND 2 = 0
         then bind_res (uload 4 adjust mepc mepc s) (\<lambda>insn s.
                if insn AND 3 = 3 then Done (insn, old) s
                else Done (drop_bit 48 (push_bit 48 insn), old) s)
         else bind_res (uload 2 adjust mepc mepc s) (\<lambda>lo s.
                if lo AND 3 \<noteq> 3 then Done (lo, old) s
                else bind_res (uload 2 adjust mepc (mepc + 2) s) (\<lambda>hi s.
                       Done (lo + push_bit 16 hi, old) s)))"

section \<open>Facts about the instruction fields\<close>

text \<open>The byte offset that \<open>GET_REG\<close> computes selects the register named by a 5-bit field.\<close>

lemma GET_REG_field [field_simps_c]:
  "GET_REG insn pos = unat (drop_bit pos insn AND 31)"
proof -
  have m: "(31 :: u64) = mask 5" by (simp add: mask_eq_exp_minus_1)
  have "drop_bit 3 (SHIFT_RIGHT3 insn pos AND 0xF8) = drop_bit 3 (SHIFT_RIGHT3 insn pos) AND 31"
    by (simp add: drop_bit_and)
  also have "\<dots> = drop_bit pos insn AND 31"
    unfolding m by (rule bit_word_eqI) (auto simp: SHIFT_RIGHT3_def bit_simps add.commute)
  finally have "unat (drop_bit 3 (SHIFT_RIGHT3 insn pos AND 0xF8)) = unat (drop_bit pos insn AND 31)"
    by simp
  then show ?thesis
    by (simp add: GET_REG_def drop_bit_eq_div unat_div)
qed

lemma GET_REG_lt [simp]: "GET_REG insn pos < 32"
proof -
  have "drop_bit pos insn AND 31 \<le> 31" by (rule word_and_le1)
  then show ?thesis by (simp add: GET_REG_field word_le_nat_alt)
qed

lemma SET_RD_sel [simp]:
  "csrs (SET_RD insn v s) = csrs s" "mem (SET_RD insn v s) = mem s" "fpr (SET_RD insn v s) = fpr s"
  "mtime (SET_RD insn v s) = mtime s" "gpr (SET_RD insn v s) = (gpr s)(GET_REG insn 7 := v)"
  by (simp_all add: SET_RD_def)

section \<open>Facts about redirection\<close>

lemma redirect_trap_sel [simp]:
  "gpr (redirect_trap e m b s) = gpr s" "fpr (redirect_trap e m b s) = fpr s"
  "mem (redirect_trap e m b s) = mem s" "mtime (redirect_trap e m b s) = mtime s"
  by (simp_all add: redirect_trap_def Let_def)

lemma redirect_trap_csrs:
  "csrs (redirect_trap e m b s) = (csrs s)(Sbadaddr := b, Sepc := e, Scause := csrs s Mcause,
     Mepc := csrs s Stvec,
     Mstatus := (((m AND NOT (2 ^ 8 OR 2 ^ 5 OR 2 ^ 1)) OR (push_bit 4 m AND 2 ^ 5)) OR
                 (drop_bit 3 m AND 2 ^ 8)) OR 2 ^ 11)"
proof -
  have "push_bit 4 m = m * 16" by (simp add: push_bit_eq_mult)
  moreover have "drop_bit 3 m = m div 8" by (simp add: drop_bit_eq_div)
  ultimately show ?thesis
    by (simp add: redirect_trap_def Let_def fun_eq_iff)
qed

lemma redirect_trap_mstatus_bit:
  "bit (csrs (redirect_trap e m b s) Mstatus) i \<longleftrightarrow>
     (if i = 1 then False else if i = 5 then bit m 1 else if i = 8 then bit m 11
      else if i = 11 then True else bit m i)"
  unfolding redirect_trap_csrs fun_upd_same bit_or_iff bit_and_iff bit_not_iff_eq bit_exp_iff
    bit_push_bit_iff bit_drop_bit_eq comp_apply
  by (auto dest: bit_imp_le_length)

text \<open>
  A fault taken while the firmware accesses memory on behalf of the interrupted context is
  redirected as a trap of that context: its pc and its \<open>mstatus\<close>, the cause and the address.
\<close>

lemma nested_fault_data:
  assumes "cause \<in> {CAUSE_LOAD_PAGE_FAULT, CAUSE_STORE_PAGE_FAULT}"
  shows "nested_fault MSTATUS_MPRV mepc cause addr s =
    Redirected (redirect_trap mepc (csrs s Mstatus) addr
      (write_csr Mbadaddr addr (write_csr Mcause cause
        (write_csr Mstatus (csrs s Mstatus OR MSTATUS_MPRV OR MSTATUS_MPP) s))))"
proof -
  have "bit ((csrs s Mstatus OR MSTATUS_MPRV OR MSTATUS_MPP) AND MSTATUS_MPRV) 17"
    by (simp add: bit_simps)
  then have "(csrs s Mstatus OR MSTATUS_MPRV OR MSTATUS_MPP) AND MSTATUS_MPRV \<noteq> 0"
    by (metis bit_0_eq bot_apply bot_bool_def)
  with assms show ?thesis
    by (auto simp: nested_fault_def trap_from_machine_mode_def machine_page_fault_def Let_def)
qed

lemma nested_fault_fetch:
  "nested_fault (MSTATUS_MPRV OR MSTATUS_MXR) mepc CAUSE_LOAD_PAGE_FAULT addr s =
    Redirected (redirect_trap mepc (csrs s Mstatus) addr
      (write_csr Mcause CAUSE_FETCH_PAGE_FAULT
      (write_csr Mbadaddr addr (write_csr Mcause CAUSE_LOAD_PAGE_FAULT
        (write_csr Mstatus (csrs s Mstatus OR MSTATUS_MPRV OR MSTATUS_MXR OR MSTATUS_MPP) s)))))"
proof -
  have "bit ((csrs s Mstatus OR 0xA1800) AND MSTATUS_MPRV) 17"
    by (simp add: bit_simps)
  then have "(csrs s Mstatus OR 0xA1800) AND MSTATUS_MPRV \<noteq> 0"
    by (metis bit_0_eq bot_apply bot_bool_def)
  then show ?thesis
    by (simp add: nested_fault_def trap_from_machine_mode_def machine_page_fault_def Let_def or.assoc)
qed

section \<open>Facts about memory\<close>

lemma mem_bytes_Some_iff:
  "mem_bytes n a m = Some bs \<longleftrightarrow>
     length bs = n \<and> (\<forall>i<n. m (a + of_nat i) = Some (bs ! i))"
proof -
  have "map (\<lambda>i. m (a + of_nat i)) [0..<n] = map Some bs \<longleftrightarrow>
      length bs = n \<and> (\<forall>i<n. m (a + of_nat i) = Some (bs ! i))"
    by (auto simp: list_eq_iff_nth_eq)
  moreover have "(if list_all (\<lambda>b. b \<noteq> None) os then Some (map the os) else None) = Some bs
      \<longleftrightarrow> os = map Some bs" for os :: "u8 option list"
    by (auto simp: list_all_iff map_idI)
  ultimately show ?thesis by (simp add: mem_bytes_def Let_def)
qed

lemma mem_bytes_1 [simp]:
  "mem_bytes (Suc 0) a m = (case m a of None \<Rightarrow> None | Some b \<Rightarrow> Some [b])"
  by (simp add: mem_bytes_def split: option.split)

lemma ucast_up_down [simp]: "(ucast (ucast (b :: u8) :: u64) :: u8) = b"
  by (rule bit_word_eqI) (simp add: bit_simps)

lemma put_bytes_other:
  "(\<forall>i<length bs. a + of_nat i \<noteq> x) \<Longrightarrow> put_bytes a bs m x = m x"
proof (induction bs arbitrary: a m)
  case (Cons b bs)
  have "\<forall>i<length bs. (a + 1) + of_nat i \<noteq> x"
  proof (intro allI impI)
    fix i assume "i < length bs"
    with Cons.prems have "a + of_nat (Suc i) \<noteq> x" by (metis Suc_less_eq length_Cons)
    then show "(a + 1) + of_nat i \<noteq> x" by (simp add: algebra_simps)
  qed
  moreover have "a \<noteq> x" using Cons.prems by force
  ultimately show ?case using Cons.IH by simp
qed simp

text \<open>Bytes stored at distinct addresses are read back: at most \<open>2 ^ 64\<close> of them.\<close>

lemma put_bytes_read:
  "length bs \<le> 2 ^ 64 \<Longrightarrow> i < length bs \<Longrightarrow> put_bytes a bs m (a + of_nat i) = Some (bs ! i)"
proof (induction bs arbitrary: a m i)
  case (Cons b bs)
  show ?case
  proof (cases i)
    case 0
    have "(a + 1) + of_nat j \<noteq> a" if "j < length bs" for j
    proof
      assume "(a + 1) + of_nat j = a"
      then have "word_of_nat (Suc j) = (0 :: u64)" by (simp add: algebra_simps)
      then have "2 ^ LENGTH(64) dvd Suc j" by (simp only: word_of_nat_eq_0_iff)
      with that Cons.prems show False by (auto dest: dvd_imp_le)
    qed
    then have "put_bytes (a + 1) bs (m(a := Some b)) a = (m(a := Some b)) a"
      by (intro put_bytes_other) blast
    with 0 show ?thesis by simp
  next
    case (Suc j)
    then have "put_bytes (a + 1) bs (m(a := Some b)) ((a + 1) + of_nat j) = Some (bs ! j)"
      using Cons by simp
    with Suc show ?thesis by (simp add: algebra_simps)
  qed
qed simp

section \<open>The byte-access interface\<close>

text \<open>
  What the emulation of misaligned accesses relies on: a byte load returns the byte and changes
  nothing, a byte store changes that byte, and either leaves through a redirection when the
  address is not mapped. \<open>load_bytes\<close> and \<open>store_bytes\<close> are the two loops of
  \<open>misaligned_ldst.c\<close> over such accesses.
\<close>

fun load_bytes :: "(u64 \<Rightarrow> hart \<Rightarrow> u8 res) \<Rightarrow> nat \<Rightarrow> u64 \<Rightarrow> hart \<Rightarrow> u8 list res" where
  "load_bytes ld 0 addr s = Done [] s"
| "load_bytes ld (Suc n) addr s =
     bind_res (ld addr s) (\<lambda>b s. bind_res (load_bytes ld n (addr + 1) s) (\<lambda>bs s. Done (b # bs) s))"

fun store_bytes :: "(u64 \<Rightarrow> u8 \<Rightarrow> hart \<Rightarrow> unit res) \<Rightarrow> u64 \<Rightarrow> u8 list \<Rightarrow> hart \<Rightarrow> unit res" where
  "store_bytes st addr [] s = Done () s"
| "store_bytes st addr (b # bs) s = bind_res (st addr b s) (\<lambda>_ s. store_bytes st (addr + 1) bs s)"

locale byte_access =
  fixes ld :: "u64 \<Rightarrow> hart \<Rightarrow> u8 res"
    and st :: "u64 \<Rightarrow> u8 \<Rightarrow> hart \<Rightarrow> unit res"
    and ld_fault :: "u64 \<Rightarrow> hart \<Rightarrow> hart"
  assumes ld_mapped: "mem s a = Some b \<Longrightarrow> ld a s = Done b s"
    and ld_unmapped: "mem s a = None \<Longrightarrow> ld a s = Redirected (ld_fault a s)"
    and st_mapped: "mem s a = Some b \<Longrightarrow> st a v s = Done () (s\<lparr>mem := (mem s)(a := Some v)\<rparr>)"
begin

lemma load_bytes_mapped:
  "mem_bytes n a (mem s) = Some bs \<Longrightarrow> load_bytes ld n a s = Done bs s"
proof (induction n arbitrary: a bs)
  case 0
  then show ?case by (simp add: mem_bytes_Some_iff)
next
  case (Suc n)
  then obtain b bs' where bs: "bs = b # bs'" "length bs' = n"
    by (auto simp: mem_bytes_Some_iff length_Suc_conv)
  from Suc.prems have all: "\<forall>i<Suc n. mem s (a + of_nat i) = Some ((b # bs') ! i)"
    by (simp add: mem_bytes_Some_iff bs)
  have "mem s a = Some b" using all [rule_format, of 0] by simp
  moreover have "mem_bytes n (a + 1) (mem s) = Some bs'"
    unfolding mem_bytes_Some_iff
  proof (intro conjI allI impI)
    fix i assume "i < n"
    with all have "mem s (a + of_nat (Suc i)) = Some ((b # bs') ! Suc i)" by blast
    then show "mem s ((a + 1) + of_nat i) = Some (bs' ! i)" by (simp add: algebra_simps)
  qed (rule bs)
  ultimately show ?case
    using Suc.IH [of "a + 1" bs'] by (simp add: ld_mapped bs)
qed

lemma load_bytes_fault:
  "mem_bytes k a (mem s) = Some bs \<Longrightarrow> mem s (a + of_nat k) = None \<Longrightarrow> k < n \<Longrightarrow>
   load_bytes ld n a s = Redirected (ld_fault (a + of_nat k) s)"
proof (induction n arbitrary: a bs k)
  case (Suc n)
  show ?case
  proof (cases k)
    case 0
    with Suc.prems show ?thesis by (simp add: ld_unmapped)
  next
    case (Suc j)
    from Suc.prems(1) Suc obtain b bs' where bs: "bs = b # bs'" "length bs' = j"
      by (auto simp: mem_bytes_Some_iff length_Suc_conv)
    from Suc.prems(1) have all: "\<forall>i<Suc j. mem s (a + of_nat i) = Some ((b # bs') ! i)"
      by (simp add: mem_bytes_Some_iff bs Suc)
    have b: "mem s a = Some b" using all [rule_format, of 0] by simp
    have "mem s ((a + 1) + of_nat i) = Some (bs' ! i)" if "i < j" for i
      using all [rule_format, of "Suc i"] that by (simp add: algebra_simps)
    then have "mem_bytes j (a + 1) (mem s) = Some bs'"
      by (simp add: mem_bytes_Some_iff bs)
    moreover have "mem s ((a + 1) + of_nat j) = None" using Suc.prems(2) Suc by (simp add: algebra_simps)
    ultimately have "load_bytes ld n (a + 1) s = Redirected (ld_fault ((a + 1) + of_nat j) s)"
      using Suc.prems(3) Suc by (intro Suc.IH) auto
    with b show ?thesis by (simp add: ld_mapped Suc algebra_simps)
  qed
qed simp

lemma store_bytes_mapped:
  "\<forall>i<length bs. mem s (a + of_nat i) \<noteq> None \<Longrightarrow>
   store_bytes st a bs s = Done () (s\<lparr>mem := put_bytes a bs (mem s)\<rparr>)"
proof (induction bs arbitrary: a s)
  case (Cons b bs)
  from Cons.prems obtain b' where "mem s a = Some b'" by force
  then have step: "st a b s = Done () (s\<lparr>mem := (mem s)(a := Some b)\<rparr>)" by (rule st_mapped)
  have "mem s ((a + 1) + of_nat i) \<noteq> None" if "i < length bs" for i
    using Cons.prems [rule_format, of "Suc i"] that by (simp add: algebra_simps)
  then have "\<forall>i<length bs. mem (s\<lparr>mem := (mem s)(a := Some b)\<rparr>) ((a + 1) + of_nat i) \<noteq> None"
    by simp
  from Cons.IH [OF this] step show ?case by (simp add: fun_upd_def)
qed simp

end

definition data_fault :: "u64 \<Rightarrow> u64 \<Rightarrow> u64 \<Rightarrow> hart \<Rightarrow> hart" where
  "data_fault cause mepc addr s =
     redirect_trap mepc (csrs s Mstatus) addr
      (write_csr Mbadaddr addr (write_csr Mcause cause
        (write_csr Mstatus (csrs s Mstatus OR MSTATUS_MPRV OR MSTATUS_MPP) s)))"

lemma load_uint8_t_cases:
  "load_uint8_t a mepc s = (case mem s a of Some b \<Rightarrow> Done b s
     | None \<Rightarrow> Redirected (data_fault CAUSE_LOAD_PAGE_FAULT mepc a s))"
  by (simp add: load_uint8_t_def uload_def nested_fault_data data_fault_def split: option.split)

lemma store_uint8_t_cases:
  "store_uint8_t a v mepc s = (case mem s a of Some b \<Rightarrow> Done () (s\<lparr>mem := (mem s)(a := Some v)\<rparr>)
     | None \<Rightarrow> Redirected (data_fault CAUSE_STORE_PAGE_FAULT mepc a s))"
  by (simp add: store_uint8_t_def ustore_def nested_fault_data data_fault_def split: option.split)

interpretation ubyte: byte_access "\<lambda>a. load_uint8_t a mepc" "\<lambda>a v. store_uint8_t a v mepc"
    "data_fault CAUSE_LOAD_PAGE_FAULT mepc" for mepc
  by unfold_locales (simp_all add: load_uint8_t_cases store_uint8_t_cases)

end
