(* ===== verification/Muldiv.thy ===== *)
theory Muldiv
  imports Machine
begin

text \<open>
  Emulation of the multiply and divide instructions on harts without them
  (\<open>pk/machine/muldiv_emulation.c\<close>, RV64). The C text uses the operators of C on signed and
  unsigned integers, so where C leaves the value undefined (division by zero, the overflowing
  signed division, the overflowing signed 128-bit product) the model has no value. The
  theorems compare the handlers with the values the instruction set defines.
\<close>

section \<open>Model\<close>

datatype alu = Value u64 | Undefined | NotMatched

definition int_min64 :: int where "int_min64 = - (2 ^ 63)"
definition int_min32 :: int where "int_min32 = - (2 ^ 31)"

text \<open>A signed operation of width \<open>w\<close> has a value only if its result is representable.\<close>

definition c_signed :: "nat \<Rightarrow> int \<Rightarrow> int option" where
  "c_signed w x = (if - (2 ^ (w - 1)) \<le> x \<and> x < 2 ^ (w - 1) then Some x else None)"

definition c_sdiv :: "nat \<Rightarrow> int \<Rightarrow> int \<Rightarrow> int option" where
  "c_sdiv w a b = (if b = 0 then None else c_signed w (c_div a b))"

text \<open>\<open>a % b\<close> is undefined whenever \<open>a / b\<close> is.\<close>

definition c_smod :: "nat \<Rightarrow> int \<Rightarrow> int \<Rightarrow> int option" where
  "c_smod w a b = (case c_sdiv w a b of None \<Rightarrow> None | Some q \<Rightarrow> Some (a - q * b))"

definition c_udiv :: "int \<Rightarrow> int \<Rightarrow> int option" where
  "c_udiv a b = (if b = 0 then None else Some (a div b))"

definition c_umod :: "int \<Rightarrow> int \<Rightarrow> int option" where
  "c_umod a b = (if b = 0 then None else Some (a mod b))"

definition alu_of :: "int option \<Rightarrow> alu" where
  "alu_of v = (case v of None \<Rightarrow> Undefined | Some x \<Rightarrow> Value (word_of_int x))"

text \<open>\<open>((double_int)a * (double_int)b) >> 64\<close>, converted to \<open>uintptr_t\<close>.\<close>

definition mul_high :: "int \<Rightarrow> int \<Rightarrow> int option" where
  "mul_high a b = map_option (\<lambda>p. p div 2 ^ 64) (c_signed 128 (a * b))"

definition mul_div_val :: "u64 \<Rightarrow> u64 \<Rightarrow> u64 \<Rightarrow> alu" where
  "mul_div_val insn rs1 rs2 =
     (if insn AND 0xfe00707f = 0x2000033 then Value (rs1 * rs2)
      else if insn AND 0xfe00707f = 0x2004033 then alu_of (c_sdiv 64 (sint rs1) (sint rs2))
      else if insn AND 0xfe00707f = 0x2005033 then alu_of (c_udiv (uint rs1) (uint rs2))
      else if insn AND 0xfe00707f = 0x2006033 then alu_of (c_smod 64 (sint rs1) (sint rs2))
      else if insn AND 0xfe00707f = 0x2007033 then alu_of (c_umod (uint rs1) (uint rs2))
      else if insn AND 0xfe00707f = 0x2001033 then alu_of (mul_high (sint rs1) (sint rs2))
      else if insn AND 0xfe00707f = 0x2003033 then alu_of (mul_high (uint rs1) (uint rs2))
      else if insn AND 0xfe00707f = 0x2002033 then alu_of (mul_high (sint rs1) (uint rs2))
      else NotMatched)"

definition emulate_mul_div :: "u64 \<Rightarrow> u64 \<Rightarrow> u64 \<Rightarrow> hart \<Rightarrow> unit res option" where
  "emulate_mul_div mepc mstatus insn s =
     (let rs1 = GET_RS1 insn s; rs2 = GET_RS2 insn s
      in case mul_div_val insn rs1 rs2 of
           Value v \<Rightarrow> Some (Done () (SET_RD insn v s))
         | Undefined \<Rightarrow> None
         | NotMatched \<Rightarrow> Some (truly_illegal_insn mepc mstatus insn s))"

text \<open>The 32-bit forms compute an \<open>int32_t\<close>, which the store into the frame sign-extends.\<close>

definition alu32_of :: "int option \<Rightarrow> alu" where
  "alu32_of v = (case v of None \<Rightarrow> Undefined | Some x \<Rightarrow> Value (scast (word_of_int x :: u32)))"

definition mul_div32_val :: "u64 \<Rightarrow> u32 \<Rightarrow> u32 \<Rightarrow> alu" where
  "mul_div32_val insn rs1 rs2 =
     (if insn AND 0xfe00707f = 0x200003b then alu32_of (Some (uint (rs1 * rs2)))
      else if insn AND 0xfe00707f = 0x200403b then alu32_of (c_sdiv 32 (sint rs1) (sint rs2))
      else if insn AND 0xfe00707f = 0x200503b then alu32_of (c_udiv (uint rs1) (uint rs2))
      else if insn AND 0xfe00707f = 0x200603b then alu32_of (c_smod 32 (sint rs1) (sint rs2))
      else if insn AND 0xfe00707f = 0x200703b then alu32_of (c_umod (uint rs1) (uint rs2))
      else NotMatched)"

definition emulate_mul_div32 :: "u64 \<Rightarrow> u64 \<Rightarrow> u64 \<Rightarrow> hart \<Rightarrow> unit res option" where
  "emulate_mul_div32 mepc mstatus insn s =
     (let rs1 = ucast (GET_RS1 insn s); rs2 = ucast (GET_RS2 insn s)
      in case mul_div32_val insn rs1 rs2 of
           Value v \<Rightarrow> Some (Done () (SET_RD insn v s))
         | Undefined \<Rightarrow> None
         | NotMatched \<Rightarrow> Some (truly_illegal_insn mepc mstatus insn s))"

section \<open>The instruction set's values\<close>

text \<open>
  The M extension, by \<open>funct3\<close>: no instruction traps, division by zero gives all ones (the
  dividend, for a remainder), and the overflowing division gives the dividend (zero).
\<close>

definition isa_div :: "nat \<Rightarrow> int \<Rightarrow> int \<Rightarrow> int" where
  "isa_div w a b = (if b = 0 then - 1 else if a = - (2 ^ (w - 1)) \<and> b = - 1 then a else c_div a b)"

definition isa_rem :: "nat \<Rightarrow> int \<Rightarrow> int \<Rightarrow> int" where
  "isa_rem w a b = (if b = 0 then a else if a = - (2 ^ (w - 1)) \<and> b = - 1 then 0 else a - c_div a b * b)"

definition isa_muldiv :: "nat \<Rightarrow> u64 \<Rightarrow> u64 \<Rightarrow> u64" where
  "isa_muldiv f3 a b =
     (if f3 = 0 then a * b
      else if f3 = 1 then word_of_int (sint a * sint b div 2 ^ 64)
      else if f3 = 2 then word_of_int (sint a * uint b div 2 ^ 64)
      else if f3 = 3 then word_of_int (uint a * uint b div 2 ^ 64)
      else if f3 = 4 then word_of_int (isa_div 64 (sint a) (sint b))
      else if f3 = 5 then (if b = 0 then - 1 else a div b)
      else if f3 = 6 then word_of_int (isa_rem 64 (sint a) (sint b))
      else (if b = 0 then a else a mod b))"

text \<open>Where the C text has no value.\<close>

definition c_undefined :: "nat \<Rightarrow> u64 \<Rightarrow> u64 \<Rightarrow> bool" where
  "c_undefined f3 a b \<longleftrightarrow>
     (4 \<le> f3 \<and> b = 0) \<or>
     (f3 \<in> {4, 6} \<and> sint a = int_min64 \<and> sint b = - 1) \<or>
     (f3 = 3 \<and> 2 ^ 127 \<le> uint a * uint b)"

definition funct3 :: "u64 \<Rightarrow> nat" where "funct3 insn = unat (drop_bit 12 insn AND 7)"

definition is_muldiv :: "u64 \<Rightarrow> bool" where "is_muldiv insn \<longleftrightarrow> insn AND 0xfe00007f = 0x2000033"

section \<open>Recognising the instructions\<close>

lemma funct3_lt: "funct3 insn < 8"
proof -
  have "drop_bit 12 insn AND 7 \<le> 7" by (rule word_and_le1)
  then show ?thesis by (simp add: funct3_def word_le_nat_alt)
qed

lemma muldiv_match:
  "insn AND 0xfe00707f = 0x2000033 \<longleftrightarrow> is_muldiv insn \<and> funct3 insn = 0"
  "insn AND 0xfe00707f = 0x2001033 \<longleftrightarrow> is_muldiv insn \<and> funct3 insn = 1"
  "insn AND 0xfe00707f = 0x2002033 \<longleftrightarrow> is_muldiv insn \<and> funct3 insn = 2"
  "insn AND 0xfe00707f = 0x2003033 \<longleftrightarrow> is_muldiv insn \<and> funct3 insn = 3"
  "insn AND 0xfe00707f = 0x2004033 \<longleftrightarrow> is_muldiv insn \<and> funct3 insn = 4"
  "insn AND 0xfe00707f = 0x2005033 \<longleftrightarrow> is_muldiv insn \<and> funct3 insn = 5"
  "insn AND 0xfe00707f = 0x2006033 \<longleftrightarrow> is_muldiv insn \<and> funct3 insn = 6"
  "insn AND 0xfe00707f = 0x2007033 \<longleftrightarrow> is_muldiv insn \<and> funct3 insn = 7"
  by (subst mask_match_iff [where a = "0xfe00007f" and k = 12 and m = 7];
      simp add: is_muldiv_def funct3_def word_unat_eq_iff drop_bit_eq_div)+

section \<open>Where the C expressions are defined\<close>

lemma sint64_bounds: "- (2 ^ 63) \<le> sint (a :: u64)" "sint a < 2 ^ 63"
  using sint_greater_eq [of a] sint_less [of a] by simp_all

lemma uint64_bounds: "0 \<le> uint (a :: u64)" "uint a < 2 ^ 64"
  using uint_lt2p [of a] by simp_all

lemma c_div_bound: "\<bar>b\<bar> \<ge> 2 \<Longrightarrow> \<bar>c_div a b\<bar> \<le> \<bar>a\<bar> div 2"
proof -
  assume "\<bar>b\<bar> \<ge> 2"
  then have "\<bar>a\<bar> div \<bar>b\<bar> \<le> \<bar>a\<bar> div 2" by (intro zdiv_mono2) auto
  moreover have "\<bar>c_div a b\<bar> \<le> \<bar>a\<bar> div \<bar>b\<bar>"
    by (simp add: c_div_def abs_mult sgn_if pos_imp_zdiv_nonneg_iff)
  ultimately show ?thesis by linarith
qed

lemma c_div_unit [simp]: "c_div a 1 = a" "c_div a (- 1) = - a"
  by (auto simp: c_div_def sgn_if)

lemma c_sdiv_defined:
  assumes "2 \<le> w" and a: "- (2 ^ (w - 1)) \<le> a" "a < 2 ^ (w - 1)" and "b \<noteq> 0"
  shows "c_sdiv w a b = (if a = - (2 ^ (w - 1)) \<and> b = - 1 then None else Some (c_div a b))"
proof -
  consider "b = 1" | "b = - 1" | "\<bar>b\<bar> \<ge> 2" using \<open>b \<noteq> 0\<close> by linarith
  then show ?thesis
  proof cases
    case 1
    with a show ?thesis by (simp add: c_sdiv_def c_signed_def)
  next
    case 2
    with a show ?thesis by (auto simp: c_sdiv_def c_signed_def)
  next
    case 3
    then have le: "\<bar>c_div a b\<bar> \<le> \<bar>a\<bar> div 2" by (rule c_div_bound)
    have "\<bar>a\<bar> \<le> 2 ^ (w - 1)" using a by linarith
    moreover have "(0::int) < 2 ^ (w - 1)" by simp
    ultimately have "\<bar>a\<bar> div 2 < 2 ^ (w - 1)" by linarith
    with le have "c_signed w (c_div a b) = Some (c_div a b)"
      by (auto simp: c_signed_def abs_le_iff)
    with 3 show ?thesis by (auto simp: c_sdiv_def)
  qed
qed

lemma mul_high_signed:
  "mul_high (sint (a :: u64)) (sint (b :: u64)) = Some (sint a * sint b div 2 ^ 64)"
proof -
  have "\<bar>sint a\<bar> \<le> 2 ^ 63" "\<bar>sint b\<bar> \<le> 2 ^ 63"
    using sint64_bounds [of a] sint64_bounds [of b] by linarith+
  then have "\<bar>sint a\<bar> * \<bar>sint b\<bar> \<le> 2 ^ 63 * 2 ^ 63" by (intro mult_mono) auto
  then have "\<bar>sint a * sint b\<bar> < 2 ^ 127" by (simp add: abs_mult)
  then show ?thesis by (simp add: mul_high_def c_signed_def abs_less_iff)
qed

lemma mul_high_mixed:
  "mul_high (sint (a :: u64)) (uint (b :: u64)) = Some (sint a * uint b div 2 ^ 64)"
proof -
  have "\<bar>sint a\<bar> \<le> 2 ^ 63" "\<bar>uint b\<bar> \<le> 2 ^ 64 - 1"
    using sint64_bounds [of a] uint64_bounds [of b] by linarith+
  then have "\<bar>sint a\<bar> * \<bar>uint b\<bar> \<le> 2 ^ 63 * (2 ^ 64 - 1)" by (intro mult_mono) auto
  then have "\<bar>sint a * uint b\<bar> < 2 ^ 127" by (simp add: abs_mult)
  then show ?thesis by (simp add: mul_high_def c_signed_def abs_less_iff)
qed

lemma mul_high_unsigned:
  "mul_high (uint (a :: u64)) (uint (b :: u64)) =
     (if 2 ^ 127 \<le> uint a * uint b then None else Some (uint a * uint b div 2 ^ 64))"
proof -
  have "- (2 ^ 127) \<le> (0 :: int)" by simp
  also have "(0 :: int) \<le> uint a * uint b" by simp
  finally have "- (2 ^ 127) \<le> uint a * uint b" .
  then show ?thesis by (simp add: mul_high_def c_signed_def)
qed

lemma c_sdiv_overflow [simp]:
  "c_sdiv 64 (- 9223372036854775808) (- 1) = None" "c_sdiv 32 (- 2147483648) (- 1) = None"
  by (simp_all add: c_sdiv_def c_signed_def)

lemmas sdiv64 = c_sdiv_defined [where w = 64, simplified]

lemma mul_div_val_isa:
  "mul_div_val insn a b =
     (if is_muldiv insn
      then if c_undefined (funct3 insn) a b then Undefined else Value (isa_muldiv (funct3 insn) a b)
      else NotMatched)"
proof (cases "is_muldiv insn")
  case False
  then show ?thesis by (simp add: mul_div_val_def muldiv_match)
next
  case True
  have b0: "sint b = 0 \<longleftrightarrow> b = 0" "uint b = 0 \<longleftrightarrow> b = 0"
    by (metis signed_0 signed_word_eqI, metis unsigned_0 unsigned_word_eqI)
  consider "funct3 insn \<le> 3" | "funct3 insn = 4" | "funct3 insn = 5" | "funct3 insn = 6"
    | "funct3 insn = 7"
    using funct3_lt [of insn] by linarith
  then show ?thesis
  proof cases
    case 1
    then consider "funct3 insn = 0" | "funct3 insn = 1" | "funct3 insn = 2" | "funct3 insn = 3"
      by linarith
    then show ?thesis
      using True by cases (simp_all add: mul_div_val_def muldiv_match isa_muldiv_def c_undefined_def
        alu_of_def mul_high_signed mul_high_mixed mul_high_unsigned)
  next
    case 2
    with True show ?thesis
      using sdiv64 [of "sint a" "sint b"] sint64_bounds [of a]
      by (auto simp: mul_div_val_def muldiv_match isa_muldiv_def c_undefined_def alu_of_def
          isa_div_def int_min64_def b0 c_sdiv_def [of _ _ 0])
  next
    case 3
    with True show ?thesis
      by (simp add: mul_div_val_def muldiv_match isa_muldiv_def c_undefined_def alu_of_def c_udiv_def
          word_div_def b0)
  next
    case 4
    with True show ?thesis
      using sdiv64 [of "sint a" "sint b"] sint64_bounds [of a]
      by (auto simp: mul_div_val_def muldiv_match isa_muldiv_def c_undefined_def alu_of_def
          isa_rem_def int_min64_def b0 c_smod_def c_sdiv_def [of _ _ 0])
  next
    case 5
    with True show ?thesis
      by (simp add: mul_div_val_def muldiv_match isa_muldiv_def c_undefined_def alu_of_def c_umod_def
          word_mod_def b0)
  qed
qed

section \<open>The 32-bit forms\<close>

definition is_muldiv32 :: "u64 \<Rightarrow> bool" where "is_muldiv32 insn \<longleftrightarrow> insn AND 0xfe00007f = 0x200003b"

definition isa_muldiv32 :: "nat \<Rightarrow> u32 \<Rightarrow> u32 \<Rightarrow> u32" where
  "isa_muldiv32 f3 a b =
     (if f3 = 0 then a * b
      else if f3 = 4 then word_of_int (isa_div 32 (sint a) (sint b))
      else if f3 = 5 then (if b = 0 then - 1 else a div b)
      else if f3 = 6 then word_of_int (isa_rem 32 (sint a) (sint b))
      else (if b = 0 then a else a mod b))"

definition c_undefined32 :: "nat \<Rightarrow> u32 \<Rightarrow> u32 \<Rightarrow> bool" where
  "c_undefined32 f3 a b \<longleftrightarrow>
     (4 \<le> f3 \<and> b = 0) \<or> (f3 \<in> {4, 6} \<and> sint a = int_min32 \<and> sint b = - 1)"

lemma muldiv32_match:
  "insn AND 0xfe00707f = 0x200003b \<longleftrightarrow> is_muldiv32 insn \<and> funct3 insn = 0"
  "insn AND 0xfe00707f = 0x200403b \<longleftrightarrow> is_muldiv32 insn \<and> funct3 insn = 4"
  "insn AND 0xfe00707f = 0x200503b \<longleftrightarrow> is_muldiv32 insn \<and> funct3 insn = 5"
  "insn AND 0xfe00707f = 0x200603b \<longleftrightarrow> is_muldiv32 insn \<and> funct3 insn = 6"
  "insn AND 0xfe00707f = 0x200703b \<longleftrightarrow> is_muldiv32 insn \<and> funct3 insn = 7"
  by (subst mask_match_iff [where a = "0xfe00007f" and k = 12 and m = 7];
      simp add: is_muldiv32_def funct3_def word_unat_eq_iff drop_bit_eq_div)+

lemma sint32_bounds: "- (2 ^ 31) \<le> sint (a :: u32)" "sint a < 2 ^ 31"
  using sint_greater_eq [of a] sint_less [of a] by simp_all

lemmas sdiv32 = c_sdiv_defined [where w = 32, simplified]

lemma mul_div32_val_isa:
  "mul_div32_val insn a b =
     (if is_muldiv32 insn \<and> funct3 insn \<in> {0, 4, 5, 6, 7}
      then if c_undefined32 (funct3 insn) a b then Undefined
           else Value (scast (isa_muldiv32 (funct3 insn) a b))
      else NotMatched)"
proof (cases "is_muldiv32 insn \<and> funct3 insn \<in> {0, 4, 5, 6, 7}")
  case False
  then show ?thesis by (auto simp: mul_div32_val_def muldiv32_match)
next
  case True
  have b0: "sint b = 0 \<longleftrightarrow> b = 0" "uint b = 0 \<longleftrightarrow> b = 0"
    by (metis signed_0 signed_word_eqI, metis unsigned_0 unsigned_word_eqI)
  consider "funct3 insn = 0" | "funct3 insn = 4" | "funct3 insn = 5" | "funct3 insn = 6"
    | "funct3 insn = 7"
    using True by auto
  then show ?thesis
  proof cases
    case 1
    with True show ?thesis
      by (simp add: mul_div32_val_def muldiv32_match isa_muldiv32_def c_undefined32_def alu32_of_def)
  next
    case 2
    with True show ?thesis
      using sdiv32 [of "sint a" "sint b"] sint32_bounds [of a]
      by (auto simp: mul_div32_val_def muldiv32_match isa_muldiv32_def c_undefined32_def alu32_of_def
          isa_div_def int_min32_def b0 c_sdiv_def [of _ _ 0])
  next
    case 3
    with True show ?thesis
      by (simp add: mul_div32_val_def muldiv32_match isa_muldiv32_def c_undefined32_def alu32_of_def
          c_udiv_def word_div_def b0)
  next
    case 4
    with True show ?thesis
      using sdiv32 [of "sint a" "sint b"] sint32_bounds [of a]
      by (auto simp: mul_div32_val_def muldiv32_match isa_muldiv32_def c_undefined32_def alu32_of_def
          isa_rem_def int_min32_def b0 c_smod_def c_sdiv_def [of _ _ 0])
  next
    case 5
    with True show ?thesis
      by (simp add: mul_div32_val_def muldiv32_match isa_muldiv32_def c_undefined32_def alu32_of_def
          c_umod_def word_mod_def b0)
  qed
qed

section \<open>Properties\<close>

text \<open>
  C4. The handler of the 64-bit multiply and divide instructions is the instruction set's
  function on every instruction word and every register file: an instruction outside the M
  extension is redirected to the supervisor as illegal; otherwise the destination register
  receives the architectural result and nothing else changes, except in the cases where the C
  expression has no defined value: division by zero, the overflowing signed division, and an
  unsigned high product of at least \<open>2 ^ 127\<close>.
\<close>

theorem emulate_mul_div_isa:
  "emulate_mul_div mepc mstatus insn s =
     (if \<not> is_muldiv insn then Some (Redirected (redirect_trap mepc mstatus insn s))
      else if c_undefined (funct3 insn) (GET_RS1 insn s) (GET_RS2 insn s) then None
      else Some (Done () (SET_RD insn (isa_muldiv (funct3 insn) (GET_RS1 insn s) (GET_RS2 insn s)) s)))"
  by (simp add: emulate_mul_div_def mul_div_val_isa truly_illegal_insn_def Let_def)

text \<open>
  The 32-bit forms likewise: the result of the instruction set on the low halves of the
  operands, sign-extended to 64 bits; the three encodings without a 32-bit form are redirected.
\<close>

theorem emulate_mul_div32_isa:
  "emulate_mul_div32 mepc mstatus insn s =
     (let a = ucast (GET_RS1 insn s); b = ucast (GET_RS2 insn s); f3 = funct3 insn
      in if \<not> (is_muldiv32 insn \<and> f3 \<in> {0, 4, 5, 6, 7})
         then Some (Redirected (redirect_trap mepc mstatus insn s))
         else if c_undefined32 f3 a b then None
         else Some (Done () (SET_RD insn (scast (isa_muldiv32 f3 a b)) s)))"
  by (simp add: emulate_mul_div32_def mul_div32_val_isa truly_illegal_insn_def Let_def)

end
