(* ===== verification/Fpregs.thy ===== *)
theory Fpregs
  imports Machine
begin

text \<open>
  Floating-point registers and the floating-point CSR as the emulation sees them
  (\<open>pk/machine/fp_emulation.h\<close>). The build either targets a hart with floating-point registers
  (\<open>riscv_flen\<close>), where the accessors of \<open>fp_asm.S\<close> move whole registers and a single is boxed by
  \<open>fmv.s.x\<close>, or keeps 32 doubles in the trap frame behind the integer registers and the emulated
  \<open>fcsr\<close> in \<open>tp\<close>, and marks \<open>mstatus.FS\<close> dirty on every write.
\<close>

record config =
  riscv_flen :: bool
  riscv_muldiv :: bool

definition set_csr :: "csr \<Rightarrow> u64 \<Rightarrow> hart \<Rightarrow> hart" where
  "set_csr r v s = write_csr r (read_csr r s OR v) s"

definition SET_FS_DIRTY :: "config \<Rightarrow> hart \<Rightarrow> hart" where
  "SET_FS_DIRTY c s = (if riscv_flen c then s else set_csr Mstatus MSTATUS_FS s)"

definition GET_F64_REG :: "u64 \<Rightarrow> nat \<Rightarrow> hart \<Rightarrow> u64" where
  "GET_F64_REG insn pos s = fpr s (GET_REG insn pos)"

definition GET_F32_REG :: "u64 \<Rightarrow> nat \<Rightarrow> hart \<Rightarrow> u32" where
  "GET_F32_REG insn pos s = ucast (GET_F64_REG insn pos s)"

definition SET_F64_REG :: "u64 \<Rightarrow> nat \<Rightarrow> u64 \<Rightarrow> hart \<Rightarrow> hart" where
  "SET_F64_REG insn pos v s = s\<lparr>fpr := (fpr s)(GET_REG insn pos := v)\<rparr>"

definition SET_F32_REG :: "config \<Rightarrow> u64 \<Rightarrow> nat \<Rightarrow> u32 \<Rightarrow> hart \<Rightarrow> hart" where
  "SET_F32_REG c insn pos v s =
     (let r = GET_REG insn pos;
          w = (if riscv_flen c then ucast v OR 0xFFFFFFFF00000000
               else (fpr s r AND 0xFFFFFFFF00000000) OR ucast v)
      in s\<lparr>fpr := (fpr s)(r := w)\<rparr>)"

definition SET_F32_RD :: "config \<Rightarrow> u64 \<Rightarrow> u32 \<Rightarrow> hart \<Rightarrow> hart" where
  "SET_F32_RD c insn v s = SET_FS_DIRTY c (SET_F32_REG c insn 7 v s)"

definition SET_F64_RD :: "config \<Rightarrow> u64 \<Rightarrow> u64 \<Rightarrow> hart \<Rightarrow> hart" where
  "SET_F64_RD c insn v s = SET_FS_DIRTY c (SET_F64_REG insn 7 v s)"

definition GET_RM :: "u64 \<Rightarrow> u64" where
  "GET_RM insn = drop_bit 12 insn AND 7"

definition GET_PRECISION :: "u64 \<Rightarrow> u64" where
  "GET_PRECISION insn = drop_bit 25 insn AND 3"

text \<open>The emulated \<open>fcsr\<close> of a build without floating-point registers: rounding mode and flags.\<close>

definition GET_FCSR :: "hart \<Rightarrow> u64" where
  "GET_FCSR s = read_csr Fcsr s AND 0xFF"

definition SET_FCSR :: "u64 \<Rightarrow> hart \<Rightarrow> hart" where
  "SET_FCSR v s = set_csr Mstatus MSTATUS_FS (write_csr Fcsr (v AND 0xFF) s)"

definition GET_FRM :: "hart \<Rightarrow> u64" where "GET_FRM s = drop_bit 5 (GET_FCSR s)"
definition GET_FFLAGS :: "hart \<Rightarrow> u64" where "GET_FFLAGS s = GET_FCSR s AND 0x1F"
definition SET_FRM :: "u64 \<Rightarrow> hart \<Rightarrow> hart" where
  "SET_FRM v s = SET_FCSR (GET_FFLAGS s OR push_bit 5 v) s"
definition SET_FFLAGS :: "u64 \<Rightarrow> hart \<Rightarrow> hart" where
  "SET_FFLAGS v s = SET_FCSR (push_bit 5 (GET_FRM s) OR (v AND 0x1F)) s"

lemma set_csr_sel [simp]:
  "csrs (set_csr r v s) = (csrs s)(r := csrs s r OR v)" "gpr (set_csr r v s) = gpr s"
  "fpr (set_csr r v s) = fpr s" "mem (set_csr r v s) = mem s" "mtime (set_csr r v s) = mtime s"
  by (simp_all add: set_csr_def)

lemma SET_FS_DIRTY_sel [simp]:
  "gpr (SET_FS_DIRTY c s) = gpr s" "fpr (SET_FS_DIRTY c s) = fpr s"
  "mem (SET_FS_DIRTY c s) = mem s" "mtime (SET_FS_DIRTY c s) = mtime s"
  "r \<noteq> Mstatus \<Longrightarrow> csrs (SET_FS_DIRTY c s) r = csrs s r"
  by (simp_all add: SET_FS_DIRTY_def)

lemma SET_F_RD_sel [simp]:
  "gpr (SET_F32_RD c insn v s) = gpr s" "mem (SET_F32_RD c insn v s) = mem s"
  "gpr (SET_F64_RD c insn w s) = gpr s" "mem (SET_F64_RD c insn w s) = mem s"
  "r \<noteq> Mstatus \<Longrightarrow> csrs (SET_F32_RD c insn v s) r = csrs s r"
  "r \<noteq> Mstatus \<Longrightarrow> csrs (SET_F64_RD c insn w s) r = csrs s r"
  by (simp_all add: SET_F32_RD_def SET_F64_RD_def SET_F32_REG_def SET_F64_REG_def Let_def)

lemma fcsr_fields:
  fixes x :: u64
  shows "drop_bit 5 ((x AND 0x1F OR push_bit 5 v) AND 0xFF) = v AND 7"
    "((x AND 0x1F OR push_bit 5 v) AND 0xFF) AND 0x1F = x AND 0x1F"
    "drop_bit 5 ((push_bit 5 v OR x AND 0x1F) AND 0xFF) = v AND 7"
    "((push_bit 5 v OR x AND 0x1F) AND 0xFF) AND 0x1F = x AND 0x1F"
proof -
  have m: "(0x1F :: u64) = mask 5" "(0xFF :: u64) = mask 8" "(7 :: u64) = mask 3"
    by (simp_all add: mask_eq_exp_minus_1)
  show "drop_bit 5 ((x AND 0x1F OR push_bit 5 v) AND 0xFF) = v AND 7"
    unfolding m by (rule bit_word_eqI) (auto simp: bit_simps dest: bit_imp_le_length)
  show "((x AND 0x1F OR push_bit 5 v) AND 0xFF) AND 0x1F = x AND 0x1F"
    unfolding m by (rule bit_word_eqI) (auto simp: bit_simps)
  show "drop_bit 5 ((push_bit 5 v OR x AND 0x1F) AND 0xFF) = v AND 7"
    unfolding m by (rule bit_word_eqI) (auto simp: bit_simps dest: bit_imp_le_length)
  show "((push_bit 5 v OR x AND 0x1F) AND 0xFF) AND 0x1F = x AND 0x1F"
    unfolding m by (rule bit_word_eqI) (auto simp: bit_simps)
qed

text \<open>Writing one half of the emulated \<open>fcsr\<close> keeps the other half.\<close>

lemma frm_fflags:
  "GET_FRM (SET_FRM v s) = v AND 7" "GET_FFLAGS (SET_FRM v s) = GET_FFLAGS s"
  "GET_FRM (SET_FFLAGS w s) = GET_FRM s" "GET_FFLAGS (SET_FFLAGS w s) = w AND 0x1F"
proof -
  have m: "(0x1F :: u64) = mask 5" "(0xFF :: u64) = mask 8" "(7 :: u64) = mask 3"
    by (simp_all add: mask_eq_exp_minus_1)
  have r: "drop_bit 5 (x AND 0xFF) AND 7 = drop_bit 5 (x AND 0xFF)" for x :: u64
    unfolding m by (rule bit_word_eqI) (auto simp: bit_simps)
  have C: "GET_FCSR (SET_FCSR x s) = x AND 0xFF" for x s
    unfolding GET_FCSR_def SET_FCSR_def by (simp add: and.assoc)
  have R: "GET_FRM s AND 7 = GET_FRM s" unfolding GET_FRM_def GET_FCSR_def by (rule r)
  show "GET_FRM (SET_FRM v s) = v AND 7"
    unfolding SET_FRM_def GET_FRM_def C GET_FFLAGS_def by (rule fcsr_fields(1))
  show "GET_FFLAGS (SET_FRM v s) = GET_FFLAGS s"
    unfolding SET_FRM_def C GET_FFLAGS_def by (rule fcsr_fields(2))
  show "GET_FRM (SET_FFLAGS w s) = GET_FRM s"
    using fcsr_fields(3) [of "GET_FRM s" w] R
    unfolding SET_FFLAGS_def GET_FRM_def C by simp
  show "GET_FFLAGS (SET_FFLAGS w s) = w AND 0x1F"
    unfolding SET_FFLAGS_def C GET_FFLAGS_def by (rule fcsr_fields(4))
qed

end
