(* ===== verification/Misaligned.thy ===== *)
theory Misaligned
  imports Fpregs
begin

text \<open>
  Emulation of misaligned loads and stores (\<open>pk/machine/misaligned_ldst.c\<close>, RV64 with compressed
  instructions and floating-point emulation). The handler fetches the trapping instruction,
  recognises it with a chain of mask and match tests, moves the bytes one at a time on behalf of
  the interrupted context, and advances the pc. The chain is compared with the instruction set's
  tables by opcode and \<open>funct3\<close>, the handlers with the access the instruction denotes.
\<close>

section \<open>Model\<close>

record load_dec =
  ld_len :: nat
  ld_shift :: nat
  ld_fp :: bool
  ld_insn :: u64

abbreviation int_load :: "nat \<Rightarrow> nat \<Rightarrow> u64 \<Rightarrow> load_dec option" where
  "int_load len shift insn \<equiv> Some \<lparr>ld_len = len, ld_shift = shift, ld_fp = False, ld_insn = insn\<rparr>"

abbreviation fp_load :: "nat \<Rightarrow> u64 \<Rightarrow> load_dec option" where
  "fp_load len insn \<equiv> Some \<lparr>ld_len = len, ld_shift = 0, ld_fp = True, ld_insn = insn\<rparr>"

definition decode_load :: "u64 \<Rightarrow> load_dec option" where
  "decode_load insn =
     (if insn AND 0x707f = 0x2003 then int_load 4 (8 * (8 - 4)) insn
      else if insn AND 0x707f = 0x3003 then int_load 8 (8 * (8 - 8)) insn
      else if insn AND 0x707f = 0x6003 then int_load 4 0 insn
      else if insn AND 0x707f = 0x3007 then fp_load 8 insn
      else if insn AND 0x707f = 0x2007 then fp_load 4 insn
      else if insn AND 0x707f = 0x1003 then int_load 2 (8 * (8 - 2)) insn
      else if insn AND 0x707f = 0x5003 then int_load 2 0 insn
      else if insn AND 0xe003 = 0x6000 then int_load 8 (8 * (8 - 8)) (push_bit 7 (RVC_RS2S insn))
      else if insn AND 0xe003 = 0x6002 \<and> drop_bit 7 insn AND 0x1f \<noteq> 0 then int_load 8 (8 * (8 - 8)) insn
      else if insn AND 0xe003 = 0x4000 then int_load 4 (8 * (8 - 4)) (push_bit 7 (RVC_RS2S insn))
      else if insn AND 0xe003 = 0x4002 \<and> drop_bit 7 insn AND 0x1f \<noteq> 0 then int_load 4 (8 * (8 - 4)) insn
      else if insn AND 0xe003 = 0x2000 then fp_load 8 (push_bit 7 (RVC_RS2S insn))
      else if insn AND 0xe003 = 0x2002 then fp_load 8 insn
      else None)"

definition misaligned_load_trap :: "config \<Rightarrow> u64 \<Rightarrow> hart \<Rightarrow> unit res" where
  "misaligned_load_trap c mepc s0 =
     bind_res (get_insn mepc s0) (\<lambda>(insn, mstatus) s.
       let npc = mepc + insn_len insn; addr = read_csr Mbadaddr s
       in case decode_load insn of
            None \<Rightarrow> truly_illegal_insn mepc mstatus insn (write_csr Mcause CAUSE_LOAD_ACCESS s)
          | Some d \<Rightarrow>
              bind_res (load_bytes (\<lambda>a. load_uint8_t a mepc) (ld_len d) addr s) (\<lambda>bytes s.
                let val = le_word bytes :: u64;
                    s' = (if \<not> ld_fp d then SET_RD (ld_insn d) (shl_sra (ld_shift d) val) s
                          else if ld_len d = 8 then SET_F64_RD c (ld_insn d) val s
                          else SET_F32_RD c (ld_insn d) (ucast val) s)
                in Done () (write_csr Mepc npc s')))"

definition decode_store :: "u64 \<Rightarrow> hart \<Rightarrow> (nat \<times> u64) option" where
  "decode_store insn s =
     (if insn AND 0x707f = 0x2023 then Some (4, GET_RS2 insn s)
      else if insn AND 0x707f = 0x3023 then Some (8, GET_RS2 insn s)
      else if insn AND 0x707f = 0x3027 then Some (8, GET_F64_REG insn 20 s)
      else if insn AND 0x707f = 0x2027 then Some (4, scast (GET_F32_REG insn 20 s))
      else if insn AND 0x707f = 0x1023 then Some (2, GET_RS2 insn s)
      else if insn AND 0xe003 = 0xe000 then Some (8, GET_RS2S insn s)
      else if insn AND 0xe003 = 0xe002 \<and> drop_bit 7 insn AND 0x1f \<noteq> 0 then Some (8, GET_RS2C insn s)
      else if insn AND 0xe003 = 0xc000 then Some (4, GET_RS2S insn s)
      else if insn AND 0xe003 = 0xc002 \<and> drop_bit 7 insn AND 0x1f \<noteq> 0 then Some (4, GET_RS2C insn s)
      else if insn AND 0xe003 = 0xa000 then Some (8, GET_F64_REG (RVC_RS2S insn) 0 s)
      else if insn AND 0xe003 = 0xa002 then Some (8, GET_F64_REG insn 2 s)
      else None)"

definition misaligned_store_trap :: "u64 \<Rightarrow> hart \<Rightarrow> unit res" where
  "misaligned_store_trap mepc s0 =
     bind_res (get_insn mepc s0) (\<lambda>(insn, mstatus) s.
       let npc = mepc + insn_len insn
       in case decode_store insn s of
            None \<Rightarrow> truly_illegal_insn mepc mstatus insn (write_csr Mcause CAUSE_STORE_ACCESS s)
          | Some (len, val) \<Rightarrow>
              let addr = read_csr Mbadaddr s
              in bind_res (store_bytes (\<lambda>a v. store_uint8_t a v mepc) addr (le_bytes len val) s)
                   (\<lambda>_ s. Done () (write_csr Mepc npc s)))"

section \<open>The instruction set's loads and stores\<close>

text \<open>
  The tables of the instruction set: a 32-bit instruction by its opcode and \<open>funct3\<close>, a 16-bit one
  by its quadrant and \<open>funct3\<close>, with the width, whether the value is sign-extended, and the
  destination (or the source) register. A stack-pointer load of register 0 is reserved.
\<close>

datatype access = XAccess nat bool nat | FAccess nat nat

definition field :: "u64 \<Rightarrow> nat \<Rightarrow> nat \<Rightarrow> nat" where
  "field insn pos n = unat (drop_bit pos insn AND mask n)"

definition isa_load :: "u64 \<Rightarrow> access option" where
  "isa_load insn =
     (if field insn 0 7 = 0x03 then
        (let rd = field insn 7 5 in
         [None, Some (XAccess 2 True rd), Some (XAccess 4 True rd), Some (XAccess 8 True rd),
          None, Some (XAccess 2 False rd), Some (XAccess 4 False rd), None] ! field insn 12 3)
      else if field insn 0 7 = 0x07 then
        (let rd = field insn 7 5 in
         [None, None, Some (FAccess 4 rd), Some (FAccess 8 rd), None, None, None, None]
           ! field insn 12 3)
      else if field insn 0 2 = 0 then
        (let rd = 8 + field insn 2 3 in
         [None, Some (FAccess 8 rd), Some (XAccess 4 True rd), Some (XAccess 8 True rd),
          None, None, None, None] ! field insn 13 3)
      else if field insn 0 2 = 2 then
        (let rd = field insn 7 5; x = (\<lambda>a. if rd = 0 then None else Some a) in
         [None, Some (FAccess 8 rd), x (XAccess 4 True rd), x (XAccess 8 True rd),
          None, None, None, None] ! field insn 13 3)
      else None)"

definition isa_store :: "u64 \<Rightarrow> access option" where
  "isa_store insn =
     (if field insn 0 7 = 0x23 then
        (let rs = field insn 20 5 in
         [None, Some (XAccess 2 True rs), Some (XAccess 4 True rs), Some (XAccess 8 True rs),
          None, None, None, None] ! field insn 12 3)
      else if field insn 0 7 = 0x27 then
        (let rs = field insn 20 5 in
         [None, None, Some (FAccess 4 rs), Some (FAccess 8 rs), None, None, None, None]
           ! field insn 12 3)
      else if field insn 0 2 = 0 then
        (let rs = 8 + field insn 2 3 in
         [None, None, None, None, None, Some (FAccess 8 rs), Some (XAccess 4 True rs),
          Some (XAccess 8 True rs)] ! field insn 13 3)
      else if field insn 0 2 = 2 then
        (let rs = field insn 2 5 in
         [None, None, None, None, None, Some (FAccess 8 rs), Some (XAccess 4 True rs),
          Some (XAccess 8 True rs)] ! field insn 13 3)
      else None)"

text \<open>What a load of a 64-bit image of the loaded bytes does to the registers.\<close>

fun do_load :: "config \<Rightarrow> access \<Rightarrow> u64 \<Rightarrow> hart \<Rightarrow> hart" where
  "do_load c (XAccess len sx rd) v s =
     s\<lparr>gpr := (gpr s)(rd := if sx then signed_take_bit (8 * len - 1) v else take_bit (8 * len) v)\<rparr>"
| "do_load c (FAccess len rd) v s =
     SET_FS_DIRTY c (s\<lparr>fpr := (fpr s)(rd :=
       if len = 8 then v
       else if riscv_flen c then take_bit 32 v OR 0xFFFFFFFF00000000
       else (fpr s rd AND 0xFFFFFFFF00000000) OR take_bit 32 v)\<rparr>)"

fun access_len :: "access \<Rightarrow> nat" where
  "access_len (XAccess len _ _) = len"
| "access_len (FAccess len _) = len"

fun source_value :: "access \<Rightarrow> hart \<Rightarrow> u64" where
  "source_value (XAccess len _ r) s = gpr s r"
| "source_value (FAccess len r) s = fpr s r"

section \<open>Recognising the instructions\<close>

lemma field_match [field_simps_c]:
  "x AND 0x707f = m \<longleftrightarrow> m AND 0x707f = m \<and> field x 0 7 = field m 0 7 \<and> field x 12 3 = field m 12 3"
  "x AND 0xe003 = m \<longleftrightarrow> m AND 0xe003 = m \<and> field x 0 2 = field m 0 2 \<and> field x 13 3 = field m 13 3"
proof -
  have k: "mask 7 = (0x7f :: u64)" "mask 3 = (7 :: u64)" "mask 2 = (3 :: u64)"
    by (simp_all add: mask_eq_exp_minus_1)
  have "x AND 0x707f = m \<longleftrightarrow> m AND 0x707f = m \<and> x AND 0x707f = m"
    by (metis and.idem and.assoc)
  also have "\<dots> \<longleftrightarrow> m AND 0x707f = m \<and> x AND 0x7f = m AND 0x7f \<and> drop_bit 12 x AND 7 = drop_bit 12 m AND 7"
    using mask_match_iff [of "0x707f" "0x7f" 12 7 m x] by auto
  finally show "x AND 0x707f = m \<longleftrightarrow> m AND 0x707f = m \<and> field x 0 7 = field m 0 7 \<and> field x 12 3 = field m 12 3"
    by (simp only: field_def k drop_bit_0 id_apply word_unat_eq_iff)
  have "x AND 0xe003 = m \<longleftrightarrow> m AND 0xe003 = m \<and> x AND 0xe003 = m"
    by (metis and.idem and.assoc)
  also have "\<dots> \<longleftrightarrow> m AND 0xe003 = m \<and> x AND 3 = m AND 3 \<and> drop_bit 13 x AND 7 = drop_bit 13 m AND 7"
    using mask_match_iff [of "0xe003" 3 13 7 m x] by auto
  finally show "x AND 0xe003 = m \<longleftrightarrow> m AND 0xe003 = m \<and> field x 0 2 = field m 0 2 \<and> field x 13 3 = field m 13 3"
    by (simp only: field_def k drop_bit_0 id_apply word_unat_eq_iff)
qed

lemma field_nat: "field x pos n = unat x div 2 ^ pos mod 2 ^ n"
proof -
  have "field x pos n = unat (take_bit n (drop_bit pos x))"
    by (simp add: field_def take_bit_eq_mask)
  also have "\<dots> = take_bit n (drop_bit pos (unat x))"
    by (simp only: unsigned_take_bit_eq unat_drop_bit_eq)
  finally show ?thesis by (simp add: take_bit_eq_mod drop_bit_eq_div)
qed

lemma field_lt: "field x pos n < 2 ^ n"
  by (simp add: field_nat)

lemma field_0_2: "field x 0 2 = field x 0 7 mod 4"
  by (simp add: field_nat mod_mod_cancel)

lemma lt8_cases:
  "(n :: nat) < 8 \<Longrightarrow> n = 0 \<or> n = 1 \<or> n = 2 \<or> n = 3 \<or> n = 4 \<or> n = 5 \<or> n = 6 \<or> n = 7"
  by arith

lemma GET_REG_as_field: "GET_REG insn pos = field insn pos 5"
proof -
  have m: "(31 :: u64) = mask 5" by (simp add: mask_eq_exp_minus_1)
  show ?thesis unfolding GET_REG_field field_def m ..
qed

lemma unat_short: "unat (8 + RV_X insn 2 3) = 8 + field insn 2 3"
proof -
  have m: "push_bit 3 1 - 1 = (mask 3 :: u64)" by (simp add: mask_eq_exp_minus_1)
  have f: "unat (RV_X insn 2 3) = field insn 2 3" unfolding RV_X_def m field_def ..
  moreover have "field insn 2 3 < 8" using field_lt [of insn 2 3] by simp
  ultimately show ?thesis by (simp add: unat_word_ariths)
qed

lemma GET_REG_short:
  "GET_REG (RVC_RS2S insn) 0 = 8 + field insn 2 3"
  "GET_REG (push_bit 7 (RVC_RS2S insn)) 7 = 8 + field insn 2 3"
proof -
  have lt: "field insn 2 3 < 8" using field_lt [of insn 2 3] by simp
  have u: "unat (RVC_RS2S insn) = 8 + field insn 2 3" by (simp only: RVC_RS2S_def unat_short)
  have "unat (push_bit 7 (RVC_RS2S insn)) = unat (RVC_RS2S insn) * 128 mod 2 ^ 64"
    by (simp add: push_bit_eq_mult unat_word_ariths mult.commute)
  also have "\<dots> = (8 + field insn 2 3) * 128" using lt by (simp add: u)
  finally show "GET_REG (push_bit 7 (RVC_RS2S insn)) 7 = 8 + field insn 2 3"
    using lt by (simp add: GET_REG_as_field field_nat [of "push_bit 7 (RVC_RS2S insn)"])
  show "GET_REG (RVC_RS2S insn) 0 = 8 + field insn 2 3"
    using lt by (simp add: GET_REG_as_field field_nat [of "RVC_RS2S insn"] u)
qed

lemma rd_field_zero: "drop_bit 7 insn AND 0x1f = 0 \<longleftrightarrow> field insn 7 5 = 0"
proof -
  have m: "(31 :: u64) = mask 5" by (simp add: mask_eq_exp_minus_1)
  show ?thesis unfolding field_def m by (simp add: unat_eq_0)
qed

text \<open>The matches of the two chains as opcode and \<open>funct3\<close> fields.\<close>

lemma load_match:
  "x AND 0x707f = 0x2003 \<longleftrightarrow> field x 0 7 = 3 \<and> field x 12 3 = 2"
  "x AND 0x707f = 0x3003 \<longleftrightarrow> field x 0 7 = 3 \<and> field x 12 3 = 3"
  "x AND 0x707f = 0x6003 \<longleftrightarrow> field x 0 7 = 3 \<and> field x 12 3 = 6"
  "x AND 0x707f = 0x3007 \<longleftrightarrow> field x 0 7 = 7 \<and> field x 12 3 = 3"
  "x AND 0x707f = 0x2007 \<longleftrightarrow> field x 0 7 = 7 \<and> field x 12 3 = 2"
  "x AND 0x707f = 0x1003 \<longleftrightarrow> field x 0 7 = 3 \<and> field x 12 3 = 1"
  "x AND 0x707f = 0x5003 \<longleftrightarrow> field x 0 7 = 3 \<and> field x 12 3 = 5"
  "x AND 0xe003 = 0x6000 \<longleftrightarrow> field x 0 2 = 0 \<and> field x 13 3 = 3"
  "x AND 0xe003 = 0x6002 \<longleftrightarrow> field x 0 2 = 2 \<and> field x 13 3 = 3"
  "x AND 0xe003 = 0x4000 \<longleftrightarrow> field x 0 2 = 0 \<and> field x 13 3 = 2"
  "x AND 0xe003 = 0x4002 \<longleftrightarrow> field x 0 2 = 2 \<and> field x 13 3 = 2"
  "x AND 0xe003 = 0x2000 \<longleftrightarrow> field x 0 2 = 0 \<and> field x 13 3 = 1"
  "x AND 0xe003 = 0x2002 \<longleftrightarrow> field x 0 2 = 2 \<and> field x 13 3 = 1"
  by (subst field_match; simp add: field_nat)+

lemma store_match:
  "x AND 0x707f = 0x2023 \<longleftrightarrow> field x 0 7 = 0x23 \<and> field x 12 3 = 2"
  "x AND 0x707f = 0x3023 \<longleftrightarrow> field x 0 7 = 0x23 \<and> field x 12 3 = 3"
  "x AND 0x707f = 0x3027 \<longleftrightarrow> field x 0 7 = 0x27 \<and> field x 12 3 = 3"
  "x AND 0x707f = 0x2027 \<longleftrightarrow> field x 0 7 = 0x27 \<and> field x 12 3 = 2"
  "x AND 0x707f = 0x1023 \<longleftrightarrow> field x 0 7 = 0x23 \<and> field x 12 3 = 1"
  "x AND 0xe003 = 0xe000 \<longleftrightarrow> field x 0 2 = 0 \<and> field x 13 3 = 7"
  "x AND 0xe003 = 0xe002 \<longleftrightarrow> field x 0 2 = 2 \<and> field x 13 3 = 7"
  "x AND 0xe003 = 0xc000 \<longleftrightarrow> field x 0 2 = 0 \<and> field x 13 3 = 6"
  "x AND 0xe003 = 0xc002 \<longleftrightarrow> field x 0 2 = 2 \<and> field x 13 3 = 6"
  "x AND 0xe003 = 0xa000 \<longleftrightarrow> field x 0 2 = 0 \<and> field x 13 3 = 5"
  "x AND 0xe003 = 0xa002 \<longleftrightarrow> field x 0 2 = 2 \<and> field x 13 3 = 5"
  by (subst field_match; simp add: field_nat)+

text \<open>The access a decoded load denotes, and the shift amounts the chain pairs with it.\<close>

definition access_of :: "load_dec \<Rightarrow> access" where
  "access_of d = (if ld_fp d then FAccess (ld_len d) (GET_REG (ld_insn d) 7)
     else XAccess (ld_len d) (ld_shift d \<noteq> 0 \<or> ld_len d = 8) (GET_REG (ld_insn d) 7))"

definition load_dec_ok :: "load_dec \<Rightarrow> bool" where
  "load_dec_ok d \<longleftrightarrow> ld_len d \<in> {2, 4, 8} \<and>
     (ld_shift d = (if ld_fp d \<or> ld_shift d = 0 then 0 else 64 - 8 * ld_len d)) \<and>
     (ld_fp d \<longrightarrow> ld_len d \<in> {4, 8}) \<and> (ld_len d = 8 \<longrightarrow> ld_shift d = 0)"

lemma decode_load_ok: "decode_load insn = Some d \<Longrightarrow> load_dec_ok d"
  by (auto simp: decode_load_def load_dec_ok_def split: if_splits)

lemma decode_load_isa: "map_option access_of (decode_load insn) = isa_load insn"
proof -
  consider "field insn 0 7 = 3" | "field insn 0 7 = 7"
    | "field insn 0 7 \<noteq> 3" "field insn 0 7 \<noteq> 7" by blast
  then show ?thesis
  proof cases
    case 1
    then show ?thesis
      using lt8_cases [of "field insn 12 3"] field_lt [of insn 12 3]
      by (auto simp: decode_load_def load_match isa_load_def field_0_2 access_of_def
          GET_REG_as_field)
  next
    case 2
    then show ?thesis
      using lt8_cases [of "field insn 12 3"] field_lt [of insn 12 3]
      by (auto simp: decode_load_def load_match isa_load_def field_0_2 access_of_def
          GET_REG_as_field)
  next
    case 3
    then show ?thesis
      using lt8_cases [of "field insn 13 3"] field_lt [of insn 13 3]
      by (auto simp: decode_load_def load_match isa_load_def access_of_def rd_field_zero
          GET_REG_short GET_REG_as_field [of insn])
  qed
qed

text \<open>
  The store chain tests bits 11:7 of \<open>C.SDSP\<close> and \<open>C.SWSP\<close> as if they held a register; in a store
  they are part of the offset.
\<close>

definition zero_field_sp_store :: "u64 \<Rightarrow> bool" where
  "zero_field_sp_store insn \<longleftrightarrow>
     field insn 0 2 = 2 \<and> field insn 13 3 \<in> {6, 7} \<and> field insn 7 5 = 0"

lemma le_bytes_scast: "le_bytes 4 (scast (ucast v :: u32) :: u64) = le_bytes 4 (v :: u64)"
proof (rule nth_equalityI)
  fix i
  assume "i < length (le_bytes 4 (scast (ucast v :: u32) :: u64))"
  then have i: "i < 4" by simp
  show "le_bytes 4 (scast (ucast v :: u32) :: u64) ! i = le_bytes 4 v ! i"
    unfolding nth_le_bytes [OF i] by (rule bit_word_eqI) (use i in \<open>auto simp: bit_simps\<close>)
qed simp

lemma decode_store_isa:
  "map_option (\<lambda>(len, v). le_bytes len v) (decode_store insn s) =
     (if zero_field_sp_store insn then None
      else map_option (\<lambda>a. le_bytes (access_len a) (source_value a s)) (isa_store insn))"
proof -
  note d = decode_store_def store_match isa_store_def zero_field_sp_store_def GET_F64_REG_def
    GET_F32_REG_def GET_RS2_def GET_RS2S_def GET_RS2C_def le_bytes_scast
  consider "field insn 0 7 = 0x23" | "field insn 0 7 = 0x27"
    | "field insn 0 7 \<noteq> 0x23" "field insn 0 7 \<noteq> 0x27" by blast
  then show ?thesis
  proof cases
    case 1
    then show ?thesis
      using lt8_cases [of "field insn 12 3"] field_lt [of insn 12 3]
      by (auto simp: d field_0_2 GET_REG_as_field)
  next
    case 2
    then show ?thesis
      using lt8_cases [of "field insn 12 3"] field_lt [of insn 12 3]
      by (auto simp: d field_0_2 GET_REG_as_field)
  next
    case 3
    then show ?thesis
      using lt8_cases [of "field insn 13 3"] field_lt [of insn 13 3]
      by (auto simp: d rd_field_zero GET_REG_short GET_REG_as_field [of insn])
  qed
qed

section \<open>The handlers\<close>

lemma mem_bytes_length: "mem_bytes n a m = Some bs \<Longrightarrow> length bs = n"
  by (simp add: mem_bytes_Some_iff)

lemma le_word_take: "take_bit (8 * length bs) (le_word bs :: u64) = le_word bs"
  by (rule bit_word_eqI) (auto simp: bit_simps bytes_simps)

lemma shl_sra_0 [simp]: "shl_sra 0 v = v"
  by (simp add: shl_sra_def)

text \<open>Writing back a loaded value has the effect the instruction set gives the load.\<close>

lemma write_back_isa:
  assumes d: "load_dec_ok d" and len: "length bs = ld_len d"
  defines "v \<equiv> le_word bs :: u64"
  shows "(if \<not> ld_fp d then SET_RD (ld_insn d) (shl_sra (ld_shift d) v) s
          else if ld_len d = 8 then SET_F64_RD c (ld_insn d) v s
          else SET_F32_RD c (ld_insn d) (ucast v) s) = do_load c (access_of d) v s"
proof -
  have t: "take_bit (8 * ld_len d) v = v" using le_word_take [of bs] by (simp add: v_def len)
  have s64: "signed_take_bit 63 v = v"
    by (rule bit_word_eqI) (auto simp: bit_simps)
  have u32: "ucast (ucast v :: u32) = (take_bit 32 v :: u64)"
    by (rule bit_word_eqI) (auto simp: bit_simps)
  show ?thesis
  proof (cases "ld_fp d")
    case True
    then show ?thesis using d
      by (auto simp: access_of_def load_dec_ok_def SET_F64_RD_def SET_F32_RD_def SET_F64_REG_def
          SET_F32_REG_def u32 Let_def)
  next
    case False
    then show ?thesis using d t s64
      by (auto simp: access_of_def load_dec_ok_def SET_RD_def shl_sra_sign_extends)
  qed
qed

lemma access_len_of: "access_len (access_of d) = ld_len d"
  by (simp add: access_of_def)

definition demo_load :: hart where
  "demo_load = \<lparr>gpr = (\<lambda>_. 0), fpr = (\<lambda>_. 0),
     csrs = (\<lambda>r. if r = Mbadaddr then 0x2001 else if r = Stvec then 0x80 else 0), mtime = 0,
     mem = map_of [(0x1000, 0x03), (0x1001, 0xa5), (0x1002, 0x05), (0x1003, 0x00),
       (0x2001, 0x11), (0x2002, 0x22), (0x2003, 0x33), (0x2004, 0xf4)]\<rparr>"

definition demo_store :: hart where
  "demo_store = \<lparr>gpr = (\<lambda>r. if r = 10 then 0x0123456789abcdef else 0), fpr = (\<lambda>_. 0),
     csrs = (\<lambda>r. if r = Mbadaddr then 0x2001 else 0), mtime = 0,
     mem = map_of [(0x1000, 0x23), (0x1001, 0xa0), (0x1002, 0xa5), (0x1003, 0x00),
       (0x2001, 0), (0x2002, 0), (0x2003, 0), (0x2004, 0)]\<rparr>"

text \<open>The fetch of an aligned 32-bit instruction that is mapped.\<close>

lemma get_insn_aligned:
  assumes "mem_bytes 4 mepc (mem s) = Some bs" "mepc AND 2 = 0" "(le_word bs :: u64) AND 3 = 3"
  shows "get_insn mepc s = Done (le_word bs, csrs s Mstatus) s"
  using assms by (simp add: get_insn_def uload_def)

lemma demo_fetch:
  "get_insn 0x1000 demo_load = Done (0x5a503, 0) demo_load"
  "get_insn 0x1000 demo_store = Done (0xa5a023, 0) demo_store"
proof -
  have "mem_bytes 4 0x1000 (mem demo_load) = Some [0x03, 0xa5, 0x05, 0]"
    "csrs demo_load Mstatus = 0" by code_simp+
  with get_insn_aligned [OF this(1)] show "get_insn 0x1000 demo_load = Done (0x5a503, 0) demo_load"
    by simp
  have "mem_bytes 4 0x1000 (mem demo_store) = Some [0x23, 0xa0, 0xa5, 0]"
    "csrs demo_store Mstatus = 0" by code_simp+
  with get_insn_aligned [OF this(1)] show "get_insn 0x1000 demo_store = Done (0xa5a023, 0) demo_store"
    by simp
qed

lemma misaligned_load_done:
  assumes fetch: "get_insn mepc s = Done (insn, m) s"
    and isa: "isa_load insn = Some a"
    and mapped: "mem_bytes (access_len a) (csrs s Mbadaddr) (mem s) = Some bs"
  shows "misaligned_load_trap c mepc s =
    Done () (write_csr Mepc (mepc + insn_len insn) (do_load c a (le_word bs) s))"
proof -
  from isa decode_load_isa [of insn] obtain d where d: "decode_load insn = Some d" "a = access_of d"
    by auto
  from mapped have bs: "load_bytes (\<lambda>a. load_uint8_t a mepc) (ld_len d) (csrs s Mbadaddr) s = Done bs s"
    by (intro ubyte.load_bytes_mapped) (simp add: d access_len_of)
  have "length bs = ld_len d" using mem_bytes_length [OF mapped] by (simp add: d access_len_of)
  from write_back_isa [OF decode_load_ok [OF d(1)] this, of s c] show ?thesis
    by (simp add: misaligned_load_trap_def fetch d bs Let_def)
qed

text \<open>
  C5. A misaligned load of any width whose bytes are all mapped is completed as the instruction
  set says: the little-endian value of the bytes at \<open>mbadaddr\<close>, sign- or zero-extended, is written
  to the destination register (a floating-point load boxes a single, or writes the low half of the
  saved register and marks the state dirty), the pc moves past the instruction, and nothing else
  changes.
\<close>

theorem misaligned_load_emulates:
  assumes fetch: "get_insn mepc s = Done (insn, m) s"
    and isa: "isa_load insn = Some a"
    and mapped: "mem_bytes (access_len a) (csrs s Mbadaddr) (mem s) = Some bs"
  shows "misaligned_load_trap c mepc s =
    Done () (write_csr Mepc (mepc + insn_len insn) (do_load c a (le_word bs) s))"
  using assms by (rule misaligned_load_done)

theorem misaligned_load_emulates_witness:
  "misaligned_load_trap \<lparr>riscv_flen = False, riscv_muldiv = False\<rparr> 0x1000 demo_load =
     Done () (write_csr Mepc 0x1004 (do_load \<lparr>riscv_flen = False, riscv_muldiv = False\<rparr>
       (XAccess 4 True 10) (le_word [0x11, 0x22, 0x33, 0xf4]) demo_load))"
proof -
  have "isa_load 0x5a503 = Some (XAccess 4 True 10)" by code_simp
  moreover have "mem_bytes 4 (csrs demo_load Mbadaddr) (mem demo_load) = Some [0x11, 0x22, 0x33, 0xf4]"
    by code_simp
  moreover have "(0x1000 :: u64) + insn_len 0x5a503 = 0x1004" by code_simp
  ultimately show ?thesis
    using misaligned_load_emulates [OF demo_fetch(1), of "XAccess 4 True 10" "[0x11, 0x22, 0x33, 0xf4]"]
    by simp
qed

text \<open>
  C21. When a byte of a misaligned load is not mapped, the interrupted context gets a load page
  fault of its own: its pc in \<open>sepc\<close>, the address of the first unmapped byte in \<open>sbadaddr\<close>, cause
  13 in \<open>scause\<close>, the supervisor's vector as the next pc and supervisor mode as the previous
  mode of the machine; its registers and its memory are unchanged.
\<close>

theorem misaligned_load_faults:
  assumes fetch: "get_insn mepc s = Done (insn, m) s"
    and isa: "isa_load insn = Some a"
    and k: "k < access_len a" "mem_bytes k (csrs s Mbadaddr) (mem s) = Some bs"
      "mem s (csrs s Mbadaddr + of_nat k) = None"
  shows "\<exists>s'. misaligned_load_trap c mepc s = Redirected s' \<and>
    csrs s' Sepc = mepc \<and> csrs s' Scause = 13 \<and> csrs s' Sbadaddr = csrs s Mbadaddr + of_nat k \<and>
    csrs s' Mepc = csrs s Stvec \<and> bit (csrs s' Mstatus) 11 \<and>
    gpr s' = gpr s \<and> fpr s' = fpr s \<and> mem s' = mem s"
proof -
  from isa decode_load_isa [of insn] obtain d where d: "decode_load insn = Some d" "a = access_of d"
    by auto
  let ?s' = "data_fault CAUSE_LOAD_PAGE_FAULT mepc (csrs s Mbadaddr + of_nat k) s"
  have "load_bytes (\<lambda>a. load_uint8_t a mepc) (ld_len d) (csrs s Mbadaddr) s = Redirected ?s'"
    by (rule ubyte.load_bytes_fault [OF k(2,3)]) (use k(1) in \<open>simp add: d access_len_of\<close>)
  then have "misaligned_load_trap c mepc s = Redirected ?s'"
    by (simp add: misaligned_load_trap_def fetch d Let_def)
  moreover have "csrs ?s' Sepc = mepc \<and> csrs ?s' Scause = 13 \<and>
      csrs ?s' Sbadaddr = csrs s Mbadaddr + of_nat k \<and> csrs ?s' Mepc = csrs s Stvec \<and>
      gpr ?s' = gpr s \<and> fpr ?s' = fpr s \<and> mem ?s' = mem s"
    by (simp add: data_fault_def redirect_trap_csrs)
  moreover have "bit (csrs ?s' Mstatus) 11"
    by (simp add: data_fault_def redirect_trap_mstatus_bit)
  ultimately show ?thesis by blast
qed

theorem misaligned_load_faults_witness:
  "\<exists>s'. misaligned_load_trap \<lparr>riscv_flen = True, riscv_muldiv = True\<rparr> 0x1000
      (demo_load\<lparr>mem := (mem demo_load)(0x2003 := None)\<rparr>) = Redirected s' \<and> csrs s' Sbadaddr = 0x2003"
proof -
  let ?s = "demo_load\<lparr>mem := (mem demo_load)(0x2003 := None)\<rparr>"
  have "mem_bytes 4 0x1000 (mem ?s) = Some [0x03, 0xa5, 0x05, 0]" "csrs ?s Mstatus = 0"
    "csrs ?s Mbadaddr = 0x2001" by code_simp+
  then have f: "get_insn 0x1000 ?s = Done (0x5a503, 0) ?s" and b: "csrs ?s Mbadaddr = 0x2001"
    using get_insn_aligned [of "0x1000" ?s "[0x03, 0xa5, 0x05, 0]"] by simp_all
  have "isa_load 0x5a503 = Some (XAccess 4 True 10)" by code_simp
  moreover have "mem_bytes 2 0x2001 (mem ?s) = Some [0x11, 0x22]" by code_simp
  ultimately show ?thesis
    using misaligned_load_faults [OF f, of "XAccess 4 True 10" 2 "[0x11, 0x22]"
        "\<lparr>riscv_flen = True, riscv_muldiv = True\<rparr>"] b by auto
qed




text \<open>
  A misaligned \<open>C.SDSP\<close> or \<open>C.SWSP\<close> whose bits 11:7 are zero is a store the instruction set
  defines, but the handler does not emulate it: it stores nothing and reports a store access
  fault, whose \<open>sbadaddr\<close> holds the instruction and not the address.
\<close>

theorem misaligned_sp_store_refused:
  assumes fetch: "get_insn mepc s = Done (insn, m) s"
    and z: "zero_field_sp_store insn"
  shows "(\<exists>a. isa_store insn = Some a) \<and>
    (\<exists>s'. misaligned_store_trap mepc s = Redirected s' \<and> mem s' = mem s \<and>
       csrs s' Sepc = mepc \<and> csrs s' Scause = 7 \<and> csrs s' Sbadaddr = insn)"
proof -
  have f: "field insn 0 2 = 2" "field insn 13 3 = 6 \<or> field insn 13 3 = 7"
    using z by (auto simp: zero_field_sp_store_def)
  have "field insn 0 7 mod 4 = 2" using f(1) by (simp add: field_0_2)
  then have "field insn 0 7 \<noteq> 0x23" "field insn 0 7 \<noteq> 0x27" by auto
  with f have "\<exists>a. isa_store insn = Some a" by (auto simp: isa_store_def)
  moreover have "decode_store insn s = None" using decode_store_isa [of insn s] z by simp
  then have "misaligned_store_trap mepc s =
      Redirected (redirect_trap mepc m insn (write_csr Mcause 7 s))"
    by (simp add: misaligned_store_trap_def fetch Let_def truly_illegal_insn_def)
  ultimately show ?thesis by (simp add: redirect_trap_csrs)
qed

theorem misaligned_sp_store_refused_witness:
  "\<exists>s'. misaligned_store_trap 0x1000 (demo_store\<lparr>mem := [0x1000 \<mapsto> 0x2a, 0x1001 \<mapsto> 0xe0, 0x1002 \<mapsto> 0, 0x1003 \<mapsto> 0]\<rparr>)
     = Redirected s' \<and> csrs s' Scause = 7"
proof -
  let ?s = "demo_store\<lparr>mem := [0x1000 \<mapsto> 0x2a, 0x1001 \<mapsto> 0xe0, 0x1002 \<mapsto> 0, 0x1003 \<mapsto> 0]\<rparr>"
  have b: "mem_bytes 4 0x1000 (mem ?s) = Some [0x2a, 0xe0, 0, 0]" and m: "csrs demo_store Mstatus = 0"
    by code_simp+
  have "get_insn 0x1000 ?s = Done (0xe02a, 0) ?s"
    unfolding get_insn_def uload_def b by (simp add: m)
  moreover have "zero_field_sp_store 0xe02a" by code_simp
  ultimately show ?thesis using misaligned_sp_store_refused by blast
qed

end
