(* ===== verification/Softfloat_cmp.thy ===== *)
theory Softfloat_cmp
  imports Prelude
begin

text \<open>
  The comparisons and the classification of the SoftFloat library
  (\<open>pk/softfloat/f32_eq.c\<close>, \<open>f32_lt.c\<close>, \<open>f32_lt_quiet.c\<close>, \<open>f32_classify.c\<close> and the 64-bit
  versions), on the bit patterns of floating-point numbers. Each comparison returns its result
  and the exception flags it raises. They are related to the order of the numbers the patterns
  denote, written as integers in units of the smallest subnormal.
\<close>

section \<open>Model\<close>

abbreviation (input) flag_invalid :: u64 where "flag_invalid \<equiv> 16"

definition signF32UI :: "u32 \<Rightarrow> bool" where "signF32UI a \<longleftrightarrow> drop_bit 31 a \<noteq> 0"
definition expF32UI :: "u32 \<Rightarrow> u32" where "expF32UI a = drop_bit 23 a AND 0xFF"
definition fracF32UI :: "u32 \<Rightarrow> u32" where "fracF32UI a = a AND 0x007FFFFF"
definition isNaNF32UI :: "u32 \<Rightarrow> bool" where
  "isNaNF32UI a \<longleftrightarrow> NOT a AND 0x7F800000 = 0 \<and> a AND 0x007FFFFF \<noteq> 0"
definition isSigNaNF32UI :: "u32 \<Rightarrow> bool" where
  "isSigNaNF32UI a \<longleftrightarrow> a AND 0x7FC00000 = 0x7F800000 \<and> a AND 0x003FFFFF \<noteq> 0"

definition signF64UI :: "u64 \<Rightarrow> bool" where "signF64UI a \<longleftrightarrow> drop_bit 63 a \<noteq> 0"
definition expF64UI :: "u64 \<Rightarrow> u64" where "expF64UI a = drop_bit 52 a AND 0x7FF"
definition fracF64UI :: "u64 \<Rightarrow> u64" where "fracF64UI a = a AND 0x000FFFFFFFFFFFFF"
definition isNaNF64UI :: "u64 \<Rightarrow> bool" where
  "isNaNF64UI a \<longleftrightarrow> NOT a AND 0x7FF0000000000000 = 0 \<and> a AND 0x000FFFFFFFFFFFFF \<noteq> 0"
definition isSigNaNF64UI :: "u64 \<Rightarrow> bool" where
  "isSigNaNF64UI a \<longleftrightarrow> a AND 0x7FF8000000000000 = 0x7FF0000000000000 \<and> a AND 0x0007FFFFFFFFFFFF \<noteq> 0"

definition f32_eq :: "u32 \<Rightarrow> u32 \<Rightarrow> bool \<times> u64" where
  "f32_eq a b =
     (if isNaNF32UI a \<or> isNaNF32UI b
      then (False, if isSigNaNF32UI a \<or> isSigNaNF32UI b then flag_invalid else 0)
      else (a = b \<or> push_bit 1 (a OR b) = 0, 0))"

definition f32_lt :: "u32 \<Rightarrow> u32 \<Rightarrow> bool \<times> u64" where
  "f32_lt a b =
     (if isNaNF32UI a \<or> isNaNF32UI b then (False, flag_invalid)
      else let signA = signF32UI a; signB = signF32UI b
           in (if signA \<noteq> signB then signA \<and> push_bit 1 (a OR b) \<noteq> 0
               else a \<noteq> b \<and> (signA \<noteq> (a < b)), 0))"

definition f32_lt_quiet :: "u32 \<Rightarrow> u32 \<Rightarrow> bool \<times> u64" where
  "f32_lt_quiet a b =
     (if isNaNF32UI a \<or> isNaNF32UI b
      then (False, if isSigNaNF32UI a \<or> isSigNaNF32UI b then flag_invalid else 0)
      else let signA = signF32UI a; signB = signF32UI b
           in (if signA \<noteq> signB then signA \<and> push_bit 1 (a OR b) \<noteq> 0
               else a \<noteq> b \<and> (signA \<noteq> (a < b)), 0))"

definition f64_eq :: "u64 \<Rightarrow> u64 \<Rightarrow> bool \<times> u64" where
  "f64_eq a b =
     (if isNaNF64UI a \<or> isNaNF64UI b
      then (False, if isSigNaNF64UI a \<or> isSigNaNF64UI b then flag_invalid else 0)
      else (a = b \<or> (a OR b) AND 0x7FFFFFFFFFFFFFFF = 0, 0))"

definition f64_lt :: "u64 \<Rightarrow> u64 \<Rightarrow> bool \<times> u64" where
  "f64_lt a b =
     (if isNaNF64UI a \<or> isNaNF64UI b then (False, flag_invalid)
      else let signA = signF64UI a; signB = signF64UI b
           in (if signA \<noteq> signB then signA \<and> (a OR b) AND 0x7FFFFFFFFFFFFFFF \<noteq> 0
               else a \<noteq> b \<and> (signA \<noteq> (a < b)), 0))"

definition f64_lt_quiet :: "u64 \<Rightarrow> u64 \<Rightarrow> bool \<times> u64" where
  "f64_lt_quiet a b =
     (if isNaNF64UI a \<or> isNaNF64UI b
      then (False, if isSigNaNF64UI a \<or> isSigNaNF64UI b then flag_invalid else 0)
      else let signA = signF64UI a; signB = signF64UI b
           in (if signA \<noteq> signB then signA \<and> (a OR b) AND 0x7FFFFFFFFFFFFFFF \<noteq> 0
               else a \<noteq> b \<and> (signA \<noteq> (a < b)), 0))"

text \<open>The ten classes, one bit each; \<open>cls c n\<close> is \<open>c << n\<close> for a C truth value.\<close>

definition cls :: "bool \<Rightarrow> nat \<Rightarrow> u64" where "cls c n = push_bit n (of_bool c)"

definition f32_classify :: "u32 \<Rightarrow> u64" where
  "f32_classify a =
     (let infOrNaN = (expF32UI a = 0xFF); subnormalOrZero = (expF32UI a = 0); sign = signF32UI a;
          frac = fracF32UI a
      in cls (sign \<and> infOrNaN \<and> frac = 0) 0 OR
         cls (sign \<and> \<not> infOrNaN \<and> \<not> subnormalOrZero) 1 OR
         cls (sign \<and> subnormalOrZero \<and> frac \<noteq> 0) 2 OR
         cls (sign \<and> subnormalOrZero \<and> frac = 0) 3 OR
         cls (\<not> sign \<and> infOrNaN \<and> frac = 0) 7 OR
         cls (\<not> sign \<and> \<not> infOrNaN \<and> \<not> subnormalOrZero) 6 OR
         cls (\<not> sign \<and> subnormalOrZero \<and> frac \<noteq> 0) 5 OR
         cls (\<not> sign \<and> subnormalOrZero \<and> frac = 0) 4 OR
         cls (isNaNF32UI a \<and> isSigNaNF32UI a) 8 OR
         cls (isNaNF32UI a \<and> \<not> isSigNaNF32UI a) 9)"

definition f64_classify :: "u64 \<Rightarrow> u64" where
  "f64_classify a =
     (let infOrNaN = (expF64UI a = 0x7FF); subnormalOrZero = (expF64UI a = 0); sign = signF64UI a;
          frac = fracF64UI a
      in cls (sign \<and> infOrNaN \<and> frac = 0) 0 OR
         cls (sign \<and> \<not> infOrNaN \<and> \<not> subnormalOrZero) 1 OR
         cls (sign \<and> subnormalOrZero \<and> frac \<noteq> 0) 2 OR
         cls (sign \<and> subnormalOrZero \<and> frac = 0) 3 OR
         cls (\<not> sign \<and> infOrNaN \<and> frac = 0) 7 OR
         cls (\<not> sign \<and> \<not> infOrNaN \<and> \<not> subnormalOrZero) 6 OR
         cls (\<not> sign \<and> subnormalOrZero \<and> frac \<noteq> 0) 5 OR
         cls (\<not> sign \<and> subnormalOrZero \<and> frac = 0) 4 OR
         cls (isNaNF64UI a \<and> isSigNaNF64UI a) 8 OR
         cls (isNaNF64UI a \<and> \<not> isSigNaNF64UI a) 9)"

section \<open>The numbers the patterns denote\<close>

text \<open>
  The magnitude field of a pattern without its sign, and the number it denotes in units of the
  smallest subnormal, for a fraction of \<open>p\<close> bits: the fraction itself when the exponent is zero,
  else the fraction with its implicit bit, scaled. An infinity denotes a number above every
  finite one.
\<close>

definition magnitude :: "'a::len word \<Rightarrow> nat" where
  "magnitude a = take_bit (LENGTH('a) - 1) (unat a)"

definition scaled :: "nat \<Rightarrow> nat \<Rightarrow> nat" where
  "scaled p m = (let e = m div 2 ^ p; f = m mod 2 ^ p
                 in if e = 0 then f else (2 ^ p + f) * 2 ^ (e - 1))"

definition fp_value :: "nat \<Rightarrow> 'a::len word \<Rightarrow> int" where
  "fp_value p a = (if bit a (LENGTH('a) - 1) then - int (scaled p (magnitude a))
                   else int (scaled p (magnitude a)))"

lemma scaled_Suc: "scaled p m < scaled p (Suc m)"
proof -
  define e f where "e = m div 2 ^ p" and "f = m mod 2 ^ p"
  have f: "f < 2 ^ p" by (simp add: f_def)
  show ?thesis
  proof (cases "Suc f = 2 ^ p")
    case True
    then have "Suc m div 2 ^ p = Suc e" "Suc m mod 2 ^ p = 0"
      by (simp_all add: e_def f_def div_Suc mod_Suc)
    then have "scaled p (Suc m) = 2 ^ p * 2 ^ e" by (simp add: scaled_def)
    moreover have "scaled p m < 2 ^ p * 2 ^ e"
    proof (cases e)
      case 0
      then show ?thesis using f by (simp add: scaled_def e_def [symmetric] f_def [symmetric])
    next
      case (Suc k)
      have "(2 ^ p + f) * 2 ^ k < (2 ^ p + 2 ^ p) * (2 ^ k :: nat)" using f by simp
      with Suc show ?thesis
        by (simp add: scaled_def e_def [symmetric] f_def [symmetric] algebra_simps)
    qed
    ultimately show ?thesis by simp
  next
    case False
    then have "Suc m div 2 ^ p = e" "Suc m mod 2 ^ p = Suc f"
      by (simp_all add: e_def f_def div_Suc mod_Suc)
    then show ?thesis by (simp add: scaled_def e_def [symmetric] f_def [symmetric])
  qed
qed

lemma scaled_mono: "strict_mono (scaled p)"
  by (rule strict_monoI) (rule lift_Suc_mono_less [of "scaled p"], rule scaled_Suc)

lemma scaled_0 [simp]: "scaled p 0 = 0"
  by (simp add: scaled_def)

lemma unat_sign_magnitude:
  "unat (a :: 'a::len word) = of_bool (bit a (LENGTH('a) - 1)) * 2 ^ (LENGTH('a) - 1) + magnitude a"
proof -
  have "Suc (LENGTH('a) - 1) = LENGTH('a)" by simp
  moreover have "unat a = take_bit LENGTH('a) (unat a)"
    by (simp add: take_bit_nat_eq_self)
  ultimately have "unat a = take_bit (Suc (LENGTH('a) - 1)) (unat a)" by presburger
  also have "\<dots> = of_bool (bit a (LENGTH('a) - 1)) * 2 ^ (LENGTH('a) - 1) + magnitude a"
    unfolding take_bit_Suc_from_most magnitude_def by (simp add: bit_unsigned_iff)
  finally show ?thesis .
qed

lemma magnitude_lt: "magnitude (a :: 'a::len word) < 2 ^ (LENGTH('a) - 1)"
  by (simp add: magnitude_def)

lemma magnitude_zero: "magnitude (a :: 'a::len word) = 0 \<longleftrightarrow> push_bit 1 a = 0"
proof -
  have "magnitude a = unat (take_bit (LENGTH('a) - 1) a)"
    by (simp add: magnitude_def unsigned_take_bit_eq)
  then have "magnitude a = 0 \<longleftrightarrow> take_bit (LENGTH('a) - 1) a = 0" by (simp add: unat_eq_0)
  also have "\<dots> \<longleftrightarrow> push_bit 1 a = 0"
  proof
    assume *: "take_bit (LENGTH('a) - 1) a = 0"
    show "push_bit 1 a = 0"
    proof (rule bit_word_eqI)
      fix n assume n: "n < LENGTH('a)"
      have "\<not> bit (take_bit (LENGTH('a) - 1) a) (n - 1)" unfolding * by simp
      with n show "bit (push_bit 1 a) n = bit 0 n"
        unfolding bit_push_bit_iff bit_take_bit_iff by auto
    qed
  next
    assume *: "push_bit 1 a = 0"
    show "take_bit (LENGTH('a) - 1) a = 0"
    proof (rule bit_word_eqI)
      fix n assume n: "n < LENGTH('a)"
      have "\<not> bit (push_bit 1 a) (Suc n)" unfolding * by simp
      with n show "bit (take_bit (LENGTH('a) - 1) a) n = bit 0 n"
        unfolding bit_push_bit_iff bit_take_bit_iff by auto
    qed
  qed
  finally show ?thesis .
qed

lemma magnitude_or_zero:
  "push_bit 1 (a OR b) = 0 \<longleftrightarrow> magnitude a = 0 \<and> magnitude (b :: 'a::len word) = 0"
  unfolding magnitude_zero push_bit_or or_eq_0_iff ..

text \<open>The library's order test, for any width: the order of the denoted numbers.\<close>

lemma order_test:
  fixes a b :: "'a::len word"
  defines "sa \<equiv> bit a (LENGTH('a) - 1)" and "sb \<equiv> bit b (LENGTH('a) - 1)"
  shows "(if sa \<noteq> sb then sa \<and> push_bit 1 (a OR b) \<noteq> 0 else a \<noteq> b \<and> (sa \<noteq> (a < b)))
    \<longleftrightarrow> fp_value p a < fp_value p b"
proof -
  have mono: "scaled p m < scaled p n \<longleftrightarrow> m < n" for m n
    by (rule strict_mono_less [OF scaled_mono])
  have z: "scaled p m = 0 \<longleftrightarrow> m = 0" for m
    using strict_mono_eq [OF scaled_mono, of p m 0] by simp
  have z': "- int x < int y \<longleftrightarrow> x \<noteq> 0 \<or> y \<noteq> 0" "\<not> int x < - int y" for x y by auto
  have ua: "unat a = of_bool sa * 2 ^ (LENGTH('a) - 1) + magnitude a"
    and ub: "unat b = of_bool sb * 2 ^ (LENGTH('a) - 1) + magnitude b"
    unfolding sa_def sb_def by (rule unat_sign_magnitude)+
  have lt: "a < b \<longleftrightarrow> unat a < unat b" by (rule word_less_nat_alt)
  have eq: "a = b \<longleftrightarrow> unat a = unat b" by (rule word_unat_eq_iff)
  show ?thesis
    unfolding fp_value_def sa_def [symmetric] sb_def [symmetric] lt eq ua ub magnitude_or_zero
    by (cases sa; cases sb) (auto simp: mono z z' add.inverse_unique)
qed

lemma equal_test:
  fixes a b :: "'a::len word"
  shows "a = b \<or> push_bit 1 (a OR b) = 0 \<longleftrightarrow> fp_value p a = fp_value p b"
proof -
  have inj: "scaled p m = scaled p n \<longleftrightarrow> m = n" for m n
    by (rule strict_mono_eq [OF scaled_mono])
  have z: "scaled p m = 0 \<longleftrightarrow> m = 0" for m using inj [of m 0] by simp
  have z': "- int x = int y \<longleftrightarrow> x = 0 \<and> y = 0" "int x = - int y \<longleftrightarrow> x = 0 \<and> y = 0" for x y by auto
  have eq: "a = b \<longleftrightarrow> unat a = unat b" by (rule word_unat_eq_iff)
  show ?thesis
    unfolding fp_value_def magnitude_or_zero eq unat_sign_magnitude
    using magnitude_lt [of a] magnitude_lt [of b]
    by (auto simp: inj z z')
qed

lemma signF_bit: "signF32UI a \<longleftrightarrow> bit a 31" "signF64UI b \<longleftrightarrow> bit b 63"
proof -
  have "drop_bit (LENGTH('a) - 1) w \<noteq> 0 \<longleftrightarrow> bit w (LENGTH('a) - 1)" for w :: "'a::len word"
  proof
    assume "drop_bit (LENGTH('a) - 1) w \<noteq> 0"
    then obtain n where "bit (drop_bit (LENGTH('a) - 1) w) n" by (metis bit_0_eq bit_eq_iff bot_apply bot_bool_def)
    then have "bit w (LENGTH('a) - 1 + n)" by (simp add: bit_simps)
    moreover from bit_imp_le_length [OF this] have "n = 0" by simp
    ultimately show "bit w (LENGTH('a) - 1)" by simp
  next
    assume "bit w (LENGTH('a) - 1)"
    then have "bit (drop_bit (LENGTH('a) - 1) w) 0" by (simp add: bit_simps)
    then show "drop_bit (LENGTH('a) - 1) w \<noteq> 0" by (metis bit_0_eq bot_apply bot_bool_def)
  qed
  from this [of a] this [of b] show "signF32UI a \<longleftrightarrow> bit a 31" "signF64UI b \<longleftrightarrow> bit b 63"
    by (simp_all add: signF32UI_def signF64UI_def)
qed

lemma low63_zero: "(x :: u64) AND 0x7FFFFFFFFFFFFFFF = 0 \<longleftrightarrow> push_bit 1 x = 0"
proof -
  have m: "(0x7FFFFFFFFFFFFFFF :: u64) = mask 63" by (simp add: mask_eq_exp_minus_1)
  have "x AND mask 63 = take_bit 63 x" by (simp add: take_bit_eq_mask)
  moreover have "magnitude x = unat (take_bit 63 x)"
    by (simp add: magnitude_def unsigned_take_bit_eq)
  ultimately show ?thesis unfolding m magnitude_zero [symmetric] by (simp add: unat_eq_0)
qed

lemma order_test32:
  "(if bit a 31 \<noteq> bit b 31 then bit a 31 \<and> push_bit 1 (a OR b) \<noteq> 0 else a \<noteq> b \<and> (bit a 31 \<noteq> (a < b)))
    \<longleftrightarrow> fp_value 23 a < fp_value 23 (b :: u32)"
proof -
  have l: "LENGTH(32) - 1 = 31" by simp
  show ?thesis by (rule order_test [of a b 23, unfolded l])
qed

lemma order_test64:
  "(if bit a 63 \<noteq> bit b 63 then bit a 63 \<and> push_bit 1 (a OR b) \<noteq> 0 else a \<noteq> b \<and> (bit a 63 \<noteq> (a < b)))
    \<longleftrightarrow> fp_value 52 a < fp_value 52 (b :: u64)"
proof -
  have l: "LENGTH(64) - 1 = 63" by simp
  show ?thesis by (rule order_test [of a b 52, unfolded l])
qed

lemma f32_lt_value:
  "f32_lt a b = (if isNaNF32UI a \<or> isNaNF32UI b then (False, 16) else (fp_value 23 a < fp_value 23 b, 0))"
  unfolding f32_lt_def signF_bit low63_zero Let_def order_test32 equal_test [of a b 23] by simp

lemma f32_eq_value:
  "f32_eq a b = (if isNaNF32UI a \<or> isNaNF32UI b
     then (False, if isSigNaNF32UI a \<or> isSigNaNF32UI b then 16 else 0)
     else (fp_value 23 a = fp_value 23 b, 0))"
  unfolding f32_eq_def signF_bit low63_zero Let_def order_test32 equal_test [of a b 23] by simp

lemma f32_lt_quiet_value:
  "f32_lt_quiet a b = (if isNaNF32UI a \<or> isNaNF32UI b
     then (False, if isSigNaNF32UI a \<or> isSigNaNF32UI b then 16 else 0)
     else (fp_value 23 a < fp_value 23 b, 0))"
  unfolding f32_lt_quiet_def signF_bit low63_zero Let_def order_test32 equal_test [of a b 23] by simp

lemma f64_lt_value:
  "f64_lt x y = (if isNaNF64UI x \<or> isNaNF64UI y then (False, 16) else (fp_value 52 x < fp_value 52 y, 0))"
  unfolding f64_lt_def signF_bit low63_zero Let_def order_test64 equal_test [of x y 52] by simp

lemma f64_eq_value:
  "f64_eq x y = (if isNaNF64UI x \<or> isNaNF64UI y
     then (False, if isSigNaNF64UI x \<or> isSigNaNF64UI y then 16 else 0)
     else (fp_value 52 x = fp_value 52 y, 0))"
  unfolding f64_eq_def signF_bit low63_zero Let_def order_test64 equal_test [of x y 52] by simp

lemma f64_lt_quiet_value:
  "f64_lt_quiet x y = (if isNaNF64UI x \<or> isNaNF64UI y
     then (False, if isSigNaNF64UI x \<or> isSigNaNF64UI y then 16 else 0)
     else (fp_value 52 x < fp_value 52 y, 0))"
  unfolding f64_lt_quiet_def signF_bit low63_zero Let_def order_test64 equal_test [of x y 52] by simp

text \<open>
  C10. The library's comparisons of two patterns that are not NaNs are the comparisons of the
  numbers they denote, with \<open>-0\<close> equal to \<open>+0\<close> and the infinities beyond every number, and raise
  no flag; with a NaN operand every comparison is false, and only the signalling order test (or
  a signalling NaN) raises the invalid flag.
\<close>

theorem comparisons_denote:
  "f32_lt a b = (if isNaNF32UI a \<or> isNaNF32UI b then (False, 16) else (fp_value 23 a < fp_value 23 b, 0)) \<and>
   f32_eq a b = (if isNaNF32UI a \<or> isNaNF32UI b
     then (False, if isSigNaNF32UI a \<or> isSigNaNF32UI b then 16 else 0)
     else (fp_value 23 a = fp_value 23 b, 0)) \<and>
   f32_lt_quiet a b = (if isNaNF32UI a \<or> isNaNF32UI b
     then (False, if isSigNaNF32UI a \<or> isSigNaNF32UI b then 16 else 0)
     else (fp_value 23 a < fp_value 23 b, 0)) \<and>
   f64_lt x y = (if isNaNF64UI x \<or> isNaNF64UI y then (False, 16) else (fp_value 52 x < fp_value 52 y, 0)) \<and>
   f64_eq x y = (if isNaNF64UI x \<or> isNaNF64UI y
     then (False, if isSigNaNF64UI x \<or> isSigNaNF64UI y then 16 else 0)
     else (fp_value 52 x = fp_value 52 y, 0)) \<and>
   f64_lt_quiet x y = (if isNaNF64UI x \<or> isNaNF64UI y
     then (False, if isSigNaNF64UI x \<or> isSigNaNF64UI y then 16 else 0)
     else (fp_value 52 x < fp_value 52 y, 0))"
  by (simp add: f32_lt_value f32_eq_value f32_lt_quiet_value f64_lt_value f64_eq_value f64_lt_quiet_value)

section \<open>Classification\<close>

text \<open>The class number of the instruction set's \<open>FCLASS\<close>, from the fields of a pattern.\<close>

definition fclass :: "bool \<Rightarrow> bool \<Rightarrow> bool \<Rightarrow> bool \<Rightarrow> bool \<Rightarrow> nat" where
  "fclass sign exp_max exp_zero frac_zero quiet =
     (if exp_max \<and> \<not> frac_zero then (if quiet then 9 else 8)
      else if exp_max then (if sign then 0 else 7)
      else if \<not> exp_zero then (if sign then 1 else 6)
      else if \<not> frac_zero then (if sign then 2 else 5)
      else (if sign then 3 else 4))"

lemma exp_all_ones:
  fixes a :: "'a::len word"
  shows "NOT a AND push_bit k m = 0 \<longleftrightarrow> drop_bit k a AND drop_bit k (push_bit k m) = drop_bit k (push_bit k m)"
proof
  assume *: "NOT a AND push_bit k m = 0"
  have sub: "bit (push_bit k m) n \<longrightarrow> bit a n" if "n < LENGTH('a)" for n
    using arg_cong [OF *, of "\<lambda>w. bit w n"] that by (auto simp: bit_and_iff bit_not_iff_eq)
  show "drop_bit k a AND drop_bit k (push_bit k m) = drop_bit k (push_bit k m)"
    by (rule bit_word_eqI) (use sub in \<open>auto simp: bit_and_iff bit_drop_bit_eq dest: bit_imp_le_length\<close>)
next
  assume *: "drop_bit k a AND drop_bit k (push_bit k m) = drop_bit k (push_bit k m)"
  show "NOT a AND push_bit k m = 0"
  proof (rule bit_word_eqI)
    fix n assume "n < LENGTH('a)"
    then show "bit (NOT a AND push_bit k m) n = bit 0 n"
      using arg_cong [OF *, of "\<lambda>w. bit w (n - k)"]
      by (auto simp: bit_and_iff bit_not_iff_eq bit_drop_bit_eq bit_push_bit_iff)
  qed
qed

lemma isNaN_fields:
  "isNaNF32UI a \<longleftrightarrow> expF32UI a = 0xFF \<and> fracF32UI a \<noteq> 0"
  "isNaNF64UI b \<longleftrightarrow> expF64UI b = 0x7FF \<and> fracF64UI b \<noteq> 0"
  using exp_all_ones [of a 23 "0xFF"] exp_all_ones [of b 52 "0x7FF"]
  by (simp_all add: isNaNF32UI_def isNaNF64UI_def expF32UI_def expF64UI_def fracF32UI_def fracF64UI_def)

text \<open>
  The classification sets exactly one of its ten bits, the one of the class that the sign,
  the exponent and the fraction determine: negative infinity, normal, subnormal and zero, their
  positive counterparts, the signalling and the quiet NaN.
\<close>

theorem classify_one_class:
  "f32_classify a = push_bit (fclass (signF32UI a) (expF32UI a = 0xFF) (expF32UI a = 0)
     (fracF32UI a = 0) (\<not> isSigNaNF32UI a)) 1 \<and>
   f64_classify b = push_bit (fclass (signF64UI b) (expF64UI b = 0x7FF) (expF64UI b = 0)
     (fracF64UI b = 0) (\<not> isSigNaNF64UI b)) 1"
  by (simp add: f32_classify_def f64_classify_def Let_def cls_def isNaN_fields fclass_def)

end
