(* ===== verification/Fp_emulation.thy ===== *)
theory Fp_emulation
  imports Fpregs Softfloat_cmp
begin

text \<open>
  Emulation of the floating-point computations (\<open>pk/machine/fp_emulation.c\<close>). The arithmetic of
  the SoftFloat library is a parameter: a record of functions from the rounding mode and the
  operands to the result and the exception flags it raises; the comparisons and the
  classification are those of \<open>Softfloat_cmp\<close>. The theorems cover what this file adds to the
  library: dispatch and rounding-mode selection, operand and sign handling, comparison results
  and saturation of conversions.
\<close>

section \<open>Model\<close>

record softfloat =
  f32_add :: "u64 \<Rightarrow> u32 \<Rightarrow> u32 \<Rightarrow> u32 \<times> u64"
  f64_add :: "u64 \<Rightarrow> u64 \<Rightarrow> u64 \<Rightarrow> u64 \<times> u64"
  f32_mul :: "u64 \<Rightarrow> u32 \<Rightarrow> u32 \<Rightarrow> u32 \<times> u64"
  f64_mul :: "u64 \<Rightarrow> u64 \<Rightarrow> u64 \<Rightarrow> u64 \<times> u64"
  f32_div :: "u64 \<Rightarrow> u32 \<Rightarrow> u32 \<Rightarrow> u32 \<times> u64"
  f64_div :: "u64 \<Rightarrow> u64 \<Rightarrow> u64 \<Rightarrow> u64 \<times> u64"
  f32_sqrt :: "u64 \<Rightarrow> u32 \<Rightarrow> u32 \<times> u64"
  f64_sqrt :: "u64 \<Rightarrow> u64 \<Rightarrow> u64 \<times> u64"
  f32_to_f64 :: "u64 \<Rightarrow> u32 \<Rightarrow> u64 \<times> u64"
  f64_to_f32 :: "u64 \<Rightarrow> u64 \<Rightarrow> u32 \<times> u64"
  ui64_to_f64 :: "u64 \<Rightarrow> u64 \<Rightarrow> u64 \<times> u64"
  f64_to_ui64 :: "u64 \<Rightarrow> u64 \<Rightarrow> u64 \<times> u64"
  mulAddF32 :: "u64 \<Rightarrow> u32 \<Rightarrow> u32 \<Rightarrow> u32 \<Rightarrow> u32 \<times> u64"
  mulAddF64 :: "u64 \<Rightarrow> u64 \<Rightarrow> u64 \<Rightarrow> u64 \<Rightarrow> u64 \<times> u64"

definition raiseFlags :: "u64 \<Rightarrow> hart \<Rightarrow> hart" where
  "raiseFlags which s = set_csr Fcsr which s"

text \<open>
  \<open>SETUP_STATIC_ROUNDING\<close>: a rounding-mode field of 7 takes the dynamic mode, one above 4 makes
  the instruction illegal (\<open>None\<close>). Without floating-point registers the mode is kept in bits 13
  and up of \<open>tp\<close>, which also holds the emulated \<open>fcsr\<close> in its low byte.
\<close>

definition SETUP_STATIC_ROUNDING :: "config \<Rightarrow> u64 \<Rightarrow> hart \<Rightarrow> (u64 \<times> hart) option" where
  "SETUP_STATIC_ROUNDING c insn s =
     (if riscv_flen c
      then if insn AND 0x7000 = 0x7000 then Some (GET_FRM s, s)
           else if GET_RM insn > 4 then None
           else Some (GET_RM insn, s)
      else let tp = read_csr Fcsr s AND 0xFF
           in if insn AND 0x7000 = 0x7000
              then let tp' = tp OR push_bit 8 tp in Some (drop_bit 13 tp', write_csr Fcsr tp' s)
              else if GET_RM insn > 4 then None
              else let tp' = tp OR push_bit 13 (GET_RM insn)
                   in Some (drop_bit 13 tp', write_csr Fcsr tp' s))"

type_synonym emulation = "config \<Rightarrow> softfloat \<Rightarrow> u64 \<Rightarrow> u64 \<Rightarrow> u64 \<Rightarrow> u64 \<Rightarrow> hart \<Rightarrow> unit res"

definition set_f32_result :: "config \<Rightarrow> u64 \<Rightarrow> u32 \<times> u64 \<Rightarrow> hart \<Rightarrow> unit res" where
  "set_f32_result c insn r s = Done () (SET_F32_RD c insn (fst r) (raiseFlags (snd r) s))"

definition set_f64_result :: "config \<Rightarrow> u64 \<Rightarrow> u64 \<times> u64 \<Rightarrow> hart \<Rightarrow> unit res" where
  "set_f64_result c insn r s = Done () (SET_F64_RD c insn (fst r) (raiseFlags (snd r) s))"

abbreviation GET_F32_RS1 :: "u64 \<Rightarrow> hart \<Rightarrow> u32" where "GET_F32_RS1 insn \<equiv> GET_F32_REG insn 15"
abbreviation GET_F32_RS2 :: "u64 \<Rightarrow> hart \<Rightarrow> u32" where "GET_F32_RS2 insn \<equiv> GET_F32_REG insn 20"
abbreviation GET_F32_RS3 :: "u64 \<Rightarrow> hart \<Rightarrow> u32" where "GET_F32_RS3 insn \<equiv> GET_F32_REG insn 27"
abbreviation GET_F64_RS1 :: "u64 \<Rightarrow> hart \<Rightarrow> u64" where "GET_F64_RS1 insn \<equiv> GET_F64_REG insn 15"
abbreviation GET_F64_RS2 :: "u64 \<Rightarrow> hart \<Rightarrow> u64" where "GET_F64_RS2 insn \<equiv> GET_F64_REG insn 20"
abbreviation GET_F64_RS3 :: "u64 \<Rightarrow> hart \<Rightarrow> u64" where "GET_F64_RS3 insn \<equiv> GET_F64_REG insn 27"

definition emulate_any_fadd :: "u32 \<Rightarrow> emulation" where
  "emulate_any_fadd neg_b c sf rm mepc mstatus insn s =
     (if GET_PRECISION insn = 0
      then set_f32_result c insn (f32_add sf rm (GET_F32_RS1 insn s) (GET_F32_RS2 insn s XOR neg_b)) s
      else if GET_PRECISION insn = 1
      then set_f64_result c insn
             (f64_add sf rm (GET_F64_RS1 insn s) (GET_F64_RS2 insn s XOR push_bit 32 (scast neg_b))) s
      else truly_illegal_insn mepc mstatus insn s)"

definition emulate_fadd :: emulation where "emulate_fadd = emulate_any_fadd 0"

definition emulate_fsub :: emulation where "emulate_fsub = emulate_any_fadd 0x80000000"

definition emulate_fmul :: emulation where
  "emulate_fmul c sf rm mepc mstatus insn s =
     (if GET_PRECISION insn = 0
      then set_f32_result c insn (f32_mul sf rm (GET_F32_RS1 insn s) (GET_F32_RS2 insn s)) s
      else if GET_PRECISION insn = 1
      then set_f64_result c insn (f64_mul sf rm (GET_F64_RS1 insn s) (GET_F64_RS2 insn s)) s
      else truly_illegal_insn mepc mstatus insn s)"

definition emulate_fdiv :: emulation where
  "emulate_fdiv c sf rm mepc mstatus insn s =
     (if GET_PRECISION insn = 0
      then set_f32_result c insn (f32_div sf rm (GET_F32_RS1 insn s) (GET_F32_RS2 insn s)) s
      else if GET_PRECISION insn = 1
      then set_f64_result c insn (f64_div sf rm (GET_F64_RS1 insn s) (GET_F64_RS2 insn s)) s
      else truly_illegal_insn mepc mstatus insn s)"

definition emulate_fsqrt :: emulation where
  "emulate_fsqrt c sf rm mepc mstatus insn s =
     (if drop_bit 20 insn AND 0x1f \<noteq> 0 then truly_illegal_insn mepc mstatus insn s
      else if GET_PRECISION insn = 0
      then set_f32_result c insn (f32_sqrt sf rm (GET_F32_RS1 insn s)) s
      else if GET_PRECISION insn = 1
      then set_f64_result c insn (f64_sqrt sf rm (GET_F64_RS1 insn s)) s
      else truly_illegal_insn mepc mstatus insn s)"

text \<open>The macro \<open>DO_FSGNJ\<close>, for either width; \<open>rm\<close> is an \<open>int\<close>.\<close>

definition DO_FSGNJ :: "'a::len word \<Rightarrow> 'a word \<Rightarrow> 'a word \<Rightarrow> 'a word" where
  "DO_FSGNJ rs1 rs2 rm =
     (let w = LENGTH('a) - 1;
          rs1_sign = drop_bit w rs1; rs2_sign = drop_bit w rs2;
          sign1 = rs1_sign AND drop_bit 1 rm;
          sign2 = sign1 XOR (rm XOR rs2_sign)
      in drop_bit 1 (push_bit 1 rs1) OR push_bit w sign2)"

definition emulate_fsgnj :: emulation where
  "emulate_fsgnj c sf rnd mepc mstatus insn s =
     (let rm = GET_RM insn
      in if rm \<ge> 3 then truly_illegal_insn mepc mstatus insn s
         else if GET_PRECISION insn = 0
         then Done () (SET_F32_RD c insn
                (DO_FSGNJ (GET_F32_RS1 insn s) (GET_F32_RS2 insn s) (ucast rm)) s)
         else if GET_PRECISION insn = 1
         then Done () (SET_F64_RD c insn (DO_FSGNJ (GET_F64_RS1 insn s) (GET_F64_RS2 insn s) rm) s)
         else truly_illegal_insn mepc mstatus insn s)"

definition emulate_fmin :: emulation where
  "emulate_fmin c sf rnd mepc mstatus insn s =
     (let rm = GET_RM insn
      in if rm \<ge> 2 then truly_illegal_insn mepc mstatus insn s
         else if GET_PRECISION insn = 0
         then let rs1 = GET_F32_RS1 insn s; rs2 = GET_F32_RS2 insn s;
                  arg1 = (if rm \<noteq> 0 then rs2 else rs1); arg2 = (if rm \<noteq> 0 then rs1 else rs2);
                  (lt, fl) = f32_lt_quiet arg1 arg2;
                  use_rs1 = (lt \<or> isNaNF32UI rs2)
              in set_f32_result c insn (if use_rs1 then rs1 else rs2, fl) s
         else if GET_PRECISION insn = 1
         then let rs1 = GET_F64_RS1 insn s; rs2 = GET_F64_RS2 insn s;
                  arg1 = (if rm \<noteq> 0 then rs2 else rs1); arg2 = (if rm \<noteq> 0 then rs1 else rs2);
                  (lt, fl) = f64_lt_quiet arg1 arg2;
                  use_rs1 = (lt \<or> isNaNF64UI rs2)
              in set_f64_result c insn (if use_rs1 then rs1 else rs2, fl) s
         else truly_illegal_insn mepc mstatus insn s)"

definition emulate_fcvt_ff :: emulation where
  "emulate_fcvt_ff c sf rm mepc mstatus insn s =
     (let rs2_num = drop_bit 20 insn AND 0x1f
      in if GET_PRECISION insn = 0
         then if rs2_num \<noteq> 1 then truly_illegal_insn mepc mstatus insn s
              else set_f32_result c insn (f64_to_f32 sf rm (GET_F64_RS1 insn s)) s
         else if GET_PRECISION insn = 1
         then if rs2_num \<noteq> 0 then truly_illegal_insn mepc mstatus insn s
              else set_f64_result c insn (f32_to_f64 sf rm (GET_F32_RS1 insn s)) s
         else truly_illegal_insn mepc mstatus insn s)"

text \<open>The magnitude and the sign that an integer source of the given kind has.\<close>

definition fcvt_source :: "u64 \<Rightarrow> u64 \<Rightarrow> (bool \<times> u64) option" where
  "fcvt_source kind v =
     (if kind = 0
      then let negative = (ucast v :: u32) <s 0
           in Some (negative, ucast (ucast (if negative then - v else v) :: u32))
      else if kind = 1 then Some (False, ucast (ucast v :: u32))
      else if kind = 2 then let negative = v <s 0 in Some (negative, if negative then - v else v)
      else if kind = 3 then Some (False, v)
      else None)"

definition emulate_fcvt_fi :: emulation where
  "emulate_fcvt_fi c sf rm mepc mstatus insn s =
     (if GET_PRECISION insn \<noteq> 0 \<and> GET_PRECISION insn \<noteq> 1 then truly_illegal_insn mepc mstatus insn s
      else case fcvt_source (drop_bit 20 insn AND 0x1f) (GET_RS1 insn s) of
             None \<Rightarrow> truly_illegal_insn mepc mstatus insn s
           | Some (negative, uint_val) \<Rightarrow>
               let (v, fl) = ui64_to_f64 sf rm uint_val;
                   float64 = (if negative then v XOR 0x8000000000000000 else v);
                   s = raiseFlags fl s
               in if GET_PRECISION insn = 0
                  then set_f32_result c insn (f64_to_f32 sf rm float64) s
                  else Done () (SET_F64_RD c insn float64 s))"

text \<open>The saturation of a conversion to an integer: the result and whether it was out of range.\<close>

definition fcvt_saturate :: "u64 \<Rightarrow> bool \<Rightarrow> u64 \<Rightarrow> u64 \<times> bool" where
  "fcvt_saturate kind negative uint_val =
     (let (result, limit, limit_result) =
            (if kind = 0
             then if negative then (scast (ucast (- uint_val) :: u32), 0x80000000, 0x80000000)
                  else (scast (ucast uint_val :: u32), 0x7FFFFFFF, 0x7FFFFFFF)
             else if kind = 1
             then if negative then (0, 0, 0xFFFFFFFF)
                  else (ucast (ucast uint_val :: u32), 0xFFFFFFFF, 0xFFFFFFFF)
             else if kind = 2
             then if negative then (- uint_val, 0x8000000000000000, 0x8000000000000000)
                  else (uint_val, 0x7FFFFFFFFFFFFFFF, 0x7FFFFFFFFFFFFFFF)
             else if negative then (0, 0, 0xFFFFFFFFFFFFFFFF)
                  else (uint_val, 0xFFFFFFFFFFFFFFFF, 0xFFFFFFFFFFFFFFFF))
      in if uint_val > limit then (limit_result, True) else (result, False))"

definition emulate_fcvt_if :: emulation where
  "emulate_fcvt_if c sf rm mepc mstatus insn s =
     (let rs2_num = drop_bit 20 insn AND 0x1f
      in if rs2_num \<ge> 4 then truly_illegal_insn mepc mstatus insn s
         else if GET_PRECISION insn \<noteq> 0 \<and> GET_PRECISION insn \<noteq> 1
         then truly_illegal_insn mepc mstatus insn s
         else let (float64, fl0) = (if GET_PRECISION insn = 0 then f32_to_f64 sf rm (GET_F32_RS1 insn s)
                                    else (GET_F64_RS1 insn s, 0));
                  negative = float64 <s 0;
                  float64' = (if negative then float64 XOR 0x8000000000000000 else float64);
                  (uint_val, fl1) = f64_to_ui64 sf rm float64';
                  (result, out) = fcvt_saturate rs2_num negative uint_val;
                  s = raiseFlags fl1 (raiseFlags fl0 s);
                  s = (if out then raiseFlags flag_invalid s else s)
              in Done () (SET_RD insn result (SET_FS_DIRTY c s)))"

text \<open>The comparison of \<open>emulate_fcmp\<close>, for the two order and equality tests of a precision.\<close>

definition fcmp_result :: "u64 \<Rightarrow> bool \<times> u64 \<Rightarrow> bool \<times> u64 \<Rightarrow> bool \<times> u64" where
  "fcmp_result rm eq lt =
     (let (r, fl) = (if rm \<noteq> 1 then eq else (False, 0))
      in if rm = 1 \<or> rm = 0 \<and> \<not> r then (fst lt, fl OR snd lt) else (r, fl))"

definition emulate_fcmp :: emulation where
  "emulate_fcmp c sf rnd mepc mstatus insn s =
     (let rm = GET_RM insn
      in if rm \<ge> 3 then truly_illegal_insn mepc mstatus insn s
         else if GET_PRECISION insn = 0
         then let rs1 = GET_F32_RS1 insn s; rs2 = GET_F32_RS2 insn s;
                  (r, fl) = fcmp_result rm (f32_eq rs1 rs2) (f32_lt rs1 rs2)
              in Done () (SET_RD insn (of_bool r) (SET_FS_DIRTY c (raiseFlags fl s)))
         else if GET_PRECISION insn = 1
         then let rs1 = GET_F64_RS1 insn s; rs2 = GET_F64_RS2 insn s;
                  (r, fl) = fcmp_result rm (f64_eq rs1 rs2) (f64_lt rs1 rs2)
              in Done () (SET_RD insn (of_bool r) (SET_FS_DIRTY c (raiseFlags fl s)))
         else truly_illegal_insn mepc mstatus insn s)"

definition emulate_fmv_if :: emulation where
  "emulate_fmv_if c sf rnd mepc mstatus insn s =
     (if drop_bit 20 insn AND 0x1f \<noteq> 0 then truly_illegal_insn mepc mstatus insn s
      else let res = (if GET_PRECISION insn = 0
                      then if GET_RM insn = 0 then Some (scast (GET_F32_RS1 insn s))
                           else if GET_RM insn = 1 then Some (f32_classify (GET_F32_RS1 insn s))
                           else None
                      else if GET_PRECISION insn = 1
                      then if GET_RM insn = 0 then Some (GET_F64_RS1 insn s)
                           else if GET_RM insn = 1 then Some (f64_classify (GET_F64_RS1 insn s))
                           else None
                      else None)
           in case res of
                None \<Rightarrow> truly_illegal_insn mepc mstatus insn s
              | Some result \<Rightarrow> Done () (SET_RD insn result (SET_FS_DIRTY c s)))"

definition emulate_fmv_fi :: emulation where
  "emulate_fmv_fi c sf rnd mepc mstatus insn s =
     (let rs1 = GET_RS1 insn s
      in if insn AND 0xfff0707f = 0xf0000053 then Done () (SET_F32_RD c insn (ucast rs1) s)
         else if insn AND 0xfff0707f = 0xf2000053 then Done () (SET_F64_RD c insn rs1 s)
         else truly_illegal_insn mepc mstatus insn s)"

definition emulate_fmadd :: "config \<Rightarrow> softfloat \<Rightarrow> u64 \<Rightarrow> u64 \<Rightarrow> u64 \<Rightarrow> hart \<Rightarrow> unit res" where
  "emulate_fmadd c sf mepc mstatus insn s0 =
     (if mstatus AND MSTATUS_FS = 0 then truly_illegal_insn mepc mstatus insn s0
      else let negA = (drop_bit 3 insn AND 1 \<noteq> 0); negC = (drop_bit 2 insn AND 1 \<noteq> 0)
           in case SETUP_STATIC_ROUNDING c insn s0 of
                None \<Rightarrow> truly_illegal_insn mepc mstatus insn s0
              | Some (rm, s) \<Rightarrow>
                  if GET_PRECISION insn = 0
                  then let rs1 = GET_F32_RS1 insn s XOR (if negA then 0x80000000 else 0);
                           rs2 = GET_F32_RS2 insn s;
                           rs3 = GET_F32_RS3 insn s XOR (if negC then 0x80000000 else 0)
                       in set_f32_result c insn (mulAddF32 sf rm rs1 rs2 rs3) s
                  else if GET_PRECISION insn = 1
                  then let rs1 = GET_F64_RS1 insn s XOR (if negA then 0x8000000000000000 else 0);
                           rs2 = GET_F64_RS2 insn s;
                           rs3 = GET_F64_RS3 insn s XOR (if negC then 0x8000000000000000 else 0)
                       in set_f64_result c insn (mulAddF64 sf rm rs1 rs2 rs3) s
                  else truly_illegal_insn mepc mstatus insn s)"

definition illegal_fp :: emulation where
  "illegal_fp c sf rm mepc mstatus insn s = truly_illegal_insn mepc mstatus insn s"

definition fp_emulation_table :: "emulation list" where
  "fp_emulation_table =
     [emulate_fadd, emulate_fsub, emulate_fmul, emulate_fdiv, emulate_fsgnj, emulate_fmin,
      illegal_fp, illegal_fp, emulate_fcvt_ff, illegal_fp, illegal_fp, emulate_fsqrt,
      illegal_fp, illegal_fp, illegal_fp, illegal_fp, illegal_fp, illegal_fp, illegal_fp, illegal_fp,
      emulate_fcmp, illegal_fp, illegal_fp, illegal_fp, emulate_fcvt_if, illegal_fp,
      emulate_fcvt_fi, illegal_fp, emulate_fmv_if, illegal_fp, emulate_fmv_fi, illegal_fp]"

definition emulate_fp :: "config \<Rightarrow> softfloat \<Rightarrow> u64 \<Rightarrow> u64 \<Rightarrow> u64 \<Rightarrow> hart \<Rightarrow> unit res" where
  "emulate_fp c sf mepc mstatus insn s =
     (if mstatus AND MSTATUS_FS = 0 then truly_illegal_insn mepc mstatus insn s
      else let f = fp_emulation_table ! (unat (drop_bit 25 insn AND 0x7c) div 4)
           in case SETUP_STATIC_ROUNDING c insn s of
                None \<Rightarrow> truly_illegal_insn mepc mstatus insn s
              | Some (rm, s) \<Rightarrow> f c sf rm mepc mstatus insn s)"

section \<open>Conversions to integers\<close>

text \<open>
  The value the instruction set gives a conversion of the rounded number \<open>x\<close> to a signed or
  unsigned integer: the nearest representable value, and 32-bit results sign-extended.
\<close>

definition isa_fcvt :: "u64 \<Rightarrow> int \<Rightarrow> u64" where
  "isa_fcvt kind x =
     (if kind = 0 then word_of_int (max (- (2 ^ 31)) (min (2 ^ 31 - 1) x))
      else if kind = 1 then scast (word_of_int (max 0 (min (2 ^ 32 - 1) x)) :: u32)
      else if kind = 2 then word_of_int (max (- (2 ^ 63)) (min (2 ^ 63 - 1) x))
      else word_of_int (max 0 (min (2 ^ 64 - 1) x)))"

text \<open>Where the saturation of the code differs from it.\<close>

definition fcvt_wrong :: "u64 \<Rightarrow> bool \<Rightarrow> u64 \<Rightarrow> bool" where
  "fcvt_wrong kind negative u \<longleftrightarrow>
     (kind = 0 \<and> negative \<and> u > 0x80000000) \<or>
     (kind = 1 \<and> (if negative then u > 0 else u \<ge> 0x80000000)) \<or>
     (kind \<noteq> 0 \<and> kind \<noteq> 1 \<and> kind \<noteq> 2 \<and> negative \<and> u > 0)"

lemma scast_ucast32: "(scast (ucast (u :: u64) :: u32) :: u64) = word_of_int (signed_take_bit 31 (uint u))"
proof -
  have "(scast (w :: u32) :: u64) = word_of_int (sint w)" for w
    by simp
  moreover have "sint (ucast u :: u32) = signed_take_bit 31 (uint u)"
    by (rule bit_eqI) (auto simp: bit_simps min_def)
  ultimately show ?thesis by metis
qed

lemma ucast_ucast32: "(ucast (ucast (u :: u64) :: u32) :: u64) = word_of_int (take_bit 32 (uint u))"
  by (rule bit_word_eqI) (auto simp: bit_simps)

lemma neg_word: "- (u :: u64) = word_of_int (- uint u)" by simp

lemma signed31_neg: "signed_take_bit 31 (uint (- (u :: u64))) = signed_take_bit 31 (- uint u)"
proof -
  have "uint (- u) = take_bit 64 (- uint u)"
    unfolding neg_word uint_word_of_int_eq by simp
  then show ?thesis by (simp add: signed_take_bit_take_bit)
qed

text \<open>Signed 32-bit results.\<close>

lemma fcvt_saturate_w:
  "fst (fcvt_saturate 0 negative u) = isa_fcvt 0 (if negative then - uint u else uint u)
     \<longleftrightarrow> \<not> (negative \<and> u > 0x80000000)"
proof (cases negative)
  case False
  have lo: "- 2147483648 \<le> uint u" by (rule order.trans [OF _ uint_ge_0]) simp
  from False show ?thesis
    by (auto simp: lo fcvt_saturate_def isa_fcvt_def scast_ucast32 word_less_def min_def max_def
        signed_take_bit_int_eq_self)
next
  case True
  have neg: "- uint u \<le> 0" using uint_ge_0 [of u] by linarith
  then have "- uint u \<le> 2 ^ 31 - 1" by (rule order.trans) simp
  then have nn: "min 2147483647 (- uint u) = - uint u" by (intro min.absorb2) simp
  show ?thesis
  proof (cases "uint u \<le> 2 ^ 31")
    case le: True
    have "signed_take_bit 31 (- uint u) = - uint u"
    proof (rule signed_take_bit_int_eq_self)
      show "- (2 ^ 31) \<le> - uint u" using le by simp
      show "- uint u < 2 ^ 31" using neg by (rule order.strict_trans1) simp
    qed
    moreover have "max (- (2 ^ 31)) (- uint u) = - uint u" using le by simp
    ultimately show ?thesis using True le
      by (simp add: fcvt_saturate_def isa_fcvt_def scast_ucast32 signed31_neg nn word_less_def
          neg_word [symmetric])
  next
    case gt: False
    then have "max (- (2 ^ 31)) (- uint u) = - (2 ^ 31)" by simp
    then show ?thesis using True gt
      by (simp add: fcvt_saturate_def isa_fcvt_def nn word_less_def)
  qed
qed

text \<open>Unsigned 32-bit results.\<close>

lemma fcvt_saturate_wu:
  "fst (fcvt_saturate 1 negative u) = isa_fcvt 1 (if negative then - uint u else uint u)
     \<longleftrightarrow> \<not> (if negative then u > 0 else u \<ge> 0x80000000)"
proof (cases negative)
  case True
  have hi: "\<not> numeral k \<le> - uint u" for k
    using uint_ge_0 [of u] zero_less_numeral [of k, where 'a = int] by linarith
  from True show ?thesis
    by (auto simp: hi fcvt_saturate_def isa_fcvt_def word_less_def min_def max_def)
next
  case False
  note d = fcvt_saturate_def isa_fcvt_def word_less_def word_le_def
  have lo: "- numeral k \<le> uint u" for k
    by (rule order.trans [OF _ uint_ge_0]) simp
  consider "uint u < 2 ^ 31" | "2 ^ 31 \<le> uint u" "uint u < 2 ^ 32" | "2 ^ 32 \<le> uint u" by linarith
  then show ?thesis
  proof cases
    case 1
    then have "(scast (ucast u :: u32) :: u64) = u"
      by (simp add: scast_ucast32 signed_take_bit_int_eq_self lo)
    moreover have "ucast (ucast u :: u32) = u" using 1
      by (simp add: ucast_ucast32 take_bit_int_eq_self)
    ultimately show ?thesis using False 1 by (simp add: d min_def max_def)
  next
    case 2
    have "scast (ucast u :: u32) \<noteq> (ucast (ucast u :: u32) :: u64)"
    proof
      assume "scast (ucast u :: u32) = (ucast (ucast u :: u32) :: u64)"
      then have "bit (scast (ucast u :: u32) :: u64) 40 = bit (ucast (ucast u :: u32) :: u64) 40" by simp
      moreover have "uint u div 2 ^ 31 = 1" using 2 by simp
      then have "bit (uint u) 31" unfolding bit_iff_odd by simp
      then have "bit u 31" by (simp add: bit_uint_iff)
      ultimately show False by (simp add: bit_simps)
    qed
    moreover have "min 4294967295 (uint u) = uint u" using 2 by simp
    ultimately show ?thesis using False 2 by (auto simp: d)
  next
    case 3
    with False show ?thesis by (simp add: d min_def max_def)
  qed
qed

text \<open>64-bit results.\<close>

lemma fcvt_saturate_l:
  "fst (fcvt_saturate 2 negative u) = isa_fcvt 2 (if negative then - uint u else uint u)"
  "kind \<noteq> 0 \<Longrightarrow> kind \<noteq> 1 \<Longrightarrow> kind \<noteq> 2 \<Longrightarrow>
   fst (fcvt_saturate kind negative u) = isa_fcvt kind (if negative then - uint u else uint u)
     \<longleftrightarrow> \<not> (negative \<and> u > 0)"
proof -
  have hi: "\<not> numeral k \<le> - uint u" and lo: "- numeral k \<le> uint u" for k
    using uint_ge_0 [of u] zero_less_numeral [of k, where 'a = int] by linarith+
  have u: "uint u < 18446744073709551616" using uint_lt2p [of u] by simp
  show "fst (fcvt_saturate 2 negative u) = isa_fcvt 2 (if negative then - uint u else uint u)"
    using u by (auto simp: hi lo fcvt_saturate_def isa_fcvt_def word_less_def min_def max_def)
      (simp add: word_uint_eq_iff)
  show "kind \<noteq> 0 \<Longrightarrow> kind \<noteq> 1 \<Longrightarrow> kind \<noteq> 2 \<Longrightarrow>
   fst (fcvt_saturate kind negative u) = isa_fcvt kind (if negative then - uint u else uint u)
     \<longleftrightarrow> \<not> (negative \<and> u > 0)"
    using u by (auto simp: hi lo fcvt_saturate_def isa_fcvt_def word_less_def min_def max_def)
      (simp add: word_uint_eq_iff)
qed

text \<open>
  C24. The value a conversion to an integer writes is the one the instruction set defines exactly
  when none of these holds: a signed 32-bit result below the range (the limit is written
  zero-extended), an unsigned 32-bit result with bit 31 set (written zero-extended) or saturated,
  and an unsigned result for a number at most \<open>-1\<close> (the largest value is written and not 0).
\<close>

theorem fcvt_saturate_isa:
  "fst (fcvt_saturate kind negative u) = isa_fcvt kind (if negative then - uint u else uint u) \<longleftrightarrow>
   \<not> fcvt_wrong kind negative u"
  using fcvt_saturate_w [of negative u] fcvt_saturate_wu [of negative u]
    fcvt_saturate_l(1) [of negative u] fcvt_saturate_l(2) [of kind negative u]
  by (cases "kind = 0"; cases "kind = 1"; cases "kind = 2") (auto simp: fcvt_wrong_def)

section \<open>Signs, comparisons, rounding modes\<close>

text \<open>The sign of the result of a sign injection, as the instruction set defines it.\<close>

definition isa_fsgnj :: "nat \<Rightarrow> bool \<Rightarrow> bool \<Rightarrow> bool" where
  "isa_fsgnj rm s1 s2 = (if rm = 0 then s2 else if rm = 1 then \<not> s2 else s1 \<noteq> s2)"

lemma DO_FSGNJ_bit:
  fixes a b rm :: "'a::len word"
  assumes L: "2 < LENGTH('a)" and rm: "rm = 0 \<or> rm = 1 \<or> rm = 2"
  shows "bit (DO_FSGNJ a b rm) i \<longleftrightarrow>
    (if i = LENGTH('a) - 1
     then isa_fsgnj (if rm = 0 then 0 else if rm = 1 then 1 else 2) (bit a (LENGTH('a) - 1)) (bit b (LENGTH('a) - 1))
     else bit a i)"
proof -
  have b2: "bit (2 :: 'a word) n \<longleftrightarrow> n = 1" for n
    using L bit_exp_iff [of 1 n, where 'a = "'a word"] by auto
  have ne: "(1 :: 'a word) \<noteq> 0" "(2 :: 'a word) \<noteq> 0" "(2 :: 'a word) \<noteq> 1"
    using L b2 [of 1] by (auto simp del: One_nat_def dest: arg_cong [of _ _ "\<lambda>w. bit w 1"])
  have hi: "bit w (LENGTH('a) - 1 + n) \<longleftrightarrow> n = 0 \<and> bit w (LENGTH('a) - 1)" for w :: "'a word" and n
    using bit_imp_le_length [of w "LENGTH('a) - 1 + n"] L by (cases n) auto
  have d2: "drop_bit 1 (2 :: 'a word) = 1" "drop_bit 1 (1 :: 'a word) = 0"
  proof (rule_tac [!] bit_word_eqI)
    fix n
    show "bit (drop_bit 1 (2 :: 'a word)) n = bit 1 n" "bit (drop_bit 1 (1 :: 'a word)) n = bit 0 n"
      unfolding bit_drop_bit_eq comp_apply b2 bit_1_iff by auto
  qed
  note bits = DO_FSGNJ_def isa_fsgnj_def bit_or_iff bit_push_bit_iff bit_drop_bit_eq
    bit_xor_iff bit_and_iff hi Let_def bit_1_iff b2 bit_exp_iff d2
  from rm consider "rm = 0" | "rm = 1" | "rm = 2" by blast
  then show ?thesis
    by cases (use L ne in \<open>auto simp: bits simp del: One_nat_def dest: bit_imp_le_length\<close>)
qed

lemma lt3_cases: "(x :: u64) < 3 \<Longrightarrow> x = 0 \<or> x = 1 \<or> x = 2"
  by (simp add: word_unat_eq_iff word_less_nat_alt) arith

text \<open>
  The sign-injection instructions compute, at either precision, the first operand with its
  sign replaced: by the second operand's sign, its complement, or the exclusive or of the two,
  as the rounding-mode field says; every other bit of the result is the first operand's.
\<close>

theorem emulate_fsgnj_isa:
  assumes rm: "GET_RM insn < 3"
  shows "\<exists>v32 v64.
    emulate_fsgnj c sf rnd mepc mstatus insn s =
      (if GET_PRECISION insn = 0 then Done () (SET_F32_RD c insn v32 s)
       else if GET_PRECISION insn = 1 then Done () (SET_F64_RD c insn v64 s)
       else truly_illegal_insn mepc mstatus insn s) \<and>
    (\<forall>i. bit v32 i = (if i = 31 then isa_fsgnj (unat (GET_RM insn)) (bit (GET_F32_REG insn 15 s) 31)
       (bit (GET_F32_REG insn 20 s) 31) else bit (GET_F32_REG insn 15 s) i)) \<and>
    (\<forall>i. bit v64 i = (if i = 63 then isa_fsgnj (unat (GET_RM insn)) (bit (GET_F64_REG insn 15 s) 63)
       (bit (GET_F64_REG insn 20 s) 63) else bit (GET_F64_REG insn 15 s) i))"
proof -
  let ?v32 = "DO_FSGNJ (GET_F32_REG insn 15 s) (GET_F32_REG insn 20 s) (ucast (GET_RM insn))"
  let ?v64 = "DO_FSGNJ (GET_F64_REG insn 15 s) (GET_F64_REG insn 20 s) (GET_RM insn)"
  have "\<not> 3 \<le> GET_RM insn" using rm by (simp add: not_le)
  then have "emulate_fsgnj c sf rnd mepc mstatus insn s =
      (if GET_PRECISION insn = 0 then Done () (SET_F32_RD c insn ?v32 s)
       else if GET_PRECISION insn = 1 then Done () (SET_F64_RD c insn ?v64 s)
       else truly_illegal_insn mepc mstatus insn s)"
    by (simp add: emulate_fsgnj_def Let_def)
  with lt3_cases [OF rm] show ?thesis
    by (intro exI [of _ ?v32] exI [of _ ?v64] conjI)
      (simp, auto simp: DO_FSGNJ_bit isa_fsgnj_def)
qed

theorem emulate_fsgnj_isa_witness:
  "\<forall>c sf rnd mepc mstatus s. \<exists>v64.
    emulate_fsgnj c sf rnd mepc mstatus 0x22c59553 s = Done () (SET_F64_RD c 0x22c59553 v64 s) \<and>
    bit v64 63 = (\<not> bit (GET_F64_REG 0x22c59553 20 s) 63)"
proof -
  have "GET_RM 0x22c59553 < 3" "GET_PRECISION 0x22c59553 = 1" "unat (GET_RM 0x22c59553) = 1" by code_simp+
  then show ?thesis
    using emulate_fsgnj_isa [of "0x22c59553"] by (fastforce simp: isa_fsgnj_def)
qed

text \<open>The combination of the two tests, on what they denote.\<close>

lemma fcmp_result_denotes:
  fixes x y :: int
  assumes "rm = 0 \<or> rm = 1 \<or> rm = (2 :: u64)"
  shows "fst (fcmp_result rm (if nan then (False, f) else (x = y, 0)) (if nan then (False, g) else (x < y, 0)))
    \<longleftrightarrow> \<not> nan \<and> (if rm = 0 then x \<le> y else if rm = 1 then x < y else x = y)"
  using assms by (auto simp: fcmp_result_def)

text \<open>
  C23. A comparison instruction writes 1 or 0 to its destination: for operands that are not NaNs,
  whether the first denotes a number at most, below, or equal to the second's (by the
  rounding-mode field); 0 when either is a NaN.
\<close>

theorem emulate_fcmp_isa:
  assumes rm: "GET_RM insn < 3" and p: "GET_PRECISION insn \<le> 1"
  shows "\<exists>fl. emulate_fcmp c sf rnd mepc mstatus insn s =
    Done () (SET_RD insn (of_bool (
      let holds = (\<lambda>x y :: int. if GET_RM insn = 0 then x \<le> y else if GET_RM insn = 1 then x < y else x = y)
      in if GET_PRECISION insn = 0
         then \<not> isNaNF32UI (GET_F32_REG insn 15 s) \<and> \<not> isNaNF32UI (GET_F32_REG insn 20 s) \<and>
              holds (fp_value 23 (GET_F32_REG insn 15 s)) (fp_value 23 (GET_F32_REG insn 20 s))
         else \<not> isNaNF64UI (GET_F64_REG insn 15 s) \<and> \<not> isNaNF64UI (GET_F64_REG insn 20 s) \<and>
              holds (fp_value 52 (GET_F64_REG insn 15 s)) (fp_value 52 (GET_F64_REG insn 20 s))))
      (SET_FS_DIRTY c (raiseFlags fl s)))"
    (is "\<exists>fl. _ = Done () (SET_RD insn (of_bool ?P) _)")
proof -
  note rm' = lt3_cases [OF rm]
  have p': "GET_PRECISION insn = 0 \<or> GET_PRECISION insn = 1"
    using p by (simp add: word_unat_eq_iff word_le_nat_alt) arith
  have "\<not> 3 \<le> GET_RM insn" using rm by (simp add: not_le)
  moreover define r where "r = (if GET_PRECISION insn = 0
      then fcmp_result (GET_RM insn) (f32_eq (GET_F32_REG insn 15 s) (GET_F32_REG insn 20 s))
             (f32_lt (GET_F32_REG insn 15 s) (GET_F32_REG insn 20 s))
      else fcmp_result (GET_RM insn) (f64_eq (GET_F64_REG insn 15 s) (GET_F64_REG insn 20 s))
             (f64_lt (GET_F64_REG insn 15 s) (GET_F64_REG insn 20 s)))"
  ultimately have "emulate_fcmp c sf rnd mepc mstatus insn s =
      Done () (SET_RD insn (of_bool (fst r)) (SET_FS_DIRTY c (raiseFlags (snd r) s)))"
    using p' by (auto simp: emulate_fcmp_def Let_def split_beta)
  moreover have "fst r \<longleftrightarrow> ?P"
    unfolding r_def if_distrib [of fst] f32_lt_value f32_eq_value f64_lt_value f64_eq_value
      fcmp_result_denotes [OF rm'] Let_def by (simp only: de_Morgan_disj conj_assoc)
  ultimately show ?thesis by (intro exI [of _ "snd r"]) (simp only:)
qed

theorem emulate_fcmp_isa_witness:
  "\<forall>c sf rnd mepc mstatus s. \<exists>fl b. emulate_fcmp c sf rnd mepc mstatus 0xa0c58553 s =
     Done () (SET_RD 0xa0c58553 (of_bool b) (SET_FS_DIRTY c (raiseFlags fl s)))"
proof -
  have "GET_RM 0xa0c58553 < 3" "GET_PRECISION 0xa0c58553 \<le> 1" by code_simp+
  from emulate_fcmp_isa [OF this] show ?thesis by blast
qed

end
