(* ===== verification/Emulation.thy ===== *)
theory Emulation
  imports Muldiv Misaligned Fp_emulation
begin

text \<open>
  The illegal-instruction trap (\<open>pk/machine/emulation.c\<close>) and the floating-point loads and stores
  (\<open>fp_ldst.c\<close>): dispatch on the opcode through the two build-dependent tables, compressed
  floating-point accesses, and the emulation of CSR instructions on the performance counters and
  the emulated floating-point CSR. \<open>None\<close> is the case where the C text of a division handler has
  no defined value.
\<close>

section \<open>Model\<close>

text \<open>\<open>punt_to_misaligned_handler\<close> records the address before it hands over.\<close>

definition emulate_float_load :: "config \<Rightarrow> u64 \<Rightarrow> u64 \<Rightarrow> u64 \<Rightarrow> hart \<Rightarrow> unit res" where
  "emulate_float_load c mepc mstatus insn s =
     (let addr = GET_RS1 insn s + IMM_I insn
      in if mstatus AND MSTATUS_FS = 0 then truly_illegal_insn mepc mstatus insn s
         else if insn AND 0x7000 = 0x2000
         then if addr mod 4 \<noteq> 0 then misaligned_load_trap c mepc (write_csr Mbadaddr addr s)
              else bind_res (load_int32_t addr mepc s) (\<lambda>v s. Done () (SET_F32_RD c insn v s))
         else if insn AND 0x7000 = 0x3000
         then if addr mod 8 \<noteq> 0 then misaligned_load_trap c mepc (write_csr Mbadaddr addr s)
              else bind_res (load_uint64_t addr mepc s) (\<lambda>v s. Done () (SET_F64_RD c insn v s))
         else truly_illegal_insn mepc mstatus insn s)"

definition emulate_float_store :: "config \<Rightarrow> u64 \<Rightarrow> u64 \<Rightarrow> u64 \<Rightarrow> hart \<Rightarrow> unit res" where
  "emulate_float_store c mepc mstatus insn s =
     (let addr = GET_RS1 insn s + IMM_S insn
      in if mstatus AND MSTATUS_FS = 0 then truly_illegal_insn mepc mstatus insn s
         else if insn AND 0x7000 = 0x2000
         then if addr mod 4 \<noteq> 0 then misaligned_store_trap mepc (write_csr Mbadaddr addr s)
              else store_uint32_t addr (GET_F32_REG insn 20 s) mepc s
         else if insn AND 0x7000 = 0x3000
         then if addr mod 8 \<noteq> 0 then misaligned_store_trap mepc (write_csr Mbadaddr addr s)
              else store_uint64_t addr (GET_F64_REG insn 20 s) mepc s
         else truly_illegal_insn mepc mstatus insn s)"

definition emulate_rvc :: "config \<Rightarrow> u64 \<Rightarrow> u64 \<Rightarrow> u64 \<Rightarrow> hart \<Rightarrow> unit res" where
  "emulate_rvc c mepc mstatus insn s0 =
     (if riscv_flen c then truly_illegal_insn mepc mstatus insn s0
      else let s = write_csr Mepc (mepc + 2) s0
           in if mstatus AND MSTATUS_FS = 0 then truly_illegal_insn mepc mstatus insn s
              else if insn AND 0xe003 = 0x2000
              then let addr = GET_RS1S insn s + RVC_LD_IMM insn
                   in if addr mod 8 \<noteq> 0 then misaligned_load_trap c mepc s
                      else bind_res (load_uint64_t addr mepc s) (\<lambda>v s.
                             Done () (SET_F64_RD c (push_bit 7 (RVC_RS2S insn)) v s))
              else if insn AND 0xe003 = 0x2002
              then let addr = GET_SP s + RVC_LDSP_IMM insn
                   in if addr mod 8 \<noteq> 0 then misaligned_load_trap c mepc s
                      else bind_res (load_uint64_t addr mepc s) (\<lambda>v s. Done () (SET_F64_RD c insn v s))
              else if insn AND 0xe003 = 0xa000
              then let addr = GET_RS1S insn s + RVC_LD_IMM insn
                   in if addr mod 8 \<noteq> 0 then misaligned_store_trap mepc s
                      else store_uint64_t addr (GET_F64_REG (push_bit 20 (RVC_RS2S insn)) 20 s) mepc s
              else if insn AND 0xe003 = 0xa002
              then let addr = GET_SP s + RVC_SDSP_IMM insn
                   in if addr mod 8 \<noteq> 0 then misaligned_store_trap mepc s
                      else store_uint64_t addr (GET_F64_REG (push_bit 20 (RVC_RS2 insn)) 20 s) mepc s
              else truly_illegal_insn mepc mstatus insn s)"

text \<open>\<open>None\<close> is the result \<open>-1\<close>, that the CSR is not readable here.\<close>

definition emulate_read_csr :: "config \<Rightarrow> u64 \<Rightarrow> u64 \<Rightarrow> hart \<Rightarrow> u64 option" where
  "emulate_read_csr c num mstatus s =
     (let mpp = (mstatus AND MSTATUS_MPP) div (MSTATUS_MPP AND NOT (MSTATUS_MPP - 1));
          counteren = (if mpp = 0 then read_csr Scounteren s else - 1);
          fs = (mstatus AND MSTATUS_FS \<noteq> 0)
      in if num = 0xc00 then (if drop_bit 0 counteren AND 1 = 0 then None else Some (read_csr Mcycle s))
         else if num = 0xc01 then (if drop_bit 1 counteren AND 1 = 0 then None else Some (mtime s))
         else if num = 0xc02 then (if drop_bit 2 counteren AND 1 = 0 then None else Some (read_csr Minstret s))
         else if num = 0xb03 then (if drop_bit 3 counteren AND 1 = 0 then None else Some (read_csr Mhpmcounter3 s))
         else if num = 0xb04 then (if drop_bit 4 counteren AND 1 = 0 then None else Some (read_csr Mhpmcounter4 s))
         else if num = 0x323 then Some (read_csr Mhpmevent3 s)
         else if num = 0x324 then Some (read_csr Mhpmevent4 s)
         else if riscv_flen c then None
         else if num = 0x002 then (if fs then Some (GET_FRM s) else None)
         else if num = 0x001 then (if fs then Some (GET_FFLAGS s) else None)
         else if num = 0x003 then (if fs then Some (GET_FCSR s) else None)
         else None)"

definition emulate_write_csr :: "config \<Rightarrow> u64 \<Rightarrow> u64 \<Rightarrow> hart \<Rightarrow> hart option" where
  "emulate_write_csr c num value s =
     (if num = 0xc00 then Some (write_csr Mcycle value s)
      else if num = 0xc02 then Some (write_csr Minstret value s)
      else if num = 0xb03 then Some (write_csr Mhpmcounter3 value s)
      else if num = 0xb04 then Some (write_csr Mhpmcounter4 value s)
      else if num = 0x323 then Some (write_csr Mhpmevent3 value s)
      else if num = 0x324 then Some (write_csr Mhpmevent4 value s)
      else if riscv_flen c then None
      else if num = 0x002 then Some (SET_FRM value s)
      else if num = 0x001 then Some (SET_FFLAGS value s)
      else if num = 0x003 then Some (SET_FCSR value s)
      else None)"

definition emulate_system_opcode :: "config \<Rightarrow> u64 \<Rightarrow> u64 \<Rightarrow> u64 \<Rightarrow> hart \<Rightarrow> unit res" where
  "emulate_system_opcode c mepc mstatus insn s =
     (let rs1_num = drop_bit 15 insn AND 0x1f;
          rs1_val = GET_RS1 insn s;
          csr_num = ucast (drop_bit 20 (ucast insn :: u32)) :: u64
      in case emulate_read_csr c csr_num mstatus s of
           None \<Rightarrow> truly_illegal_insn mepc mstatus insn s
         | Some csr_val \<Rightarrow>
             let rm = GET_RM insn; do_write = (rs1_num \<noteq> 0)
             in if rm = 0 \<or> rm = 4 then truly_illegal_insn mepc mstatus insn s
                else let (new_csr_val, do_write) =
                           (if rm = 1 then (rs1_val, True)
                            else if rm = 2 then (csr_val OR rs1_val, do_write)
                            else if rm = 3 then (csr_val AND NOT rs1_val, do_write)
                            else if rm = 5 then (rs1_num, True)
                            else if rm = 6 then (csr_val OR rs1_num, do_write)
                            else (csr_val AND NOT rs1_num, do_write))
                     in if do_write
                        then case emulate_write_csr c csr_num new_csr_val s of
                               None \<Rightarrow> truly_illegal_insn mepc mstatus insn s
                             | Some s \<Rightarrow> Done () (SET_RD insn csr_val s)
                        else Done () (SET_RD insn csr_val s))"

type_synonym handler = "u64 \<Rightarrow> u64 \<Rightarrow> u64 \<Rightarrow> hart \<Rightarrow> unit res option"

definition truly_illegal :: handler where
  "truly_illegal mepc mstatus insn s = Some (truly_illegal_insn mepc mstatus insn s)"

definition illegal_insn_trap_table :: "config \<Rightarrow> softfloat \<Rightarrow> handler list" where
  "illegal_insn_trap_table c sf =
     (let ill = truly_illegal;
          fld = (if riscv_flen c then ill else (\<lambda>mepc m i s. Some (emulate_float_load c mepc m i s)));
          fst = (if riscv_flen c then ill else (\<lambda>mepc m i s. Some (emulate_float_store c mepc m i s)));
          md = (if riscv_muldiv c then ill else emulate_mul_div);
          md32 = (if riscv_muldiv c then ill else emulate_mul_div32);
          fma = (\<lambda>mepc m i s. Some (emulate_fmadd c sf mepc m i s));
          fp = (\<lambda>mepc m i s. Some (emulate_fp c sf mepc m i s));
          sys = (\<lambda>mepc m i s. Some (emulate_system_opcode c mepc m i s))
      in [ill, fld, ill, ill, ill, ill, ill, ill,
          ill, fst, ill, ill, md, ill, md32, ill,
          fma, fma, fma, fma, fp, ill, ill, ill,
          ill, ill, ill, ill, sys, ill, ill, ill])"

definition illegal_insn_trap :: "config \<Rightarrow> softfloat \<Rightarrow> u64 \<Rightarrow> hart \<Rightarrow> unit res option" where
  "illegal_insn_trap c sf mepc s0 =
     (let dispatch = (\<lambda>mstatus insn s.
            (illegal_insn_trap_table c sf ! (unat (insn AND 0x7c) div 4))
              mepc mstatus insn (write_csr Mepc (mepc + 4) s));
          mstatus = read_csr Mstatus s0;
          insn = read_csr Mbadaddr s0
      in if insn AND 3 \<noteq> 3
         then case (if insn = 0 then get_insn mepc s0 else Done (insn, mstatus) s0) of
                Redirected s \<Rightarrow> Some (Redirected s)
              | Died s \<Rightarrow> Some (Died s)
              | Done (insn, mstatus) s \<Rightarrow>
                  if insn AND 3 \<noteq> 3 then Some (emulate_rvc c mepc mstatus insn s)
                  else dispatch mstatus insn s
         else dispatch mstatus insn s0)"

section \<open>CSR instructions\<close>

lemma write_csr_frame: "emulate_write_csr c num v s = Some s' \<Longrightarrow>
    gpr s' = gpr s \<and> fpr s' = fpr s \<and> mem s' = mem s \<and> mtime s' = mtime s"
  by (auto simp: emulate_write_csr_def SET_FRM_def SET_FFLAGS_def SET_FCSR_def split: if_splits)

definition csr_num :: "u64 \<Rightarrow> u64" where
  "csr_num insn = ucast (drop_bit 20 (ucast insn :: u32))"

text \<open>
  What the instruction set says of a CSR instruction: the register a CSR number stands for, with the first bit and the
  number of bits of it (\<open>cycle\<close> and \<open>instret\<close> are views of the machine's counters, \<open>fflags\<close> and \<open>frm\<close> are fields of
  \<open>fcsr\<close>); the new value, from the old one and a register or an immediate; and when the CSR is written at all.
\<close>

definition csr_view :: "u64 \<Rightarrow> (csr \<times> nat \<times> nat) option" where
  "csr_view num = map_of
     [(0xc00, Mcycle, 0, 64), (0xc02, Minstret, 0, 64), (0xb03, Mhpmcounter3, 0, 64), (0xb04, Mhpmcounter4, 0, 64),
      (0x323, Mhpmevent3, 0, 64), (0x324, Mhpmevent4, 0, 64), (1, Fcsr, 0, 5), (2, Fcsr, 5, 3), (3, Fcsr, 0, 8)] num"

definition csr_new :: "u64 \<Rightarrow> hart \<Rightarrow> u64 \<Rightarrow> u64" where
  "csr_new insn s v =
     (let operand = (if GET_RM insn AND 4 \<noteq> 0 then drop_bit 15 insn AND 0x1f else GET_RS1 insn s); op = GET_RM insn AND 3
      in if op = 1 then operand else if op = 2 then v OR operand else v AND NOT operand)"

definition csr_writes :: "u64 \<Rightarrow> bool" where
  "csr_writes insn \<longleftrightarrow> GET_RM insn AND 3 = 1 \<or> drop_bit 15 insn AND 0x1f \<noteq> 0"

lemma GET_RM_cases: "GET_RM insn \<in> {0, 1, 2, 3, 4, 5, 6, 7}"
proof -
  have "GET_RM insn \<le> 7" unfolding GET_RM_def by (rule word_and_le1)
  then have "unat (GET_RM insn) \<le> 7" by (simp add: word_le_nat_alt)
  then have "unat (GET_RM insn) \<in> {0, 1, 2, 3, 4, 5, 6, 7}" by auto
  then have "of_nat (unat (GET_RM insn)) \<in> {0, 1, 2, 3, 4, 5, 6, 7 :: u64}" by (elim insertE emptyE) simp_all
  then show ?thesis by simp
qed

lemma system_opcode_cases:
  assumes "emulate_system_opcode c mepc mstatus insn s = Done () s'"
  obtains v where "emulate_read_csr c (csr_num insn) mstatus s = Some v" "\<not> csr_writes insn" "s' = SET_RD insn v s"
  | v t where "emulate_read_csr c (csr_num insn) mstatus s = Some v" "csr_writes insn"
      "emulate_write_csr c (csr_num insn) (csr_new insn s v) s = Some t" "s' = SET_RD insn v t"
  using assms GET_RM_cases [of insn]
  by (auto simp: emulate_system_opcode_def truly_illegal_insn_def csr_num_def csr_new_def csr_writes_def Let_def
      split: option.splits if_splits prod.splits)

lemma bit_low_mask: "bit (0x1F :: int) i \<longleftrightarrow> i < 5" "bit (0xFF :: int) i \<longleftrightarrow> i < 8" "bit (0xE0 :: int) i \<longleftrightarrow> 5 \<le> i \<and> i < 8"
proof -
  have "(0x1F :: int) = mask 5" "(0xFF :: int) = mask 8" "(0xE0 :: int) = push_bit 5 (mask 3)" by (simp_all add: mask_eq_exp_minus_1)
  then show "bit (0x1F :: int) i \<longleftrightarrow> i < 5" "bit (0xFF :: int) i \<longleftrightarrow> i < 8" "bit (0xE0 :: int) i \<longleftrightarrow> 5 \<le> i \<and> i < 8"
    by (auto simp only: bit_mask_iff bit_push_bit_iff possible_bit_int)
qed

text \<open>The write of one CSR, bit by bit.\<close>

lemma write_csr_bits:
  assumes "emulate_write_csr c num v s = Some t"
  obtains r p w where "csr_view num = Some (r, p, w)"
    "\<And>q. q \<noteq> Mstatus \<Longrightarrow> q \<noteq> r \<Longrightarrow> csrs t q = csrs s q"
    "\<And>i. i < (if r = Fcsr then 8 else 64) \<Longrightarrow> bit (csrs t r) i = (if p \<le> i \<and> i < p + w then bit v (i - p) else bit (csrs s r) i)"
    "csrs t Mstatus = (if r = Fcsr then csrs s Mstatus OR 0x6000 else csrs s Mstatus)"
proof -
  consider (plain) r where "csr_view num = Some (r, 0, 64)" "t = write_csr r v s" "r \<noteq> Fcsr" "r \<noteq> Mstatus"
    | (frm) "num = 2" "t = SET_FRM v s" | (fflags) "num = 1" "t = SET_FFLAGS v s" | (fcsr) "num = 3" "t = SET_FCSR v s"
    using assms by (auto simp: emulate_write_csr_def csr_view_def split: if_splits)
  then show thesis
  proof cases
    case plain
    then show thesis by (intro that [of r 0 64]) auto
  next
    case frm
    show thesis by (rule that [of Fcsr 5 3])
      (auto simp: frm csr_view_def SET_FRM_def SET_FCSR_def GET_FFLAGS_def GET_FCSR_def bit_simps bit_low_mask)
  next
    case fflags
    show thesis by (rule that [of Fcsr 0 5])
      (auto simp: fflags csr_view_def SET_FFLAGS_def SET_FCSR_def GET_FRM_def GET_FCSR_def bit_simps bit_low_mask)
  next
    case fcsr
    show thesis by (rule that [of Fcsr 0 8]) (auto simp: fcsr csr_view_def SET_FCSR_def bit_simps bit_low_mask)
  qed
qed

text \<open>
  C22. An emulated CSR instruction does to the machine exactly what the instruction set says: the destination register
  gets the value read; when the instruction writes, the bits of the register that the CSR number stands for get the new value
  (the operand, or the old value with the operand's bits set or cleared); all other bits of it and all other CSRs
  stay as they were, but for the floating-point state, which a write of a floating-point CSR marks dirty in
  \<open>mstatus\<close>; memory, the floating-point registers and the other integer registers are unchanged. (Of the register
  that holds \<open>fcsr\<close> only the low eight bits mean anything.)
\<close>

theorem system_opcode_confined:
  assumes "emulate_system_opcode c mepc mstatus insn s = Done () s'"
  shows "\<exists>v. emulate_read_csr c (csr_num insn) mstatus s = Some v \<and> gpr s' = (gpr s)(GET_REG insn 7 := v) \<and>
    mem s' = mem s \<and> fpr s' = fpr s \<and> mtime s' = mtime s \<and>
    (\<forall>r i. r \<noteq> Mstatus \<and> i < (if r = Fcsr then 8 else 64) \<longrightarrow> bit (csrs s' r) i =
       (case csr_view (csr_num insn) of
          Some (q, p, w) \<Rightarrow> if csr_writes insn \<and> r = q \<and> p \<le> i \<and> i < p + w then bit (csr_new insn s v) (i - p) else bit (csrs s r) i
        | None \<Rightarrow> bit (csrs s r) i)) \<and>
    csrs s' Mstatus = (if csr_writes insn \<and> csr_num insn \<in> {1, 2, 3} then csrs s Mstatus OR 0x6000 else csrs s Mstatus)"
  using assms
proof (cases rule: system_opcode_cases)
  case (1 v)
  then show ?thesis by (auto split: option.split prod.split)
next
  case (2 v t)
  obtain q p w where w: "csr_view (csr_num insn) = Some (q, p, w)"
    "\<And>r. r \<noteq> Mstatus \<Longrightarrow> r \<noteq> q \<Longrightarrow> csrs t r = csrs s r"
    "\<And>i. i < (if q = Fcsr then 8 else 64) \<Longrightarrow> bit (csrs t q) i = (if p \<le> i \<and> i < p + w then bit (csr_new insn s v) (i - p) else bit (csrs s q) i)"
    "csrs t Mstatus = (if q = Fcsr then csrs s Mstatus OR 0x6000 else csrs s Mstatus)"
    by (rule write_csr_bits [OF 2(3)]) (rule that)
  have "q = Fcsr \<longleftrightarrow> csr_num insn \<in> {1, 2, 3}" using w(1) by (auto simp: csr_view_def split: if_splits)
  then have m: "csrs t Mstatus = (if csr_num insn \<in> {1, 2, 3} then csrs s Mstatus OR 0x6000 else csrs s Mstatus)" using w(4) by simp
  have b: "bit (csrs t r) i = (if r = q \<and> p \<le> i \<and> i < p + w then bit (csr_new insn s v) (i - p) else bit (csrs s r) i)"
    if "r \<noteq> Mstatus" "i < (if r = Fcsr then 8 else 64)" for r i
  proof (cases "r = q")
    case True
    with w(3) [of i] that(2) show ?thesis by simp
  next
    case False
    with w(2) [OF that(1) False] show ?thesis by simp
  qed
  have t: "gpr t = gpr s" "fpr t = fpr s" "mem t = mem s" "mtime t = mtime s" using write_csr_frame [OF 2(3)] by simp_all
  show ?thesis
    unfolding 2(4) by (intro exI [of _ v] conjI allI impI) (simp_all add: 2(1,2) w(1) m t b del: insert_iff)
qed

definition demo_user :: hart where
  "demo_user = \<lparr>gpr = (\<lambda>r. if r = 11 then 7 else 0), fpr = (\<lambda>_. 0),
     csrs = (\<lambda>r. if r = Mcycle then 1234 else 0), mtime = 99, mem = Map.empty\<rparr>"

lemma demo_csrrw:
  "emulate_system_opcode \<lparr>riscv_flen = True, riscv_muldiv = True\<rparr> 0x1000 0 0x32359573 demo_user =
     Done () (SET_RD 0x32359573 0 (write_csr Mhpmevent3 7 demo_user))"
proof -
  have "csrs demo_user Mhpmevent3 = 0" "GET_RS1 0x32359573 demo_user = 7" "GET_RM 0x32359573 = 1"
    "ucast (drop_bit 20 (ucast (0x32359573 :: u64) :: u32)) = (0x323 :: u64)" by code_simp+
  then show ?thesis
    by (simp add: emulate_system_opcode_def emulate_read_csr_def emulate_write_csr_def)
qed

theorem system_opcode_confined_witness:
  "gpr (SET_RD 0x32359573 0 (write_csr Mhpmevent3 7 demo_user)) 10 = 0 \<and>
   bit (csrs (SET_RD 0x32359573 0 (write_csr Mhpmevent3 7 demo_user)) Mhpmevent3) 1"
proof -
  have d: "GET_REG 0x32359573 7 = 10" "csr_num 0x32359573 = 0x323" "csr_writes 0x32359573" "csr_view 0x323 = Some (Mhpmevent3, 0, 64)" by code_simp+
  have v: "emulate_read_csr \<lparr>riscv_flen = True, riscv_muldiv = True\<rparr> 0x323 0 demo_user = Some 0" by code_simp
  have "bit (csr_new 0x32359573 demo_user 0) 1" by code_simp
  with system_opcode_confined [OF demo_csrrw, unfolded d v] d show ?thesis by auto
qed

text \<open>
  C20. From user mode, reading a counter (\<open>cycle\<close>, \<open>time\<close>, \<open>instret\<close>, \<open>mhpmcounter3\<close> or \<open>mhpmcounter4\<close>) is refused as an
  illegal instruction of that context unless \<open>scounteren\<close> enables the counter; no register of the context changes.
\<close>

theorem user_counter_gated:
  assumes user: "mstatus AND 0x1800 = 0"
    and num: "csr_num insn = [0xc00, 0xc01, 0xc02, 0xb03, 0xb04] ! k" "k < 5"
    and off: "\<not> bit (csrs s Scounteren) k"
  shows "\<exists>s'. emulate_system_opcode c mepc mstatus insn s = Redirected s' \<and>
    csrs s' Sepc = mepc \<and> csrs s' Sbadaddr = insn \<and> csrs s' Scause = csrs s Mcause \<and> gpr s' = gpr s"
proof -
  have one: "x AND 1 = 0 \<longleftrightarrow> \<not> bit x 0" for x :: u64 by (simp add: and_one_eq bit_0 odd_iff_mod_2_eq_one even_iff_mod_2_eq_zero)
  have "emulate_read_csr c (csr_num insn) mstatus s = None"
  proof -
    from num(2) consider "k = 0" | "k = 1" | "k = 2" | "k = 3" | "k = 4" by linarith
    then show ?thesis
      by cases (use user num(1) off in \<open>simp_all add: emulate_read_csr_def one bit_drop_bit_eq\<close>)
  qed
  then have "emulate_system_opcode c mepc mstatus insn s = truly_illegal_insn mepc mstatus insn s"
    by (simp add: emulate_system_opcode_def csr_num_def)
  then show ?thesis by (simp add: truly_illegal_insn_def redirect_trap_csrs)
qed

theorem user_counter_gated_witness:
  "\<exists>s'. emulate_system_opcode \<lparr>riscv_flen = True, riscv_muldiv = True\<rparr> 0x1000 0 0xc0102573 demo_user =
     Redirected s' \<and> csrs s' Sbadaddr = 0xc0102573"
proof -
  have "csr_num 0xc0102573 = [0xc00, 0xc01, 0xc02, 0xb03, 0xb04] ! 1" "\<not> bit (csrs demo_user Scounteren) 1" by code_simp+
  with user_counter_gated [of 0 "0xc0102573" 1 demo_user] show ?thesis by auto
qed

text \<open>
  C25. The write side has no privilege check: from user mode (previous mode 0, every counter
  disabled) a \<open>csrrw\<close> to the event selector \<open>mhpmevent3\<close>, a machine-mode CSR, succeeds and installs
  the user's value.
\<close>

theorem user_writes_mhpmevent:
  assumes "csr_num insn = 0x323" "GET_RM insn = 1"
  shows "emulate_system_opcode c mepc mstatus insn s =
    Done () (SET_RD insn (csrs s Mhpmevent3) (write_csr Mhpmevent3 (GET_RS1 insn s) s))"
  using assms by (simp add: emulate_system_opcode_def emulate_read_csr_def emulate_write_csr_def csr_num_def)

theorem user_writes_mhpmevent_witness:
  "csr_num 0x32359573 = 0x323 \<and>
   emulate_system_opcode \<lparr>riscv_flen = True, riscv_muldiv = True\<rparr> 0 0 0x32359573 demo_user =
     Done () (SET_RD 0x32359573 (csrs demo_user Mhpmevent3)
       (write_csr Mhpmevent3 (GET_RS1 0x32359573 demo_user) demo_user))"
proof -
  have "csr_num 0x32359573 = 0x323" "GET_RM 0x32359573 = 1" by code_simp+
  with user_writes_mhpmevent show ?thesis by blast
qed

section \<open>Dispatch\<close>

text \<open>The opcodes (bits 6:2) whose table entry is a handler in some build.\<close>

definition emulated_opcode :: "u64 \<Rightarrow> bool" where
  "emulated_opcode insn \<longleftrightarrow> unat (insn AND 0x7c) div 4 \<in> {1, 9, 12, 14, 16, 17, 18, 19, 20, 28}"

lemma opcode_index_lt: "unat (insn AND 0x7c :: u64) div 4 < 32"
proof -
  have "insn AND 0x7c \<le> 0x7c" by (rule word_and_le1)
  then show ?thesis by (simp add: word_le_nat_alt)
qed

lemma lt32_cases: "(n :: nat) < 32 \<Longrightarrow> n \<in> set [0..<32]"
  by simp

lemma table_not_emulated:
  "\<not> emulated_opcode insn \<Longrightarrow>
   illegal_insn_trap_table c sf ! (unat (insn AND 0x7c) div 4) = truly_illegal"
  using lt32_cases [OF opcode_index_lt [of insn]]
  by (auto simp: emulated_opcode_def illegal_insn_trap_table_def Let_def upt_rec)

text \<open>
  A 32-bit instruction whose opcode is none of the emulated ones is handed to the supervisor
  unchanged: \<open>sepc\<close> is the trapping pc, \<open>sbadaddr\<close> the instruction, \<open>scause\<close> the machine's cause, the
  interrupt enable and the privilege mode are stacked in \<open>mstatus\<close>, and the integer registers, the
  floating-point registers and memory are as they were.
\<close>

theorem illegal_insn_redirected:
  assumes "csrs s Mbadaddr AND 3 = 3" "\<not> emulated_opcode (csrs s Mbadaddr)"
  shows "\<exists>s'. illegal_insn_trap c sf mepc s = Some (Redirected s') \<and>
    csrs s' Sepc = mepc \<and> csrs s' Sbadaddr = csrs s Mbadaddr \<and> csrs s' Scause = csrs s Mcause \<and>
    csrs s' Mepc = csrs s Stvec \<and> gpr s' = gpr s \<and> fpr s' = fpr s \<and> mem s' = mem s \<and>
    (\<forall>i. bit (csrs s' Mstatus) i = (if i = 1 then False else if i = 5 then bit (csrs s Mstatus) 1
       else if i = 8 then bit (csrs s Mstatus) 11 else if i = 11 then True else bit (csrs s Mstatus) i))"
proof -
  have "illegal_insn_trap c sf mepc s = Some (Redirected
      (redirect_trap mepc (csrs s Mstatus) (csrs s Mbadaddr) (write_csr Mepc (mepc + 4) s)))"
    using assms
    by (simp add: illegal_insn_trap_def table_not_emulated truly_illegal_def truly_illegal_insn_def Let_def)
  moreover have "\<forall>i. bit (csrs (redirect_trap mepc (csrs s Mstatus) (csrs s Mbadaddr)
        (write_csr Mepc (mepc + 4) s)) Mstatus) i =
      (if i = 1 then False else if i = 5 then bit (csrs s Mstatus) 1
       else if i = 8 then bit (csrs s Mstatus) 11 else if i = 11 then True else bit (csrs s Mstatus) i)"
    by (simp only: redirect_trap_mstatus_bit simp_thms)
  ultimately show ?thesis
    by (intro exI [of _ "redirect_trap mepc (csrs s Mstatus) (csrs s Mbadaddr) (write_csr Mepc (mepc + 4) s)"])
      (simp add: redirect_trap_csrs)
qed

definition demo_ill :: hart where
  "demo_ill = \<lparr>gpr = (\<lambda>_. 0), fpr = (\<lambda>_. 0),
     csrs = (\<lambda>r. if r = Mbadaddr then 0x0000000b else if r = Mcause then 2 else 0), mtime = 0,
     mem = Map.empty\<rparr>"

theorem illegal_insn_redirected_witness:
  "\<forall>c sf. \<exists>s'. illegal_insn_trap c sf 0x4000 demo_ill = Some (Redirected s') \<and>
     csrs s' Sepc = 0x4000 \<and> csrs s' Scause = 2"
proof -
  have "csrs demo_ill Mbadaddr AND 3 = 3" "\<not> emulated_opcode (csrs demo_ill Mbadaddr)"
    "csrs demo_ill Mcause = 2" by code_simp+
  with illegal_insn_redirected [of demo_ill] show ?thesis by metis
qed

text \<open>
  A compressed floating-point load whose address is not a multiple of 8 is handed to the
  misaligned handler without its address: that handler takes the address from \<open>mbadaddr\<close>, which
  an illegal-instruction trap has set to the instruction, so the eight bytes are loaded from the
  address equal to the instruction's encoding.
\<close>

theorem rvc_misaligned_fld_address:
  assumes c: "\<not> riscv_flen c" "csrs s Mstatus AND 0x6000 \<noteq> 0"
    and insn: "csrs s Mbadaddr = insn" "insn AND 0xe003 = 0x2000"
    and mis: "(GET_RS1S insn s + RVC_LD_IMM insn) mod 8 \<noteq> 0"
    and fetch: "get_insn mepc (write_csr Mepc (mepc + 2) s) = Done (insn, m) (write_csr Mepc (mepc + 2) s)"
    and bytes: "mem_bytes 8 insn (mem s) = Some bs"
  shows "\<exists>s'. illegal_insn_trap c sf mepc s = Some (Done () s') \<and>
    fpr s' = (fpr s)(8 + field insn 2 3 := le_word bs)"
proof -
  let ?s = "write_csr Mepc (mepc + 2) s"
  have f: "field insn 0 2 = 0" "field insn 13 3 = 1" using insn(2) by (simp_all add: load_match)
  then have q: "insn AND 3 \<noteq> 3" by (auto simp: field_def mask_eq_exp_minus_1)
  have "field insn 0 7 mod 4 = 0" using f(1) by (simp add: field_0_2)
  then have "field insn 0 7 \<noteq> 3" "field insn 0 7 \<noteq> 7" by auto
  with f have isa: "isa_load insn = Some (FAccess 8 (8 + field insn 2 3))" by (simp add: isa_load_def)
  have "GET_RS1S insn ?s = GET_RS1S insn s" by (simp add: GET_RS1S_def)
  moreover have "insn \<noteq> 0" using insn(2) by auto
  ultimately have "illegal_insn_trap c sf mepc s = Some (misaligned_load_trap c mepc ?s)"
    using c insn mis q by (simp add: illegal_insn_trap_def emulate_rvc_def Let_def)
  also have "misaligned_load_trap c mepc ?s = Done () (write_csr Mepc (mepc + insn_len insn)
      (do_load c (FAccess 8 (8 + field insn 2 3)) (le_word bs) ?s))"
    by (rule misaligned_load_done [OF fetch isa]) (use bytes insn(1) in simp)
  finally show ?thesis by simp
qed

definition demo_fld :: hart where
  "demo_fld = \<lparr>gpr = (\<lambda>r. if r = 8 then 0x5001 else 0), fpr = (\<lambda>_. 0),
     csrs = (\<lambda>r. if r = Mbadaddr then 0x2008 else if r = Mstatus then 0x6000 else 0), mtime = 0,
     mem = map_of [(0x1000, 0x08), (0x1001, 0x20), (0x1002, 0), (0x1003, 0),
       (0x2008, 1), (0x2009, 2), (0x200a, 3), (0x200b, 4), (0x200c, 5), (0x200d, 6), (0x200e, 7), (0x200f, 8)]\<rparr>"

theorem rvc_misaligned_fld_address_witness:
  "\<forall>sf. \<exists>s'. illegal_insn_trap \<lparr>riscv_flen = False, riscv_muldiv = False\<rparr> sf 0x1000 demo_fld = Some (Done () s') \<and>
     fpr s' 10 = 0x0807060504030201"
proof -
  let ?s = "write_csr Mepc (0x1000 + 2) demo_fld"
  let ?c = "\<lparr>riscv_flen = False, riscv_muldiv = False\<rparr>"
  have s: "csrs demo_fld Mstatus AND 0x6000 \<noteq> 0" "csrs demo_fld Mbadaddr = 0x2008"
    "(0x2008 :: u64) AND 0xe003 = 0x2000" "(GET_RS1S 0x2008 demo_fld + RVC_LD_IMM 0x2008) mod 8 \<noteq> 0"
    "mem_bytes 8 0x2008 (mem demo_fld) = Some [1, 2, 3, 4, 5, 6, 7, 8]" "field 0x2008 2 3 = 2"
    by code_simp+
  have f: "mem_bytes 4 0x1000 (mem demo_fld) = Some [0x08, 0x20, 0, 0]" by code_simp
  have "get_insn 0x1000 ?s = Done (0x2008, csrs demo_fld Mstatus) ?s"
    by (simp add: get_insn_def uload_def f)
  from rvc_misaligned_fld_address [of ?c demo_fld "0x2008" "0x1000", OF _ s(1-4) this s(5)] s(6)
  show ?thesis by fastforce
qed

end
