(* ===== verification/Cstring.thy ===== *)
theory Cstring
  imports Prelude
begin

text \<open>
  The string and memory routines of the firmware (\<open>pk/util/string.c\<close>) over a byte memory indexed
  by address. Pointer arithmetic does not wrap in C, so addresses are naturals. A scan for a NUL
  that is not there does not return: those loops are partial functions, and \<open>cstr\<close> says that a
  NUL-terminated string is stored at an address. The theorems give each routine its value and
  show that it returns.
\<close>

section \<open>Model\<close>

type_synonym bmem = "nat \<Rightarrow> u8"

definition copy8 :: "nat \<Rightarrow> nat \<Rightarrow> bmem \<Rightarrow> bmem" where
  "copy8 d s m = (\<lambda>a. if d \<le> a \<and> a < d + 8 then m (s + (a - d)) else m a)"

function memcpy_words :: "bmem \<Rightarrow> nat \<Rightarrow> nat \<Rightarrow> nat \<Rightarrow> bmem \<times> nat \<times> nat" where
  "memcpy_words m d s e = (if d < e then memcpy_words (copy8 d s m) (d + 8) (s + 8) e else (m, d, s))"
  by pat_completeness auto
termination by (relation "measure (\<lambda>(m, d, s, e). e - d)") auto

function memcpy_bytes :: "bmem \<Rightarrow> nat \<Rightarrow> nat \<Rightarrow> nat \<Rightarrow> bmem" where
  "memcpy_bytes m d s e = (if d < e then memcpy_bytes (m(d := m s)) (d + 1) (s + 1) e else m)"
  by pat_completeness auto
termination by (relation "measure (\<lambda>(m, d, s, e). e - d)") auto

definition memcpy :: "nat \<Rightarrow> nat \<Rightarrow> nat \<Rightarrow> bmem \<Rightarrow> bmem" where
  "memcpy dest src len m =
     (let (m, d, s) = (if (dest OR src) AND 7 = 0 then memcpy_words m dest src (dest + len - 7)
                       else (m, dest, src))
      in memcpy_bytes m d s (dest + len))"

definition store8 :: "nat \<Rightarrow> u64 \<Rightarrow> bmem \<Rightarrow> bmem" where
  "store8 d w m = (\<lambda>a. if d \<le> a \<and> a < d + 8 then ucast (drop_bit (8 * (a - d)) w) else m a)"

function memset_words :: "bmem \<Rightarrow> nat \<Rightarrow> u64 \<Rightarrow> nat \<Rightarrow> bmem" where
  "memset_words m d w e = (if d < e then memset_words (store8 d w m) (d + 8) w e else m)"
  by pat_completeness auto
termination by (relation "measure (\<lambda>(m, d, w, e). e - d)") auto

function memset_bytes :: "bmem \<Rightarrow> nat \<Rightarrow> u8 \<Rightarrow> nat \<Rightarrow> bmem" where
  "memset_bytes m d b e = (if d < e then memset_bytes (m(d := b)) (d + 1) b e else m)"
  by pat_completeness auto
termination by (relation "measure (\<lambda>(m, d, b, e). e - d)") auto

definition memset :: "nat \<Rightarrow> u32 \<Rightarrow> nat \<Rightarrow> bmem \<Rightarrow> bmem" where
  "memset dest byte len m =
     (if (dest OR len) AND 7 = 0
      then let w0 = ucast (byte AND 0xFF) :: u64;
               w1 = w0 OR push_bit 8 w0;
               w2 = w1 OR push_bit 16 w1;
               w3 = w2 OR push_bit 16 (push_bit 16 w2)
           in memset_words m dest w3 (dest + len)
      else memset_bytes m dest (ucast byte) (dest + len))"

partial_function (option) strlen_loop :: "bmem \<Rightarrow> nat \<Rightarrow> nat option" where
  "strlen_loop m p = (if m p = 0 then Some p else strlen_loop m (p + 1))"

definition strlen :: "bmem \<Rightarrow> nat \<Rightarrow> nat option" where
  "strlen m s = map_option (\<lambda>p. p - s) (strlen_loop m s)"

partial_function (option) strcmp :: "bmem \<Rightarrow> nat \<Rightarrow> nat \<Rightarrow> int option" where
  "strcmp m s1 s2 =
     (let c1 = m s1; c2 = m s2
      in if c1 \<noteq> 0 \<and> c1 = c2 then strcmp m (s1 + 1) (s2 + 1) else Some (uint c1 - uint c2))"

partial_function (option) strcpy :: "bmem \<Rightarrow> nat \<Rightarrow> nat \<Rightarrow> bmem option" where
  "strcpy m d src =
     (let m' = m(d := m src) in if m' d = 0 then Some m' else strcpy m' (d + 1) (src + 1))"

text \<open>\<open>atol\<close> over the characters of a string; \<open>None\<close> when the accumulator overflows a \<open>long\<close>.\<close>

definition c_long :: "int \<Rightarrow> int option" where
  "c_long x = (if - (2 ^ 63) \<le> x \<and> x < 2 ^ 63 then Some x else None)"

fun skip_spaces :: "string \<Rightarrow> string" where
  "skip_spaces (c # s) = (if c = CHR '' '' then skip_spaces s else c # s)"
| "skip_spaces [] = []"

fun atol_digits :: "string \<Rightarrow> int \<Rightarrow> int option" where
  "atol_digits [] res = Some res"
| "atol_digits (c # s) res =
     (case c_long (res * 10) of None \<Rightarrow> None
      | Some r \<Rightarrow> (case c_long (r + (int (of_char c) - 48)) of None \<Rightarrow> None | Some r \<Rightarrow> atol_digits s r))"

definition atol :: "string \<Rightarrow> int option" where
  "atol str =
     (case skip_spaces str of
        [] \<Rightarrow> Some 0
      | c # s \<Rightarrow>
          if c = CHR ''-'' \<or> c = CHR ''+''
          then map_option (\<lambda>res. if c = CHR ''-'' then - res else res) (atol_digits s 0)
          else atol_digits (c # s) 0)"

section \<open>Copying and filling\<close>

definition copied :: "nat \<Rightarrow> nat \<Rightarrow> nat \<Rightarrow> bmem \<Rightarrow> bmem" where
  "copied dest src k m = (\<lambda>a. if dest \<le> a \<and> a < dest + k then m (src + (a - dest)) else m a)"

definition disjoint_ranges :: "nat \<Rightarrow> nat \<Rightarrow> nat \<Rightarrow> bool" where
  "disjoint_ranges dest src len \<longleftrightarrow> dest + len \<le> src \<or> src + len \<le> dest"

lemma copied_0 [simp]: "copied dest src 0 m = m"
  by (auto simp: copied_def fun_eq_iff)

lemma copied_step:
  assumes "disjoint_ranges dest src len" "k < len"
  shows "(copied dest src k m)(dest + k := copied dest src k m (src + k)) = copied dest src (k + 1) m"
  using assms by (auto simp: copied_def fun_eq_iff disjoint_ranges_def)

lemma copied_step8:
  assumes "disjoint_ranges dest src len" "k + 8 \<le> len"
  shows "copy8 (dest + k) (src + k) (copied dest src k m) = copied dest src (k + 8) m"
  using assms by (auto simp: copied_def copy8_def fun_eq_iff disjoint_ranges_def)

declare memcpy_words.simps [simp del] memcpy_bytes.simps [simp del] memset_words.simps [simp del]
  memset_bytes.simps [simp del]

lemma memcpy_bytes_copied:
  assumes "disjoint_ranges dest src len" "k \<le> len"
  shows "memcpy_bytes (copied dest src k m) (dest + k) (src + k) (dest + len) = copied dest src len m"
  using assms(2)
proof (induction "len - k" arbitrary: k)
  case 0
  then show ?case by (simp add: memcpy_bytes.simps)
next
  case (Suc n)
  then have "memcpy_bytes (copied dest src (k + 1) m) (dest + (k + 1)) (src + (k + 1)) (dest + len) =
      copied dest src len m" by (intro Suc.hyps(1)) auto
  with Suc show ?case
    by (subst memcpy_bytes.simps) (simp add: copied_step [OF assms(1), simplified] add.assoc)
qed

lemma memcpy_words_copied:
  assumes "disjoint_ranges dest src len" "k \<le> len"
  shows "\<exists>k'. memcpy_words (copied dest src k m) (dest + k) (src + k) (dest + len - 7) =
    (copied dest src k' m, dest + k', src + k') \<and> k' \<le> len"
  using assms(2)
proof (induction "len - k" arbitrary: k rule: less_induct)
  case less
  show ?case
  proof (cases "dest + k < dest + len - 7")
    case True
    then have k8: "k + 8 \<le> len" by auto
    with less.hyps [of "k + 8"] True show ?thesis
      by (subst memcpy_words.simps) (simp add: copied_step8 [OF assms(1)] add.assoc)
  next
    case False
    with less.prems show ?thesis by (subst memcpy_words.simps) auto
  qed
qed

lemma memcpy_copied:
  assumes "disjoint_ranges dest src len"
  shows "memcpy dest src len m = copied dest src len m"
proof -
  obtain k where "memcpy_words m dest src (dest + len - 7) = (copied dest src k m, dest + k, src + k)"
      "k \<le> len"
    using memcpy_words_copied [OF assms, of 0 m] by auto
  then show ?thesis
    using memcpy_bytes_copied [OF assms, of 0 m] memcpy_bytes_copied [OF assms, of k m]
    by (simp add: memcpy_def)
qed

text \<open>
  C29. \<open>memcpy\<close> of two ranges that do not overlap copies exactly the \<open>len\<close> bytes, on the word path
  of aligned pointers as on the byte path, and changes no other byte.
\<close>

theorem memcpy_copies:
  assumes "disjoint_ranges dest src len"
  shows "memcpy dest src len m =
    (\<lambda>a. if dest \<le> a \<and> a < dest + len then m (src + (a - dest)) else m a)"
  unfolding memcpy_copied [OF assms] copied_def ..

theorem memcpy_copies_witness:
  "memcpy 64 16 11 (\<lambda>a. of_nat a) 74 = 26 \<and> memcpy 64 16 11 (\<lambda>a. of_nat a) 75 = 75"
proof -
  have "disjoint_ranges 64 16 11" by (simp add: disjoint_ranges_def)
  from memcpy_copies [OF this] show ?thesis by simp
qed

definition filled :: "nat \<Rightarrow> u8 \<Rightarrow> nat \<Rightarrow> bmem \<Rightarrow> bmem" where
  "filled dest b k m = (\<lambda>a. if dest \<le> a \<and> a < dest + k then b else m a)"

lemma filled_0 [simp]: "filled dest b 0 m = m"
  by (auto simp: filled_def fun_eq_iff)

lemma memset_bytes_filled:
  "k \<le> len \<Longrightarrow> memset_bytes (filled dest b k m) (dest + k) b (dest + len) = filled dest b len m"
proof (induction "len - k" arbitrary: k)
  case 0
  then show ?case by (simp add: memset_bytes.simps)
next
  case (Suc n)
  then have "memset_bytes (filled dest b (k + 1) m) (dest + (k + 1)) b (dest + len) = filled dest b len m"
    by (intro Suc.hyps(1)) auto
  moreover have "(filled dest b k m)(dest + k := b) = filled dest b (k + 1) m"
    by (auto simp: filled_def fun_eq_iff)
  ultimately show ?case using Suc by (subst memset_bytes.simps) simp
qed

text \<open>The replicated word holds the byte in each of its eight positions.\<close>

lemma replicate_step:
  fixes w :: u64
  assumes "\<And>j. bit w j \<longleftrightarrow> j < p \<and> bit (b :: u8) (j mod 8)" "p mod 8 = 0" "2 * p \<le> 64"
  shows "bit (w OR push_bit p w) j \<longleftrightarrow> j < 2 * p \<and> bit b (j mod 8)"
proof -
  have mod: "(j - p) mod 8 = j mod 8" if "p \<le> j"
    using that assms(2) by (metis add.right_neutral le_add_diff_inverse2 mod_add_right_eq)
  have "bit (w OR push_bit p w) j \<longleftrightarrow> bit w j \<or> j < 64 \<and> p \<le> j \<and> bit w (j - p)"
    by (simp add: bit_or_iff bit_push_bit_iff) blast
  also have "\<dots> \<longleftrightarrow> j < p \<and> bit b (j mod 8) \<or> j < 64 \<and> p \<le> j \<and> j - p < p \<and> bit b (j mod 8)"
    unfolding assms(1) using mod by metis
  also have "\<dots> \<longleftrightarrow> j < 2 * p \<and> bit b (j mod 8)" using assms(3) by auto
  finally show ?thesis .
qed

lemma replicated_byte:
  fixes w :: u64
  defines "w1 \<equiv> w OR push_bit 8 w"
  defines "w2 \<equiv> w1 OR push_bit 16 w1"
  assumes w: "w = ucast (b :: u8)" and i: "i < 8"
  shows "ucast (drop_bit (8 * i) (w2 OR push_bit 16 (push_bit 16 w2))) = b"
proof -
  have w0: "bit w j \<longleftrightarrow> j < 8 \<and> bit b (j mod 8)" for j
    using bit_imp_le_length [of b j] by (auto simp: w bit_ucast_iff)
  have "bit w1 j \<longleftrightarrow> j < 16 \<and> bit b (j mod 8)" for j
    using replicate_step [OF w0] by (simp add: w1_def)
  then have "bit w2 j \<longleftrightarrow> j < 32 \<and> bit b (j mod 8)" for j
    using replicate_step [of w1 16 b] by (simp add: w2_def)
  then have w3: "bit (w2 OR push_bit 32 w2) j \<longleftrightarrow> j < 64 \<and> bit b (j mod 8)" for j
    using replicate_step [of w2 32 b] by simp
  have "push_bit 16 (push_bit 16 w2) = push_bit 32 w2" by (simp add: push_bit_push_bit)
  then show ?thesis
    using i by (intro bit_word_eqI) (simp only: bit_ucast_iff bit_drop_bit_eq comp_apply w3, simp)
qed

lemma memset_words_filled:
  assumes w: "\<And>i. i < 8 \<Longrightarrow> ucast (drop_bit (8 * i) w) = b"
  shows "k \<le> n \<Longrightarrow> memset_words (filled dest b (8 * k) m) (dest + 8 * k) w (dest + 8 * n) =
    filled dest b (8 * n) m"
proof (induction "n - k" arbitrary: k)
  case 0
  then show ?case by (simp add: memset_words.simps)
next
  case (Suc j)
  then have "memset_words (filled dest b (8 * (k + 1)) m) (dest + 8 * (k + 1)) w (dest + 8 * n) =
      filled dest b (8 * n) m" by (intro Suc.hyps(1)) auto
  moreover have "store8 (dest + 8 * k) w (filled dest b (8 * k) m) = filled dest b (8 * (k + 1)) m"
    using w by (auto simp: filled_def store8_def fun_eq_iff)
  ultimately show ?case using Suc.hyps(2) by (subst memset_words.simps) (auto simp: ac_simps)
qed

text \<open>
  \<open>memset\<close> sets exactly the \<open>len\<close> bytes to the low byte of its argument, on the word path of an
  aligned pointer and length as on the byte path.
\<close>

theorem memset_fills:
  "memset dest byte len m = (\<lambda>a. if dest \<le> a \<and> a < dest + len then ucast byte else m a)"
proof (cases "(dest OR len) AND 7 = 0")
  case True
  have m7: "x AND 7 = x mod 8" for x :: nat
  proof -
    have "(7 :: nat) = mask 3" by (simp add: mask_eq_exp_minus_1)
    then show ?thesis using take_bit_eq_mask [of 3 x] by (simp add: take_bit_eq_mod)
  qed
  have "len AND 7 = 0"
  proof (rule bit_eqI)
    fix n
    have "\<not> bit ((dest OR len) AND 7) n" unfolding True by simp
    then show "bit (len AND 7) n \<longleftrightarrow> bit 0 n" unfolding bit_and_iff bit_or_iff by auto
  qed
  then obtain n where n: "len = 8 * n" by (auto simp: m7)
  have b: "(ucast (byte AND 0xFF) :: u64) = ucast (ucast byte :: u8)"
  proof -
    have m: "(0xFF :: u32) = mask 8" by (simp add: mask_eq_exp_minus_1)
    show ?thesis unfolding m by (intro bit_word_eqI) (auto simp: bit_simps)
  qed
  show ?thesis
    using memset_words_filled [OF replicated_byte [OF b], of 0 n dest m] True
    by (simp add: memset_def n filled_def [of _ _ "8 * n"] Let_def)
next
  case False
  then show ?thesis
    using memset_bytes_filled [of 0 len dest "ucast byte" m]
    by (simp add: memset_def filled_def [of _ _ len])
qed

section \<open>NUL-terminated strings\<close>

definition cstr :: "bmem \<Rightarrow> nat \<Rightarrow> u8 list \<Rightarrow> bool" where
  "cstr m p xs \<longleftrightarrow> (\<forall>i<length xs. m (p + i) = xs ! i) \<and> 0 \<notin> set xs \<and> m (p + length xs) = 0"

lemma cstr_Nil: "cstr m p [] \<longleftrightarrow> m p = 0"
  by (simp add: cstr_def)

lemma cstr_Cons: "cstr m p (x # xs) \<longleftrightarrow> m p = x \<and> x \<noteq> 0 \<and> cstr m (p + 1) xs"
proof -
  have "(\<forall>i<length (x # xs). m (p + i) = (x # xs) ! i) \<longleftrightarrow>
      m p = x \<and> (\<forall>i<length xs. m (p + 1 + i) = xs ! i)"
    by (simp add: All_less_Suc2)
  then show ?thesis by (auto simp: cstr_def)
qed

lemma strlen_loop_cstr: "cstr m p xs \<Longrightarrow> strlen_loop m p = Some (p + length xs)"
proof (induction xs arbitrary: p)
  case Nil
  then show ?case by (subst strlen_loop.simps) (simp add: cstr_Nil)
next
  case (Cons x xs)
  then show ?case by (subst strlen_loop.simps) (simp add: cstr_Cons)
qed

text \<open>The numeric order \<open>strcmp\<close> reports, on the bytes of two strings.\<close>

fun byte_order :: "u8 list \<Rightarrow> u8 list \<Rightarrow> int" where
  "byte_order [] [] = 0"
| "byte_order [] (y # ys) = - uint y"
| "byte_order (x # xs) [] = uint x"
| "byte_order (x # xs) (y # ys) = (if x = y then byte_order xs ys else uint x - uint y)"

lemma strcmp_cstr: "cstr m p xs \<Longrightarrow> cstr m q ys \<Longrightarrow> strcmp m p q = Some (byte_order xs ys)"
proof (induction xs ys arbitrary: p q rule: byte_order.induct)
  case 1
  then show ?case by (subst strcmp.simps) (simp add: cstr_Nil)
next
  case 2
  then show ?case by (subst strcmp.simps) (simp add: cstr_Nil cstr_Cons)
next
  case 3
  then show ?case by (subst strcmp.simps) (simp add: cstr_Nil cstr_Cons)
next
  case (4 x xs y ys)
  then show ?case by (subst strcmp.simps) (auto simp: cstr_Cons)
qed

lemma uint_diff:
  "uint x = uint y \<longleftrightarrow> x = (y :: u8)" "uint x < uint y \<longleftrightarrow> x < y"
  "0 < uint y \<longleftrightarrow> y \<noteq> 0"
  using uint_ge_0 [of y] unsigned_eq_0_iff [of y, where 'a = int]
  by (simp_all add: word_uint_eq_iff word_less_def order_less_le)

lemma byte_order_0: "0 \<notin> set xs \<Longrightarrow> 0 \<notin> set ys \<Longrightarrow> byte_order xs ys = 0 \<longleftrightarrow> xs = ys"
proof (induction xs ys rule: byte_order.induct)
  case (4 x xs y ys)
  then show ?case by (simp only: byte_order.simps split: if_split) (simp add: uint_diff)
qed (simp_all add: uint_diff unsigned_eq_0_iff)

lemma byte_order_neg:
  "0 \<notin> set xs \<Longrightarrow> 0 \<notin> set ys \<Longrightarrow> byte_order xs ys < 0 \<longleftrightarrow> ord.lexordp (<) xs ys"
proof (induction xs ys rule: byte_order.induct)
  case (4 x xs y ys)
  then show ?case
    by (simp only: byte_order.simps ord.lexordp_simps split: if_split) (auto simp: uint_diff)
qed (simp_all add: uint_diff ord.lexordp_simps)

text \<open>
  On two NUL-terminated strings \<open>strcmp\<close> returns, its result is 0 exactly when they are equal,
  and it is negative exactly when the first comes before the second in the lexicographic order of
  unsigned bytes.
\<close>

theorem strcmp_decides:
  assumes "cstr m p xs" "cstr m q ys"
  shows "\<exists>r. strcmp m p q = Some r \<and> (r = 0 \<longleftrightarrow> xs = ys) \<and> (r < 0 \<longleftrightarrow> ord.lexordp (<) xs ys)"
proof -
  have "0 \<notin> set xs" "0 \<notin> set ys" using assms by (simp_all add: cstr_def)
  with strcmp_cstr [OF assms] byte_order_0 byte_order_neg show ?thesis by blast
qed

theorem strcmp_decides_witness:
  "\<exists>r. strcmp (\<lambda>a. [104, 105, 0, 104, 106, 0] ! a) 0 3 = Some r \<and> r < 0"
proof -
  let ?m = "\<lambda>a. [104, 105, 0, 104, 106, 0 :: u8] ! a"
  have "cstr ?m 0 [104, 105]" "cstr ?m 3 [104, 106]"
    by (simp_all add: cstr_Cons cstr_Nil)
  from strcmp_decides [OF this] show ?thesis by (auto simp: ord.lexordp_simps)
qed

lemma cstr_frame: "cstr m p xs \<Longrightarrow> (\<And>i. i \<le> length xs \<Longrightarrow> m' (p + i) = m (p + i)) \<Longrightarrow> cstr m' p xs"
  by (auto simp: cstr_def)

lemma strcpy_cstr:
  "cstr m src xs \<Longrightarrow> disjoint_ranges d src (length xs + 1) \<Longrightarrow>
   strcpy m d src = Some (copied d src (length xs + 1) m)"
proof (induction xs arbitrary: m d src)
  case Nil
  then have "m(d := m src) = copied d src 1 m"
    by (auto simp: copied_def fun_eq_iff)
  with Nil show ?case
    by (subst strcpy.simps) (simp add: cstr_Nil copied_def Let_def disjoint_ranges_def)
next
  case (Cons x xs)
  let ?m = "m(d := m src)"
  have dis: "disjoint_ranges (d + 1) (src + 1) (length xs + 1)" and
    d: "d + (length xs + 2) \<le> src \<or> src + (length xs + 2) \<le> d"
    using Cons.prems(2) by (auto simp: disjoint_ranges_def)
  have "cstr ?m (src + 1) xs"
    by (rule cstr_frame [of m]) (use Cons.prems d in \<open>auto simp: cstr_Cons\<close>)
  from Cons.IH [OF this dis]
  have "strcpy ?m (d + 1) (src + 1) = Some (copied (d + 1) (src + 1) (length xs + 1) ?m)" .
  also have "copied (d + 1) (src + 1) (length xs + 1) ?m = copied d src (length (x # xs) + 1) m"
    using d by (auto simp: copied_def fun_eq_iff Suc_diff_le le_Suc_eq not_less_eq_eq
        dest: le_antisym split: nat_diff_split)
  finally show ?case
    using Cons.prems(1) by (subst strcpy.simps) (auto simp: cstr_Cons fun_upd_def)
qed

text \<open>
  \<open>strlen\<close> of a NUL-terminated string returns its length, and \<open>strcpy\<close> of one to a range that
  does not overlap it returns a memory in which exactly the string and its NUL have been copied.
\<close>

theorem strlen_strcpy_correct:
  assumes "cstr m src xs"
  shows "strlen m src = Some (length xs) \<and>
    (disjoint_ranges d src (length xs + 1) \<longrightarrow>
       (\<exists>m'. strcpy m d src = Some m' \<and> cstr m' d xs \<and>
          (\<forall>a. \<not> (d \<le> a \<and> a \<le> d + length xs) \<longrightarrow> m' a = m a)))"
  using strlen_loop_cstr [OF assms] strcpy_cstr [OF assms, of d] assms
  by (auto simp: strlen_def copied_def cstr_def)

theorem strlen_strcpy_correct_witness:
  "strlen (\<lambda>a. [104, 105, 0, 7, 7, 7] ! a) 0 = Some 2 \<and>
   (\<exists>m'. strcpy (\<lambda>a. [104, 105, 0, 7, 7, 7] ! a) 3 0 = Some m' \<and> cstr m' 3 [104, 105])"
proof -
  let ?m = "\<lambda>a. [104, 105, 0, 7, 7, 7 :: u8] ! a"
  have "cstr ?m 0 [104, 105]" by (simp add: cstr_Cons cstr_Nil)
  moreover have "disjoint_ranges 3 0 (length [104, 105 :: u8] + 1)" by (simp add: disjoint_ranges_def)
  ultimately show ?thesis using strlen_strcpy_correct [of ?m 0 "[104, 105]" 3] by auto
qed

end
