(* ===== verification/Fdt.thy ===== *)
theory Fdt
  imports Cstring "HOL-Library.Monad_Syntax"
begin

text \<open>
  The flattened device tree scanner and the scans built on it (\<open>pk/machine/fdt.c\<close>). A blob lies in
  byte memory; the scanner walks its big-endian tokens and calls the four callbacks of the client.
  \<open>None\<close> stands for a call that does not return: a failed \<open>assert\<close> (which powers the machine off),
  a loop without end, or a dereference C leaves undefined.

  A \<open>struct fdt_scan_node\<close> is a local variable of one frame of \<open>fdt_scan_helper\<close>, so a pointer to it
  is represented by the stack of the nodes from it up to the root; its address is the depth of
  that stack, and the null pointer is the empty stack.
\<close>

unbundle bit_operations_syntax

section \<open>Words of the blob\<close>

definition load32 :: "bmem \<Rightarrow> nat \<Rightarrow> u32" where
  "load32 m a = le_word [m a, m (a + 1), m (a + 2), m (a + 3)]"

definition store32 :: "nat \<Rightarrow> u32 \<Rightarrow> bmem \<Rightarrow> bmem" where
  "store32 d w m = (\<lambda>a. if d \<le> a \<and> a < d + 4 then ucast (drop_bit (8 * (a - d)) w) else m a)"

definition bswap :: "u32 \<Rightarrow> u32" where
  "bswap x =
     (let y = push_bit 8 (x AND 0x00FF00FF) OR drop_bit 8 (x AND 0xFF00FF00);
          z = push_bit 16 (y AND 0x0000FFFF) OR drop_bit 16 (y AND 0xFFFF0000)
      in z)"

definition be32 :: "bmem \<Rightarrow> nat \<Rightarrow> u32" where
  "be32 m a = bswap (load32 m a)"

text \<open>\<open>strcmp\<close> with a string literal, and the test \<open>!strcmp(p, "...")\<close>.\<close>

definition c_bytes :: "string \<Rightarrow> u8 list" where
  "c_bytes s = map (\<lambda>c. of_nat (of_char c)) s"

fun strcmp_lit :: "bmem \<Rightarrow> nat \<Rightarrow> u8 list \<Rightarrow> int" where
  "strcmp_lit m a [] = uint (m a)"
| "strcmp_lit m a (c # cs) =
     (if m a \<noteq> 0 \<and> m a = c then strcmp_lit m (a + 1) cs else uint (m a) - uint c)"

definition str_is :: "bmem \<Rightarrow> nat \<Rightarrow> string \<Rightarrow> bool" where
  "str_is m a s \<longleftrightarrow> strcmp_lit m a (c_bytes s) = 0"

section \<open>The scanner\<close>

record fdt_scan_node =
  node_name :: nat
  address_cells :: u32
  size_cells :: u32

record fdt_scan_prop =
  prop_name :: nat
  prop_value :: nat
  prop_len :: u32

type_synonym node_ptr = "fdt_scan_node list"
type_synonym 's fdt_state = "bmem \<times> 's"

record 's fdt_cb =
  cb_open :: "(node_ptr \<Rightarrow> 's fdt_state \<Rightarrow> 's fdt_state option) option"
  cb_prop :: "node_ptr \<Rightarrow> fdt_scan_prop \<Rightarrow> 's fdt_state \<Rightarrow> 's fdt_state option"
  cb_done :: "(node_ptr \<Rightarrow> 's fdt_state \<Rightarrow> 's fdt_state option) option"
  cb_close :: "(node_ptr \<Rightarrow> 's fdt_state \<Rightarrow> (int \<times> 's fdt_state) option) option"

abbreviation (input) FDT_BEGIN_NODE :: u32 where "FDT_BEGIN_NODE \<equiv> 1"
abbreviation (input) FDT_END_NODE :: u32 where "FDT_END_NODE \<equiv> 2"
abbreviation (input) FDT_PROP :: u32 where "FDT_PROP \<equiv> 3"
abbreviation (input) FDT_NOP :: u32 where "FDT_NOP \<equiv> 4"
abbreviation (input) FDT_MAGIC :: u32 where "FDT_MAGIC \<equiv> 0xd00dfeed"
abbreviation (input) FDT_VERSION :: u32 where "FDT_VERSION \<equiv> 17"

text \<open>The cell counts a property sets in its node, when there is one.\<close>

definition set_cells :: "bmem \<Rightarrow> fdt_scan_prop \<Rightarrow> node_ptr \<Rightarrow> node_ptr" where
  "set_cells m p nodes =
     (case nodes of [] \<Rightarrow> []
      | node # up \<Rightarrow>
          (let node = (if str_is m (prop_name p) ''#address-cells''
                       then node\<lparr>address_cells := be32 m (prop_value p)\<rparr> else node);
               node = (if str_is m (prop_name p) ''#size-cells''
                       then node\<lparr>size_cells := be32 m (prop_value p)\<rparr> else node)
           in node # up))"

text \<open>\<open>lex += 3 + (prop.len+3)/4\<close>, with \<open>prop.len\<close> a signed integer.\<close>

definition skip_prop :: "nat \<Rightarrow> u32 \<Rightarrow> nat option" where
  "skip_prop pos len =
     (let a = int pos + 4 * (3 + c_div (sint len + 3) 4)
      in if sint len + 3 < 2 ^ 31 \<and> 0 \<le> a then Some (nat a) else None)"

definition call_done :: "'s fdt_cb \<Rightarrow> bool \<Rightarrow> node_ptr \<Rightarrow> 's fdt_state \<Rightarrow> 's fdt_state option" where
  "call_done cb seen nodes w =
     (case cb_done cb of Some f \<Rightarrow> if \<not> seen \<and> nodes \<noteq> [] then f nodes w else Some w | None \<Rightarrow> Some w)"

definition call_open :: "'s fdt_cb \<Rightarrow> node_ptr \<Rightarrow> 's fdt_state \<Rightarrow> 's fdt_state option" where
  "call_open cb nodes w = (case cb_open cb of Some f \<Rightarrow> f nodes w | None \<Rightarrow> Some w)"

definition call_close :: "'s fdt_cb \<Rightarrow> node_ptr \<Rightarrow> 's fdt_state \<Rightarrow> (bool \<times> 's fdt_state) option" where
  "call_close cb nodes w =
     (case cb_close cb of Some f \<Rightarrow> map_option (\<lambda>(r, w). (r = -1, w)) (f nodes w)
      | None \<Rightarrow> Some (False, w))"

partial_function (option) nop_fill :: "nat \<Rightarrow> nat \<Rightarrow> bmem \<Rightarrow> bmem option" where
  "nop_fill pos pos_next m =
     (if pos = pos_next then Some m else nop_fill (pos + 4) pos_next (store32 pos (bswap FDT_NOP) m))"

definition new_child :: fdt_scan_node where
  "new_child = \<lparr>node_name = 0, address_cells = 2, size_cells = 1\<rparr>"

text \<open>
  The loop of \<open>fdt_scan_helper\<close>: \<open>seen\<close> (the variable \<open>last\<close> of the code) and \<open>child\<close> are its local variables, \<open>nodes\<close> its argument
  \<open>node\<close>. The result has the lexer position and the node as the properties have changed it.
\<close>

partial_function (option) fdt_scan_loop ::
  "'s fdt_cb \<Rightarrow> nat \<Rightarrow> nat \<Rightarrow> bool \<Rightarrow> fdt_scan_node \<Rightarrow> node_ptr \<Rightarrow> 's fdt_state \<Rightarrow> (nat \<times> node_ptr \<times> 's fdt_state) option"
where
  "fdt_scan_loop cb strings pos seen child nodes w =
     (if be32 (fst w) pos = FDT_NOP then
        fdt_scan_loop cb strings (pos + 4) seen child nodes w
      else if be32 (fst w) pos = FDT_PROP then
        (if seen then None
         else do {
           let p = \<lparr>prop_name = strings + unat (be32 (fst w) (pos + 8)), prop_value = pos + 12,
                    prop_len = be32 (fst w) (pos + 4)\<rparr>;
           let nodes = set_cells (fst w) p nodes;
           pos \<leftarrow> skip_prop pos (prop_len p);
           w \<leftarrow> cb_prop cb nodes p w;
           fdt_scan_loop cb strings pos seen child nodes w
         })
      else if be32 (fst w) pos = FDT_BEGIN_NODE then
        do {
          w \<leftarrow> call_done cb seen nodes w;
          let child = child\<lparr>node_name := pos + 4\<rparr>;
          w \<leftarrow> call_open cb (child # nodes) w;
          n \<leftarrow> strlen (fst w) (pos + 4);
          (pos_next, inner, w) \<leftarrow>
            fdt_scan_loop cb strings (pos + 8 + 4 * (n div 4)) False new_child (child # nodes) w;
          (kill, w) \<leftarrow> call_close cb inner w;
          m \<leftarrow> (if kill then nop_fill pos pos_next (fst w) else Some (fst w));
          fdt_scan_loop cb strings pos_next True (hd inner) nodes (m, snd w)
        }
      else if be32 (fst w) pos = FDT_END_NODE then
        do { w \<leftarrow> call_done cb seen nodes w; Some (pos + 4, nodes, w) }
      else
        do { w \<leftarrow> call_done cb seen nodes w; Some (pos, nodes, w) })"

definition fdt_scan_helper :: "nat \<Rightarrow> nat \<Rightarrow> node_ptr \<Rightarrow> 's fdt_cb \<Rightarrow> 's fdt_state \<Rightarrow> (nat \<times> node_ptr \<times> 's fdt_state) option" where
  "fdt_scan_helper pos strings node cb w = fdt_scan_loop cb strings pos False new_child node w"

text \<open>Header words: magic 0, total size 1, structure offset 2, strings offset 3, last compatible version 6.\<close>

definition fdt_understood :: "bmem \<Rightarrow> nat \<Rightarrow> bool" where
  "fdt_understood m fdt \<longleftrightarrow> be32 m fdt = FDT_MAGIC \<and> be32 m (fdt + 24) \<le> FDT_VERSION"

definition fdt_scan :: "nat \<Rightarrow> 's fdt_cb \<Rightarrow> 's fdt_state \<Rightarrow> 's fdt_state option" where
  "fdt_scan fdt cb w =
     (if \<not> fdt_understood (fst w) fdt then Some w
      else let strings = fdt + unat (be32 (fst w) (fdt + 12));
               pos = fdt + unat (be32 (fst w) (fdt + 8))
           in map_option (\<lambda>(_, _, w). w) (fdt_scan_helper pos strings [] cb w))"

definition fdt_size :: "bmem \<Rightarrow> nat \<Rightarrow> u32" where
  "fdt_size m fdt = (if \<not> fdt_understood m fdt then 0 else be32 m (fdt + 4))"

section \<open>Reading properties\<close>

fun get_cells :: "nat \<Rightarrow> bmem \<Rightarrow> nat \<Rightarrow> u64 \<Rightarrow> nat \<times> u64" where
  "get_cells 0 m value result = (value, result)"
| "get_cells (Suc cells) m value result =
     get_cells cells m (value + 4) (push_bit 32 result + ucast (be32 m value))"

definition fdt_get_address :: "fdt_scan_node \<Rightarrow> bmem \<Rightarrow> nat \<Rightarrow> nat \<times> u64" where
  "fdt_get_address node m value = get_cells (nat (sint (address_cells node))) m value 0"

definition fdt_get_size :: "fdt_scan_node \<Rightarrow> bmem \<Rightarrow> nat \<Rightarrow> nat \<times> u64" where
  "fdt_get_size node m value = get_cells (nat (sint (size_cells node))) m value 0"

definition fdt_get_value :: "bmem \<Rightarrow> fdt_scan_prop \<Rightarrow> nat \<Rightarrow> u32" where
  "fdt_get_value m p index = be32 m (prop_value p + 4 * index)"

partial_function (option) string_list_loop :: "bmem \<Rightarrow> string \<Rightarrow> int \<Rightarrow> nat \<Rightarrow> int \<Rightarrow> int option" where
  "string_list_loop m str stop list index =
     (if stop - int list > 0
      then if str_is m list str then Some index
           else do { n \<leftarrow> strlen m list; string_list_loop m str stop (list + n + 1) (index + 1) }
      else Some (-1))"

definition fdt_string_list_index :: "bmem \<Rightarrow> fdt_scan_prop \<Rightarrow> string \<Rightarrow> int option" where
  "fdt_string_list_index m p str =
     string_list_loop m str (int (prop_value p) + sint (prop_len p)) (prop_value p) 0"

text \<open>\<open>prop->node->parent\<close>; a null pointer on the way is an undefined dereference.\<close>

definition parent :: "node_ptr \<Rightarrow> fdt_scan_node option" where
  "parent nodes = (case nodes of _ # up # _ \<Rightarrow> Some up | _ \<Rightarrow> None)"

definition read_reg :: "bmem \<Rightarrow> node_ptr \<Rightarrow> fdt_scan_prop \<Rightarrow> u64 option" where
  "read_reg m nodes p = map_option (\<lambda>up. snd (fdt_get_address up m (prop_value p))) (parent nodes)"

section \<open>Byte order\<close>

lemma byte_cases:
  assumes "n < (32::nat)"
  obtains j where "n = j" "j < 8" | j where "n = 8 + j" "j < 8"
    | j where "n = 16 + j" "j < 8" | j where "n = 24 + j" "j < 8"
proof -
  consider "n < 8" | "8 \<le> n" "n < 16" | "16 \<le> n" "n < 24" | "24 \<le> n" using assms by linarith
  then show ?thesis
    using that(1) [of n] that(2) [of "n - 8"] that(3) [of "n - 16"] that(4) [of "n - 24"] assms
    by cases auto
qed

lemma byte_index:
  fixes j :: nat
  assumes "j < 8"
  shows "(8 + j) mod 8 = j" "(16 + j) mod 8 = j" "(24 + j) mod 8 = j"
    "(8 + j) div 8 = 1" "(16 + j) div 8 = 2" "(24 + j) div 8 = 3"
  using assms by presburger+

lemma no_high_bits: "\<not> bit (x :: u8) (8 + j)" "\<not> bit (x :: u8) (16 + j)" "\<not> bit (x :: u8) (24 + j)"
  using bit_imp_le_length [of x] by force+

lemma bit_be_word4:
  assumes "n < 32"
  shows "bit (be_word [p, q, r, s]) n \<longleftrightarrow> bit ([s, r, q, p] ! (n div 8)) (n mod 8)"
proof -
  have m: "(0xFF :: u32) = mask 8" by (simp add: mask_eq_exp_minus_1)
  from assms show ?thesis
    by (cases rule: byte_cases) (simp_all add: be_word_def m bit_simps no_high_bits byte_index)
qed

lemma bit_bswap:
  assumes "n < 32"
  shows "bit (bswap x) n \<longleftrightarrow> bit x (8 * (3 - n div 8) + n mod 8)"
proof -
  have m: "(0x00FF00FF :: u32) = mask 8 OR push_bit 16 (mask 8)"
     "(0xFF00FF00 :: u32) = push_bit 8 (mask 8) OR push_bit 24 (mask 8)"
     "(0x0000FFFF :: u32) = mask 16" "(0xFFFF0000 :: u32) = push_bit 16 (mask 16)"
    by (simp_all add: mask_eq_exp_minus_1 push_bit_eq_mult)
  from assms show ?thesis
    unfolding bswap_def m Let_def
    by (cases rule: byte_cases) (simp_all add: bit_simps byte_index)
qed

lemma bswap_bswap [simp]: "bswap (bswap x) = x"
proof (rule bit_word_eqI)
  fix n :: nat
  assume "n < LENGTH(32)"
  then have n: "n < 32" by simp
  from n show "bit (bswap (bswap x)) n \<longleftrightarrow> bit x n"
    by (cases rule: byte_cases) (simp_all add: bit_bswap byte_index)
qed

lemma be32_be_word: "be32 m a = be_word [m a, m (a + 1), m (a + 2), m (a + 3)]"
proof (rule bit_word_eqI)
  fix n :: nat
  assume "n < LENGTH(32)"
  then have n: "n < 32" by simp
  then show "bit (be32 m a) n \<longleftrightarrow> bit (be_word [m a, m (a + 1), m (a + 2), m (a + 3)]) n"
    by (cases rule: byte_cases)
      (simp_all only: be32_def load32_def bit_bswap bit_be_word4 bit_le_word, simp_all add: byte_index no_high_bits bit_simps)
qed

lemma load32_store32 [simp]: "load32 (store32 a w m) a = w"
proof (rule bit_word_eqI)
  fix n :: nat
  assume "n < LENGTH(32)"
  then have n: "n < 32" by simp
  then show "bit (load32 (store32 a w m) a) n \<longleftrightarrow> bit w n"
    by (cases rule: byte_cases)
      (simp_all only: load32_def bit_le_word, simp_all add: store32_def byte_index bit_simps)
qed

definition be_nat :: "u8 list \<Rightarrow> nat" where
  "be_nat bs = foldl (\<lambda>x b. x * 256 + unat b) 0 bs"

lemma be_nat_snoc: "be_nat (bs @ [b]) = be_nat bs * 256 + unat b"
  by (simp add: be_nat_def)

lemma be_word_snoc: "be_word (bs @ [b]) = be_word bs * 256 + ucast b"
proof -
  have "push_bit 8 (be_word bs) OR (ucast b AND 0xFF :: u32) = push_bit 8 (be_word bs) + ucast b"
  proof -
    have m: "(0xFF :: u32) = mask 8" by (simp add: mask_eq_exp_minus_1)
    have "ucast b AND 0xFF = (ucast b :: u32)"
      unfolding m by (rule bit_word_eqI) (auto simp: bit_simps dest: bit_imp_le_length)
    moreover have "push_bit 8 (be_word bs) + ucast b = push_bit 8 (be_word bs) OR ucast b"
      by (rule disjunctive_add) (auto simp: bit_simps dest: bit_imp_le_length)
    ultimately show ?thesis by simp
  qed
  then show ?thesis by (simp add: be_word_def push_bit_eq_mult)
qed

lemma be_word_of_nat: "be_word bs = of_nat (be_nat bs)"
proof (induction bs rule: rev_induct)
  case Nil
  show ?case by (simp add: be_word_def be_nat_def)
next
  case (snoc b bs)
  then show ?case by (simp add: be_word_snoc be_nat_snoc unsigned_of_nat)
qed

lemma be_nat_bound: "be_nat bs < 256 ^ length bs"
proof (induction bs rule: rev_induct)
  case Nil
  show ?case by (simp add: be_nat_def)
next
  case (snoc b bs)
  have "unat b < 256" using unsigned_less [of b] by simp
  with snoc show ?case by (simp add: be_nat_snoc)
qed

lemma be_nat_append: "be_nat (xs @ ys) = be_nat xs * 256 ^ length ys + be_nat ys"
proof (induction ys rule: rev_induct)
  case Nil
  show ?case by (simp add: be_nat_def)
next
  case (snoc y ys)
  then show ?case by (simp add: be_nat_snoc append_assoc [symmetric] algebra_simps del: append_assoc)
qed

definition bytes_at :: "bmem \<Rightarrow> nat \<Rightarrow> nat \<Rightarrow> u8 list" where
  "bytes_at m a n = map (\<lambda>i. m (a + i)) [0..<n]"

lemma be32_nat: "unat (be32 m a) = be_nat (bytes_at m a 4)"
proof -
  have b: "bytes_at m a 4 = [m a, m (a + 1), m (a + 2), m (a + 3)]"
    by (simp add: bytes_at_def numeral_eq_Suc)
  have "be_nat (bytes_at m a 4) < 2 ^ 32"
    using be_nat_bound [of "bytes_at m a 4"] by (simp add: bytes_at_def)
  then show ?thesis
    unfolding be32_be_word b [symmetric] be_word_of_nat by (simp add: unat_of_nat)
qed

lemma bytes_at_add: "bytes_at m a (n + k) = bytes_at m a n @ bytes_at m (a + n) k"
  by (rule nth_equalityI) (auto simp: bytes_at_def nth_append)

lemma get_cells_value:
  "get_cells n m a r = (a + 4 * n, r * 2 ^ (32 * n) + of_nat (be_nat (bytes_at m a (4 * n))))"
proof (induction n arbitrary: a r)
  case 0
  show ?case by (simp add: bytes_at_def be_nat_def)
next
  case (Suc n)
  have "be_nat (bytes_at m a (4 * Suc n)) =
      be_nat (bytes_at m a 4) * 2 ^ (32 * n) + be_nat (bytes_at m (a + 4) (4 * n))"
  proof -
    have "(256::nat) ^ (4 * n) = 2 ^ (32 * n)" by (simp add: power_mult)
    moreover have "length (bytes_at m (a + 4) (4 * n)) = 4 * n" by (simp add: bytes_at_def)
    ultimately show ?thesis using bytes_at_add [of m a 4 "4 * n"] by (simp add: be_nat_append)
  qed
  moreover have "(ucast (be32 m a) :: u64) = of_nat (be_nat (bytes_at m a 4))"
    by (simp add: be32_nat [symmetric])
  ultimately show ?case
    by (simp add: Suc.IH push_bit_eq_mult algebra_simps power_add)
qed

text \<open>
  \<open>fdt_get_address\<close> and \<open>fdt_get_size\<close> read as many big-endian words as the node says (none for
  a negative count), return the pointer behind them, and deliver the number these bytes denote,
  reduced to 64 bits when there are more than two cells.
\<close>

theorem fdt_get_address_value:
  "fdt_get_address node m val =
     (let n = 4 * nat (sint (address_cells node)) in (val + n, of_nat (be_nat (bytes_at m val n)))) \<and>
   fdt_get_size node m val =
     (let n = 4 * nat (sint (size_cells node)) in (val + n, of_nat (be_nat (bytes_at m val n))))"
  by (simp add: fdt_get_address_def fdt_get_size_def get_cells_value Let_def)

end
