(* ===== verification/Fdt_tree.thy ===== *)
theory Fdt_tree
  imports Fdt
begin

text \<open>
  What a scan of a device tree means. \<open>item\<close> is the structure of a blob, \<open>holds\<close> says that memory
  stores it, and \<open>walk\<close> is the traversal a client sees: callbacks on names, property bytes and
  cell counts instead of addresses, and the items that are left after the client deleted nodes.
  The locale \<open>fdt_client\<close> is the contract between the scanner and a client whose callbacks do not
  write memory; in it the scanner is proved to return and to perform exactly the walk.
\<close>

unbundle bit_operations_syntax

section \<open>Structure blocks\<close>

datatype item = Nop | Prop u32 "u8 list" "u8 list" | Node "u8 list" "item list"

fun words :: "item list \<Rightarrow> nat" where
  "words [] = 0"
| "words (Nop # r) = 1 + words r"
| "words (Prop off nm v # r) = 3 + (length v + 3) div 4 + words r"
| "words (Node nm its # r) = 3 + length nm div 4 + words its + words r"

definition stored :: "bmem \<Rightarrow> nat \<Rightarrow> u8 list \<Rightarrow> bool" where
  "stored m a v \<longleftrightarrow> (\<forall>i<length v. m (a + i) = v ! i)"

fun holds :: "nat \<Rightarrow> bmem \<Rightarrow> nat \<Rightarrow> item list \<Rightarrow> bool" where
  "holds strings m a [] \<longleftrightarrow> True"
| "holds strings m a (Nop # r) \<longleftrightarrow> be32 m a = 4 \<and> holds strings m (a + 4) r"
| "holds strings m a (Prop off nm v # r) \<longleftrightarrow>
     be32 m a = 3 \<and> be32 m (a + 4) = of_nat (length v) \<and> length v + 3 < 2 ^ 31 \<and> be32 m (a + 8) = off \<and>
     cstr m (strings + unat off) nm \<and> stored m (a + 12) v \<and>
     holds strings m (a + 4 * (3 + (length v + 3) div 4)) r"
| "holds strings m a (Node nm its # r) \<longleftrightarrow>
     be32 m a = 1 \<and> cstr m (a + 4) nm \<and> holds strings m (a + 4 * (2 + length nm div 4)) its \<and>
     be32 m (a + 4 * (2 + length nm div 4 + words its)) = 2 \<and>
     holds strings m (a + 4 * (3 + length nm div 4 + words its)) r"

text \<open>The names in the strings block lie outside the structure block \<open>[lo, hi)\<close>.\<close>

fun names_apart :: "nat \<Rightarrow> nat \<Rightarrow> nat \<Rightarrow> item list \<Rightarrow> bool" where
  "names_apart strings lo hi [] \<longleftrightarrow> True"
| "names_apart strings lo hi (Nop # r) \<longleftrightarrow> names_apart strings lo hi r"
| "names_apart strings lo hi (Prop off nm v # r) \<longleftrightarrow>
     (strings + unat off + length nm < lo \<or> hi \<le> strings + unat off) \<and> names_apart strings lo hi r"
| "names_apart strings lo hi (Node nm its # r) \<longleftrightarrow> names_apart strings lo hi its \<and> names_apart strings lo hi r"

section \<open>Traversals\<close>

record anode =
  an_name :: "u8 list"
  an_acells :: u32
  an_scells :: u32

record 's scan =
  on_open :: "anode list \<Rightarrow> 's \<Rightarrow> 's"
  on_prop :: "anode list \<Rightarrow> u8 list \<Rightarrow> u8 list \<Rightarrow> 's \<Rightarrow> 's"
  on_done :: "anode list \<Rightarrow> 's \<Rightarrow> 's"
  on_close :: "anode list \<Rightarrow> 's \<Rightarrow> bool \<times> 's"

definition name_is :: "string \<Rightarrow> u8 list \<Rightarrow> bool" where
  "name_is s nm \<longleftrightarrow> nm = c_bytes s"

definition with_cells :: "u8 list \<Rightarrow> u8 list \<Rightarrow> anode list \<Rightarrow> anode list" where
  "with_cells nm v ns =
     (case ns of [] \<Rightarrow> []
      | n # up \<Rightarrow>
          (if name_is ''#address-cells'' nm then n\<lparr>an_acells := be_word (take 4 v)\<rparr>
           else if name_is ''#size-cells'' nm then n\<lparr>an_scells := be_word (take 4 v)\<rparr> else n) # up)"

text \<open>The node with the cell counts its own properties leave.\<close>

fun own_cells :: "item list \<Rightarrow> anode list \<Rightarrow> anode list" where
  "own_cells [] ns = ns"
| "own_cells (Prop off nm v # r) ns = own_cells r (with_cells nm v ns)"
| "own_cells (Nop # r) ns = own_cells r ns"
| "own_cells (Node nm its # r) ns = own_cells r ns"

definition an_default :: anode where
  "an_default = \<lparr>an_name = [], an_acells = 2, an_scells = 1\<rparr>"

definition finish :: "'s scan \<Rightarrow> bool \<Rightarrow> anode list \<Rightarrow> 's \<Rightarrow> 's" where
  "finish c seen ns s = (if seen \<or> ns = [] then s else on_done c ns s)"

fun walk :: "'s scan \<Rightarrow> bool \<Rightarrow> anode \<Rightarrow> anode list \<Rightarrow> item list \<Rightarrow> 's \<Rightarrow> item list \<times> 's" where
  "walk c seen ch ns [] s = ([], finish c seen ns s)"
| "walk c seen ch ns (Nop # r) s = (let (r, s) = walk c seen ch ns r s in (Nop # r, s))"
| "walk c seen ch ns (Prop off nm v # r) s =
     (let ns = with_cells nm v ns;
          (r, s) = walk c seen ch ns r (on_prop c ns nm v s)
      in (Prop off nm v # r, s))"
| "walk c seen ch ns (Node nm its # r) s =
     (let me = ch\<lparr>an_name := nm\<rparr>;
          (its', s) = walk c False an_default (me # ns) its (on_open c (me # ns) (finish c seen ns s));
          inner = own_cells its (me # ns);
          (kill, s) = on_close c inner s;
          (r, s) = walk c True (hd inner) ns r s
      in ((if kill then replicate (words [Node nm its]) Nop else [Node nm its']) @ r, s))"

text \<open>
  Trees the scanner and the client accept: no property after a node, cell counts of a whole word,
  and every property acceptable to the client at its place.
\<close>

fun scannable :: "(anode list \<Rightarrow> u8 list \<Rightarrow> u8 list \<Rightarrow> bool) \<Rightarrow> bool \<Rightarrow> anode \<Rightarrow> anode list \<Rightarrow> item list \<Rightarrow> bool" where
  "scannable okp seen ch ns [] \<longleftrightarrow> True"
| "scannable okp seen ch ns (Nop # r) \<longleftrightarrow> scannable okp seen ch ns r"
| "scannable okp seen ch ns (Prop off nm v # r) \<longleftrightarrow>
     \<not> seen \<and> (name_is ''#address-cells'' nm \<or> name_is ''#size-cells'' nm \<longrightarrow> 4 \<le> length v) \<and>
     okp (with_cells nm v ns) nm v \<and> scannable okp seen ch (with_cells nm v ns) r"
| "scannable okp seen ch ns (Node nm its # r) \<longleftrightarrow>
     scannable okp False an_default (ch\<lparr>an_name := nm\<rparr> # ns) its \<and>
     scannable okp True (hd (own_cells its (ch\<lparr>an_name := nm\<rparr> # ns))) ns r"

section \<open>Structure blocks and changes of memory\<close>

lemma words_append [simp]: "words (xs @ ys) = words xs + words ys"
  by (induction xs rule: words.induct) simp_all

lemma words_nops [simp]: "words (replicate k Nop) = k"
  by (induction k) simp_all

lemma be32_cong: "(\<And>x. a \<le> x \<Longrightarrow> x < a + 4 \<Longrightarrow> m' x = m x) \<Longrightarrow> be32 m' a = be32 m a"
  by (simp add: be32_def load32_def)

lemma cstr_cong:
  assumes "\<And>x. p \<le> x \<Longrightarrow> x \<le> p + length xs \<Longrightarrow> m' x = m x"
  shows "cstr m' p xs = cstr m p xs"
  using assms by (auto simp: cstr_def)

lemma stored_cong:
  assumes "\<And>x. p \<le> x \<Longrightarrow> x < p + length v \<Longrightarrow> m' x = m x"
  shows "stored m' p v = stored m p v"
  using assms by (auto simp: stored_def)

lemma pad4:
  fixes n :: nat
  shows "n \<le> 4 * ((n + 3) div 4)" "n < 4 * (n div 4 + 1)"
  by presburger+

lemma holds_append: "holds strings m a (xs @ ys) \<longleftrightarrow> holds strings m a xs \<and> holds strings m (a + 4 * words xs) ys"
  by (induction xs arbitrary: a rule: words.induct) (auto simp: algebra_simps)

lemma names_apart_append [simp]: "names_apart strings lo hi (xs @ ys) \<longleftrightarrow> names_apart strings lo hi xs \<and> names_apart strings lo hi ys"
  by (induction xs rule: words.induct) auto

lemma names_apart_nops [simp]: "names_apart strings lo hi (replicate k Nop)"
  by (induction k) auto

lemma holds_frame:
  assumes "holds strings m a its" "names_apart strings lo hi its"
    and "\<And>x. x < p \<or> q \<le> x \<Longrightarrow> m' x = m x" "lo \<le> p" "q \<le> hi" "a + 4 * words its \<le> p \<or> q \<le> a"
  shows "holds strings m' a its"
  using assms(1,2,6)
proof (induction its arbitrary: a rule: words.induct)
  case 1
  show ?case by simp
next
  case (2 r)
  from 2 have "holds strings m' (a + 4) r" by auto
  moreover have "be32 m' a = be32 m a" using 2(4) by (intro be32_cong assms(3)) auto
  ultimately show ?case using 2(2) by simp
next
  case (3 off nm v r)
  let ?k = "3 + (length v + 3) div 4"
  from 3 have "holds strings m' (a + 4 * ?k) r" by (intro "3.IH") auto
  moreover have b: "be32 m' (a + j) = be32 m (a + j)" if "j \<le> 8" for j
    using 3(4) that by (intro be32_cong assms(3)) auto
  moreover have "cstr m' (strings + unat off) nm"
    using 3(2,3) assms(4,5) by (subst cstr_cong [of _ _ m' m]) (auto intro!: assms(3))
  moreover have "stored m' (a + 12) v"
    using 3(2,4) pad4(1) [of "length v"] by (subst stored_cong [of _ _ m' m]) (auto intro!: assms(3))
  ultimately show ?case using 3(2) b [of 0] by simp
next
  case (4 nm its r)
  let ?k = "2 + length nm div 4"
  from 4 have "holds strings m' (a + 4 * ?k) its" by (intro "4.IH") auto
  moreover from 4 have "holds strings m' (a + 4 * (3 + length nm div 4 + words its)) r"
    by (intro "4.IH") auto
  moreover have "be32 m' a = be32 m a" using 4(5) by (intro be32_cong assms(3)) auto
  moreover have "be32 m' (a + 4 * (?k + words its)) = be32 m (a + 4 * (?k + words its))"
    using 4(5) by (intro be32_cong assms(3)) auto
  moreover have "cstr m' (a + 4) nm"
    using 4(3,5) pad4(2) [of "length nm"] by (subst cstr_cong [of _ _ m' m]) (auto intro!: assms(3))
  ultimately show ?case using 4(3) by simp
qed

lemma nop_fill_nops:
  "\<exists>m'. nop_fill a (a + 4 * k) m = Some m' \<and> holds strings m' a (replicate k Nop) \<and>
     (\<forall>x. x < a \<or> a + 4 * k \<le> x \<longrightarrow> m' x = m x)"
proof (induction k arbitrary: a m)
  case 0
  show ?case by (subst nop_fill.simps) simp
next
  case (Suc k)
  let ?m = "store32 a (bswap 4) m"
  obtain m' where m': "nop_fill (a + 4) (a + 4 + 4 * k) ?m = Some m'"
      "holds strings m' (a + 4) (replicate k Nop)" "\<forall>x. x < a + 4 \<or> a + 4 + 4 * k \<le> x \<longrightarrow> m' x = ?m x"
    using Suc.IH [of "a + 4" ?m] by blast
  have "be32 m' a = be32 ?m a" using m'(3) by (intro be32_cong) auto
  also have "\<dots> = 4" by (simp add: be32_def)
  finally have "holds strings m' a (replicate (Suc k) Nop)" using m'(2) by simp
  moreover have "nop_fill a (a + 4 * Suc k) m = Some m'"
    using m'(1) by (subst nop_fill.simps) (simp add: algebra_simps)
  moreover have "\<forall>x. x < a \<or> a + 4 * Suc k \<le> x \<longrightarrow> m' x = m x"
    using m'(3) by (auto simp: store32_def)
  ultimately show ?case by blast
qed

lemma words_walk: "walk c seen ch ns its s = (its', s') \<Longrightarrow> words its' = words its"
  by (induction its arbitrary: seen ch ns s its' s' rule: words.induct)
    (auto simp: Let_def split: prod.splits if_splits)

lemma names_apart_walk:
  "walk c seen ch ns its s = (its', s') \<Longrightarrow> names_apart strings lo hi its \<Longrightarrow> names_apart strings lo hi its'"
  by (induction its arbitrary: seen ch ns s its' s' rule: words.induct)
    (auto simp: Let_def split: prod.splits if_splits)

section \<open>The contract of a client\<close>

definition node_rel :: "bmem \<Rightarrow> fdt_scan_node \<Rightarrow> anode \<Rightarrow> bool" where
  "node_rel m n an \<longleftrightarrow> cstr m (node_name n) (an_name an) \<and> address_cells n = an_acells an \<and> size_cells n = an_scells an"

definition nodes_below :: "bmem \<Rightarrow> nat \<Rightarrow> node_ptr \<Rightarrow> anode list \<Rightarrow> bool" where
  "nodes_below m a nodes ns \<longleftrightarrow>
     list_all2 (\<lambda>n an. node_rel m n an \<and> node_name n + length (an_name an) < a) nodes ns"

definition prop_rel :: "bmem \<Rightarrow> fdt_scan_prop \<Rightarrow> u8 list \<Rightarrow> u8 list \<Rightarrow> bool" where
  "prop_rel m p nm v \<longleftrightarrow>
     cstr m (prop_name p) nm \<and> stored m (prop_value p) v \<and> prop_len p = of_nat (length v) \<and> length v + 3 < 2 ^ 31"

lemma nodes_below_rel: "nodes_below m a nodes ns \<Longrightarrow> list_all2 (node_rel m) nodes ns"
  unfolding nodes_below_def by (erule list_all2_mono) simp

lemma nodes_below_mono:
  assumes "nodes_below m a nodes ns" "a \<le> b" "\<And>x. x < a \<Longrightarrow> m' x = m x"
  shows "nodes_below m' b nodes ns"
  using assms(1) unfolding nodes_below_def
  by (rule list_all2_mono) (use assms(2,3) in \<open>auto simp: node_rel_def cstr_def\<close>)

lemma strcmp_lit_cstr: "cstr m a xs \<Longrightarrow> 0 \<notin> set cs \<Longrightarrow> strcmp_lit m a cs = 0 \<longleftrightarrow> xs = cs"
proof (induction m a cs arbitrary: xs rule: strcmp_lit.induct)
  case (1 m a)
  then show ?case by (cases xs) (auto simp: cstr_Nil cstr_Cons unsigned_eq_0_iff)
next
  case (2 m a c cs)
  then show ?case by (cases xs) (auto simp: cstr_Nil cstr_Cons unsigned_eq_0_iff word_eq_iff_unsigned [symmetric])
qed

lemma c_bytes_nonzero: "list_all (\<lambda>c. c \<noteq> CHR 0x00) s \<Longrightarrow> 0 \<notin> set (c_bytes s)"
proof -
  have "c = CHR 0x00" if "(of_nat (of_char c) :: u8) = 0" for c
  proof -
    from that have "(of_char c :: nat) mod 256 = 0" by (simp add: word_of_nat_eq_0_iff dvd_eq_mod_eq_0)
    then have "(of_char c :: nat) = of_char (CHR 0x00)" by (simp add: of_char_mod_256)
    then show ?thesis by (simp only: of_char_eq_iff)
  qed
  then show "list_all (\<lambda>c. c \<noteq> CHR 0x00) s \<Longrightarrow> 0 \<notin> set (c_bytes s)"
    by (auto simp: c_bytes_def list_all_iff)
qed

lemma str_is_cstr: "cstr m a xs \<Longrightarrow> list_all (\<lambda>c. c \<noteq> CHR 0x00) s \<Longrightarrow> str_is m a s \<longleftrightarrow> name_is s xs"
  unfolding str_is_def name_is_def by (intro strcmp_lit_cstr c_bytes_nonzero)

lemma stored_be32: "stored m a v \<Longrightarrow> 4 \<le> length v \<Longrightarrow> be32 m a = be_word (take 4 v)"
proof -
  assume v: "stored m a v" "4 \<le> length v"
  then have "m (a + 0) = v ! 0" "m (a + 1) = v ! 1" "m (a + 2) = v ! 2" "m (a + 3) = v ! 3"
    unfolding stored_def by (simp_all only:)
  moreover have "take 4 v = [v ! 0, v ! 1, v ! 2, v ! 3]"
    using v(2) by (intro nth_equalityI) (auto simp: less_Suc_eq numeral_eq_Suc)
  ultimately have "[m a, m (a + 1), m (a + 2), m (a + 3)] = take 4 v" by simp
  then show ?thesis by (simp only: be32_be_word)
qed

lemma skip_prop_nonneg: "n + 3 < 2 ^ 31 \<Longrightarrow> skip_prop pos (of_nat n) = Some (pos + 4 * (3 + (n + 3) div 4))"
proof -
  assume n: "n + 3 < 2 ^ 31"
  then have "sint (of_nat n :: u32) = int n"
    by (subst signed_of_nat) (simp add: signed_take_bit_int_eq_self)
  moreover have "c_div (int n + 3) 4 = int ((n + 3) div 4)"
    by (simp add: c_div_nonneg zdiv_int)
  ultimately show ?thesis using n by (simp add: skip_prop_def nat_add_distrib nat_mult_distrib Let_def)
qed

lemma set_cells_with_cells:
  assumes "nodes_below m a nodes ns" "prop_rel m p nm v"
    and "name_is ''#address-cells'' nm \<or> name_is ''#size-cells'' nm \<longrightarrow> 4 \<le> length v"
  shows "nodes_below m a (set_cells m p nodes) (with_cells nm v ns)"
proof (cases nodes)
  case Nil
  with assms(1) show ?thesis by (simp add: set_cells_def with_cells_def nodes_below_def)
next
  case (Cons n up)
  with assms(1) obtain an ans where ns: "ns = an # ans" by (cases ns) (auto simp: nodes_below_def)
  have "str_is m (prop_name p) ''#address-cells'' \<longleftrightarrow> name_is ''#address-cells'' nm"
       "str_is m (prop_name p) ''#size-cells'' \<longleftrightarrow> name_is ''#size-cells'' nm"
    using assms(2) by (auto simp: prop_rel_def intro!: str_is_cstr)
  moreover have "be32 m (prop_value p) = be_word (take 4 v)" if "4 \<le> length v"
    using that assms(2) by (auto simp: prop_rel_def intro!: stored_be32)
  moreover have "\<not> (name_is ''#address-cells'' nm \<and> name_is ''#size-cells'' nm)"
    by (auto simp: name_is_def c_bytes_def)
  ultimately show ?thesis
    using assms(1,3) unfolding Cons ns
    by (auto simp: set_cells_def with_cells_def nodes_below_def node_rel_def)
qed

lemma strlen_cstr: "cstr m p xs \<Longrightarrow> strlen m p = Some (length xs)"
  by (simp add: strlen_def strlen_loop_cstr)

lemma length_with_cells [simp]: "length (with_cells nm v ns) = length ns"
  by (cases ns) (simp_all add: with_cells_def)

lemma length_own_cells [simp]: "length (own_cells its ns) = length ns"
  by (induction its arbitrary: ns rule: words.induct) simp_all

lemma own_cells_eq_Nil: "own_cells its ns = [] \<longleftrightarrow> ns = []"
  using length_own_cells [of its ns] by (metis length_0_conv)

lemma nodes_below_length: "nodes_below m a nodes ns \<Longrightarrow> length nodes = length ns"
  unfolding nodes_below_def by (rule list_all2_lengthD)

lemma nodes_below_hd:
  "nodes_below m a nodes ns \<Longrightarrow> ns \<noteq> [] \<Longrightarrow>
     address_cells (hd nodes) = an_acells (hd ns) \<and> size_cells (hd nodes) = an_scells (hd ns)"
  by (cases ns; cases nodes) (auto simp: nodes_below_def node_rel_def)

text \<open>A blob the scanner understands, with its structure block behind the header.\<close>

definition blob_struct :: "bmem \<Rightarrow> nat \<Rightarrow> nat" where
  "blob_struct m fdt = fdt + unat (be32 m (fdt + 8))"

definition blob :: "bmem \<Rightarrow> nat \<Rightarrow> item list \<Rightarrow> bool" where
  "blob m fdt its \<longleftrightarrow>
     (let strings = fdt + unat (be32 m (fdt + 12)); a = blob_struct m fdt in
      fdt_understood m fdt \<and> fdt + 28 \<le> a \<and> holds strings m a its \<and>
      names_apart strings a (a + 4 * words its) its \<and> be32 m (a + 4 * words its) \<notin> {1, 2, 3, 4})"

locale fdt_client =
  fixes cb :: "'s fdt_cb" and c :: "'s scan" and okp :: "anode list \<Rightarrow> u8 list \<Rightarrow> u8 list \<Rightarrow> bool"
  assumes open_law: "list_all2 (node_rel m) nodes ns \<Longrightarrow> ns \<noteq> [] \<Longrightarrow> call_open cb nodes (m, s) = Some (m, on_open c ns s)"
    and prop_law: "list_all2 (node_rel m) nodes ns \<Longrightarrow> prop_rel m p nm v \<Longrightarrow> okp ns nm v \<Longrightarrow>
      cb_prop cb nodes p (m, s) = Some (m, on_prop c ns nm v s)"
    and done_law: "list_all2 (node_rel m) nodes ns \<Longrightarrow> ns \<noteq> [] \<Longrightarrow> call_done cb False nodes (m, s) = Some (m, on_done c ns s)"
    and close_law: "list_all2 (node_rel m) nodes ns \<Longrightarrow> ns \<noteq> [] \<Longrightarrow>
      call_close cb nodes (m, s) = (let (kill, s) = on_close c ns s in Some (kill, m, s))"
begin

lemma done_finish:
  "nodes_below m a nodes ns \<Longrightarrow> call_done cb seen nodes (m, s) = Some (m, finish c seen ns s)"
  using done_law [of m nodes ns s] nodes_below_rel [of m a nodes ns]
  by (cases seen; cases ns) (auto simp: call_done_def finish_def split: option.splits)

text \<open>
  What a scan from \<open>a\<close> over stored items does: it stops behind them, the client has seen the walk,
  memory changes only inside the items and then stores what the walk left, and the node has its cells.
\<close>

definition scanned where
  "scanned b strings a seen ch ns its child nodes m s \<longleftrightarrow>
     (\<exists>m' nodes'. fdt_scan_loop cb strings a seen child nodes (m, s) =
         Some (a + 4 * words its + (if be32 m (a + 4 * words its) = 2 then 4 else 0), nodes', m', snd (walk c seen ch ns its s)) \<and>
       holds strings m' a (fst (walk c seen ch ns its s)) \<and>
       (\<forall>x. x < a \<or> a + 4 * words its \<le> x \<longrightarrow> m' x = m x) \<and>
       nodes_below m' b nodes' (own_cells its ns))"

lemma scan_end:
  assumes "nodes_below m b nodes ns" "be32 m a \<notin> {1, 3, 4}"
  shows "scanned b strings a seen ch ns [] child nodes m s"
  using assms done_finish [OF assms(1), of seen s]
  unfolding scanned_def by (subst fdt_scan_loop.simps) auto

lemma scan_nop:
  assumes "scanned b strings (a + 4) seen ch ns r child nodes m s" "be32 m a = 4"
  shows "scanned b strings a seen ch ns (Nop # r) child nodes m s"
proof -
  obtain m' nodes' where m': "fdt_scan_loop cb strings (a + 4) seen child nodes (m, s) =
        Some (a + 4 + 4 * words r + (if be32 m (a + 4 + 4 * words r) = 2 then 4 else 0), nodes', m', snd (walk c seen ch ns r s))"
      "holds strings m' (a + 4) (fst (walk c seen ch ns r s))" "\<forall>x. x < a + 4 \<or> a + 4 + 4 * words r \<le> x \<longrightarrow> m' x = m x"
      "nodes_below m' b nodes' (own_cells r ns)"
    using assms(1) unfolding scanned_def by blast
  have "be32 m' a = 4" using be32_cong [of a m' m] m'(3) assms(2) by simp
  with m' show ?thesis
    unfolding scanned_def
    by (intro exI [of _ m'] exI [of _ nodes'], subst fdt_scan_loop.simps)
      (simp add: assms(2) algebra_simps case_prod_unfold Let_def)
qed

lemma scan_prop:
  assumes "holds strings m a [Prop off nm v]" "names_apart strings lo hi [Prop off nm v]" "lo \<le> a"
    and hi: "a + 4 * words (Prop off nm v # r) \<le> hi"
    and n: "nodes_below m b nodes ns"
    and c: "name_is ''#address-cells'' nm \<or> name_is ''#size-cells'' nm \<longrightarrow> 4 \<le> length v" "okp (with_cells nm v ns) nm v"
    and r: "\<And>nodes s. nodes_below m b nodes (with_cells nm v ns) \<Longrightarrow>
      scanned b strings (a + 4 * words [Prop off nm v]) False ch (with_cells nm v ns) r child nodes m s"
  shows "scanned b strings a False ch ns (Prop off nm v # r) child nodes m s"
proof -
  let ?i = "Prop off nm v" and ?ns = "with_cells nm v ns"
  let ?k = "words [?i]" and ?s = "on_prop c ?ns nm v s"
  let ?p = "\<lparr>prop_name = strings + unat (be32 m (a + 8)), prop_value = a + 12, prop_len = be32 m (a + 4)\<rparr>"
  have p: "prop_rel m ?p nm v" using assms(1) by (simp add: prop_rel_def)
  let ?nodes = "set_cells m ?p nodes"
  have n': "nodes_below m b ?nodes ?ns" using n p c(1) by (rule set_cells_with_cells)
  obtain m' nodes' where m': "fdt_scan_loop cb strings (a + 4 * ?k) False child ?nodes (m, ?s) =
        Some (a + 4 * ?k + 4 * words r + (if be32 m (a + 4 * ?k + 4 * words r) = 2 then 4 else 0), nodes', m', snd (walk c False ch ?ns r ?s))"
      "holds strings m' (a + 4 * ?k) (fst (walk c False ch ?ns r ?s))"
      "\<forall>x. x < a + 4 * ?k \<or> a + 4 * ?k + 4 * words r \<le> x \<longrightarrow> m' x = m x"
      "nodes_below m' b nodes' (own_cells r ?ns)"
    using r [OF n', of ?s] unfolding scanned_def by blast
  have "holds strings m' a [?i]"
    by (rule holds_frame [OF assms(1,2), of "a + 4 * ?k" "a + 4 * ?k + 4 * words r"]) (use assms(3) hi m'(3) in auto)
  then have "holds strings m' a ([?i] @ fst (walk c False ch ?ns r ?s))"
    unfolding holds_append using m'(2) by simp
  moreover have "fdt_scan_loop cb strings a False child nodes (m, s) =
      fdt_scan_loop cb strings (a + 4 * ?k) False child ?nodes (m, ?s)"
  proof -
    have "skip_prop a (be32 m (a + 4)) = Some (a + 4 * ?k)"
      using skip_prop_nonneg [of "length v" a] assms(1) by simp
    moreover have "cb_prop cb ?nodes ?p (m, s) = Some (m, ?s)"
      using nodes_below_rel [OF n'] p c(2) by (rule prop_law)
    ultimately show ?thesis
      using assms(1) by (subst fdt_scan_loop.simps) (simp add: Let_def)
  qed
  ultimately show ?thesis
    using m' unfolding scanned_def
    by (intro exI [of _ m'] exI [of _ nodes']) (simp add: algebra_simps Let_def case_prod_unfold)
qed

lemma scan_node:
  assumes h: "holds strings m a [Node nm its]" "names_apart strings lo hi [Node nm its]" "lo \<le> a"
      "a + 4 * words (Node nm its # r) \<le> hi" "nodes_below m b nodes ns" "b \<le> a"
    and me: "me = ch\<lparr>an_name := nm\<rparr>" "address_cells child = an_acells ch" "size_cells child = an_scells ch"
    and inner: "\<And>nodes s. nodes_below m (a + 4 * (2 + length nm div 4)) nodes (me # ns) \<Longrightarrow>
      scanned (a + 4 * (2 + length nm div 4)) strings (a + 4 * (2 + length nm div 4)) False an_default (me # ns) its new_child nodes m s"
    and r: "\<And>m' child s. \<lbrakk>\<And>x. x < a \<or> a + 4 * words [Node nm its] \<le> x \<Longrightarrow> m' x = m x;
        address_cells child = an_acells (hd (own_cells its (me # ns))); size_cells child = an_scells (hd (own_cells its (me # ns)))\<rbrakk> \<Longrightarrow>
      scanned b strings (a + 4 * words [Node nm its]) True (hd (own_cells its (me # ns))) ns r child nodes m' s"
  shows "scanned b strings a seen ch ns (Node nm its # r) child nodes m s"
proof -
  let ?a = "a + 4 * (2 + length nm div 4)" and ?k = "words [Node nm its]" and ?own = "own_cells its (me # ns)"
  let ?child = "child\<lparr>node_name := a + 4\<rparr>" and ?s = "on_open c (me # ns) (finish c seen ns s)"
  have n: "nodes_below m ?a (?child # nodes) (me # ns)"
    using nodes_below_mono [of m b nodes ns ?a m] h pad4(2) [of "length nm"] me
    by (auto simp: nodes_below_def node_rel_def)
  obtain m1 nodes1 where m1: "fdt_scan_loop cb strings ?a False new_child (?child # nodes) (m, ?s) =
        Some (a + 4 * ?k, nodes1, m1, snd (walk c False an_default (me # ns) its ?s))"
      "holds strings m1 ?a (fst (walk c False an_default (me # ns) its ?s))"
      "\<forall>x. x < ?a \<or> ?a + 4 * words its \<le> x \<longrightarrow> m1 x = m x" "nodes_below m1 ?a nodes1 ?own"
    using inner [OF n, of ?s] h(1) unfolding scanned_def by (auto simp: algebra_simps)
  obtain its' s1 where w: "walk c False an_default (me # ns) its ?s = (its', s1)" by fastforce
  obtain kill s2 where k: "on_close c ?own s1 = (kill, s2)" by fastforce
  let ?left = "if kill then replicate ?k Nop else [Node nm its']"
  have wl: "words ?left = ?k" using words_walk [OF w] by simp
  have al: "names_apart strings lo hi ?left" using names_apart_walk [OF w] h(2) by simp
  obtain m2 where m2: "(if kill then nop_fill a (a + 4 * ?k) m1 else Some m1) = Some m2"
      "holds strings m2 a ?left" "\<And>x. x < a \<or> a + 4 * ?k \<le> x \<Longrightarrow> m2 x = m x"
  proof (cases kill)
    case True
    obtain m2 where "nop_fill a (a + 4 * ?k) m1 = Some m2" "holds strings m2 a (replicate ?k Nop)"
        "\<forall>x. x < a \<or> a + 4 * ?k \<le> x \<longrightarrow> m2 x = m1 x"
      using nop_fill_nops [of a ?k m1 strings] by blast
    with True m1(3) show ?thesis by (intro that [of m2]) auto
  next
    case False
    have "cstr m1 (a + 4) nm"
      using h(1) pad4(2) [of "length nm"] m1(3) by (subst cstr_cong [of _ _ m1 m]) auto
    moreover have "be32 m1 a = be32 m a" "be32 m1 (?a + 4 * words its) = be32 m (?a + 4 * words its)"
      using m1(3) by (auto intro!: be32_cong)
    ultimately have "holds strings m1 a [Node nm its']"
      using h(1) m1(2) w words_walk [OF w] by (simp add: algebra_simps)
    with False m1(3) show ?thesis by (intro that [of m1]) auto
  qed
  have n1: "nodes1 \<noteq> []" "?own \<noteq> []" using nodes_below_length [OF m1(4)] by (auto simp: own_cells_eq_Nil)
  obtain m3 nodes3 where m3: "fdt_scan_loop cb strings (a + 4 * ?k) True (hd nodes1) nodes (m2, s2) =
        Some (a + 4 * ?k + 4 * words r + (if be32 m2 (a + 4 * ?k + 4 * words r) = 2 then 4 else 0), nodes3, m3, snd (walk c True (hd ?own) ns r s2))"
      "holds strings m3 (a + 4 * ?k) (fst (walk c True (hd ?own) ns r s2))"
      "\<forall>x. x < a + 4 * ?k \<or> a + 4 * ?k + 4 * words r \<le> x \<longrightarrow> m3 x = m2 x" "nodes_below m3 b nodes3 (own_cells r ns)"
    using r [OF m2(3), of "hd nodes1" s2] nodes_below_hd [OF m1(4) n1(2)] unfolding scanned_def by blast
  have step: "fdt_scan_loop cb strings a seen child nodes (m, s) =
      fdt_scan_loop cb strings (a + 4 * ?k) True (hd nodes1) nodes (m2, s2)"
  proof -
    have "be32 m a = 1" "strlen m (a + 4) = Some (length nm)" using h(1) by (simp_all add: strlen_cstr)
    moreover have "call_done cb seen nodes (m, s) = Some (m, finish c seen ns s)" using h(5) by (rule done_finish)
    moreover have "call_open cb (?child # nodes) (m, finish c seen ns s) = Some (m, ?s)"
      using nodes_below_rel [OF n] by (rule open_law) simp
    moreover have "call_close cb nodes1 (m1, s1) = Some (kill, m1, s2)"
      using close_law [OF nodes_below_rel [OF m1(4)] n1(2), of s1] k by simp
    ultimately show ?thesis using m1(1) m2(1) w
      by (subst fdt_scan_loop.simps, cases kill) (simp_all add: Let_def add.assoc)
  qed
  have "holds strings m3 a ?left"
    by (rule holds_frame [OF m2(2) al, of "a + 4 * ?k" "a + 4 * ?k + 4 * words r"]) (use h(3,4) wl m3(3) in auto)
  then have "holds strings m3 a (?left @ fst (walk c True (hd ?own) ns r s2))"
    unfolding holds_append wl using m3(2) by simp
  moreover have "be32 m2 (a + 4 * ?k + 4 * words r) = be32 m (a + 4 * ?k + 4 * words r)"
    using m2(3) by (intro be32_cong) auto
  moreover have "walk c seen ch ns (Node nm its # r) s = (?left @ fst (walk c True (hd ?own) ns r s2), snd (walk c True (hd ?own) ns r s2))"
    using w k by (simp add: Let_def me [symmetric] case_prod_unfold)
  moreover have "words (Node nm its # r) = ?k + words r" by simp
  ultimately show ?thesis
    using step m2(3) m3 unfolding scanned_def
    by (intro exI [of _ m3] exI [of _ nodes3]) (auto simp: add.assoc add_mult_distrib2)
qed

lemma scan_walk:
  "\<lbrakk>holds strings m a its; names_apart strings lo hi its; lo \<le> a; a + 4 * words its \<le> hi;
    scannable okp seen ch ns its; nodes_below m b nodes ns; b \<le> a;
    address_cells child = an_acells ch; size_cells child = an_scells ch; be32 m (a + 4 * words its) \<notin> {1, 3, 4}\<rbrakk> \<Longrightarrow>
   scanned b strings a seen ch ns its child nodes m s"
proof (induction its arbitrary: m a seen ch ns b nodes child s rule: words.induct)
  case 1
  then show ?case by (intro scan_end) simp_all
next
  case (2 r)
  then show ?case by (intro scan_nop "2.IH") (simp_all add: algebra_simps)
next
  case (3 off nm v r)
  from "3.prems"(5) have seen: "\<not> seen" by simp
  show ?case
    unfolding seen [THEN eq_False [THEN iffD2]]
  proof (rule scan_prop)
    show "holds strings m a [Prop off nm v]" "names_apart strings lo hi [Prop off nm v]"
      using "3.prems"(1,2) by simp_all
    show "name_is ''#address-cells'' nm \<or> name_is ''#size-cells'' nm \<longrightarrow> 4 \<le> length v" "okp (with_cells nm v ns) nm v"
      using "3.prems"(5) by simp_all
    fix nodes s
    assume "nodes_below m b nodes (with_cells nm v ns)"
    then show "scanned b strings (a + 4 * words [Prop off nm v]) False ch (with_cells nm v ns) r child nodes m s"
      using "3.prems" seen by (intro "3.IH") (simp_all add: algebra_simps)
  qed (use "3.prems" in auto)
next
  case (4 nm its r)
  let ?me = "ch\<lparr>an_name := nm\<rparr>" and ?a = "a + 4 * (2 + length nm div 4)" and ?b = "a + 4 * words [Node nm its]"
  show ?case
  proof (rule scan_node [where me = ?me])
    show "holds strings m a [Node nm its]" "names_apart strings lo hi [Node nm its]"
      using "4.prems"(1,2) by simp_all
    fix nodes s
    assume "nodes_below m ?a nodes (?me # ns)"
    then show "scanned ?a strings ?a False an_default (?me # ns) its new_child nodes m s"
      using "4.prems" by (intro "4.IH"(1)) (simp_all add: algebra_simps an_default_def new_child_def)
  next
    fix m' s and child :: fdt_scan_node
    assume m': "\<And>x. x < a \<or> ?b \<le> x \<Longrightarrow> m' x = m x"
      and child: "address_cells child = an_acells (hd (own_cells its (?me # ns)))"
        "size_cells child = an_scells (hd (own_cells its (?me # ns)))"
    have "holds strings m ?b r" "names_apart strings lo hi r" using "4.prems"(1,2) by simp_all
    then have "holds strings m' ?b r"
      by (rule holds_frame [where p = a and q = ?b]) (use m' "4.prems"(3,4) in auto)
    moreover have "be32 m' (?b + 4 * words r) = be32 m (?b + 4 * words r)"
      using m' by (intro be32_cong) auto
    moreover have "nodes_below m' b nodes ns"
      using "4.prems"(6) by (rule nodes_below_mono) (use m' "4.prems"(7) in auto)
    ultimately show "scanned b strings ?b True (hd (own_cells its (?me # ns))) ns r child nodes m' s"
      using "4.prems" child by (intro "4.IH"(2)) (simp_all add: algebra_simps)
  qed (use "4.prems" in auto)
qed

text \<open>
  A whole scan: it returns, the client has seen the walk, and memory changes at most inside the
  structure block, which then holds what the walk left.
\<close>

lemma fdt_scan_walk:
  assumes b: "blob m fdt its" and sc: "scannable okp False an_default [] its"
  shows "\<exists>m'. fdt_scan fdt cb (m, s) = Some (m', snd (walk c False an_default [] its s)) \<and>
    blob m' fdt (fst (walk c False an_default [] its s)) \<and>
    (\<forall>x. x < blob_struct m fdt \<or> blob_struct m fdt + 4 * words its \<le> x \<longrightarrow> m' x = m x)"
proof -
  let ?strings = "fdt + unat (be32 m (fdt + 12))" and ?a = "blob_struct m fdt"
  let ?its = "fst (walk c False an_default [] its s)"
  let ?e = "?a + 4 * words its"
  note b = b [unfolded blob_def Let_def]
  have w: "words ?its = words its" "names_apart ?strings ?a ?e ?its"
    using b words_walk [of c False an_default "[]" its s] names_apart_walk [of c False an_default "[]" its s]
    by (cases "walk c False an_default [] its s", simp)+
  have "scanned 0 ?strings ?a False an_default [] its new_child [] m s"
    using b sc by (intro scan_walk) (auto simp: nodes_below_def new_child_def an_default_def)
  then obtain m' nodes' where m': "fdt_scan_loop cb ?strings ?a False new_child [] (m, s) =
        Some (?e, nodes', m', snd (walk c False an_default [] its s))"
      "holds ?strings m' ?a ?its" "\<And>x. x < ?a \<or> ?e \<le> x \<Longrightarrow> m' x = m x"
    using b unfolding scanned_def by auto
  have hdr: "be32 m' (fdt + j) = be32 m (fdt + j)" if "j \<le> 24" for j
    using b that by (intro be32_cong m'(3)) auto
  have "be32 m' ?e = be32 m ?e" by (intro be32_cong m'(3)) auto
  with b m'(2) w hdr [of 0] hdr [of 8] hdr [of 12] hdr [of 24] have "blob m' fdt ?its"
    unfolding blob_def Let_def blob_struct_def fdt_understood_def by simp
  moreover have "fdt_scan fdt cb (m, s) = Some (m', snd (walk c False an_default [] its s))"
    using b m'(1) by (simp add: fdt_scan_def fdt_scan_helper_def blob_struct_def Let_def)
  ultimately show ?thesis using m'(3) by blast
qed

end

end
