(* ===== verification/Fdt_scans.thy ===== *)
theory Fdt_scans
  imports Fdt_tree
begin

text \<open>
  The scans of \<open>pk/machine/fdt.c\<close> that set up memory, harts, CLINT and PLIC, find the payload and
  hide harts and devices from it. The \<open>extra\<close> argument of the callbacks and the globals they write
  are the scanner's client state. Locals that C leaves uninitialised are arguments of the model.
\<close>

unbundle bit_operations_syntax

section \<open>Globals\<close>

record hls_t =
  ipi :: u64
  mipi_pending :: u32
  timecmp :: u64
  plic_m_thresh :: u64
  plic_m_ie :: u64
  plic_s_thresh :: u64
  plic_s_ie :: u64

definition hls_zero :: hls_t where
  "hls_zero = \<lparr>ipi = 0, mipi_pending = 0, timecmp = 0, plic_m_thresh = 0, plic_m_ie = 0, plic_s_thresh = 0, plic_s_ie = 0\<rparr>"

record globals =
  mem_size :: u64
  hart_phandles :: "nat \<Rightarrow> u32"
  hart_mask :: u64
  hls_of :: "nat \<Rightarrow> hls_t"
  mtime :: u64
  plic_priorities :: u64
  plic_ndevs :: u64
  kernel_start :: u64
  kernel_end :: u64
  messages :: "(string \<times> u64 list) list"

abbreviation (input) MAX_HARTS :: nat where "MAX_HARTS \<equiv> 8"

definition hls_init :: "nat \<Rightarrow> globals \<Rightarrow> globals" where
  "hls_init hart g = g\<lparr>hls_of := (hls_of g)(hart := hls_zero)\<rparr>"

definition assert_c :: "bool \<Rightarrow> unit option" where
  "assert_c p = (if p then Some () else None)"

text \<open>A pointer to the end of the words of a property of signed byte length.\<close>

definition value_end :: "nat \<Rightarrow> u32 \<Rightarrow> int" where
  "value_end value len = int value + 4 * c_div (sint len) 4"

section \<open>Memory\<close>

record mem_scan =
  ms_memory :: bool
  ms_reg_value :: nat
  ms_reg_len :: u32

definition mem_open :: "node_ptr \<Rightarrow> (mem_scan \<times> globals) fdt_state \<Rightarrow> (mem_scan \<times> globals) fdt_state option" where
  "mem_open nodes = (\<lambda>(m, scan, g). Some (m, \<lparr>ms_memory = False, ms_reg_value = 0, ms_reg_len = 0\<rparr>, g))"

definition mem_prop :: "node_ptr \<Rightarrow> fdt_scan_prop \<Rightarrow> (mem_scan \<times> globals) fdt_state \<Rightarrow> (mem_scan \<times> globals) fdt_state option" where
  "mem_prop nodes p = (\<lambda>(m, scan, g).
     Some (m,
       (if str_is m (prop_name p) ''device_type'' \<and> str_is m (prop_value p) ''memory'' then scan\<lparr>ms_memory := True\<rparr>
        else if str_is m (prop_name p) ''reg'' then scan\<lparr>ms_reg_value := prop_value p, ms_reg_len := prop_len p\<rparr>
        else scan), g))"

partial_function (option) mem_loop :: "bmem \<Rightarrow> u64 \<Rightarrow> fdt_scan_node \<Rightarrow> nat \<Rightarrow> int \<Rightarrow> globals \<Rightarrow> (nat \<times> globals) option" where
  "mem_loop m self up val stop g =
     (if stop - int val > 0
      then let (val, base) = fdt_get_address up m val;
               (val, sz) = fdt_get_size up m val
           in mem_loop m self up val stop (if base \<le> self \<and> self \<le> base + sz then g\<lparr>mem_size := sz\<rparr> else g)
      else Some (val, g))"

definition mem_done :: "u64 \<Rightarrow> node_ptr \<Rightarrow> (mem_scan \<times> globals) fdt_state \<Rightarrow> (mem_scan \<times> globals) fdt_state option" where
  "mem_done self nodes = (\<lambda>(m, scan, g).
     (if \<not> ms_memory scan then Some (m, scan, g)
      else do {
        let stop = value_end (ms_reg_value scan) (ms_reg_len scan);
        assert_c (ms_reg_value scan \<noteq> 0 \<and> c_mod (sint (ms_reg_len scan)) 4 = 0);
        up \<leftarrow> (if stop - int (ms_reg_value scan) > 0 then parent nodes else Some new_child);
        (val, g) \<leftarrow> mem_loop m self up (ms_reg_value scan) stop g;
        assert_c (stop = int val);
        Some (m, scan, g)
      }))"

definition query_mem :: "u64 \<Rightarrow> mem_scan \<Rightarrow> nat \<Rightarrow> bmem \<times> globals \<Rightarrow> (bmem \<times> globals) option" where
  "query_mem self scan fdt = (\<lambda>(m, g). do {
     (m, scan, g) \<leftarrow> fdt_scan fdt \<lparr>cb_open = Some mem_open, cb_prop = mem_prop, cb_done = Some (mem_done self), cb_close = None\<rparr>
                      (m, scan, g\<lparr>mem_size := 0\<rparr>);
     assert_c (mem_size g > 0);
     Some (m, g)
   })"

section \<open>Harts\<close>

text \<open>\<open>cpu\<close> and \<open>controller\<close> point to nodes: they are depths, 0 for the null pointer.\<close>

record hart_scan =
  hs_cpu :: nat
  hs_hart :: u32
  hs_controller :: nat
  hs_cells :: u32
  hs_phandle :: u32

type_synonym hart_state = "(hart_scan \<times> globals) fdt_state"

definition hart_open :: "node_ptr \<Rightarrow> hart_state \<Rightarrow> hart_state option" where
  "hart_open nodes = (\<lambda>(m, scan, g).
     let scan = (if hs_cpu scan = 0 then scan\<lparr>hs_hart := -1\<rparr> else scan);
         scan = (if hs_controller scan = 0 then scan\<lparr>hs_cells := 0, hs_phandle := 0\<rparr> else scan)
     in Some (m, scan, g))"

definition hart_prop :: "node_ptr \<Rightarrow> fdt_scan_prop \<Rightarrow> hart_state \<Rightarrow> hart_state option" where
  "hart_prop nodes p = (\<lambda>(m, scan, g).
     if str_is m (prop_name p) ''device_type'' \<and> str_is m (prop_value p) ''cpu'' then
       do { assert_c (hs_cpu scan = 0); Some (m, scan\<lparr>hs_cpu := length nodes\<rparr>, g) }
     else if str_is m (prop_name p) ''interrupt-controller'' then
       do { assert_c (hs_controller scan = 0); Some (m, scan\<lparr>hs_controller := length nodes\<rparr>, g) }
     else if str_is m (prop_name p) ''#interrupt-cells'' then Some (m, scan\<lparr>hs_cells := be32 m (prop_value p)\<rparr>, g)
     else if str_is m (prop_name p) ''phandle'' then Some (m, scan\<lparr>hs_phandle := be32 m (prop_value p)\<rparr>, g)
     else if str_is m (prop_name p) ''reg'' then
       do { reg \<leftarrow> read_reg m nodes p; Some (m, scan\<lparr>hs_hart := ucast reg\<rparr>, g) }
     else Some (m, scan, g))"

text \<open>A negative hart number would index before \<open>hart_phandles\<close>.\<close>

definition hart_done :: "node_ptr \<Rightarrow> hart_state \<Rightarrow> hart_state option" where
  "hart_done nodes = (\<lambda>(m, scan, g). do {
     (if hs_cpu scan = length nodes then assert_c (0 \<le> sint (hs_hart scan)) else Some ());
     (if hs_controller scan = length nodes \<and> hs_cpu scan \<noteq> 0 then do {
        assert_c (hs_phandle scan > 0);
        assert_c (sint (hs_cells scan) = 1);
        (if sint (hs_hart scan) < int MAX_HARTS then do {
           assert_c (0 \<le> sint (hs_hart scan));
           let hart = unat (hs_hart scan);
           let g = g\<lparr>hart_phandles := (hart_phandles g)(hart := hs_phandle scan),
                      hart_mask := hart_mask g OR push_bit hart 1\<rparr>;
           Some (m, scan, hls_init hart g)
         } else Some (m, scan, g))
      } else Some (m, scan, g))
   })"

definition hart_close :: "node_ptr \<Rightarrow> hart_state \<Rightarrow> (int \<times> hart_state) option" where
  "hart_close nodes = (\<lambda>(m, scan, g).
     let scan = (if hs_cpu scan = length nodes then scan\<lparr>hs_cpu := 0\<rparr> else scan);
         scan = (if hs_controller scan = length nodes then scan\<lparr>hs_controller := 0\<rparr> else scan)
     in Some (0, m, scan, g))"

definition query_harts :: "nat \<Rightarrow> nat \<Rightarrow> bmem \<times> globals \<Rightarrow> (bmem \<times> globals) option" where
  "query_harts mhartid fdt = (\<lambda>(m, g). do {
     (m, scan, g) \<leftarrow> fdt_scan fdt \<lparr>cb_open = Some hart_open, cb_prop = hart_prop, cb_done = Some hart_done, cb_close = Some hart_close\<rparr>
                      (m, \<lparr>hs_cpu = 0, hs_hart = 0, hs_controller = 0, hs_cells = 0, hs_phandle = 0\<rparr>, g);
     assert_c (mhartid < 64 \<and> drop_bit mhartid (hart_mask g) \<noteq> 0);
     Some (m, g)
   })"

section \<open>CLINT\<close>

record clint_scan =
  cs_compat :: bool
  cs_reg :: u64
  cs_int_value :: nat
  cs_int_len :: u32
  cs_done :: bool

type_synonym clint_state = "(clint_scan \<times> globals) fdt_state"

definition clint_open :: "node_ptr \<Rightarrow> clint_state \<Rightarrow> clint_state option" where
  "clint_open nodes = (\<lambda>(m, scan, g). Some (m, scan\<lparr>cs_compat := False, cs_reg := 0, cs_int_value := 0\<rparr>, g))"

definition listed :: "bmem \<Rightarrow> fdt_scan_prop \<Rightarrow> string \<Rightarrow> bool option" where
  "listed m p str =
     (if str_is m (prop_name p) ''compatible'' then map_option (\<lambda>i. i \<ge> 0) (fdt_string_list_index m p str)
      else Some False)"

definition clint_prop :: "node_ptr \<Rightarrow> fdt_scan_prop \<Rightarrow> clint_state \<Rightarrow> clint_state option" where
  "clint_prop nodes p = (\<lambda>(m, scan, g). do {
     compat \<leftarrow> listed m p ''riscv,clint0'';
     (if compat then Some (m, scan\<lparr>cs_compat := True\<rparr>, g)
      else if str_is m (prop_name p) ''reg'' then
        do { reg \<leftarrow> read_reg m nodes p; Some (m, scan\<lparr>cs_reg := reg\<rparr>, g) }
      else if str_is m (prop_name p) ''interrupts-extended'' then
        Some (m, scan\<lparr>cs_int_value := prop_value p, cs_int_len := prop_len p\<rparr>, g)
      else Some (m, scan, g))
   })"

text \<open>The search for the hart with a phandle ends at \<open>MAX_HARTS\<close> when there is none.\<close>

fun find_hart :: "(nat \<Rightarrow> u32) \<Rightarrow> u32 \<Rightarrow> nat \<Rightarrow> nat \<Rightarrow> nat" where
  "find_hart phandles phandle hart 0 = hart"
| "find_hart phandles phandle hart (Suc k) =
     (if phandles hart = phandle then hart else find_hart phandles phandle (hart + 1) k)"

function clint_loop :: "bmem \<Rightarrow> u64 \<Rightarrow> nat \<Rightarrow> int \<Rightarrow> nat \<Rightarrow> globals \<Rightarrow> globals" where
  "clint_loop m reg val stop index g =
     (if stop - int val > 0
      then let hart = find_hart (hart_phandles g) (be32 m val) 0 MAX_HARTS;
               g = (if hart < MAX_HARTS
                    then g\<lparr>hls_of := (hls_of g)(hart := (hls_of g hart)
                             \<lparr>ipi := reg + of_nat (index * 4), timecmp := reg + 0x4000 + of_nat (index * 8)\<rparr>)\<rparr>
                    else g)
           in clint_loop m reg (val + 16) stop (index + 1) g
      else g)"
  by pat_completeness auto
termination by (relation "measure (\<lambda>(m, reg, val, stop, index, g). nat (stop - int val))") auto

definition clint_done :: "node_ptr \<Rightarrow> clint_state \<Rightarrow> clint_state option" where
  "clint_done nodes = (\<lambda>(m, scan, g).
     if \<not> cs_compat scan then Some (m, scan, g)
     else do {
       assert_c (cs_reg scan \<noteq> 0);
       assert_c (cs_int_value scan \<noteq> 0 \<and> c_mod (sint (cs_int_len scan)) 16 = 0);
       assert_c (\<not> cs_done scan);
       let stop = value_end (cs_int_value scan) (cs_int_len scan);
       Some (m, scan\<lparr>cs_done := True\<rparr>,
         clint_loop m (cs_reg scan) (cs_int_value scan) stop 0 (g\<lparr>mtime := cs_reg scan + 0xbff8\<rparr>))
     })"

definition query_clint :: "clint_scan \<Rightarrow> nat \<Rightarrow> bmem \<times> globals \<Rightarrow> (bmem \<times> globals) option" where
  "query_clint scan fdt = (\<lambda>(m, g). do {
     (m, scan, g) \<leftarrow> fdt_scan fdt \<lparr>cb_open = Some clint_open, cb_prop = clint_prop, cb_done = Some clint_done, cb_close = None\<rparr>
                      (m, scan\<lparr>cs_done := False\<rparr>, g);
     assert_c (cs_done scan);
     Some (m, g)
   })"

section \<open>PLIC\<close>

record plic_scan =
  ps_compat :: bool
  ps_reg :: u64
  ps_int_value :: nat
  ps_int_len :: u32
  ps_done :: bool
  ps_ndev :: u32

type_synonym plic_state = "(plic_scan \<times> globals) fdt_state"

definition plic_open :: "node_ptr \<Rightarrow> plic_state \<Rightarrow> plic_state option" where
  "plic_open nodes = (\<lambda>(m, scan, g). Some (m, scan\<lparr>ps_compat := False, ps_reg := 0, ps_int_value := 0\<rparr>, g))"

definition plic_prop :: "node_ptr \<Rightarrow> fdt_scan_prop \<Rightarrow> plic_state \<Rightarrow> plic_state option" where
  "plic_prop nodes p = (\<lambda>(m, scan, g). do {
     compat \<leftarrow> listed m p ''riscv,plic0'';
     (if compat then Some (m, scan\<lparr>ps_compat := True\<rparr>, g)
      else if str_is m (prop_name p) ''reg'' then
        do { reg \<leftarrow> read_reg m nodes p; Some (m, scan\<lparr>ps_reg := reg\<rparr>, g) }
      else if str_is m (prop_name p) ''interrupts-extended'' then
        Some (m, scan\<lparr>ps_int_value := prop_value p, ps_int_len := prop_len p\<rparr>, g)
      else if str_is m (prop_name p) ''riscv,ndev'' then Some (m, scan\<lparr>ps_ndev := be32 m (prop_value p)\<rparr>, g)
      else Some (m, scan, g))
   })"

abbreviation (input) IRQ_S_EXT :: u32 where "IRQ_S_EXT \<equiv> 9"
abbreviation (input) IRQ_M_EXT :: u32 where "IRQ_M_EXT \<equiv> 11"

definition plic_wire :: "u64 \<Rightarrow> nat \<Rightarrow> u32 \<Rightarrow> nat \<Rightarrow> globals \<Rightarrow> globals" where
  "plic_wire reg index cpu_int hart g =
     (let ie = reg + 0x2000 + of_nat (0x80 * index);
          thresh = reg + 0x200000 + of_nat (0x1000 * index)
      in if cpu_int = IRQ_M_EXT
         then g\<lparr>hls_of := (hls_of g)(hart := (hls_of g hart)\<lparr>plic_m_ie := ie, plic_m_thresh := thresh\<rparr>)\<rparr>
         else if cpu_int = IRQ_S_EXT
         then g\<lparr>hls_of := (hls_of g)(hart := (hls_of g hart)\<lparr>plic_s_ie := ie, plic_s_thresh := thresh\<rparr>)\<rparr>
         else g\<lparr>messages := messages g @ [(''PLIC wired hart %d to wrong interrupt %d'', [of_nat hart, ucast cpu_int])]\<rparr>)"

function plic_loop :: "bmem \<Rightarrow> u64 \<Rightarrow> nat \<Rightarrow> int \<Rightarrow> nat \<Rightarrow> globals \<Rightarrow> globals" where
  "plic_loop m reg val stop index g =
     (if stop - int val > 0
      then let hart = find_hart (hart_phandles g) (be32 m val) 0 MAX_HARTS;
               g = (if hart < MAX_HARTS then plic_wire reg index (be32 m (val + 4)) hart g else g)
           in plic_loop m reg (val + 8) stop (index + 1) g
      else g)"
  by pat_completeness auto
termination by (relation "measure (\<lambda>(m, reg, val, stop, index, g). nat (stop - int val))") auto

definition plic_done :: "node_ptr \<Rightarrow> plic_state \<Rightarrow> plic_state option" where
  "plic_done nodes = (\<lambda>(m, scan, g).
     if \<not> ps_compat scan then Some (m, scan, g)
     else do {
       assert_c (ps_reg scan \<noteq> 0);
       assert_c (ps_int_value scan \<noteq> 0 \<and> c_mod (sint (ps_int_len scan)) 8 = 0);
       assert_c (0 \<le> sint (ps_ndev scan) \<and> sint (ps_ndev scan) < 1024);
       assert_c (\<not> ps_done scan);
       let stop = value_end (ps_int_value scan) (ps_int_len scan);
       Some (m, scan\<lparr>ps_done := True\<rparr>,
         plic_loop m (ps_reg scan) (ps_int_value scan) stop 0
           (g\<lparr>plic_priorities := ps_reg scan, plic_ndevs := scast (ps_ndev scan)\<rparr>))
     })"

definition query_plic :: "plic_scan \<Rightarrow> nat \<Rightarrow> bmem \<times> globals \<Rightarrow> (bmem \<times> globals) option" where
  "query_plic scan fdt = (\<lambda>(m, g).
     map_option (\<lambda>(m, scan, g). (m, g))
       (fdt_scan fdt \<lparr>cb_open = Some plic_open, cb_prop = plic_prop, cb_done = Some plic_done, cb_close = None\<rparr>
         (m, scan\<lparr>ps_done := False\<rparr>, g)))"

function redact_loop :: "nat \<Rightarrow> int \<Rightarrow> bmem \<Rightarrow> bmem" where
  "redact_loop val stop m =
     (if stop - int val > 0
      then redact_loop (val + 8) stop
             (if be32 m (val + 4) = IRQ_M_EXT then store32 (val + 4) (bswap (-1)) m else m)
      else m)"
  by pat_completeness auto
termination by (relation "measure (\<lambda>(val, stop, m). nat (stop - int val))") auto

definition plic_redact :: "node_ptr \<Rightarrow> plic_state \<Rightarrow> plic_state option" where
  "plic_redact nodes = (\<lambda>(m, scan, g).
     if \<not> ps_compat scan then Some (m, scan, g)
     else let stop = value_end (ps_int_value scan) (ps_int_len scan)
          in if ps_int_value scan = 0 \<and> stop > 0 then None
             else Some (redact_loop (ps_int_value scan) stop m, scan\<lparr>ps_done := True\<rparr>, g))"

definition filter_plic :: "plic_scan \<Rightarrow> nat \<Rightarrow> bmem \<times> globals \<Rightarrow> (bmem \<times> globals) option" where
  "filter_plic scan fdt = (\<lambda>(m, g).
     map_option (\<lambda>(m, scan, g). (m, g))
       (fdt_scan fdt \<lparr>cb_open = Some plic_open, cb_prop = plic_prop, cb_done = Some plic_redact, cb_close = None\<rparr>
         (m, scan\<lparr>ps_done := False\<rparr>, g)))"

section \<open>Deleting compatible nodes\<close>

record compat_scan =
  co_compat :: string
  co_depth :: int
  co_kill :: int

definition compat_open :: "node_ptr \<Rightarrow> compat_scan fdt_state \<Rightarrow> compat_scan fdt_state option" where
  "compat_open nodes = (\<lambda>(m, scan). Some (m, scan\<lparr>co_depth := co_depth scan + 1\<rparr>))"

definition compat_prop :: "node_ptr \<Rightarrow> fdt_scan_prop \<Rightarrow> compat_scan fdt_state \<Rightarrow> compat_scan fdt_state option" where
  "compat_prop nodes p = (\<lambda>(m, scan). do {
     compat \<leftarrow> listed m p (co_compat scan);
     Some (m, if compat \<and> co_depth scan < co_kill scan then scan\<lparr>co_kill := co_depth scan\<rparr> else scan)
   })"

definition compat_close :: "node_ptr \<Rightarrow> compat_scan fdt_state \<Rightarrow> (int \<times> compat_scan fdt_state) option" where
  "compat_close nodes = (\<lambda>(m, scan).
     let hit = (co_kill scan = co_depth scan);
         scan = scan\<lparr>co_depth := co_depth scan - 1\<rparr>
     in Some (if hit then (-1, m, scan\<lparr>co_kill := 999\<rparr>) else (0, m, scan)))"

definition filter_compat :: "nat \<Rightarrow> string \<Rightarrow> bmem \<Rightarrow> bmem option" where
  "filter_compat fdt str m =
     map_option fst (fdt_scan fdt
       \<lparr>cb_open = Some compat_open, cb_prop = compat_prop, cb_done = None, cb_close = Some compat_close\<rparr>
       (m, \<lparr>co_compat = str, co_depth = 0, co_kill = 999\<rparr>))"

section \<open>The payload named by the chosen node\<close>

record chosen_scan =
  ch_chosen :: nat
  ch_kernel_start :: u64
  ch_kernel_end :: u64

definition chosen_open :: "node_ptr \<Rightarrow> chosen_scan fdt_state \<Rightarrow> chosen_scan fdt_state option" where
  "chosen_open nodes = (\<lambda>(m, scan).
     Some (m, if str_is m (node_name (hd nodes)) ''chosen'' then scan\<lparr>ch_chosen := length nodes\<rparr> else scan))"

definition chosen_close :: "node_ptr \<Rightarrow> chosen_scan fdt_state \<Rightarrow> (int \<times> chosen_scan fdt_state) option" where
  "chosen_close nodes = (\<lambda>(m, scan).
     Some (0, m, if ch_chosen scan \<noteq> 0 \<and> ch_chosen scan = length nodes then scan\<lparr>ch_chosen := 0\<rparr> else scan))"

definition chosen_prop :: "node_ptr \<Rightarrow> fdt_scan_prop \<Rightarrow> chosen_scan fdt_state \<Rightarrow> chosen_scan fdt_state option" where
  "chosen_prop nodes p = (\<lambda>(m, scan).
     if ch_chosen scan = 0 then Some (m, scan)
     else if str_is m (prop_name p) ''riscv,kernel-start'' then
       do { reg \<leftarrow> read_reg m nodes p; Some (m, scan\<lparr>ch_kernel_start := reg\<rparr>) }
     else if str_is m (prop_name p) ''riscv,kernel-end'' then
       do { reg \<leftarrow> read_reg m nodes p; Some (m, scan\<lparr>ch_kernel_end := reg\<rparr>) }
     else Some (m, scan))"

definition query_chosen :: "nat \<Rightarrow> bmem \<times> globals \<Rightarrow> (bmem \<times> globals) option" where
  "query_chosen fdt = (\<lambda>(m, g).
     map_option (\<lambda>(m, scan). (m, g\<lparr>kernel_start := ch_kernel_start scan, kernel_end := ch_kernel_end scan\<rparr>))
       (fdt_scan fdt \<lparr>cb_open = Some chosen_open, cb_prop = chosen_prop, cb_done = None, cb_close = Some chosen_close\<rparr>
         (m, \<lparr>ch_chosen = 0, ch_kernel_start = 0, ch_kernel_end = 0\<rparr>)))"

section \<open>Masking harts\<close>

record hart_filter =
  hf_compat :: bool
  hf_hart :: u32
  hf_status :: nat
  hf_mmu_type :: nat
  hf_disabled_hart_mask :: u64
  hf_messages :: "(string \<times> nat list) list"

definition hart_filter_open :: "node_ptr \<Rightarrow> hart_filter fdt_state \<Rightarrow> hart_filter fdt_state option" where
  "hart_filter_open nodes = (\<lambda>(m, f). Some (m, f\<lparr>hf_status := 0, hf_mmu_type := 0, hf_compat := False, hf_hart := -1\<rparr>))"

definition hart_filter_prop :: "node_ptr \<Rightarrow> fdt_scan_prop \<Rightarrow> hart_filter fdt_state \<Rightarrow> hart_filter fdt_state option" where
  "hart_filter_prop nodes p = (\<lambda>(m, f).
     if str_is m (prop_name p) ''device_type'' \<and> str_is m (prop_value p) ''cpu'' then Some (m, f\<lparr>hf_compat := True\<rparr>)
     else if str_is m (prop_name p) ''reg'' then
       do { reg \<leftarrow> read_reg m nodes p; Some (m, f\<lparr>hf_hart := ucast reg\<rparr>) }
     else if str_is m (prop_name p) ''status'' then Some (m, f\<lparr>hf_status := prop_value p\<rparr>)
     else if str_is m (prop_name p) ''mmu-type'' then Some (m, f\<lparr>hf_mmu_type := prop_value p\<rparr>)
     else Some (m, f))"

definition hart_filter_mask :: "bmem \<Rightarrow> hart_filter \<Rightarrow> bool \<times> hart_filter" where
  "hart_filter_mask m f =
     (if hf_mmu_type f = 0 then (True, f)
      else if \<not> str_is m (hf_status f) ''okay'' then (True, f)
      else if str_is m (hf_mmu_type f) ''riscv,sv39'' then (False, f)
      else if str_is m (hf_mmu_type f) ''riscv,sv48'' then (False, f)
      else (True, f\<lparr>hf_messages := hf_messages f @
              [(''hart_filter_mask saw unknown hart type'', [hf_status f, hf_mmu_type f])]\<rparr>))"

definition strcpy_lit :: "nat \<Rightarrow> string \<Rightarrow> bmem \<Rightarrow> bmem" where
  "strcpy_lit d s m = (\<lambda>a. if d \<le> a \<and> a \<le> d + length s then (c_bytes s @ [0]) ! (a - d) else m a)"

text \<open>\<open>1 << hart\<close> is a shift of an \<open>int\<close>: it is undefined from 31 on.\<close>

definition hart_filter_done :: "node_ptr \<Rightarrow> hart_filter fdt_state \<Rightarrow> hart_filter fdt_state option" where
  "hart_filter_done nodes = (\<lambda>(m, f).
     if \<not> hf_compat f then Some (m, f)
     else do {
       assert_c (hf_status f \<noteq> 0);
       assert_c (0 \<le> sint (hf_hart f));
       let (masked, f) = hart_filter_mask m f;
       (if masked then do {
          assert_c (sint (hf_hart f) < 31);
          Some (store32 (hf_status f - 8) (bswap 7) (strcpy_lit (hf_status f) ''masked'' m),
            f\<lparr>hf_disabled_hart_mask := hf_disabled_hart_mask f OR push_bit (unat (hf_hart f)) 1\<rparr>)
        } else Some (m, f))
     })"

definition filter_harts :: "hart_filter \<Rightarrow> nat \<Rightarrow> bmem \<Rightarrow> (bmem \<times> u64) option" where
  "filter_harts f fdt m =
     map_option (\<lambda>(m, f). (m, hf_disabled_hart_mask f))
       (fdt_scan fdt \<lparr>cb_open = Some hart_filter_open, cb_prop = hart_filter_prop, cb_done = Some hart_filter_done, cb_close = None\<rparr>
         (m, f\<lparr>hf_disabled_hart_mask := 0\<rparr>))"

end
