(* ===== verification/Drivers.thy ===== *)
theory Drivers
  imports Prelude
begin

text \<open>
  The memory-mapped crypto and DMA drivers (\<open>pk/machine/common_driver_fn.c\<close>, \<open>aes.c\<close>, \<open>sha256.c\<close>,
  \<open>hmac.c\<close>, \<open>dma.c\<close>, \<open>pkt.c\<close>). The devices are a parameter: a record of bus operations on a state of
  any type. A driver that polls a status register returns only if the device answers, so those
  loops are partial functions. Arrays are functions from indices.
\<close>

section \<open>Bus accesses (\<open>common_driver_fn.c\<close>)\<close>

record 'w bus =
  bread :: "u64 \<Rightarrow> 'w \<Rightarrow> u32 \<times> 'w"
  bwrite :: "u64 \<Rightarrow> u32 \<Rightarrow> 'w \<Rightarrow> 'w"
  bnop :: "'w \<Rightarrow> 'w"
  bprint :: "string \<Rightarrow> u32 list \<Rightarrow> 'w \<Rightarrow> 'w"

definition word_addr :: "u64 \<Rightarrow> nat \<Rightarrow> u64" where
  "word_addr base offset = base + 4 * of_nat offset"

definition readFromAddress :: "'w bus \<Rightarrow> u64 \<Rightarrow> nat \<Rightarrow> 'w \<Rightarrow> u32 \<times> 'w" where
  "readFromAddress b base offset w = bread b (word_addr base offset) w"

definition writeToAddress :: "'w bus \<Rightarrow> u64 \<Rightarrow> nat \<Rightarrow> u32 \<Rightarrow> 'w \<Rightarrow> 'w" where
  "writeToAddress b base offset v w = bwrite b (word_addr base offset) v w"

text \<open>The loops run over \<open>i = 0, 1, ...\<close>; the last argument but two counts the iterations left.\<close>

fun read_multi_loop :: "'w bus \<Rightarrow> u64 \<Rightarrow> nat \<Rightarrow> nat \<Rightarrow> (nat \<Rightarrow> u32) \<Rightarrow> 'w \<Rightarrow> (nat \<Rightarrow> u32) \<times> 'w" where
  "read_multi_loop b p block_size 0 pData w = (pData, w)"
| "read_multi_loop b p block_size (Suc k) pData w =
     (let i = block_size - Suc k; (v, w) = readFromAddress b p i w
      in read_multi_loop b p block_size k (pData((block_size - 1) - i := v)) w)"

definition readMultiFromAddress :: "'w bus \<Rightarrow> u64 \<Rightarrow> nat \<Rightarrow> (nat \<Rightarrow> u32) \<Rightarrow> nat \<Rightarrow> 'w \<Rightarrow> (nat \<Rightarrow> u32) \<times> 'w" where
  "readMultiFromAddress b base offset pData block_size w =
     read_multi_loop b (word_addr base offset) block_size block_size pData w"

fun write_multi_loop :: "'w bus \<Rightarrow> u64 \<Rightarrow> nat \<Rightarrow> nat \<Rightarrow> (nat \<Rightarrow> u32) \<Rightarrow> 'w \<Rightarrow> 'w" where
  "write_multi_loop b p block_size 0 pData w = w"
| "write_multi_loop b p block_size (Suc k) pData w =
     (let i = block_size - Suc k
      in write_multi_loop b p block_size k pData (writeToAddress b p ((block_size - 1) - i) (pData i) w))"

definition writeMultiToAddress :: "'w bus \<Rightarrow> u64 \<Rightarrow> nat \<Rightarrow> (nat \<Rightarrow> u32) \<Rightarrow> nat \<Rightarrow> 'w \<Rightarrow> 'w" where
  "writeMultiToAddress b base offset pData block_size w =
     write_multi_loop b (word_addr base offset) block_size block_size pData w"

fun write_char_loop :: "'w bus \<Rightarrow> u64 \<Rightarrow> nat \<Rightarrow> nat \<Rightarrow> u32 \<Rightarrow> u8 list \<Rightarrow> 'w \<Rightarrow> 'w" where
  "write_char_loop b p block_size block_ptr wdata [] w = w"
| "write_char_loop b p block_size block_ptr wdata (c # cs) w =
     (let wdata = push_bit 8 wdata OR (ucast c AND 0xFF); i = length cs
      in if i mod 4 = 0
         then write_char_loop b p block_size (block_ptr + 1) wdata cs
                (writeToAddress b p ((block_size - 1) - block_ptr) wdata w)
         else write_char_loop b p block_size block_ptr wdata cs w)"

definition writeMulticharToAddress :: "'w bus \<Rightarrow> u64 \<Rightarrow> nat \<Rightarrow> (nat \<Rightarrow> u8) \<Rightarrow> nat \<Rightarrow> 'w \<Rightarrow> 'w" where
  "writeMulticharToAddress b base offset pData block_byte_size w =
     write_char_loop b (word_addr base offset) (block_byte_size div 4) 0 0
       (map pData [0..<block_byte_size]) w"

fun do_delay :: "'w bus \<Rightarrow> nat \<Rightarrow> 'w \<Rightarrow> 'w" where
  "do_delay b 0 w = w"
| "do_delay b (Suc k) w = do_delay b k (bnop b w)"

fun verify_loop :: "(nat \<Rightarrow> u32) \<Rightarrow> (nat \<Rightarrow> u32) \<Rightarrow> nat \<Rightarrow> nat \<Rightarrow> nat" where
  "verify_loop expected received i 0 = 1"
| "verify_loop expected received i (Suc k) =
     (if expected i \<noteq> received i then 0 else verify_loop expected received (i + 1) k)"

text \<open>\<open>block_size\<close> is an \<open>int\<close>: the loop does not run when it is negative.\<close>

definition verifyMulti :: "(nat \<Rightarrow> u32) \<Rightarrow> (nat \<Rightarrow> u32) \<Rightarrow> int \<Rightarrow> nat" where
  "verifyMulti expectedData receivedData block_size = verify_loop expectedData receivedData 0 (nat block_size)"

text \<open>\<open>while (readFromAddress(base, offset) == 0) do_delay(d);\<close>\<close>

partial_function (option) poll_nonzero :: "'w bus \<Rightarrow> u64 \<Rightarrow> nat \<Rightarrow> nat \<Rightarrow> 'w \<Rightarrow> 'w option" where
  "poll_nonzero b base offset d w =
     (let (v, w) = readFromAddress b base offset w
      in if v = 0 then poll_nonzero b base offset d (do_delay b d w) else Some w)"

definition array :: "'a::zero list \<Rightarrow> nat \<Rightarrow> 'a" where
  "array xs i = (if i < length xs then xs ! i else 0)"

section \<open>AES (\<open>aes.c\<close>)\<close>

text \<open>Register offsets of \<open>aes.h\<close>: start 0, plaintext 1, key0 5, done 11, ciphertext 12, state 16,
  key selection 32.\<close>

definition aes_start_encrypt :: "'w bus \<Rightarrow> u64 \<Rightarrow> (nat \<Rightarrow> u32) \<Rightarrow> (nat \<Rightarrow> u32) \<Rightarrow> u32 \<Rightarrow> 'w \<Rightarrow> 'w option" where
  "aes_start_encrypt b aes pt st key_sel w =
     (let w = writeToAddress b aes 32 key_sel w;
          w = writeMultiToAddress b aes 1 pt 4 w;
          w = writeMultiToAddress b aes 16 st 4 w;
          w = writeToAddress b aes 0 0 w;
          w = writeToAddress b aes 0 1 w
      in map_option (writeToAddress b aes 0 0) (poll_nonzero b aes 0 1 w))"

fun print_words :: "'w bus \<Rightarrow> u32 list \<Rightarrow> 'w \<Rightarrow> 'w" where
  "print_words b [] w = w"
| "print_words b (x # xs) w = print_words b xs (bprint b ''%04x '' [x] w)"

partial_function (option) aes_wait_loop :: "'w bus \<Rightarrow> u64 \<Rightarrow> (nat \<Rightarrow> u32) \<Rightarrow> 'w \<Rightarrow> 'w option" where
  "aes_wait_loop b aes ct w =
     (let (v, w) = readFromAddress b aes 11 w
      in if v = 0
         then let (ct, w) = readMultiFromAddress b aes 12 ct 4 w
              in aes_wait_loop b aes ct (print_words b (map ct [0..<4]) w)
         else Some w)"

definition aes_wait :: "'w bus \<Rightarrow> u64 \<Rightarrow> 'w \<Rightarrow> 'w option" where
  "aes_wait b aes w = aes_wait_loop b aes (\<lambda>_. 0) (bprint b ''Waiting for AES'' [] w)"

definition aes_data_out :: "'w bus \<Rightarrow> u64 \<Rightarrow> (nat \<Rightarrow> u32) \<Rightarrow> 'w \<Rightarrow> (nat \<Rightarrow> u32) \<times> 'w" where
  "aes_data_out b aes ct w = readMultiFromAddress b aes 12 ct 4 w"

definition aes_encrypt :: "'w bus \<Rightarrow> u64 \<Rightarrow> (nat \<Rightarrow> u32) \<Rightarrow> (nat \<Rightarrow> u32) \<Rightarrow> (nat \<Rightarrow> u32) \<Rightarrow> u32 \<Rightarrow> 'w \<Rightarrow>
    ((nat \<Rightarrow> u32) \<times> 'w) option" where
  "aes_encrypt b aes pt st ct key_sel w =
     (case aes_start_encrypt b aes pt st key_sel w of None \<Rightarrow> None
      | Some w \<Rightarrow> (case aes_wait b aes w of None \<Rightarrow> None | Some w \<Rightarrow> Some (aes_data_out b aes ct w)))"

definition check_aes :: "'w bus \<Rightarrow> u64 \<Rightarrow> 'w \<Rightarrow> (nat \<times> 'w) option" where
  "check_aes b aes w =
     (let w = bprint b ''    Verifying AES crypto engine ...'' [] w;
          pt = array [0x00001111, 0x22223333, 0x44445555, 0x66667777];
          st = array [0x3243f6a8, 0x885a308d, 0x313198a2, 0xe0370734];
          key = array [0x2b7e1516, 0x28aed2a6, 0xabf71588, 0x09cf4f3c, 0x2b7e1516, 0x28aed2a6];
          expectedCt = array [0x4fcb9ca9, 0x75a691f2, 0xff338e2b, 0xb85460db];
          w = writeMultiToAddress b aes 5 key 6 w
      in case aes_encrypt b aes pt st (\<lambda>_. 0) 0 w of None \<Rightarrow> None
         | Some (ct, w) \<Rightarrow>
             let aes_working = verifyMulti expectedCt ct 4;
                 w = (if aes_working \<noteq> 0
                      then bprint b ''    AES engine encryption successfully verified'' [] w
                      else bprint b ''    AES engine failed, disabling the crypto engine !'' [] w)
             in Some (aes_working, w))"

section \<open>SHA-256 (\<open>sha256.c\<close>)\<close>

text \<open>
  The padding loop over \<open>i\<close> from \<open>startByte\<close> to \<open>sizeStartByte + 7\<close>. Register offsets of \<open>sha256.h\<close>:
  next/init and ready 0, text 1, valid 17, hash 18.
\<close>

fun padding_loop :: "u64 \<Rightarrow> int \<Rightarrow> int \<Rightarrow> nat \<Rightarrow> int \<Rightarrow> (nat \<Rightarrow> u8) \<Rightarrow> (nat \<Rightarrow> u8)" where
  "padding_loop bits startByte sizeStartByte 0 i buffer = buffer"
| "padding_loop bits startByte sizeStartByte (Suc k) i buffer =
     (let v = (if i = startByte then 0x80
               else if i \<ge> sizeStartByte
               then ucast (drop_bit (nat (56 - 8 * (i - sizeStartByte))) bits AND 0xFF)
               else 0)
      in padding_loop bits startByte sizeStartByte k (i + 1) (buffer(nat i := v)))"

definition addPadding :: "u64 \<Rightarrow> (nat \<Rightarrow> u8) \<Rightarrow> int \<times> (nat \<Rightarrow> u8)" where
  "addPadding bits buffer =
     (let extraBits = uint (bits mod 512);
          paddingBits = (if extraBits > 448 then 2 * 512 - extraBits else 512 - extraBits);
          startByte = extraBits div 8;
          sizeStartByte = startByte + (paddingBits div 8 - 8)
      in (paddingBits div 8,
          padding_loop bits startByte sizeStartByte (nat (sizeStartByte + 8 - startByte)) startByte buffer))"

definition sha256_addPadding :: "u64 \<Rightarrow> (nat \<Rightarrow> u8) \<Rightarrow> int \<times> (nat \<Rightarrow> u8)" where
  "sha256_addPadding = addPadding"

text \<open>
  The copy loop: at most \<open>room\<close> characters of the string, the rest of it, and whether the end of
  the string stopped the loop.
\<close>

fun copy_chunk :: "nat \<Rightarrow> nat \<Rightarrow> u8 list \<Rightarrow> (nat \<Rightarrow> u8) \<Rightarrow> bool \<times> nat \<times> u8 list \<times> (nat \<Rightarrow> u8)" where
  "copy_chunk 0 len s message = (False, len, s, message)"
| "copy_chunk (Suc room) len [] message = (True, len, [], message)"
| "copy_chunk (Suc room) len (c # s) message =
     copy_chunk room (len + 1) s (message(len := c))"

definition zero_message :: "nat \<Rightarrow> u8" where "zero_message i = 0"

text \<open>Sending one block: wait for ready, write the text registers, strobe, wait for valid.\<close>

definition strobe :: "'w bus \<Rightarrow> u64 \<Rightarrow> u32 \<Rightarrow> 'w \<Rightarrow> 'w" where
  "strobe b base v w = writeToAddress b base 0 0 (writeToAddress b base 0 v w)"

definition send_block :: "'w bus \<Rightarrow> u64 \<Rightarrow> ('w \<Rightarrow> 'w) \<Rightarrow> u32 \<Rightarrow> 'w \<Rightarrow> 'w option" where
  "send_block b base write_text v w =
     (case poll_nonzero b base 0 1 w of None \<Rightarrow> None
      | Some w \<Rightarrow> poll_nonzero b base 17 4 (do_delay b 20 (strobe b base v (write_text w))))"

text \<open>\<open>(uint32_t *)(message + 64)\<close>: the words of the second half of the buffer, little-endian.\<close>

definition message_words :: "(nat \<Rightarrow> u8) \<Rightarrow> nat \<Rightarrow> nat \<Rightarrow> u32" where
  "message_words message start i = le_word (map message [start + 4 * i..<start + 4 * i + 4])"

lemma copy_chunk_rest:
  "copy_chunk room n s m = (False, n', s', m') \<Longrightarrow> length s' + room = length s"
  by (induction room n s m rule: copy_chunk.induct) auto

function sha256_loop :: "'w bus \<Rightarrow> u64 \<Rightarrow> bool \<Rightarrow> nat \<Rightarrow> u8 list \<Rightarrow> 'w \<Rightarrow> 'w option" where
  "sha256_loop b sha firstTime totalBytes pString w =
     (case copy_chunk 64 0 pString zero_message of
        (done, len, pString', message) \<Rightarrow>
          let totalBytes = totalBytes + len;
              (addedBytes, message) = (if done then sha256_addPadding (of_nat (totalBytes * 8)) message
                                       else (0, message))
          in case send_block b sha (writeMulticharToAddress b sha 1 message 64)
                    (if firstTime then 1 else 2) w of None \<Rightarrow> None
             | Some w \<Rightarrow>
                 (case (if addedBytes > 64
                        then send_block b sha (writeMultiToAddress b sha 1 (message_words message 64) 16) 2 w
                        else Some w) of None \<Rightarrow> None
                  | Some w \<Rightarrow> if done then Some w else sha256_loop b sha False totalBytes pString' w))"
  by pat_completeness auto
termination
  by (relation "measure (\<lambda>(b, sha, f, t, s, w). length s)") (auto dest!: copy_chunk_rest [OF sym])

definition sha256_hashString :: "'w bus \<Rightarrow> u64 \<Rightarrow> u8 list \<Rightarrow> (nat \<Rightarrow> u32) \<Rightarrow> 'w \<Rightarrow> ((nat \<Rightarrow> u32) \<times> 'w) option" where
  "sha256_hashString b sha pString hash w =
     map_option (readMultiFromAddress b sha 18 hash 8) (sha256_loop b sha True 0 pString w)"

definition check_sha256 :: "'w bus \<Rightarrow> u64 \<Rightarrow> 'w \<Rightarrow> (nat \<times> 'w) option" where
  "check_sha256 b sha w =
     (let w = bprint b ''    Verifying SHA256 crypto engine ...'' [] w;
          inputText = map (\<lambda>c. of_nat (of_char c))
            ''Lincoln LaboratoLincoln LaboratoLincoln LaboratoLincoln Laborato'';
          expectedHash = array [0xf88c49e2, 0xb696d45a, 0x699eb10e, 0xffafb3c9, 0x522df6f7, 0xfa68c250,
                                0x9d105e84, 0x9be605ba]
      in case sha256_hashString b sha inputText (\<lambda>_. 0) w of None \<Rightarrow> None
         | Some (hash, w) \<Rightarrow>
             let sha256_working = verifyMulti expectedHash hash 8;
                 w = (if sha256_working \<noteq> 0
                      then bprint b ''    SHA256 engine hashing successfully verified'' [] w
                      else bprint b ''    SHA256 engine failed, disabling the crypto engine !'' [] w)
             in Some (sha256_working, w))"

section \<open>HMAC (\<open>hmac.c\<close>)\<close>

definition hmac_addPadding :: "u64 \<Rightarrow> (nat \<Rightarrow> u8) \<Rightarrow> int \<times> (nat \<Rightarrow> u8)" where
  "hmac_addPadding = addPadding"

text \<open>The copy loop takes up to 448 characters; the key registers start at offset 26.\<close>

definition hmac_hashString :: "'w bus \<Rightarrow> u64 \<Rightarrow> u8 list \<Rightarrow> (nat \<Rightarrow> u32) \<Rightarrow> (nat \<Rightarrow> u32) \<Rightarrow> 'w \<Rightarrow>
    ((nat \<Rightarrow> u32) \<times> 'w) option" where
  "hmac_hashString b hmac pString hash key w =
     (case copy_chunk 448 0 pString zero_message of
        (done, totalBytes, pString', message) \<Rightarrow>
          let (addedBytes, message) = hmac_addPadding (of_nat (totalBytes * 8)) message
          in case send_block b hmac (\<lambda>w. writeMultiToAddress b hmac 26 key 8
                    (writeMulticharToAddress b hmac 1 message 64 w)) 1 w of None \<Rightarrow> None
             | Some w \<Rightarrow> Some (readMultiFromAddress b hmac 18 hash 8 w))"

definition check_hmac :: "'w bus \<Rightarrow> u64 \<Rightarrow> 'w \<Rightarrow> (nat \<times> 'w) option" where
  "check_hmac b hmac w =
     (let w = bprint b ''    Verifying HMAC crypto engine ...'' [] w;
          inputText = map (\<lambda>c. of_nat (of_char c)) ''jason can walk'';
          expectedHash = array [0xf88c49e2, 0xb696d45a, 0x699eb10e, 0xffafb3c9, 0x522df6f7, 0xfa68c250,
                                0x9d105e84, 0x9be605ba];
          key = array [0x2b7e1516, 0x28aed2a6, 0xabf71588, 0x09cf4f3c, 0x2b7e1516, 0x28aed2a6,
                       0x2b7e1516, 0x28aed2a6]
      in case hmac_hashString b hmac inputText (\<lambda>_. 0) key w of None \<Rightarrow> None
         | Some (hash, w) \<Rightarrow>
             let hmac_working = verifyMulti expectedHash hash 8;
                 w = (if hmac_working \<noteq> 0
                      then bprint b ''    HMAC engine hashing successfully verified'' [] w
                      else bprint b ''    HMAC engine failed, disabling the crypto engine !'' [] w)
             in Some (hmac_working, w))"

section \<open>DMA (\<open>dma.c\<close>)\<close>

text \<open>Register offsets of \<open>dma.h\<close>: config 0, length 1, source 2, destination 3, state 4.\<close>

partial_function (option) dma_wait_free :: "'w bus \<Rightarrow> u64 \<Rightarrow> u32 \<Rightarrow> 'w \<Rightarrow> (u32 \<times> 'w) option" where
  "dma_wait_free b dma rdata w =
     (if \<not> (rdata = 0 \<or> rdata = 5)
      then let (rdata, w) = readFromAddress b dma 4 (do_delay b 8 w) in dma_wait_free b dma rdata w
      else Some (rdata, w))"

partial_function (option) dma_wait_done :: "'w bus \<Rightarrow> u64 \<Rightarrow> 'w \<Rightarrow> 'w option" where
  "dma_wait_done b dma w =
     (let (v, w) = readFromAddress b dma 4 w
      in if v \<noteq> 5 then dma_wait_done b dma (do_delay b 8 w) else Some w)"

definition dma_transfer :: "'w bus \<Rightarrow> u64 \<Rightarrow> u32 \<Rightarrow> u32 \<Rightarrow> u32 \<Rightarrow> u32 \<Rightarrow> 'w \<Rightarrow> 'w option" where
  "dma_transfer b dma sAddress dAddress len wait w =
     (let (rdata, w) = readFromAddress b dma 4 w
      in case dma_wait_free b dma rdata w of None \<Rightarrow> None
         | Some (rdata, w) \<Rightarrow>
             let w = (if rdata = 5 then writeToAddress b dma 0 2 w else w);
                 w = writeToAddress b dma 2 sAddress w;
                 w = writeToAddress b dma 3 dAddress w;
                 w = writeToAddress b dma 1 len w;
                 w = writeToAddress b dma 0 1 w;
                 w = do_delay b 2 w;
                 w = writeToAddress b dma 0 0 w
             in if wait \<noteq> 0 then dma_wait_done b dma w else Some w)"

section \<open>Fuse data and register locks (\<open>pkt.c\<close>)\<close>

text \<open>
  Register offsets of \<open>pkt.h\<close>: fuse request 0, fuse address 1, write address 3, fuse data 4. The
  fuse words: three AES keys of 6 words from 0, the SHA-256 placeholder of 6 words, 9 access
  control words from 24.
\<close>

fun copy_fuse_words :: "'w bus \<Rightarrow> u64 \<Rightarrow> nat \<Rightarrow> nat \<Rightarrow> 'w \<Rightarrow> 'w" where
  "copy_fuse_words b pkt first 0 w = w"
| "copy_fuse_words b pkt first (Suc k) w =
     (let w = writeToAddress b pkt 1 (of_nat first) w;
          w = bnop b w;
          (waddr, w) = readFromAddress b pkt 3 w;
          (wdata, w) = readFromAddress b pkt 4 w;
          w = writeToAddress b 0 (unat (waddr div 4)) wdata w
      in copy_fuse_words b pkt (first + 1) k w)"

definition reglk_bytes :: "bool \<Rightarrow> bool \<Rightarrow> nat \<Rightarrow> u8" where
  "reglk_bytes aes_working sha256_working =
     (\<lambda>_. 0)(8 := 0xf3, 6 := 0xcf,
             11 := (if aes_working then 0x00 else 0xff),
             10 := (if sha256_working then 0x00 else 0xff))"

fun write_reglk_words :: "'w bus \<Rightarrow> u64 \<Rightarrow> (nat \<Rightarrow> u8) \<Rightarrow> nat \<Rightarrow> nat \<Rightarrow> 'w \<Rightarrow> 'w" where
  "write_reglk_words b reglk bytes i 0 w = w"
| "write_reglk_words b reglk bytes i (Suc k) w =
     write_reglk_words b reglk bytes (i + 1) k
       (writeToAddress b reglk i
         (le_word [bytes (i * 4 + 0), bytes (i * 4 + 1), bytes (i * 4 + 2), bytes (i * 4 + 3)]) w)"

definition pkt_copy_fuse_data :: "'w bus \<Rightarrow> u64 \<Rightarrow> u64 \<Rightarrow> bool \<Rightarrow> bool \<Rightarrow> 'w \<Rightarrow> 'w" where
  "pkt_copy_fuse_data b pkt reglk aes_working sha256_working w =
     (let w = bprint b ''    Setting the FUSE data'' [] w;
          w = writeToAddress b pkt 0 1 w;
          w = copy_fuse_words b pkt 24 9 w;
          w = (if aes_working then copy_fuse_words b pkt 0 18 w else w);
          w = writeToAddress b pkt 0 0 w;
          w = bprint b ''    Setting the register locks'' [] w
      in write_reglk_words b reglk (reglk_bytes aes_working sha256_working) 0 6 w)"

end
