(* ===== verification/Driver_spec.thy ===== *)
theory Driver_spec
  imports Drivers
begin

text \<open>
  What the drivers rely on and what they achieve. \<open>reg_window\<close> is a range of plain registers;
  \<open>hash_engine\<close> is the contract of the hash accelerators: text registers, a strobe that absorbs
  them, a busy time, a digest. The lemmas are proved in the locales; the locales are interpreted
  on register-level models of the lock controller (\<open>src/src/reglk/reglk_wrapper.sv\<close>) and of the
  SHA-256 accelerator (\<open>src/src/sha256/sha256_wrapper.sv\<close>).
\<close>

section \<open>Register windows\<close>

locale reg_window =
  fixes b :: "'w bus" and base :: u64 and n :: nat and get :: "'w \<Rightarrow> nat \<Rightarrow> u32" and ok :: "'w \<Rightarrow> bool"
  assumes write_ok: "ok w \<Longrightarrow> i < n \<Longrightarrow> ok (bwrite b (word_addr base i) v w)"
    and write_get: "ok w \<Longrightarrow> i < n \<Longrightarrow> get (bwrite b (word_addr base i) v w) = (get w)(i := v)"
    and read_get: "ok w \<Longrightarrow> i < n \<Longrightarrow> bread b (word_addr base i) w = (get w i, w)"

lemma word_addr_add: "word_addr (word_addr base i) j = word_addr base (i + j)"
  by (simp add: word_addr_def algebra_simps)

context reg_window
begin

lemma write_multi_loop_get:
  assumes "ok w" "off + bsz \<le> n" "k \<le> bsz"
  shows "ok (write_multi_loop b (word_addr base off) bsz k p w) \<and>
    get (write_multi_loop b (word_addr base off) bsz k p w) =
      (\<lambda>j. if off \<le> j \<and> j < off + k then p (bsz - 1 - (j - off)) else get w j)"
  using assms
proof (induction k arbitrary: w)
  case (Suc k)
  let ?w = "bwrite b (word_addr base (off + k)) (p (bsz - Suc k)) w"
  have i: "off + k < n" using Suc.prems by simp
  have "ok ?w" "get ?w = (get w)(off + k := p (bsz - Suc k))"
    using write_ok [OF Suc.prems(1) i] write_get [OF Suc.prems(1) i] by auto
  with Suc.IH [of ?w] Suc.prems show ?case
    by (auto simp: writeToAddress_def word_addr_add Let_def fun_eq_iff)
qed (auto simp: fun_eq_iff)

lemma write_multi_get:
  assumes "ok w" "off + k \<le> n"
  shows "ok (writeMultiToAddress b base off p k w)"
    "get (writeMultiToAddress b base off p k w) =
      (\<lambda>j. if off \<le> j \<and> j < off + k then p (k - 1 - (j - off)) else get w j)"
  using write_multi_loop_get [OF assms, of k p] by (simp_all add: writeMultiToAddress_def)

lemma read_multi_loop_get:
  assumes "ok w" "off + bsz \<le> n" "k \<le> bsz"
  shows "read_multi_loop b (word_addr base off) bsz k p w =
    (\<lambda>j. if j < k then get w (off + (bsz - 1 - j)) else p j, w)"
  using assms
proof (induction k arbitrary: p)
  case (Suc k)
  have "bread b (word_addr base (off + (bsz - Suc k))) w = (get w (off + (bsz - Suc k)), w)"
    using Suc.prems by (intro read_get) auto
  with Suc show ?case
    by (auto simp: readFromAddress_def word_addr_add Let_def fun_eq_iff less_Suc_eq)
qed (auto simp: fun_eq_iff)

lemma read_multi_get:
  assumes "ok w" "off + k \<le> n"
  shows "readMultiFromAddress b base off p k w =
    (\<lambda>j. if j < k then get w (off + (k - 1 - j)) else p j, w)"
  using read_multi_loop_get [OF assms, of k p] by (simp add: readMultiFromAddress_def)

text \<open>What is written as a block is read back as that block.\<close>

lemma multi_round_trip:
  assumes "ok w" "off + k \<le> n"
  shows "fst (readMultiFromAddress b base off q k (writeMultiToAddress b base off p k w)) =
    (\<lambda>j. if j < k then p j else q j)"
  using read_multi_get [OF write_multi_get(1) [OF assms] assms(2)] write_multi_get(2) [OF assms]
  by (auto simp: fun_eq_iff)

end

text \<open>The big-endian word of four characters.\<close>

definition be_words :: "(nat \<Rightarrow> u8) \<Rightarrow> nat \<Rightarrow> u32" where
  "be_words m i = be_word (map m [4 * i..<4 * i + 4])"

lemma fold4_be: "push_bit 8 (push_bit 8 (push_bit 8 (push_bit 8 w OR x) OR y) OR z) OR (t :: u32) =
    push_bit 8 (push_bit 8 (push_bit 8 x OR y) OR z) OR t"
proof -
  have "push_bit 32 w = (0 :: u32)" by (rule bit_word_eqI) (simp add: bit_simps)
  then show ?thesis by (simp add: push_bit_or push_bit_push_bit ac_simps)
qed

lemma be_word4: "be_word [p, q, r, s] = push_bit 8 (push_bit 8 (push_bit 8 (ucast p AND 0xFF) OR
    (ucast q AND 0xFF)) OR (ucast r AND 0xFF)) OR (ucast s AND 0xFF)"
  by (simp add: be_word_def)

context reg_window
begin

lemma write_char_loop_get:
  assumes "ok w" "off + bsz \<le> n" "length cs = 4 * k" "k \<le> bsz"
  shows "ok (write_char_loop b (word_addr base off) bsz (bsz - k) wd cs w) \<and>
    get (write_char_loop b (word_addr base off) bsz (bsz - k) wd cs w) =
      (\<lambda>j. if off \<le> j \<and> j < off + k then be_word (take 4 (drop (4 * (k - 1 - (j - off))) cs)) else get w j)"
  using assms
proof (induction k arbitrary: w cs wd)
  case (Suc k)
  from Suc.prems(3) obtain p q r s cs' where cs: "cs = p # q # r # s # cs'" "length cs' = 4 * k"
    by (auto simp: length_Suc_conv numeral_eq_Suc)
  let ?wd = "push_bit 8 (push_bit 8 (push_bit 8 (push_bit 8 wd OR (ucast p AND 0xFF)) OR
    (ucast q AND 0xFF)) OR (ucast r AND 0xFF)) OR (ucast s AND 0xFF)"
  have wd: "?wd = be_word [p, q, r, s]" unfolding be_word4 by (rule fold4_be)
  let ?w = "bwrite b (word_addr base (off + k)) (be_word [p, q, r, s]) w"
  have i: "off + k < n" using Suc.prems by simp
  have w: "ok ?w" "get ?w = (get w)(off + k := be_word [p, q, r, s])"
    using write_ok [OF Suc.prems(1) i] write_get [OF Suc.prems(1) i] by auto
  have m: "Suc (Suc (Suc (4 * k))) mod 4 \<noteq> 0" "Suc (Suc (4 * k)) mod 4 \<noteq> 0" "Suc (4 * k) mod 4 \<noteq> 0"
    "(4 * k) mod 4 = 0" by presburger+
  have a: "bsz - Suc 0 - (bsz - Suc k) = k" "Suc (bsz - Suc k) = bsz - k" "off + bsz - (bsz - k) = off + k"
    using Suc.prems(4) by auto
  have step: "write_char_loop b (word_addr base off) bsz (bsz - Suc k) wd cs w =
      write_char_loop b (word_addr base off) bsz (bsz - k) (be_word [p, q, r, s]) cs' ?w"
    unfolding wd [symmetric] using m
    by (simp add: cs Let_def writeToAddress_def word_addr_add a)
  have d4: "drop (4 * (k + off - x)) cs = drop (4 * (k + off - Suc x)) cs'" if "off \<le> x" "x < off + k" for x
  proof -
    have "4 * (k + off - x) = Suc (Suc (Suc (Suc (4 * (k + off - Suc x)))))" using that by arith
    then show ?thesis by (simp add: cs(1))
  qed
  show ?case
    using Suc.IH [of ?w cs' "be_word [p, q, r, s]"] w Suc.prems cs(2)
    unfolding step by (auto simp: fun_eq_iff less_Suc_eq d4) (simp add: cs(1))
qed (auto simp: fun_eq_iff)

lemma write_char_get:
  assumes "ok w" "off + k \<le> n"
  shows "ok (writeMulticharToAddress b base off m (4 * k) w)"
    "get (writeMulticharToAddress b base off m (4 * k) w) =
      (\<lambda>j. if off \<le> j \<and> j < off + k then be_words m (k - 1 - (j - off)) else get w j)"
proof -
  have t: "take 4 (drop (4 * i) (map m [0..<4 * k])) = map m [4 * i..<4 * i + 4]" if "i < k" for i
    using that by (simp add: drop_map take_map)
  show "ok (writeMulticharToAddress b base off m (4 * k) w)"
    "get (writeMulticharToAddress b base off m (4 * k) w) =
      (\<lambda>j. if off \<le> j \<and> j < off + k then be_words m (k - 1 - (j - off)) else get w j)"
    using write_char_loop_get [OF assms, of "map m [0..<4 * k]" k 0] t
    by (auto simp: writeMulticharToAddress_def be_words_def fun_eq_iff)
qed

end

section \<open>Padding\<close>

text \<open>
  The standard padding of a message of \<open>L\<close> bytes: a one bit, zeros, and the length in bits as a
  big-endian 64-bit number, filling the last block.
\<close>

definition size_bytes :: "nat \<Rightarrow> u8 list" where
  "size_bytes L = map (\<lambda>i. ucast (drop_bit (56 - 8 * i) (of_nat (8 * L) :: u64))) [0..<8]"

definition sha_pad :: "nat \<Rightarrow> u8 list" where
  "sha_pad L = 0x80 # replicate ((119 - L mod 64) mod 64) 0 @ size_bytes L"

lemma sha_pad_block: "(L + length (sha_pad L)) mod 64 = 0"
proof -
  define e where "e = L mod 64"
  have e: "e < 64" by (simp add: e_def)
  have "(L + length (sha_pad L)) mod 64 = (e + (9 + (119 - e) mod 64)) mod 64"
    by (simp add: sha_pad_def size_bytes_def e_def mod_add_left_eq add.assoc)
  also have "\<dots> = 0"
  proof (cases "e \<le> 55")
    case True
    then have "(119 - e) mod 64 = 55 - e" by (simp add: mod_if)
    with True show ?thesis by simp
  next
    case False
    then have "(119 - e) mod 64 = 119 - e" using e by simp
    with False e show ?thesis by simp
  qed
  finally show ?thesis .
qed

lemma padding_loop_eq:
  "0 \<le> i \<Longrightarrow> padding_loop bits st sz k i buf =
     (\<lambda>j. if nat i \<le> j \<and> j < nat i + k
          then (if int j = st then 0x80
                else if int j \<ge> sz then ucast (drop_bit (nat (56 - 8 * (int j - sz))) bits AND 0xFF) else 0)
          else buf j)"
proof (induction k arbitrary: i buf)
  case (Suc k)
  from Suc.prems have "nat (i + 1) = Suc (nat i)" by simp
  with Suc.IH [of "i + 1"] Suc.prems show ?case
    by (auto simp: fun_eq_iff Let_def le_Suc_eq)
qed (auto simp: fun_eq_iff)

lemma byte_mask: "(ucast (x AND 0xFF) :: u8) = ucast (x :: u64)"
proof -
  have m: "(0xFF :: u64) = mask 8" by (simp add: mask_eq_exp_minus_1)
  show ?thesis unfolding m by (rule bit_word_eqI) (auto simp: bit_simps)
qed

lemma addPadding_eq:
  fixes L :: nat
  defines "e \<equiv> L mod 64"
  defines "n \<equiv> (if e > 56 then 128 - e else 64 - e)"
  assumes L: "8 * L < 2 ^ 64"
  shows "addPadding (of_nat (8 * L)) buf =
    (int n, \<lambda>j. if e \<le> j \<and> j < e + n
      then (if j = e then 0x80
            else if e + n - 8 \<le> j then size_bytes L ! (j - (e + n - 8)) else 0)
      else buf j)"
proof -
  let ?bits = "of_nat (8 * L) :: u64"
  have e: "e < 64" by (simp add: e_def)
  have "unat ?bits = 8 * L" unfolding unat_of_nat using L by simp
  then have "uint ?bits = int (8 * L)" unfolding uint_nat by (simp only:)
  then have "uint (?bits mod 512) = int (8 * L) mod 512"
    unfolding uint_mod_distrib by simp
  also have "\<dots> = 8 * int e"
    by (simp add: e_def zmod_int mult_mod_right [of 8 "int L" 64, simplified])
  finally have x: "uint (?bits mod 512) = 8 * int e" .
  have pb: "(if 8 * int e > 448 then 2 * 512 - 8 * int e else 512 - 8 * int e) div 8 = int n"
    using e by (auto simp: n_def)
  have sz: "int e + (int n - 8) = int (e + n - 8)" using e by (auto simp: n_def)
  have cnt: "nat (int (e + n - 8) + 8 - int e) = n" using e by (auto simp: n_def)
  have v: "ucast (drop_bit (nat (56 - 8 * (int j - int (e + n - 8)))) ?bits AND 0xFF) =
      size_bytes L ! (j - (e + n - 8))" if "e + n - 8 \<le> j" "j < e + n" for j
  proof -
    have "j - (e + n - 8) < 8" using that e by (auto simp: n_def)
    moreover have "nat (56 - 8 * (int j - int (e + n - 8))) = 56 - 8 * (j - (e + n - 8))"
      using that by (simp add: nat_diff_distrib of_nat_diff nat_mult_distrib)
    ultimately show ?thesis by (simp add: size_bytes_def byte_mask)
  qed
  show ?thesis
    unfolding addPadding_def Let_def x pb
    by (auto simp: padding_loop_eq sz cnt fun_eq_iff v [simplified])
qed

text \<open>
  The bytes the drivers append to a message of \<open>L\<close> bytes: the standard padding, except when 56
  bytes are left over. Then the mark falls on the first byte of the length field, and the second
  block that the standard requires is missing.
\<close>

definition driver_pad :: "nat \<Rightarrow> u8 list" where
  "driver_pad L = (if L mod 64 = 56 then 0x80 # tl (size_bytes L) else sha_pad L)"

lemma driver_pad_eq:
  assumes L: "8 * L < 2 ^ 64"
  shows "addPadding (of_nat (8 * L)) buf = (int (length (driver_pad L)),
    \<lambda>j. if L mod 64 \<le> j \<and> j < L mod 64 + length (driver_pad L) then driver_pad L ! (j - L mod 64) else buf j)"
proof -
  define e where "e = L mod 64"
  define n where "n = (if e > 56 then 128 - e else 64 - e)"
  have e: "e < 64" by (simp add: e_def)
  have len: "length (driver_pad L) = n"
  proof (cases "e \<le> 55")
    case True
    then have "(119 - e) mod 64 = 55 - e" by (simp add: mod_if)
    with True show ?thesis by (simp add: driver_pad_def sha_pad_def size_bytes_def e_def [symmetric] n_def)
  next
    case False
    then have "(119 - e) mod 64 = 119 - e" using e by simp
    with False e show ?thesis by (auto simp: driver_pad_def sha_pad_def size_bytes_def e_def [symmetric] n_def)
  qed
  have nth: "driver_pad L ! (j - e) = (if j = e then 0x80
      else if e + n - 8 \<le> j then size_bytes L ! (j - (e + n - 8)) else 0)" if "e \<le> j" "j < e + n" for j
  proof (cases "e = 56")
    case True
    then have "n = 8" by (simp add: n_def)
    moreover have "length (size_bytes L) = 8" by (simp add: size_bytes_def)
    moreover have "Suc (j - 57) = j - 56" if "j > 56" using that by simp
    ultimately show ?thesis using True that
      by (auto simp: driver_pad_def e_def [symmetric] nth_Cons' nth_tl)
  next
    case False
    define k where "k = (119 - e) mod 64"
    have nk: "n = 9 + k"
      using len False by (simp add: driver_pad_def sha_pad_def size_bytes_def e_def [symmetric] k_def)
    have "driver_pad L = 0x80 # replicate k 0 @ size_bytes L"
      using False by (simp add: driver_pad_def sha_pad_def e_def [symmetric] k_def)
    with that nk show ?thesis
      by (auto simp: nth_Cons' nth_append Suc_diff_Suc diff_diff_add)
  qed
  show ?thesis
    unfolding addPadding_eq [OF L, folded e_def, folded n_def] len e_def [symmetric]
    by (auto simp: fun_eq_iff nth)
qed

text \<open>
  C26. Padding a buffer that holds the last, partial block of a message writes, after the message,
  exactly the standard padding, and the result says how many bytes that is; only when 56 bytes are
  left over is the first length byte overwritten by the mark instead of a second block being used.
\<close>

theorem addPadding_standard:
  assumes "8 * L < 2 ^ 64"
  shows "sha256_addPadding (of_nat (8 * L)) buf =
    (let p = (if L mod 64 = 56 then 0x80 # tl (size_bytes L) else sha_pad L)
     in (int (length p), \<lambda>j. if L mod 64 \<le> j \<and> j < L mod 64 + length p then p ! (j - L mod 64) else buf j)) \<and>
    hmac_addPadding (of_nat (8 * L)) buf = sha256_addPadding (of_nat (8 * L)) buf"
  using driver_pad_eq [OF assms, of buf]
  by (simp only: sha256_addPadding_def hmac_addPadding_def driver_pad_def [symmetric] Let_def)

theorem addPadding_standard_witness:
  "fst (sha256_addPadding (of_nat (8 * 3)) (\<lambda>_. 0)) = 61 \<and> sha_pad 3 ! 0 = 0x80 \<and> sha_pad 3 ! 60 = 24"
proof -
  have "length (sha_pad 3) = 61" "sha_pad 3 ! 0 = 0x80" "sha_pad 3 ! 60 = 24" by code_simp+
  with addPadding_standard [of 3 "\<lambda>_. 0"] show ?thesis by simp
qed

section \<open>Hash engines\<close>

text \<open>
  The contract of an accelerator with sixteen text registers at offset 1, a control register at 0
  whose strobe absorbs the text, a busy time after a strobe, a valid flag at 17 and eight digest
  registers at 18. \<open>ini\<close> and \<open>nxt\<close> are the accelerator's functions of a block of sixteen words in
  message order (the last text register is the first word).
\<close>

locale hash_engine =
  fixes b :: "'w bus" and base :: u64
    and treg :: "'w \<Rightarrow> nat \<Rightarrow> u32" and acc :: "'w \<Rightarrow> 'h" and busy :: "'w \<Rightarrow> nat"
    and ini :: "u32 list \<Rightarrow> 'h" and nxt :: "'h \<Rightarrow> u32 list \<Rightarrow> 'h" and digest :: "'h \<Rightarrow> nat \<Rightarrow> u32"
    and ok :: "'w \<Rightarrow> bool" and live :: "'w \<Rightarrow> bool"
  assumes treg_write: "ok w \<Longrightarrow> busy w = 0 \<Longrightarrow> i < 16 \<Longrightarrow>
      ok (bwrite b (word_addr base (Suc i)) v w) \<and> busy (bwrite b (word_addr base (Suc i)) v w) = 0 \<and>
      acc (bwrite b (word_addr base (Suc i)) v w) = acc w \<and>
      treg (bwrite b (word_addr base (Suc i)) v w) = (treg w)(i := v)"
    and treg_read: "ok w \<Longrightarrow> i < 16 \<Longrightarrow> bread b (word_addr base (Suc i)) w = (treg w i, w)"
    and ready: "ok w \<Longrightarrow> bread b (word_addr base 0) w = (of_bool (busy w = 0), w)"
    and valid: "ok w \<Longrightarrow> live w \<Longrightarrow> bread b (word_addr base 17) w = (of_bool (busy w = 0), w)"
    and hash: "ok w \<Longrightarrow> busy w = 0 \<Longrightarrow> i < 8 \<Longrightarrow> bread b (word_addr base (18 + i)) w = (digest (acc w) i, w)"
    and tick: "ok w \<Longrightarrow> ok (bnop b w) \<and> acc (bnop b w) = acc w \<and> busy (bnop b w) = busy w - 1 \<and>
      live (bnop b w) = live w"
    and strobe_init: "ok w \<Longrightarrow> busy w = 0 \<Longrightarrow>
      ok (strobe b base 1 w) \<and> live (strobe b base 1 w) \<and> acc (strobe b base 1 w) = ini (rev (map (treg w) [0..<16]))"
    and strobe_next: "ok w \<Longrightarrow> busy w = 0 \<Longrightarrow>
      ok (strobe b base 2 w) \<and> live (strobe b base 2 w) \<and> acc (strobe b base 2 w) = nxt (acc w) (rev (map (treg w) [0..<16]))"

sublocale hash_engine \<subseteq> txt_regs: reg_window b "word_addr base 1" 16 treg "\<lambda>w. ok w \<and> busy w = 0 \<and> acc w = a" for a
  by unfold_locales (simp_all add: word_addr_add treg_write treg_read)

text \<open>The blocks of a byte string whose length is a multiple of 64, as lists of big-endian words.\<close>

definition block_words :: "u8 list \<Rightarrow> u32 list" where
  "block_words xs = map (\<lambda>i. be_word (take 4 (drop (4 * i) xs))) [0..<16]"

function blocks :: "u8 list \<Rightarrow> u32 list list" where
  "blocks xs = (if length xs < 64 then [] else block_words (take 64 xs) # blocks (drop 64 xs))"
  by pat_completeness auto
termination by (relation "measure length") auto

declare blocks.simps [simp del] sha256_loop.simps [simp del]

lemma copy_chunk_eq:
  "copy_chunk room n s m = (length s < room, n + min room (length s), drop room s,
     \<lambda>i. if n \<le> i \<and> i < n + min room (length s) then s ! (i - n) else m i)"
proof (induction room arbitrary: n s m)
  case (Suc room)
  show ?case
  proof (cases s)
    case (Cons c s')
    show ?thesis
      unfolding Cons copy_chunk.simps Suc.IH
      by (auto simp: fun_eq_iff nth_Cons' Suc_diff_Suc not_le le_Suc_eq)
  qed (auto simp: fun_eq_iff)
qed (auto simp: fun_eq_iff)

lemma rev_descending: "rev (map (\<lambda>j. f (k - 1 - j)) [0..<k]) = map f [0..<k]"
  by (rule nth_equalityI) (simp_all add: rev_nth)

lemma be_words_bytes:
  assumes "\<And>j. j < 64 \<Longrightarrow> m j = xs ! j" "64 \<le> length xs"
  shows "map (be_words m) [0..<16] = block_words (take 64 xs)"
proof -
  have "be_words m i = be_word (take 4 (drop (4 * i) (take 64 xs)))" if "i < 16" for i
  proof -
    have "map m [4 * i..<4 * i + 4] = take 4 (drop (4 * i) (take 64 xs))"
      by (rule nth_equalityI) (use that assms in auto)
    then show ?thesis by (simp add: be_words_def)
  qed
  then show ?thesis by (simp add: block_words_def)
qed

context hash_engine
begin

lemma delay_engine: "ok w \<Longrightarrow> ok (do_delay b k w) \<and> acc (do_delay b k w) = acc w \<and>
    busy (do_delay b k w) = busy w - k \<and> live (do_delay b k w) = live w"
proof (induction k arbitrary: w)
  case (Suc k)
  from tick [OF Suc.prems] Suc.IH [of "bnop b w"] show ?case by simp
qed simp

lemma poll_engine:
  assumes "ok w" "off = 0 \<or> off = 17 \<and> live w" "0 < d"
  shows "\<exists>w'. poll_nonzero b base off d w = Some w' \<and> ok w' \<and> busy w' = 0 \<and> acc w' = acc w"
  using assms(1,2)
proof (induction "busy w" arbitrary: w rule: less_induct)
  case less
  have r: "readFromAddress b base off w = (of_bool (busy w = 0), w)"
    using less.prems ready valid by (auto simp: readFromAddress_def)
  show ?case
  proof (cases "busy w = 0")
    case True
    with r less.prems(1) show ?thesis by (subst poll_nonzero.simps) simp
  next
    case False
    let ?w = "do_delay b d w"
    from delay_engine [OF less.prems(1), of d] have w: "ok ?w" "acc ?w = acc w" "busy ?w < busy w"
      "off = 0 \<or> off = 17 \<and> live ?w"
      using False assms(3) less.prems(2) by auto
    from less.hyps [OF w(3,1,4)] w(2) r False show ?thesis
      by (subst poll_nonzero.simps) simp
  qed
qed

text \<open>Sending a block absorbs what the text registers were given.\<close>

lemma send_block_engine:
  assumes "ok w" "v = 1 \<or> v = 2"
    and wt: "\<And>w. ok w \<Longrightarrow> busy w = 0 \<Longrightarrow> ok (wt w) \<and> busy (wt w) = 0 \<and> acc (wt w) = acc w \<and>
      rev (map (treg (wt w)) [0..<16]) = blk"
  shows "\<exists>w'. send_block b base wt v w = Some w' \<and> ok w' \<and> busy w' = 0 \<and>
    acc w' = (if v = 1 then ini blk else nxt (acc w) blk)"
proof -
  from poll_engine [OF assms(1), of 0 1] obtain w1 where
    w1: "poll_nonzero b base 0 1 w = Some w1" "ok w1" "busy w1 = 0" "acc w1 = acc w" by auto
  let ?w2 = "wt w1"
  from wt [OF w1(2,3)] have w2: "ok ?w2" "busy ?w2 = 0" "acc ?w2 = acc w"
    "rev (map (treg ?w2) [0..<16]) = blk" using w1(4) by auto
  let ?w3 = "do_delay b 20 (strobe b base v ?w2)"
  have "ok (strobe b base v ?w2)" "live (strobe b base v ?w2)" "acc (strobe b base v ?w2) = (if v = 1 then ini blk else nxt (acc w) blk)"
    using strobe_init [OF w2(1,2)] strobe_next [OF w2(1,2)] w2(3,4) assms(2) by auto
  then have w3: "ok ?w3" "live ?w3" "acc ?w3 = (if v = 1 then ini blk else nxt (acc w) blk)"
    using delay_engine by auto
  from poll_engine [OF w3(1), of 17 4] w1(1) w3(2,3) show ?thesis
    by (auto simp: send_block_def)
qed

lemma send_chars_engine:
  assumes "ok w" "v = 1 \<or> v = 2"
  shows "\<exists>w'. send_block b base (writeMulticharToAddress b base 1 m 64) v w = Some w' \<and> ok w' \<and> busy w' = 0 \<and>
    acc w' = (if v = 1 then ini (map (be_words m) [0..<16]) else nxt (acc w) (map (be_words m) [0..<16]))"
proof (rule send_block_engine [OF assms])
  fix w assume w: "ok w" "busy w = 0"
  have a: "writeMulticharToAddress b base 1 m 64 w = writeMulticharToAddress b (word_addr base 1) 0 m (4 * 16) w"
    by (simp add: writeMulticharToAddress_def word_addr_add)
  have r: "rev (map (\<lambda>j. be_words m (15 - j)) [0..<16]) = map (be_words m) [0..<16]"
    using rev_descending [of "be_words m" 16] by simp
  show "ok (writeMulticharToAddress b base 1 m 64 w) \<and> busy (writeMulticharToAddress b base 1 m 64 w) = 0 \<and>
      acc (writeMulticharToAddress b base 1 m 64 w) = acc w \<and>
      rev (map (treg (writeMulticharToAddress b base 1 m 64 w)) [0..<16]) = map (be_words m) [0..<16]"
    unfolding a using txt_regs.write_char_get [of w "acc w" 0 16 m] w
    by (simp add: r [symmetric] cong: map_cong)
qed

lemma send_words_engine:
  assumes "ok w"
  shows "\<exists>w'. send_block b base (writeMultiToAddress b base 1 p 16) 2 w = Some w' \<and> ok w' \<and> busy w' = 0 \<and>
    acc w' = nxt (acc w) (map p [0..<16])"
proof -
  have "\<exists>w'. send_block b base (writeMultiToAddress b base 1 p 16) 2 w = Some w' \<and> ok w' \<and> busy w' = 0 \<and>
    acc w' = (if (2 :: u32) = 1 then ini (map p [0..<16]) else nxt (acc w) (map p [0..<16]))"
  proof (rule send_block_engine [OF assms])
    fix w assume w: "ok w" "busy w = 0"
    have a: "writeMultiToAddress b base 1 p 16 w = writeMultiToAddress b (word_addr base 1) 0 p 16 w"
      by (simp add: writeMultiToAddress_def word_addr_add)
    have r: "rev (map (\<lambda>j. p (15 - j)) [0..<16]) = map p [0..<16]"
      using rev_descending [of p 16] by simp
    show "ok (writeMultiToAddress b base 1 p 16 w) \<and> busy (writeMultiToAddress b base 1 p 16 w) = 0 \<and>
        acc (writeMultiToAddress b base 1 p 16 w) = acc w \<and>
        rev (map (treg (writeMultiToAddress b base 1 p 16 w)) [0..<16]) = map p [0..<16]"
      unfolding a using txt_regs.write_multi_get [of w "acc w" 0 16 p] w
      by (simp add: r [symmetric] cong: map_cong)
  qed simp
  then show ?thesis by simp
qed

definition absorb :: "bool \<Rightarrow> 'h \<Rightarrow> u32 list \<Rightarrow> 'h" where
  "absorb first a blk = (if first then ini blk else nxt a blk)"

lemma send_first:
  assumes "ok w"
  shows "\<exists>w'. send_block b base (writeMulticharToAddress b base 1 m 64) (if first then 1 else 2) w = Some w' \<and>
    ok w' \<and> busy w' = 0 \<and> acc w' = absorb first (acc w) (map (be_words m) [0..<16])"
  using send_chars_engine [OF assms, of 1 m] send_chars_engine [OF assms, of 2 m]
  by (cases first) (simp_all add: absorb_def)

fun absorb_all :: "bool \<Rightarrow> 'h \<Rightarrow> u32 list list \<Rightarrow> 'h" where
  "absorb_all first a [] = a"
| "absorb_all first a (blk # blks) = absorb_all False (absorb first a blk) blks"

text \<open>One pass of the loop sends the next 64 bytes of the string, or its end with the padding.\<close>

lemma sha256_loop_engine:
  assumes "ok w" "t mod 64 = 0" "8 * (t + length s) < 2 ^ 64" "length s mod 64 < 56"
  shows "\<exists>w'. sha256_loop b base first t s w = Some w' \<and> ok w' \<and> busy w' = 0 \<and>
    acc w' = absorb_all first (acc w) (blocks (s @ sha_pad (t + length s)))"
  using assms
proof (induction "length s" arbitrary: s t w first rule: less_induct)
  case less
  let ?v = "if first then 1 else 2 :: u32"
  define L where "L = t + length s"
  have L: "8 * L < 2 ^ 64" "L mod 64 = length s mod 64"
    using less.prems by (simp_all add: L_def mod_add_left_eq [of t 64, symmetric])
  show ?case
  proof (cases "length s < 64")
    case False
    let ?m = "\<lambda>i. if i < 64 then s ! i else zero_message i"
    have chunk: "copy_chunk 64 0 s zero_message = (False, 64, drop 64 s, ?m)"
      using False by (auto simp: copy_chunk_eq fun_eq_iff)
    have blk: "map (be_words ?m) [0..<16] = block_words (take 64 (s @ sha_pad L))"
      using False by (intro be_words_bytes) (auto simp: nth_append)
    from send_first [OF less.prems(1), of ?m first] obtain w1 where
      w1: "send_block b base (writeMulticharToAddress b base 1 ?m 64) ?v w = Some w1" "ok w1" "busy w1 = 0"
      "acc w1 = absorb first (acc w) (block_words (take 64 (s @ sha_pad L)))"
      unfolding blk by blast
    have "\<exists>w'. sha256_loop b base False (t + 64) (drop 64 s) w1 = Some w' \<and> ok w' \<and> busy w' = 0 \<and>
        acc w' = absorb_all False (acc w1) (blocks (drop 64 s @ sha_pad (t + 64 + length (drop 64 s))))"
      using less.prems False w1(2)
      by (intro less.hyps) (auto simp: le_mod_geq [of 64 "length s"])
    moreover have "blocks (s @ sha_pad L) = block_words (take 64 (s @ sha_pad L)) # blocks (drop 64 s @ sha_pad L)"
      using False by (subst blocks.simps) simp
    moreover have "sha256_loop b base first t s w = sha256_loop b base False (t + 64) (drop 64 s) w1"
      by (subst sha256_loop.simps, unfold chunk prod.case Let_def if_False w1(1) option.case) simp
    ultimately show ?thesis using False by (simp add: w1(4) L_def)
  next
    case True
    let ?msg = "\<lambda>i. if i < length s then s ! i else zero_message i"
    let ?p = "sha_pad L"
    let ?m = "\<lambda>j. if length s \<le> j \<and> j < length s + length ?p then ?p ! (j - length s) else ?msg j"
    have e: "L mod 64 = length s" "length s < 56" using L(2) True less.prems(4) by simp_all
    have chunk: "copy_chunk 64 0 s zero_message = (True, length s, [], ?msg)"
      using True by (auto simp: copy_chunk_eq fun_eq_iff)
    have dp: "driver_pad L = ?p" using e by (simp add: driver_pad_def)
    have pad: "sha256_addPadding (of_nat (L * 8)) ?msg = (int (length ?p), ?m)"
      using driver_pad_eq [OF L(1), of ?msg] unfolding dp e(1)
      by (simp only: sha256_addPadding_def mult.commute [of L 8])
    have plen: "length s + length ?p = 64"
    proof -
      have "(119 - length s) mod 64 = 55 - length s" using e(2) by (simp add: mod_if)
      then show ?thesis using e by (simp add: sha_pad_def size_bytes_def)
    qed
    have blk: "map (be_words ?m) [0..<16] = block_words (take 64 (s @ ?p))"
      using plen by (intro be_words_bytes) (auto simp: nth_append)
    from send_first [OF less.prems(1), of ?m first] obtain w1 where
      w1: "send_block b base (writeMulticharToAddress b base 1 ?m 64) ?v w = Some w1" "ok w1" "busy w1 = 0"
      "acc w1 = absorb first (acc w) (block_words (take 64 (s @ ?p)))"
      unfolding blk by blast
    have "blocks (s @ ?p) = [block_words (take 64 (s @ ?p))]"
      using plen by (subst blocks.simps) (simp add: blocks.simps [of "[]"])
    moreover have "\<not> int (length ?p) > 64" using plen by simp
    then have "sha256_loop b base first t s w = Some w1"
      by (subst sha256_loop.simps, unfold chunk prod.case Let_def if_True L_def [symmetric] pad w1(1) option.case)
        simp
    ultimately show ?thesis using w1 by (simp add: L_def [symmetric])
  qed
qed

lemma sha256_hashString_engine:
  assumes "ok w" "8 * length s < 2 ^ 64" "length s mod 64 < 56"
  shows "\<exists>w'. sha256_hashString b base s h w =
      Some (\<lambda>j. if j < 8 then digest (absorb_all True (acc w) (blocks (s @ sha_pad (length s)))) (7 - j) else h j, w') \<and>
    ok w' \<and> busy w' = 0"
proof -
  from sha256_loop_engine [of w 0 s True] assms obtain w1 where
    w1: "sha256_loop b base True 0 s w = Some w1" "ok w1" "busy w1 = 0"
    "acc w1 = absorb_all True (acc w) (blocks (s @ sha_pad (length s)))" by auto
  have "read_multi_loop b (word_addr base 18) 8 k h w1 =
      (\<lambda>j. if j < k then digest (acc w1) (7 - j) else h j, w1)" if "k \<le> 8" for k h
    using that
  proof (induction k arbitrary: h)
    case (Suc k)
    have "bread b (word_addr base (18 + (8 - Suc k))) w1 = (digest (acc w1) (8 - Suc k), w1)"
      using Suc.prems w1 by (intro hash) auto
    with Suc show ?case
      by (auto simp: readFromAddress_def word_addr_add Let_def fun_eq_iff less_Suc_eq)
  qed (simp add: fun_eq_iff)
  from this [of 8 h] w1 show ?thesis
    by (simp add: sha256_hashString_def readMultiFromAddress_def cong: if_cong)
qed

end

section \<open>The SHA-256 accelerator\<close>

text \<open>
  The register file of \<open>sha256_wrapper.sv\<close>, one bus transaction at a time: bits 6:2 of the address
  select the register, the lock bits of the peripheral make registers read as zero or keep their
  value, and the core starts on a rising edge of the two control bits when it is ready. The core's
  functions and its latency are parameters.
\<close>

record 'h sha_dev =
  sd_start :: bool
  sd_start_r :: bool
  sd_new :: bool
  sd_new_r :: bool
  sd_data :: "nat \<Rightarrow> u32"
  sd_acc :: 'h
  sd_busy :: nat
  sd_valid :: bool
  sd_lock :: u8

definition reg_index :: "u64 \<Rightarrow> nat" where
  "reg_index a = unat (drop_bit 2 a AND mask 5)"

definition sha_read :: "('h \<Rightarrow> nat \<Rightarrow> u32) \<Rightarrow> u64 \<Rightarrow> 'h sha_dev \<Rightarrow> u32 \<times> 'h sha_dev" where
  "sha_read digest a d =
     (let i = reg_index a;
          v = (if i = 0 then (if bit (sd_lock d) 0 then 0 else of_bool (sd_busy d = 0))
               else if i \<le> 16 then (if bit (sd_lock d) 2 then 0 else sd_data d (i - 1))
               else if i = 17 then (if bit (sd_lock d) 0 then 0 else of_bool (sd_valid d \<and> sd_busy d = 0))
               else if i \<le> 25 then (if bit (sd_lock d) 4 then 0 else digest (sd_acc d) (i - 18))
               else 0)
      in (v, d))"

definition sha_core :: "(u32 list \<Rightarrow> 'h) \<Rightarrow> ('h \<Rightarrow> u32 list \<Rightarrow> 'h) \<Rightarrow> nat \<Rightarrow> 'h sha_dev \<Rightarrow> 'h sha_dev" where
  "sha_core ini nxt lat d =
     (let blk = rev (map (sd_data d) [0..<16])
      in if sd_busy d \<noteq> 0 then d
         else if sd_start d \<and> \<not> sd_start_r d then d\<lparr>sd_acc := ini blk, sd_busy := lat, sd_valid := True\<rparr>
         else if sd_new d \<and> \<not> sd_new_r d then d\<lparr>sd_acc := nxt (sd_acc d) blk, sd_busy := lat, sd_valid := True\<rparr>
         else d)"

definition sha_write :: "(u32 list \<Rightarrow> 'h) \<Rightarrow> ('h \<Rightarrow> u32 list \<Rightarrow> 'h) \<Rightarrow> nat \<Rightarrow> u64 \<Rightarrow> u32 \<Rightarrow> 'h sha_dev \<Rightarrow> 'h sha_dev" where
  "sha_write ini nxt lat a v d =
     (let i = reg_index a;
          d = d\<lparr>sd_start_r := sd_start d, sd_new_r := sd_new d\<rparr>;
          d = (if i = 0
               then if bit (sd_lock d) 1 then d else d\<lparr>sd_start := bit v 0, sd_new := bit v 1\<rparr>
               else if i \<le> 16
               then if bit (sd_lock d) 3 then d else d\<lparr>sd_data := (sd_data d)(i - 1 := v)\<rparr>
               else d)
      in sha_core ini nxt lat d)"

definition sha_bus :: "(u32 list \<Rightarrow> 'h) \<Rightarrow> ('h \<Rightarrow> u32 list \<Rightarrow> 'h) \<Rightarrow> ('h \<Rightarrow> nat \<Rightarrow> u32) \<Rightarrow> nat \<Rightarrow> 'h sha_dev bus" where
  "sha_bus ini nxt digest lat =
     \<lparr>bread = sha_read digest, bwrite = sha_write ini nxt lat,
      bnop = (\<lambda>d. d\<lparr>sd_busy := sd_busy d - 1\<rparr>), bprint = (\<lambda>_ _ d. d)\<rparr>"

definition sha_base :: u64 where "sha_base = 0x10200000"

definition sha_ok :: "'h sha_dev \<Rightarrow> bool" where
  "sha_ok d \<longleftrightarrow> \<not> sd_start d \<and> \<not> sd_new d \<and> sd_lock d = 0"

lemma reg_index_word_addr:
  assumes "i < 32"
  shows "reg_index (word_addr sha_base i) = i"
proof -
  have "unat (word_addr sha_base i) = 0x10200000 + 4 * i"
  proof -
    have "word_addr sha_base i = of_nat (0x10200000 + 4 * i)"
      by (simp add: word_addr_def sha_base_def)
    then have "unat (word_addr sha_base i) = (0x10200000 + 4 * i) mod 2 ^ LENGTH(64)"
      by (simp only: unat_of_nat)
    with assms show ?thesis by simp
  qed
  moreover have "reg_index a = unat a div 4 mod 32" for a
  proof -
    have "reg_index a = unat (take_bit 5 (drop_bit 2 a))" by (simp add: reg_index_def take_bit_eq_mask)
    then show ?thesis
      by (simp only: unsigned_take_bit_eq unat_drop_bit_eq) (simp add: take_bit_eq_mod drop_bit_eq_div)
  qed
  ultimately have "reg_index (word_addr sha_base i) = (i + 32 * 2113536) mod 32"
    by (simp add: add.commute)
  also have "\<dots> = i" unfolding mod_mult_self2 using assms by simp
  finally show ?thesis .
qed

interpretation sha: hash_engine "sha_bus ini nxt digest lat" sha_base sd_data sd_acc sd_busy ini nxt digest
    sha_ok sd_valid for ini nxt digest lat
  by unfold_locales
    (auto simp: sha_bus_def sha_ok_def sha_read_def sha_write_def sha_core_def strobe_def writeToAddress_def
      reg_index_word_addr Let_def fun_upd_def)

definition engine_hash :: "(u32 list \<Rightarrow> 'h) \<Rightarrow> ('h \<Rightarrow> u32 list \<Rightarrow> 'h) \<Rightarrow> u32 list list \<Rightarrow> 'h" where
  "engine_hash ini nxt blks = foldl nxt (ini (hd blks)) (tl blks)"

lemma absorb_all_foldl: "sha.absorb_all ini nxt False a blks = foldl nxt a blks"
  by (induction blks arbitrary: a) (simp_all add: sha.absorb_all.simps sha.absorb_def)

lemma absorb_all_engine: "blks \<noteq> [] \<Longrightarrow> sha.absorb_all ini nxt True a blks = engine_hash ini nxt blks"
  by (cases blks) (simp_all add: sha.absorb_all.simps sha.absorb_def absorb_all_foldl engine_hash_def)

text \<open>
  With the accelerator idle and unlocked, \<open>sha256_hashString\<close> returns for every string whose
  length leaves fewer than 56 bytes in its last block, and the hash array it fills is the
  accelerator's digest, most significant word first, of exactly the blocks of the string with the
  standard SHA-256 padding; the accelerator is left idle.
\<close>

lemma sha256_hashString_standard:
  assumes "sha_ok d" "8 * length s < 2 ^ 64" "length s mod 64 < 56"
  shows "\<exists>d'. sha256_hashString (sha_bus ini nxt digest lat) sha_base s h d =
      Some (\<lambda>j. if j < 8 then digest (engine_hash ini nxt (blocks (s @ sha_pad (length s)))) (7 - j) else h j, d') \<and>
    sha_ok d' \<and> sd_busy d' = 0"
proof -
  have "(length s + length (sha_pad (length s))) mod 64 = 0" by (rule sha_pad_block)
  moreover have "0 < length (sha_pad (length s))" by (simp add: sha_pad_def)
  ultimately have "\<not> length (s @ sha_pad (length s)) < 64" by auto
  then have "blocks (s @ sha_pad (length s)) \<noteq> []" by (subst blocks.simps) simp
  with sha.sha256_hashString_engine [OF assms, of ini nxt digest lat h] show ?thesis
    by (simp add: absorb_all_engine cong: if_cong)
qed

definition idle_sha :: "nat sha_dev" where
  "idle_sha = \<lparr>sd_start = False, sd_start_r = False, sd_new = False, sd_new_r = False, sd_data = (\<lambda>_. 0),
     sd_acc = 0, sd_busy = 0, sd_valid = False, sd_lock = 0\<rparr>"

text \<open>A stand-in for the core: the sum of the words of the blocks.\<close>

definition sum_words :: "u32 list \<Rightarrow> nat" where "sum_words blk = sum_list (map unat blk)"

section \<open>Fuse data and the lock registers\<close>

text \<open>
  The bus the key-transport code runs on: the fuse reader (\<open>src/src/pkt/pkt_wrapper.sv\<close>), whose
  contents are a parameter giving each fuse word a destination and a value; the lock registers
  (\<open>reglk_wrapper.sv\<close>), six words that give each of 24 peripherals eight lock bits; and the
  registers of the other peripherals.
\<close>

record soc =
  so_req :: u32
  so_addr :: u32
  so_reglk :: "nat \<Rightarrow> u32"
  so_mem :: "u64 \<Rightarrow> u32"

definition pkt_base :: u64 where "pkt_base = 0x10300000"
definition reglk_base :: u64 where "reglk_base = 0x10600000"

definition in_reglk :: "u64 \<Rightarrow> bool" where
  "in_reglk a \<longleftrightarrow> reglk_base \<le> a \<and> a < reglk_base + 24"

definition reglk_index :: "u64 \<Rightarrow> nat" where "reglk_index a = unat (a - reglk_base) div 4"

definition soc_bus :: "(nat \<Rightarrow> u32 \<times> u32) \<Rightarrow> soc bus" where
  "soc_bus fuse =
     \<lparr>bread = (\<lambda>a w. (if a = pkt_base + 12 then fst (fuse (unat (so_addr w)))
                      else if a = pkt_base + 16 then snd (fuse (unat (so_addr w)))
                      else if in_reglk a then so_reglk w (reglk_index a)
                      else so_mem w a, w)),
      bwrite = (\<lambda>a v w. if a = pkt_base then w\<lparr>so_req := v\<rparr>
                        else if a = pkt_base + 4 then w\<lparr>so_addr := v\<rparr>
                        else if in_reglk a then w\<lparr>so_reglk := (so_reglk w)(reglk_index a := v)\<rparr>
                        else w\<lparr>so_mem := (so_mem w)(a := v)\<rparr>),
      bnop = (\<lambda>w. w), bprint = (\<lambda>_ _ w. w)\<rparr>"

definition reglk_ctrl :: "(nat \<Rightarrow> u32) \<Rightarrow> nat \<Rightarrow> u8" where
  "reglk_ctrl m peripheral = ucast (drop_bit (8 * (peripheral mod 4)) (m (peripheral div 4)))"

lemma reglk_addr:
  assumes "i < 6"
  shows "in_reglk (word_addr reglk_base i)" "reglk_index (word_addr reglk_base i) = i"
    "word_addr reglk_base i \<notin> {pkt_base, pkt_base + 4, pkt_base + 12, pkt_base + 16}"
proof -
  from assms have "i \<in> {0, 1, 2, 3, 4, 5}" by auto
  then show "in_reglk (word_addr reglk_base i)" "reglk_index (word_addr reglk_base i) = i"
    "word_addr reglk_base i \<notin> {pkt_base, pkt_base + 4, pkt_base + 12, pkt_base + 16}"
    by (auto simp: in_reglk_def reglk_index_def word_addr_def reglk_base_def pkt_base_def
        word_le_nat_alt word_less_nat_alt)
qed

interpretation locks: reg_window "soc_bus fuse" reglk_base 6 so_reglk "\<lambda>_. True" for fuse
  by unfold_locales (use reglk_addr in \<open>auto simp: soc_bus_def fun_upd_def\<close>)

lemma write_reglk_words_get:
  assumes "reg_window b base n get ok" "ok w" "i + k \<le> n"
  shows "ok (write_reglk_words b base bytes i k w) \<and>
    get (write_reglk_words b base bytes i k w) =
      (\<lambda>j. if i \<le> j \<and> j < i + k
           then le_word [bytes (j * 4 + 0), bytes (j * 4 + 1), bytes (j * 4 + 2), bytes (j * 4 + 3)] else get w j)"
  using assms(2,3)
proof (induction k arbitrary: i w)
  case (Suc k)
  let ?v = "le_word [bytes (i * 4 + 0), bytes (i * 4 + 1), bytes (i * 4 + 2), bytes (i * 4 + 3)]"
  let ?w = "bwrite b (word_addr base i) ?v w"
  have w: "ok ?w" "get ?w = (get w)(i := ?v)"
    using reg_window.write_ok [OF assms(1) Suc.prems(1), of i] reg_window.write_get [OF assms(1) Suc.prems(1), of i]
      Suc.prems(2) by auto
  from Suc.IH [of ?w "i + 1"] w Suc.prems(2) show ?case
    by (auto simp: writeToAddress_def fun_eq_iff le_Suc_eq not_less_eq_eq)
qed (auto simp: fun_eq_iff)

lemma le_word_byte:
  assumes "k < 4"
  shows "ucast (drop_bit (8 * k) (le_word [p, q, r, s] :: u32)) = [p, q, r, s] ! k"
proof (rule bit_word_eqI)
  fix n assume "n < LENGTH(8)"
  then have n: "n < 8" by simp
  then have "(8 * k + n) div 8 = k" "(8 * k + n) mod 8 = n" by (simp_all add: div_eq_0_iff)
  with n assms show "bit (ucast (drop_bit (8 * k) (le_word [p, q, r, s] :: u32)) :: u8) n = bit ([p, q, r, s] ! k) n"
    by (simp only: bit_ucast_iff bit_drop_bit_eq comp_apply bit_le_word) simp
qed

text \<open>
  C27. After the fuse data have been copied, whatever the lock registers held before and wherever
  the fuse words went, the eight lock bits of each of the 24 peripherals are the configured ones:
  all ones for an AES or SHA-256 engine that failed its test, the access-control and lock
  controllers' own settings, and zero for every other peripheral.
\<close>

theorem pkt_sets_locks:
  assumes "peripheral < 24"
  shows "reglk_ctrl (so_reglk (pkt_copy_fuse_data (soc_bus fuse) pkt_base reglk_base aes_working sha256_working w))
      peripheral =
    (if peripheral = 8 then 0xf3 else if peripheral = 6 then 0xcf
     else if peripheral = 11 \<and> \<not> aes_working \<or> peripheral = 10 \<and> \<not> sha256_working then 0xff else 0)"
proof -
  let ?bytes = "reglk_bytes aes_working sha256_working"
  let ?i = "peripheral div 4" and ?k = "peripheral mod 4"
  have i: "?i < 6" using assms by linarith
  have k4: "?k < 4" by simp
  have "so_reglk (write_reglk_words (soc_bus fuse) reglk_base ?bytes 0 6 v) ?i =
      le_word [?bytes (?i * 4 + 0), ?bytes (?i * 4 + 1), ?bytes (?i * 4 + 2), ?bytes (?i * 4 + 3)]" for v
    using write_reglk_words_get [OF locks.reg_window_axioms, where w = v and i = 0 and k = 6 and fuse1 = fuse and bytes = ?bytes]
      i by simp
  then have "reglk_ctrl (so_reglk (pkt_copy_fuse_data (soc_bus fuse) pkt_base reglk_base aes_working sha256_working w))
      peripheral = [?bytes (?i * 4 + 0), ?bytes (?i * 4 + 1), ?bytes (?i * 4 + 2), ?bytes (?i * 4 + 3)] ! ?k"
    unfolding pkt_copy_fuse_data_def Let_def reglk_ctrl_def by (simp only: le_word_byte [OF k4])
  also have "\<dots> = ?bytes (?i * 4 + ?k)"
  proof -
    from k4 consider "?k = 0" | "?k = 1" | "?k = 2" | "?k = 3" by linarith
    then show ?thesis by cases simp_all
  qed
  also have "?i * 4 + ?k = peripheral" by simp
  finally show ?thesis by (auto simp: reglk_bytes_def)
qed

theorem pkt_sets_locks_witness:
  "\<forall>fuse w. reglk_ctrl (so_reglk (pkt_copy_fuse_data (soc_bus fuse) pkt_base reglk_base False True w)) 11 = 0xff"
  using pkt_sets_locks [of 11] by simp

end
