(* ===== verification/Devices.thy ===== *)
theory Devices
  imports Fdt_scans Driver_spec
begin

text \<open>
  How the drivers find their devices in the tree (the \<open>*_open\<close>, \<open>*_prop\<close>, \<open>*_done\<close> callbacks and
  \<open>query_*\<close> functions of \<open>aes.c\<close>, \<open>sha256.c\<close>, \<open>hmac.c\<close>, \<open>dma.c\<close>, \<open>pkt.c\<close>, \<open>reglk.c\<close>, \<open>uart.c\<close>,
  \<open>uart16550.c\<close>, \<open>htif.c\<close> and \<open>finisher.c\<close>), and the console drivers. The device pointer a query
  sets is part of the client state; device registers are accessed over the bus of \<open>Drivers\<close>.
\<close>

unbundle bit_operations_syntax

section \<open>Queries\<close>

record dev_scan =
  ds_compat :: bool
  ds_reg :: u64

definition dev_zero :: dev_scan where
  "dev_zero = \<lparr>ds_compat = False, ds_reg = 0\<rparr>"

type_synonym dev_state = "(dev_scan \<times> u64) fdt_state"

text \<open>The callbacks the six crypto and security devices share: only the compatible string differs.\<close>

definition dev_open :: "node_ptr \<Rightarrow> (dev_scan \<times> 'w) fdt_state \<Rightarrow> (dev_scan \<times> 'w) fdt_state option" where
  "dev_open nodes = (\<lambda>(m, scan, g). Some (m, dev_zero, g))"

definition dev_prop :: "string \<Rightarrow> node_ptr \<Rightarrow> fdt_scan_prop \<Rightarrow> (dev_scan \<times> 'w) fdt_state \<Rightarrow> (dev_scan \<times> 'w) fdt_state option" where
  "dev_prop str nodes p = (\<lambda>(m, scan, g).
     if str_is m (prop_name p) ''compatible'' then
       Some (m, if str_is m (prop_value p) str then scan\<lparr>ds_compat := True\<rparr> else scan, g)
     else if str_is m (prop_name p) ''reg'' then
       do { reg \<leftarrow> read_reg m nodes p; Some (m, scan\<lparr>ds_reg := reg\<rparr>, g) }
     else Some (m, scan, g))"

definition dev_done :: "node_ptr \<Rightarrow> dev_state \<Rightarrow> dev_state option" where
  "dev_done nodes = (\<lambda>(m, scan, ptr).
     if \<not> ds_compat scan \<or> ds_reg scan = 0 \<or> ptr \<noteq> 0 then Some (m, scan, ptr)
     else Some (m, scan, ds_reg scan))"

definition query_dev :: "string \<Rightarrow> dev_scan \<Rightarrow> nat \<Rightarrow> bmem \<times> u64 \<Rightarrow> (bmem \<times> u64) option" where
  "query_dev str scan fdt = (\<lambda>(m, ptr).
     map_option (\<lambda>(m, scan, ptr). (m, ptr))
       (fdt_scan fdt \<lparr>cb_open = Some dev_open, cb_prop = dev_prop str, cb_done = Some dev_done, cb_close = None\<rparr>
         (m, scan, ptr)))"

definition query_aes :: "dev_scan \<Rightarrow> nat \<Rightarrow> bmem \<times> u64 \<Rightarrow> (bmem \<times> u64) option" where
  "query_aes = query_dev ''hd20,aes0''"

definition query_sha256 :: "dev_scan \<Rightarrow> nat \<Rightarrow> bmem \<times> u64 \<Rightarrow> (bmem \<times> u64) option" where
  "query_sha256 = query_dev ''hd20,sha2560''"

definition query_hmac :: "dev_scan \<Rightarrow> nat \<Rightarrow> bmem \<times> u64 \<Rightarrow> (bmem \<times> u64) option" where
  "query_hmac = query_dev ''hd20,hmac''"

definition query_dma :: "dev_scan \<Rightarrow> nat \<Rightarrow> bmem \<times> u64 \<Rightarrow> (bmem \<times> u64) option" where
  "query_dma = query_dev ''hd20,dma''"

definition query_pkt :: "dev_scan \<Rightarrow> nat \<Rightarrow> bmem \<times> u64 \<Rightarrow> (bmem \<times> u64) option" where
  "query_pkt = query_dev ''hd20,pkt''"

definition query_reglk :: "dev_scan \<Rightarrow> nat \<Rightarrow> bmem \<times> u64 \<Rightarrow> (bmem \<times> u64) option" where
  "query_reglk = query_dev ''hd20,reglk''"

section \<open>UART (\<open>uart.c\<close>)\<close>

definition uart_prop :: "string \<Rightarrow> node_ptr \<Rightarrow> fdt_scan_prop \<Rightarrow> (dev_scan \<times> 'w) fdt_state \<Rightarrow> (dev_scan \<times> 'w) fdt_state option" where
  "uart_prop str nodes p = (\<lambda>(m, scan, g).
     if str_is m (prop_name p) ''compatible'' \<and> str_is m (prop_value p) str then Some (m, scan\<lparr>ds_compat := True\<rparr>, g)
     else if str_is m (prop_name p) ''reg'' then
       do { reg \<leftarrow> read_reg m nodes p; Some (m, scan\<lparr>ds_reg := reg\<rparr>, g) }
     else Some (m, scan, g))"

definition uart_done :: "'w bus \<Rightarrow> node_ptr \<Rightarrow> (dev_scan \<times> u64 \<times> 'w) fdt_state \<Rightarrow> (dev_scan \<times> u64 \<times> 'w) fdt_state option" where
  "uart_done b nodes = (\<lambda>(m, scan, uart, w).
     if \<not> ds_compat scan \<or> ds_reg scan = 0 \<or> uart \<noteq> 0 then Some (m, scan, uart, w)
     else let uart = ds_reg scan
          in Some (m, scan, uart, writeToAddress b uart 3 1 (writeToAddress b uart 2 1 w)))"

definition query_uart :: "'w bus \<Rightarrow> dev_scan \<Rightarrow> nat \<Rightarrow> bmem \<times> u64 \<times> 'w \<Rightarrow> (bmem \<times> u64 \<times> 'w) option" where
  "query_uart b scan fdt = (\<lambda>(m, uart, w).
     map_option (\<lambda>(m, scan, g). (m, g))
       (fdt_scan fdt \<lparr>cb_open = Some dev_open, cb_prop = uart_prop ''sifive,uart0'', cb_done = Some (uart_done b), cb_close = None\<rparr>
         (m, scan, uart, w)))"

text \<open>
  \<open>amoor\<close> is the atomic instruction on the transmit register, which returns the old value; the
  sign bit of that value says that the queue is full.
\<close>

partial_function (option) uart_putchar :: "(u64 \<Rightarrow> u32 \<Rightarrow> 'w \<Rightarrow> u32 \<times> 'w) \<Rightarrow> u64 \<Rightarrow> u8 \<Rightarrow> 'w \<Rightarrow> 'w option" where
  "uart_putchar amoor uart ch w =
     (let (r, w) = amoor (word_addr uart 0) (ucast ch) w
      in if sint r < 0 then uart_putchar amoor uart ch w else Some w)"

definition uart_getchar :: "'w bus \<Rightarrow> u64 \<Rightarrow> 'w \<Rightarrow> int \<times> 'w" where
  "uart_getchar b uart w =
     (let (ch, w) = readFromAddress b uart 1 w in if sint ch < 0 then (-1, w) else (sint ch, w))"

section \<open>Finisher (\<open>finisher.c\<close>)\<close>

definition finisher_exit :: "'w bus \<Rightarrow> u64 \<Rightarrow> u16 \<Rightarrow> 'w \<Rightarrow> 'w" where
  "finisher_exit b finisher code w =
     (if finisher = 0 then w
      else if code = 0 then bwrite b finisher 0x5555 w
      else bwrite b finisher (push_bit 16 (ucast code) OR 0x3333) w)"

definition query_finisher :: "dev_scan \<Rightarrow> nat \<Rightarrow> bmem \<times> u64 \<Rightarrow> (bmem \<times> u64) option" where
  "query_finisher scan fdt = (\<lambda>(m, ptr).
     map_option (\<lambda>(m, scan, ptr). (m, ptr))
       (fdt_scan fdt \<lparr>cb_open = Some dev_open, cb_prop = uart_prop ''sifive,test0'', cb_done = Some dev_done, cb_close = None\<rparr>
         (m, scan, ptr)))"

section \<open>16550 UART (\<open>uart16550.c\<close>)\<close>

record 'w bus8 =
  b8read :: "u64 \<Rightarrow> 'w \<Rightarrow> u8 \<times> 'w"
  b8write :: "u64 \<Rightarrow> u8 \<Rightarrow> 'w \<Rightarrow> 'w"

record u16550 =
  u_ptr :: u64
  u_reg_shift :: u32
  u_clock :: u32

text \<open>\<open>uart16550[r << uart16550_reg_shift]\<close>: the index is an \<open>int\<close> shifted by an unsigned amount.\<close>

definition reg16550 :: "u16550 \<Rightarrow> nat \<Rightarrow> u64" where
  "reg16550 u r = u_ptr u + scast (push_bit (unat (u_reg_shift u)) (of_nat r) :: u32)"

partial_function (option) uart16550_putchar :: "'w bus8 \<Rightarrow> u16550 \<Rightarrow> u8 \<Rightarrow> 'w \<Rightarrow> 'w option" where
  "uart16550_putchar b u ch w =
     (let (lsr, w) = b8read b (reg16550 u 5) w
      in if lsr AND 0x20 = 0 then uart16550_putchar b u ch w else Some (b8write b (reg16550 u 0) ch w))"

definition uart16550_getchar :: "'w bus8 \<Rightarrow> u16550 \<Rightarrow> 'w \<Rightarrow> int \<times> 'w" where
  "uart16550_getchar b u w =
     (let (lsr, w) = b8read b (reg16550 u 5) w
      in if lsr AND 0x01 \<noteq> 0 then let (ch, w) = b8read b (reg16550 u 0) w in (uint ch, w) else (-1, w))"

record u16550_scan =
  us_compat :: bool
  us_reg :: u64
  us_reg_offset :: u32
  us_reg_shift :: u32
  us_clock_freq :: u32
  us_baud :: u32

type_synonym 'w u16550_state = "(u16550_scan \<times> u16550 \<times> 'w) fdt_state"

definition uart16550_open :: "node_ptr \<Rightarrow> 'w u16550_state \<Rightarrow> 'w u16550_state option" where
  "uart16550_open nodes = (\<lambda>(m, scan, g).
     Some (m, \<lparr>us_compat = False, us_reg = 0, us_reg_offset = 0, us_reg_shift = 0, us_clock_freq = 0, us_baud = 38400\<rparr>, g))"

definition uart16550_prop :: "node_ptr \<Rightarrow> fdt_scan_prop \<Rightarrow> 'w u16550_state \<Rightarrow> 'w u16550_state option" where
  "uart16550_prop nodes p = (\<lambda>(m, scan, g). do {
     i \<leftarrow> (if str_is m (prop_name p) ''compatible'' then fdt_string_list_index m p ''ns16550a'' else Some (-1));
     j \<leftarrow> (if str_is m (prop_name p) ''compatible'' \<and> i = -1 then fdt_string_list_index m p ''ns16750'' else Some (-1));
     (if i \<noteq> -1 \<or> j \<noteq> -1 then Some (m, scan\<lparr>us_compat := True\<rparr>, g)
      else if str_is m (prop_name p) ''reg'' then
        do { reg \<leftarrow> read_reg m nodes p; Some (m, scan\<lparr>us_reg := reg\<rparr>, g) }
      else if str_is m (prop_name p) ''reg-shift'' then Some (m, scan\<lparr>us_reg_shift := fdt_get_value m p 0\<rparr>, g)
      else if str_is m (prop_name p) ''reg-offset'' then Some (m, scan\<lparr>us_reg_offset := fdt_get_value m p 0\<rparr>, g)
      else if str_is m (prop_name p) ''current-speed'' then Some (m, scan\<lparr>us_baud := fdt_get_value m p 0\<rparr>, g)
      else if str_is m (prop_name p) ''clock-frequency'' then Some (m, scan\<lparr>us_clock_freq := fdt_get_value m p 0\<rparr>, g)
      else Some (m, scan, g))
   })"

text \<open>The baud rate divisor in unsigned 32-bit arithmetic; \<open>None\<close> when the division is by zero.\<close>

definition baud_divisor :: "u32 \<Rightarrow> u32 \<Rightarrow> u32 option" where
  "baud_divisor clock baud =
     (let rate = 16 * (if baud \<noteq> 0 then baud else 38400)
      in if rate = 0 then None
         else let divisor = clock div rate
              in Some (if divisor \<ge> 0x10000 then clock div (16 * 38400) else divisor))"

definition uart16550_done :: "'w bus8 \<Rightarrow> node_ptr \<Rightarrow> 'w u16550_state \<Rightarrow> 'w u16550_state option" where
  "uart16550_done b nodes = (\<lambda>(m, scan, u, w).
     if \<not> us_compat scan \<or> us_reg scan = 0 \<or> u_ptr u \<noteq> 0 then Some (m, scan, u, w)
     else do {
       let u = (if us_clock_freq scan \<noteq> 0 then u\<lparr>u_clock := us_clock_freq scan\<rparr> else u);
       divisor \<leftarrow> baud_divisor (u_clock u) (us_baud scan);
       let u = u\<lparr>u_ptr := us_reg scan + ucast (us_reg_offset scan), u_reg_shift := us_reg_shift scan\<rparr>;
       let w = b8write b (reg16550 u 1) 0x00 w;
       let w = b8write b (reg16550 u 3) 0x80 w;
       let w = b8write b (reg16550 u 0) (ucast divisor) w;
       let w = b8write b (reg16550 u 1) (ucast (drop_bit 8 divisor)) w;
       let w = b8write b (reg16550 u 3) 0x03 w;
       let w = b8write b (reg16550 u 2) 0xC7 w;
       Some (m, scan, u, w)
     })"

definition query_uart16550 :: "'w bus8 \<Rightarrow> u16550_scan \<Rightarrow> nat \<Rightarrow> bmem \<times> u16550 \<times> 'w \<Rightarrow> (bmem \<times> u16550 \<times> 'w) option" where
  "query_uart16550 b scan fdt = (\<lambda>(m, u, w).
     map_option (\<lambda>(m, scan, g). (m, g))
       (fdt_scan fdt \<lparr>cb_open = Some uart16550_open, cb_prop = uart16550_prop, cb_done = Some (uart16550_done b), cb_close = None\<rparr>
         (m, scan, u, w)))"

section \<open>Host interface (\<open>htif.c\<close>)\<close>

text \<open>
  The host reads and writes \<open>tohost\<close> and \<open>fromhost\<close> on its own. What it does before each of the
  firmware's accesses to them is the argument \<open>host\<close>. The lock protects against other harts; one
  hart is modelled.
\<close>

record htif_t =
  tohost :: u64
  fromhost :: u64
  console_buf :: int

definition FROMHOST_DEV :: "u64 \<Rightarrow> u64" where "FROMHOST_DEV v = drop_bit 56 v"
definition FROMHOST_CMD :: "u64 \<Rightarrow> u64" where "FROMHOST_CMD v = drop_bit 56 (push_bit 8 v)"
definition FROMHOST_DATA :: "u64 \<Rightarrow> u64" where "FROMHOST_DATA v = drop_bit 16 (push_bit 16 v)"
definition TOHOST_CMD :: "u64 \<Rightarrow> u64 \<Rightarrow> u64 \<Rightarrow> u64" where
  "TOHOST_CMD dev cmd payload = push_bit 56 dev OR push_bit 48 cmd OR payload"

definition check_fromhost :: "(htif_t \<Rightarrow> htif_t) \<Rightarrow> htif_t \<Rightarrow> htif_t option" where
  "check_fromhost host h =
     (let h = host h; fh = fromhost h
      in if fh = 0 then Some h
         else let h = h\<lparr>fromhost := 0\<rparr>
              in if FROMHOST_DEV fh \<noteq> 1 then None
                 else if FROMHOST_CMD fh = 0 then Some (h\<lparr>console_buf := 1 + uint (ucast (FROMHOST_DATA fh) :: u8)\<rparr>)
                 else if FROMHOST_CMD fh = 1 then Some h
                 else None)"

partial_function (option) set_tohost :: "(htif_t \<Rightarrow> htif_t) \<Rightarrow> u64 \<Rightarrow> u64 \<Rightarrow> u64 \<Rightarrow> htif_t \<Rightarrow> htif_t option" where
  "set_tohost host dev cmd data h =
     (let h = host h
      in if tohost h \<noteq> 0 then do { h \<leftarrow> check_fromhost host h; set_tohost host dev cmd data h }
         else Some (h\<lparr>tohost := TOHOST_CMD dev cmd data\<rparr>))"

definition htif_console_getchar :: "(htif_t \<Rightarrow> htif_t) \<Rightarrow> htif_t \<Rightarrow> (int \<times> htif_t) option" where
  "htif_console_getchar host h = do {
     h \<leftarrow> check_fromhost host h;
     let ch = console_buf h;
     h \<leftarrow> (if ch \<ge> 0 then set_tohost host 1 0 0 (h\<lparr>console_buf := -1\<rparr>) else Some h);
     Some (ch - 1, h)
   }"

partial_function (option) wait_fromhost :: "(htif_t \<Rightarrow> htif_t) \<Rightarrow> u64 \<Rightarrow> u64 \<Rightarrow> htif_t \<Rightarrow> htif_t option" where
  "wait_fromhost host dev cmd h =
     (let h = host h; fh = fromhost h
      in if fh \<noteq> 0 \<and> FROMHOST_DEV fh = dev \<and> FROMHOST_CMD fh = cmd then Some (h\<lparr>fromhost := 0\<rparr>)
         else do { h \<leftarrow> (if fh \<noteq> 0 then check_fromhost host h else Some h); wait_fromhost host dev cmd h })"

definition do_tohost_fromhost :: "(htif_t \<Rightarrow> htif_t) \<Rightarrow> u64 \<Rightarrow> u64 \<Rightarrow> u64 \<Rightarrow> htif_t \<Rightarrow> htif_t option" where
  "do_tohost_fromhost host dev cmd data h = do { h \<leftarrow> set_tohost host dev cmd data h; wait_fromhost host dev cmd h }"

definition htif_syscall :: "(htif_t \<Rightarrow> htif_t) \<Rightarrow> u64 \<Rightarrow> htif_t \<Rightarrow> htif_t option" where
  "htif_syscall host arg = do_tohost_fromhost host 0 0 arg"

definition htif_console_putchar :: "(htif_t \<Rightarrow> htif_t) \<Rightarrow> u8 \<Rightarrow> htif_t \<Rightarrow> htif_t option" where
  "htif_console_putchar host ch = set_tohost host 1 1 (ucast ch)"

definition htif_prop :: "node_ptr \<Rightarrow> fdt_scan_prop \<Rightarrow> (bool \<times> u64) fdt_state \<Rightarrow> (bool \<times> u64) fdt_state option" where
  "htif_prop nodes p = (\<lambda>(m, compat, htif).
     Some (m, compat \<or> (str_is m (prop_name p) ''compatible'' \<and> str_is m (prop_value p) ''ucb,htif0''), htif))"

definition query_htif :: "bool \<Rightarrow> nat \<Rightarrow> bmem \<times> u64 \<Rightarrow> (bmem \<times> u64) option" where
  "query_htif scan fdt = (\<lambda>(m, htif).
     map_option (\<lambda>(m, scan, htif). (m, htif))
       (fdt_scan fdt
         \<lparr>cb_open = Some (\<lambda>nodes (m, compat, htif). Some (m, False, htif)), cb_prop = htif_prop,
          cb_done = Some (\<lambda>nodes (m, compat, htif). Some (m, compat, if compat then 1 else htif)), cb_close = None\<rparr>
         (m, scan, htif)))"

end
