(* ===== verification/Device_spec.thy ===== *)
theory Device_spec
  imports Devices
begin

text \<open>
  What the device queries and the deletion of nodes compute, as functions of the tree: the
  clients of the scanner are interpretations of \<open>fdt_client\<close>, and the walk of the client is then
  compared with a declarative reading of the tree.
\<close>

unbundle bit_operations_syntax

section \<open>Property values\<close>

definition head_string :: "u8 list \<Rightarrow> u8 list" where
  "head_string v = takeWhile (\<lambda>b. b \<noteq> 0) v"

abbreviation nul_free :: "string \<Rightarrow> bool" where
  "nul_free s \<equiv> list_all (\<lambda>c. c \<noteq> CHR 0x00) s"

lemma head_string_split: "0 \<in> set v \<Longrightarrow> \<exists>r. v = head_string v @ 0 # r"
proof -
  assume "0 \<in> set v"
  then obtain xs r where v: "v = xs @ 0 # r" "0 \<notin> set xs" using split_list_first [of 0 v] by blast
  moreover have "takeWhile (\<lambda>b. b \<noteq> 0) xs = xs" using v(2) by (auto simp: takeWhile_eq_all_conv)
  ultimately have "head_string v = xs" by (auto simp: head_string_def takeWhile_append)
  with v(1) show ?thesis by (intro exI [of _ r]) simp
qed

lemma stored_Cons: "stored m a (x # xs) \<longleftrightarrow> m a = x \<and> stored m (a + 1) xs"
  by (simp add: stored_def All_less_Suc2)

lemma stored_append: "stored m a (xs @ ys) \<longleftrightarrow> stored m a xs \<and> stored m (a + length xs) ys"
  by (induction xs arbitrary: a) (auto simp: stored_Cons, auto simp: stored_def)

lemma stored_cstr: "stored m a v \<Longrightarrow> 0 \<in> set v \<Longrightarrow> cstr m a (head_string v)"
proof -
  assume v: "stored m a v" "0 \<in> set v"
  obtain r where "v = head_string v @ 0 # r" using head_string_split [OF v(2)] by blast
  with v(1) have "stored m a (head_string v) \<and> stored m (a + length (head_string v)) (0 # r)"
    using stored_append [of m a "head_string v" "0 # r"] by simp
  moreover have "0 \<notin> set (head_string v)" by (auto simp: head_string_def dest: set_takeWhileD)
  ultimately show ?thesis by (auto simp: cstr_def stored_def)
qed

lemma stored_bytes_at: "stored m a v \<Longrightarrow> n \<le> length v \<Longrightarrow> bytes_at m a n = take n v"
  by (rule nth_equalityI) (auto simp: stored_def bytes_at_def)

text \<open>The number a cell-encoded address denotes, as a 64-bit value.\<close>

definition address_of :: "anode \<Rightarrow> u8 list \<Rightarrow> u64" where
  "address_of up v = of_nat (be_nat (take (4 * nat (sint (an_acells up))) v))"

lemma read_reg_address:
  assumes "list_all2 (node_rel m) nodes ns" "stored m (prop_value p) v"
    and "2 \<le> length ns" "4 * nat (sint (an_acells (ns ! 1))) \<le> length v"
  shows "read_reg m nodes p = Some (address_of (ns ! 1) v)"
proof -
  from assms(1,3) obtain n up r an aup ar where "nodes = n # up # r" "ns = an # aup # ar" "node_rel m up aup"
    by (cases ns rule: remdups_adj.cases) (auto simp: list_all2_Cons2)
  with assms(2,4) show ?thesis
    by (simp add: read_reg_def parent_def fdt_get_address_def get_cells_value stored_bytes_at address_of_def node_rel_def)
qed

section \<open>Device queries\<close>

lemma c_bytes_names:
  "c_bytes ''compatible'' = [99, 111, 109, 112, 97, 116, 105, 98, 108, 101]"
  "c_bytes ''reg'' = [114, 101, 103]"
  "c_bytes ''aes'' = [97, 101, 115]"
  "c_bytes ''hd20,aes0'' = [104, 100, 50, 48, 44, 97, 101, 115, 48]"
  "c_bytes ''#address-cells'' = [35, 97, 100, 100, 114, 101, 115, 115, 45, 99, 101, 108, 108, 115]"
  "c_bytes ''#size-cells'' = [35, 115, 105, 122, 101, 45, 99, 101, 108, 108, 115]"
  by code_simp+

definition dev_ok :: "anode list \<Rightarrow> u8 list \<Rightarrow> u8 list \<Rightarrow> bool" where
  "dev_ok ns nm v \<longleftrightarrow>
     (name_is ''compatible'' nm \<longrightarrow> 0 \<in> set v) \<and>
     (name_is ''reg'' nm \<longrightarrow> 2 \<le> length ns \<and> 4 * nat (sint (an_acells (ns ! 1))) \<le> length v)"

definition dev_reads :: "string \<Rightarrow> anode list \<Rightarrow> u8 list \<Rightarrow> u8 list \<Rightarrow> dev_scan \<Rightarrow> dev_scan" where
  "dev_reads str ns nm v d =
     (if name_is ''compatible'' nm then (if head_string v = c_bytes str then d\<lparr>ds_compat := True\<rparr> else d)
      else if name_is ''reg'' nm then d\<lparr>ds_reg := address_of (ns ! 1) v\<rparr> else d)"

definition found :: "dev_scan \<Rightarrow> u64 list" where
  "found d = (if ds_compat d \<and> ds_reg d \<noteq> 0 then [ds_reg d] else [])"

text \<open>A pointer already set is kept; else the first register address is taken.\<close>

definition first_of :: "u64 \<Rightarrow> u64 list \<Rightarrow> u64" where
  "first_of ptr rs = (if ptr \<noteq> 0 then ptr else case rs of [] \<Rightarrow> 0 | r # _ \<Rightarrow> r)"

definition dev_walk :: "string \<Rightarrow> (dev_scan \<times> u64) scan" where
  "dev_walk str =
     \<lparr>on_open = (\<lambda>ns (d, ptr). (dev_zero, ptr)),
      on_prop = (\<lambda>ns nm v (d, ptr). (dev_reads str ns nm v d, ptr)),
      on_done = (\<lambda>ns (d, ptr). (d, first_of ptr (found d))),
      on_close = (\<lambda>ns s. (False, s))\<rparr>"

definition dev_cb :: "string \<Rightarrow> (dev_scan \<times> u64) fdt_cb" where
  "dev_cb str = \<lparr>cb_open = Some dev_open, cb_prop = dev_prop str, cb_done = Some dev_done, cb_close = None\<rparr>"

lemma nodes_Nil: "list_all2 (node_rel m) nodes ns \<Longrightarrow> nodes = [] \<longleftrightarrow> ns = []"
  by auto

lemma dev_client: "nul_free str \<Longrightarrow> fdt_client (dev_cb str) (dev_walk str) dev_ok"
proof
  fix m :: bmem and nodes ns and s :: "dev_scan \<times> u64"
  assume n: "list_all2 (node_rel m) nodes ns" "ns \<noteq> []"
  obtain d ptr where s: "s = (d, ptr)" by fastforce
  show "call_open (dev_cb str) nodes (m, s) = Some (m, on_open (dev_walk str) ns s)"
    by (simp add: s call_open_def dev_cb_def dev_open_def dev_walk_def)
  show "call_done (dev_cb str) False nodes (m, s) = Some (m, on_done (dev_walk str) ns s)"
    using n nodes_Nil [OF n(1)] by (auto simp: s call_done_def dev_cb_def dev_done_def dev_walk_def found_def first_of_def)
  show "call_close (dev_cb str) nodes (m, s) = (let (kill, s) = on_close (dev_walk str) ns s in Some (kill, m, s))"
    by (simp add: s call_close_def dev_cb_def dev_walk_def)
next
  fix m :: bmem and nodes ns p nm v and s :: "dev_scan \<times> u64"
  assume str: "nul_free str" and n: "list_all2 (node_rel m) nodes ns" and p: "prop_rel m p nm v" and ok: "dev_ok ns nm v"
  obtain d ptr where s: "s = (d, ptr)" by fastforce
  have pn: "str_is m (prop_name p) x \<longleftrightarrow> name_is x nm" if "nul_free x" for x
    using p that by (auto simp: prop_rel_def intro!: str_is_cstr)
  have "str_is m (prop_value p) str \<longleftrightarrow> head_string v = c_bytes str" if "name_is ''compatible'' nm"
    using p ok that str_is_cstr [OF stored_cstr str] by (auto simp: prop_rel_def dev_ok_def name_is_def)
  moreover have "read_reg m nodes p = Some (address_of (ns ! 1) v)" if "name_is ''reg'' nm"
    using p ok that n by (intro read_reg_address) (auto simp: prop_rel_def dev_ok_def)
  ultimately show "cb_prop (dev_cb str) nodes p (m, s) = Some (m, on_prop (dev_walk str) ns nm v s)"
    by (simp add: s dev_cb_def dev_prop_def dev_walk_def dev_reads_def pn)
qed

interpretation aes: fdt_client "dev_cb ''hd20,aes0''" "dev_walk ''hd20,aes0''" dev_ok
  by (rule dev_client) simp
interpretation sha256: fdt_client "dev_cb ''hd20,sha2560''" "dev_walk ''hd20,sha2560''" dev_ok
  by (rule dev_client) simp
interpretation hmac: fdt_client "dev_cb ''hd20,hmac''" "dev_walk ''hd20,hmac''" dev_ok
  by (rule dev_client) simp
interpretation dma: fdt_client "dev_cb ''hd20,dma''" "dev_walk ''hd20,dma''" dev_ok
  by (rule dev_client) simp
interpretation pkt: fdt_client "dev_cb ''hd20,pkt''" "dev_walk ''hd20,pkt''" dev_ok
  by (rule dev_client) simp
interpretation reglk: fdt_client "dev_cb ''hd20,reglk''" "dev_walk ''hd20,reglk''" dev_ok
  by (rule dev_client) simp

text \<open>The register addresses the walk takes, with the cell counts it has for each node.\<close>

fun dev_fold :: "string \<Rightarrow> anode list \<Rightarrow> item list \<Rightarrow> dev_scan \<Rightarrow> dev_scan" where
  "dev_fold str ns (Nop # r) d = dev_fold str ns r d"
| "dev_fold str ns (Prop off nm v # r) d = dev_fold str (with_cells nm v ns) r (dev_reads str (with_cells nm v ns) nm v d)"
| "dev_fold str ns _ d = d"

fun walk_regs :: "string \<Rightarrow> anode \<Rightarrow> anode list \<Rightarrow> item list \<Rightarrow> u64 list" where
  "walk_regs str ch ns [] = []"
| "walk_regs str ch ns (Nop # r) = walk_regs str ch ns r"
| "walk_regs str ch ns (Prop off nm v # r) = walk_regs str ch (with_cells nm v ns) r"
| "walk_regs str ch ns (Node nm its # r) =
     (let me = ch\<lparr>an_name := nm\<rparr>
      in found (dev_fold str (me # ns) its dev_zero) @ walk_regs str an_default (me # ns) its @
         walk_regs str (hd (own_cells its (me # ns))) ns r)"

lemma found_nonzero: "0 \<notin> set (found d)"
  by (simp add: found_def)

lemma walk_regs_nonzero: "0 \<notin> set (walk_regs str ch ns its)"
  by (induction str ch ns its rule: walk_regs.induct) (auto simp: Let_def found_nonzero)

lemma first_of_append: "0 \<notin> set xs \<Longrightarrow> first_of ptr (xs @ ys) = first_of (first_of ptr xs) ys"
  by (cases xs) (auto simp: first_of_def)

lemma first_of_Nil [simp]: "first_of ptr [] = ptr"
  by (simp add: first_of_def)

lemma dev_walk_finds:
  "scannable okp seen ch ns its \<Longrightarrow>
   snd (snd (walk (dev_walk str) seen ch ns its (d, ptr))) =
     first_of ptr ((if seen \<or> ns = [] then [] else found (dev_fold str ns its d)) @ walk_regs str ch ns its)"
proof (induction its arbitrary: seen ch ns d ptr rule: words.induct)
  case 1
  then show ?case by (simp add: finish_def dev_walk_def)
next
  case (2 r)
  then show ?case by (simp add: case_prod_unfold Let_def)
next
  case (3 off nm v r)
  have "on_prop (dev_walk str) (with_cells nm v ns) nm v (d, ptr) = (dev_reads str (with_cells nm v ns) nm v d, ptr)"
    by (simp add: dev_walk_def)
  moreover have "with_cells nm v ns = [] \<longleftrightarrow> ns = []" by (cases ns) (simp_all add: with_cells_def)
  ultimately show ?case
    using "3.IH" [of seen ch "with_cells nm v ns" "dev_reads str (with_cells nm v ns) nm v d" ptr] "3.prems"
    by (cases seen; cases "ns = []") (simp_all add: case_prod_unfold Let_def)
next
  case (4 nm its r)
  let ?me = "ch\<lparr>an_name := nm\<rparr>" and ?w = "dev_walk str"
  let ?p = "first_of ptr (if seen \<or> ns = [] then [] else found d)"
  have o: "on_open ?w (?me # ns) (finish ?w seen ns (d, ptr)) = (dev_zero, ?p)"
    by (auto simp: dev_walk_def finish_def)
  obtain its' d' ptr' where w: "walk ?w False an_default (?me # ns) its (dev_zero, ?p) = (its', d', ptr')"
    by (metis prod_cases3)
  have "ptr' = first_of ?p (found (dev_fold str (?me # ns) its dev_zero) @ walk_regs str an_default (?me # ns) its)"
    using "4.IH"(1) [of False an_default "?me # ns" dev_zero ?p] "4.prems" w by simp
  moreover have "on_close ?w inner (d', ptr') = (False, d', ptr')" for inner
    by (simp add: dev_walk_def)
  ultimately show ?case
    using "4.IH"(2) [of True "hd (own_cells its (?me # ns))" ns d' ptr'] "4.prems" w o
    by (simp add: Let_def case_prod_unfold first_of_append walk_regs_nonzero found_nonzero)
qed

lemma dev_walk_keeps: "fst (walk (dev_walk str) seen ch ns its s) = its"
  by (induction its arbitrary: seen ch ns s rule: words.induct)
    (auto simp: case_prod_unfold Let_def dev_walk_def)

lemma query_dev_finds:
  assumes "nul_free str" "blob m fdt its" "scannable dev_ok False an_default [] its"
  shows "\<exists>m'. query_dev str scan fdt (m, ptr) = Some (m', first_of ptr (walk_regs str an_default [] its)) \<and> blob m' fdt its"
proof -
  obtain m' where "fdt_scan fdt (dev_cb str) (m, scan, ptr) = Some (m', snd (walk (dev_walk str) False an_default [] its (scan, ptr)))"
      "blob m' fdt its"
    using fdt_client.fdt_scan_walk [OF dev_client [OF assms(1)] assms(2,3), of "(scan, ptr)"]
    unfolding dev_walk_keeps by blast
  moreover have "snd (snd (walk (dev_walk str) False an_default [] its (scan, ptr))) = first_of ptr (walk_regs str an_default [] its)"
    using dev_walk_finds [OF assms(3), of str scan ptr] by simp
  ultimately show ?thesis
    by (simp add: query_dev_def dev_cb_def case_prod_unfold)
qed

subsection \<open>The addresses of a tree\<close>

text \<open>
  The reading of the specification of device trees, which mentions no scan: the properties of a node by name, the
  number of address cells it gives its subnodes (its \<open>#address-cells\<close>, else 2, whatever any other node declares),
  and the nonzero addresses of the compatible nodes in document order, each read with the cells of the node it is in.
\<close>

fun props_named :: "string \<Rightarrow> item list \<Rightarrow> u8 list list" where
  "props_named s [] = []"
| "props_named s (Prop off nm v # r) = (if nm = c_bytes s then [v] else []) @ props_named s r"
| "props_named s (_ # r) = props_named s r"

definition cells_of :: "item list \<Rightarrow> nat" where
  "cells_of its = (case props_named ''#address-cells'' its of [] \<Rightarrow> 2 | vs \<Rightarrow> be_nat (take 4 (List.last vs)))"

definition node_regs :: "string \<Rightarrow> nat \<Rightarrow> item list \<Rightarrow> u64 list" where
  "node_regs str cells its =
     (case props_named ''reg'' its of [] \<Rightarrow> []
      | vs \<Rightarrow> let r = of_nat (be_nat (take (4 * cells) (List.last vs)))
        in if (\<exists>v\<in>set (props_named ''compatible'' its). head_string v = c_bytes str) \<and> r \<noteq> 0 then [r] else [])"

fun dev_regs :: "string \<Rightarrow> nat \<Rightarrow> item list \<Rightarrow> u64 list" where
  "dev_regs str cells [] = []"
| "dev_regs str cells (Node nm its # r) = node_regs str cells its @ dev_regs str (cells_of its) its @ dev_regs str cells r"
| "dev_regs str cells (_ # r) = dev_regs str cells r"

text \<open>
  The specification asks every node with subnodes to declare its address cells. The scanner needs that: it starts a node
  with the counts of the node before it on the same level, not with the defaults.
\<close>

fun has_nodes :: "item list \<Rightarrow> bool" where
  "has_nodes [] \<longleftrightarrow> False"
| "has_nodes (Node nm its # r) \<longleftrightarrow> True"
| "has_nodes (_ # r) \<longleftrightarrow> has_nodes r"

fun cells_declared :: "item list \<Rightarrow> bool" where
  "cells_declared [] \<longleftrightarrow> True"
| "cells_declared (Node nm its # r) \<longleftrightarrow>
     (has_nodes its \<longrightarrow> props_named ''#address-cells'' its \<noteq> [] \<and> cells_of its < 2 ^ 31) \<and> cells_declared its \<and> cells_declared r"
| "cells_declared (_ # r) \<longleftrightarrow> cells_declared r"

lemma no_props_after: "scannable okp True ch ns its \<Longrightarrow> props_named s its = [] \<and> own_cells its ns = ns"
  by (induction its arbitrary: ch rule: words.induct) auto

lemma own_cells_declared:
  "own_cells its (n # up) \<noteq> [] \<and> an_acells (hd (own_cells its (n # up))) =
     (case props_named ''#address-cells'' its of [] \<Rightarrow> an_acells n | vs \<Rightarrow> be_word (take 4 (List.last vs)))"
  by (induction its arbitrary: n rule: words.induct)
    (auto simp: with_cells_def name_is_def split: list.split)

lemma dev_fold_reads:
  assumes "scannable dev_ok False ch (n # up) its"
  shows "dev_fold str (n # up) its d =
    d\<lparr>ds_compat := ds_compat d \<or> (\<exists>v\<in>set (props_named ''compatible'' its). head_string v = c_bytes str),
      ds_reg := (case props_named ''reg'' its of [] \<Rightarrow> ds_reg d | vs \<Rightarrow> address_of (up ! 0) (List.last vs))\<rparr>"
  using assms
proof (induction its arbitrary: n d rule: words.induct)
  case (3 off nm v r)
  then obtain n' where n: "with_cells nm v (n # up) = n' # up" "scannable dev_ok False ch (n' # up) r"
    by (simp add: with_cells_def)
  show ?case unfolding dev_fold.simps n(1) "3.IH" [OF n(2)]
    by (simp add: dev_reads_def name_is_def c_bytes_names split: list.split)
next
  case (4 nm its r)
  then have "props_named s r = []" for s using no_props_after by fastforce
  then show ?case by simp
qed simp_all

lemma root_no_reg: "scannable dev_ok False ch [n] its \<Longrightarrow> props_named ''reg'' its = []"
  by (induction its arbitrary: n rule: words.induct) (auto simp: with_cells_def dev_ok_def name_is_def dest: no_props_after)

lemma found_node_regs:
  assumes "scannable dev_ok False ch (n # up) its" "up \<noteq> [] \<Longrightarrow> nat (sint (an_acells (hd up))) = c"
  shows "found (dev_fold str (n # up) its dev_zero) = node_regs str c its"
proof (cases "up = []")
  case True
  with root_no_reg [of ch n its] assms(1) show ?thesis
    unfolding dev_fold_reads [OF assms(1)] by (simp add: found_def node_regs_def dev_zero_def)
next
  case False
  with assms(2) show ?thesis unfolding dev_fold_reads [OF assms(1)]
    by (simp add: found_def node_regs_def address_of_def dev_zero_def hd_conv_nth split: list.split)
qed

lemma sint_small: "n < 2 ^ 31 \<Longrightarrow> sint (of_nat n :: u32) = int n"
  by (subst signed_of_nat) (simp add: signed_take_bit_int_eq_self)

lemma own_cells_of:
  assumes "props_named ''#address-cells'' its \<noteq> []" "cells_of its < 2 ^ 31"
  shows "nat (sint (an_acells (hd (own_cells its (n # up))))) = cells_of its"
proof -
  have "sint (of_nat (cells_of its) :: u32) = int (cells_of its)"
    using assms(2) by (rule sint_small)
  with own_cells_declared [of its n up] assms(1) show ?thesis
    by (auto simp: cells_of_def be_word_of_nat split: list.splits)
qed

lemma walk_regs_declared:
  "scannable dev_ok seen ch ns its \<Longrightarrow> cells_declared its \<Longrightarrow>
   (has_nodes its \<Longrightarrow> ns \<noteq> [] \<Longrightarrow> nat (sint (an_acells (hd (own_cells its ns)))) = c) \<Longrightarrow>
   walk_regs str ch ns its = dev_regs str c its"
proof (induction its arbitrary: seen ch ns c rule: words.induct)
  case (3 off nm v r)
  have "with_cells nm v ns = [] \<longleftrightarrow> ns = []" by (cases ns) (simp_all add: with_cells_def)
  with 3 show ?case by (simp, intro "3.IH" [of seen]) auto
next
  case (4 nm its r)
  let ?me = "ch\<lparr>an_name := nm\<rparr>"
  have s: "scannable dev_ok False an_default (?me # ns) its"
    "scannable dev_ok True (hd (own_cells its (?me # ns))) ns r" using "4.prems"(1) by simp_all
  have c: "nat (sint (an_acells (hd ns))) = c" if "ns \<noteq> []"
    using "4.prems"(3) that no_props_after [OF s(2)] by simp
  have "walk_regs str an_default (?me # ns) its = dev_regs str (cells_of its) its"
    by (rule "4.IH"(1) [OF s(1)]) (use "4.prems"(2) own_cells_of in auto)
  moreover have "walk_regs str (hd (own_cells its (?me # ns))) ns r = dev_regs str c r"
    by (rule "4.IH"(2) [OF s(2)]) (use "4.prems"(2) c no_props_after [OF s(2)] in auto)
  ultimately show ?case using found_node_regs [OF s(1) c] by (simp add: Let_def)
qed simp_all

lemma walk_regs_tree:
  "scannable dev_ok False an_default [] its \<Longrightarrow> cells_declared its \<Longrightarrow> walk_regs str an_default [] its = dev_regs str 2 its"
  by (rule walk_regs_declared) simp_all

text \<open>
  C8. On a blob that holds a device tree whose \<open>compatible\<close> and \<open>reg\<close> properties are well formed and in which every node
  with subnodes declares its \<open>#address-cells\<close>, each of the six device queries returns; the device pointer is then the
  address in the \<open>reg\<close> property of the first node, in document order, that has the driver's name as first compatible
  string and an address that is not zero, read with as many cells as the node it is in declares; it is zero
  when there is none, and a pointer already set is kept. The blob is left as it was.
\<close>

theorem device_queries_find:
  assumes "(query, str) \<in> {(query_aes, ''hd20,aes0''), (query_sha256, ''hd20,sha2560''), (query_hmac, ''hd20,hmac''),
      (query_dma, ''hd20,dma''), (query_pkt, ''hd20,pkt''), (query_reglk, ''hd20,reglk'')}"
    and "blob m fdt its" "scannable dev_ok False an_default [] its" "cells_declared its"
  shows "\<exists>m'. query scan fdt (m, ptr) = Some (m', first_of ptr (dev_regs str 2 its)) \<and> blob m' fdt its"
  using assms(1) query_dev_finds [OF _ assms(2,3), of str scan ptr] walk_regs_tree [OF assms(3,4)]
  by (auto simp: query_aes_def query_sha256_def query_hmac_def query_dma_def query_pkt_def query_reglk_def)

text \<open>A blob with a root node and one AES engine at 0x10100000, and its tree.\<close>

definition mem_of :: "u8 list \<Rightarrow> bmem" where
  "mem_of bs a = (if a < length bs then bs ! a else 0)"

lemma stored_mem_of: "stored (mem_of bs) 0 bs"
  by (simp add: stored_def mem_of_def)

definition sample_bytes :: "u8 list" where
  "sample_bytes =
    [208, 13, 254, 237, 0, 0, 0, 150, 0, 0, 0, 32, 0, 0, 0, 120, 0, 0, 0, 0, 0, 0, 0, 17, 0, 0, 0, 16, 0, 0,
      0, 0, 0, 0, 0, 1, 0, 0, 0, 0, 0, 0, 0, 3, 0, 0, 0, 4, 0, 0, 0, 0, 0, 0, 0, 1, 0, 0, 0, 1, 97, 101, 115,
      0, 0, 0, 0, 3, 0, 0, 0, 10, 0, 0, 0, 15, 104, 100, 50, 48, 44, 97, 101, 115, 48, 0, 0, 0, 0, 0, 0, 3,
      0, 0, 0, 8, 0, 0, 0, 26, 16, 16, 0, 0, 0, 0, 16, 0, 0, 0, 0, 2, 0, 0, 0, 2, 0, 0, 0, 9, 35, 97, 100,
      100, 114, 101, 115, 115, 45, 99, 101, 108, 108, 115, 0, 99, 111, 109, 112, 97, 116, 105, 98, 108, 101,
      0, 114, 101, 103, 0]"

abbreviation sample_mem :: bmem where "sample_mem \<equiv> mem_of sample_bytes"

definition sample_tree :: "item list" where
  "sample_tree =
     [Node [] [Prop 0 (c_bytes ''#address-cells'') [0, 0, 0, 1],
        Node (c_bytes ''aes'')
          [Prop 15 (c_bytes ''compatible'') (c_bytes ''hd20,aes0'' @ [0]),
           Prop 26 (c_bytes ''reg'') [0x10, 0x10, 0, 0, 0, 0, 0x10, 0]]]]"

lemma be32_num: "be32 m a = of_nat (((unat (m a) * 256 + unat (m (a + 1))) * 256 + unat (m (a + 2))) * 256 + unat (m (a + 3)))"
  by (simp add: be32_be_word be_word_of_nat be_nat_def)

lemma stored_Nil: "stored m a [] \<longleftrightarrow> True"
  by (simp add: stored_def)

lemmas sample_mem_bytes =
  stored_mem_of [of sample_bytes, unfolded sample_bytes_def stored_Cons, folded sample_bytes_def,
    unfolded stored_Nil add_0_left one_add_one numeral_plus_one add_num_simps, unfolded One_nat_def]

lemma sample_blob_ok: "blob sample_mem 0 sample_tree"
  unfolding blob_def Let_def blob_struct_def fdt_understood_def sample_tree_def c_bytes_names
  by (simp add: be32_num sample_mem_bytes cstr_Cons cstr_Nil stored_Cons stored_Nil numeral_2_eq_2 [symmetric])
lemma sample_scan: "scannable dev_ok False an_default [] sample_tree"
  unfolding sample_tree_def by (simp add: dev_ok_def name_is_def c_bytes_names with_cells_def an_default_def be_word_def)

lemma sample_aes: "first_of 0 (dev_regs ''hd20,aes0'' 2 sample_tree) = 0x10100000"
  unfolding sample_tree_def
  by (simp add: first_of_def node_regs_def cells_of_def c_bytes_names be_nat_def head_string_def)

lemma sample_declared: "cells_declared sample_tree"
  unfolding sample_tree_def by (simp add: cells_of_def c_bytes_names be_nat_def)

theorem device_queries_find_witness:
  "blob sample_mem 0 sample_tree \<and> scannable dev_ok False an_default [] sample_tree \<and> cells_declared sample_tree \<and>
   (\<exists>m'. query_aes dev_zero 0 (sample_mem, 0) = Some (m', 0x10100000) \<and> blob m' 0 sample_tree)"
  using device_queries_find [of query_aes "''hd20,aes0''" sample_mem 0 sample_tree dev_zero 0]
    sample_blob_ok sample_scan sample_declared unfolding sample_aes by blast

section \<open>String lists\<close>

text \<open>The strings of a property value, and the position of one among them.\<close>

fun string_list :: "u8 list \<Rightarrow> u8 list list" where
  "string_list [] = []"
| "string_list (b # v) = head_string (b # v) # string_list (drop (length (head_string (b # v)) + 1) (b # v))"

fun position :: "'a \<Rightarrow> 'a list \<Rightarrow> int" where
  "position x [] = -1"
| "position x (y # ys) = (if y = x then 0 else if position x ys = -1 then -1 else position x ys + 1)"

definition terminated :: "u8 list \<Rightarrow> bool" where
  "terminated v \<longleftrightarrow> v = [] \<or> List.last v = 0"

lemma position_range: "-1 \<le> position x ys"
  by (induction ys) auto

lemma position_iff: "0 \<le> position x ys \<longleftrightarrow> x \<in> set ys"
proof (induction ys)
  case (Cons y ys)
  then show ?case using position_range [of x ys] by auto
qed simp

lemma head_string_drop: "v = xs @ 0 # r \<Longrightarrow> drop (length xs + 1) v = r"
  by simp

lemma head_string_last: "v = xs @ 0 # r \<Longrightarrow> r = [] \<or> List.last r = List.last v"
  by simp

lemma terminated_drop:
  assumes "terminated v" "v \<noteq> []"
  shows "0 \<in> set v" "terminated (drop (length (head_string v) + 1) v)"
proof -
  show z: "0 \<in> set v" using assms last_in_set [of v] by (auto simp: terminated_def)
  obtain r where r: "v = head_string v @ 0 # r" using head_string_split [OF z] by blast
  have "drop (length (head_string v) + 1) v = r" "r = [] \<or> List.last r = List.last v"
    by (rule head_string_drop [OF r], rule head_string_last [OF r])
  then show "terminated (drop (length (head_string v) + 1) v)"
    using assms by (auto simp: terminated_def)
qed

text \<open>What a C string literal denotes: its bytes up to a NUL.\<close>

definition c_key :: "string \<Rightarrow> u8 list" where
  "c_key s = head_string (c_bytes s)"

lemma str_is_key: "cstr m a xs \<Longrightarrow> str_is m a s \<longleftrightarrow> xs = c_key s"
proof -
  have "cstr m a xs \<Longrightarrow> strcmp_lit m a cs = 0 \<longleftrightarrow> xs = head_string cs" for cs
  proof (induction m a cs arbitrary: xs rule: strcmp_lit.induct)
    case (1 m a)
    then show ?case by (cases xs) (auto simp: cstr_Nil cstr_Cons unsigned_eq_0_iff head_string_def)
  next
    case (2 m a c cs)
    then show ?case
      by (cases xs) (auto simp: cstr_Nil cstr_Cons unsigned_eq_0_iff head_string_def word_eq_iff_unsigned [symmetric])
  qed
  then show "cstr m a xs \<Longrightarrow> str_is m a s \<longleftrightarrow> xs = c_key s" by (simp add: str_is_def c_key_def)
qed

lemma string_list_loop_position:
  assumes "stored m a v" "terminated v"
  shows "string_list_loop m str (int a + int (length v)) a k =
     Some (if position (c_key str) (string_list v) = -1 then -1 else k + position (c_key str) (string_list v))"
  using assms
proof (induction v arbitrary: a k rule: string_list.induct)
  case 1
  show ?case by (subst string_list_loop.simps) simp
next
  case (2 b v)
  let ?v = "b # v" and ?h = "head_string (b # v)"
  let ?r = "drop (length ?h + 1) ?v"
  note t = terminated_drop [OF "2.prems"(2)]
  obtain r where r: "?v = ?h @ 0 # r" using head_string_split [OF t(1)] by blast
  have rr: "?r = r" by (rule head_string_drop [OF r])
  have c: "cstr m a ?h" using "2.prems"(1) t(1) by (intro stored_cstr) simp_all
  have "stored m (a + length ?h + 1) ?r"
    using "2.prems"(1) unfolding rr by (subst (asm) r) (simp only: stored_append stored_Cons)
  moreover have "int (a + length ?h + 1) + int (length ?r) = int a + int (length ?v)"
    unfolding rr using arg_cong [OF r, of length] by simp
  ultimately have IH: "string_list_loop m str (int a + int (length ?v)) (a + length ?h + 1) (k + 1) =
      Some (if position (c_key str) (string_list ?r) = -1 then -1 else k + 1 + position (c_key str) (string_list ?r))"
    using "2.IH" [of "a + length ?h + 1" "k + 1"] t(2) by (simp only: simp_thms list.distinct)
  have "str_is m a str \<longleftrightarrow> ?h = c_key str" using c by (rule str_is_key)
  moreover have "strlen m a = Some (length ?h)" using c by (rule strlen_cstr)
  moreover have "string_list ?v = ?h # string_list ?r" by (rule string_list.simps)
  ultimately show ?case
    using IH position_range [of "c_key str" "string_list ?r"]
    by (subst string_list_loop.simps) (auto simp del: string_list.simps drop_Suc_Cons)
qed

lemma string_list_index:
  assumes "prop_rel m p nm v" "terminated v"
  shows "fdt_string_list_index m p str = Some (position (c_key str) (string_list v))"
  using string_list_loop_position [of m "prop_value p" v str 0] assms
  by (simp add: fdt_string_list_index_def prop_rel_def sint_small)

text \<open>
  On a property whose value is a sequence of NUL-terminated strings, \<open>fdt_string_list_index\<close>
  returns, and its result is the position of the first of these strings that equals the argument,
  and -1 when none does.
\<close>

theorem fdt_string_list_index_position:
  assumes "stored m (prop_value p) v" "prop_len p = of_nat (length v)" "length v < 2 ^ 31" "terminated v"
  shows "fdt_string_list_index m p str = Some (position (c_key str) (string_list v))"
  using string_list_loop_position [of m "prop_value p" v str 0] assms
  by (simp add: fdt_string_list_index_def sint_small)

theorem fdt_string_list_index_position_witness:
  "fdt_string_list_index (mem_of [97, 0, 98, 99, 0]) \<lparr>prop_name = 0, prop_value = 0, prop_len = 5\<rparr> ''bc'' = Some 1"
proof -
  have "fdt_string_list_index (mem_of [97, 0, 98, 99, 0]) \<lparr>prop_name = 0, prop_value = 0, prop_len = 5\<rparr> ''bc'' =
      Some (position (c_key ''bc'') (string_list [97, 0, 98, 99, 0]))"
    by (rule fdt_string_list_index_position) (simp_all add: stored_mem_of terminated_def)
  also have "position (c_key ''bc'') (string_list [97, 0, 98, 99, 0]) = 1"
    by (simp add: c_key_def c_bytes_def head_string_def)
  finally show ?thesis .
qed

section \<open>Deleting compatible nodes\<close>

definition compat_ok :: "anode list \<Rightarrow> u8 list \<Rightarrow> u8 list \<Rightarrow> bool" where
  "compat_ok ns nm v \<longleftrightarrow> (name_is ''compatible'' nm \<longrightarrow> terminated v)"

definition lists_compat :: "u8 list \<Rightarrow> u8 list \<Rightarrow> u8 list \<Rightarrow> bool" where
  "lists_compat key nm v \<longleftrightarrow> name_is ''compatible'' nm \<and> key \<in> set (string_list v)"

definition compat_walk :: "compat_scan scan" where
  "compat_walk =
     \<lparr>on_open = (\<lambda>ns s. s\<lparr>co_depth := co_depth s + 1\<rparr>),
      on_prop = (\<lambda>ns nm v s. if lists_compat (c_key (co_compat s)) nm v \<and> co_depth s < co_kill s
                            then s\<lparr>co_kill := co_depth s\<rparr> else s),
      on_done = (\<lambda>ns s. s),
      on_close = (\<lambda>ns s. if co_kill s = co_depth s then (True, s\<lparr>co_depth := co_depth s - 1, co_kill := 999\<rparr>)
                        else (False, s\<lparr>co_depth := co_depth s - 1\<rparr>))\<rparr>"

interpretation compat_scan: fdt_client
  "\<lparr>cb_open = Some compat_open, cb_prop = compat_prop, cb_done = None, cb_close = Some compat_close\<rparr>" compat_walk compat_ok
proof
  fix m :: bmem and nodes ns p nm v and s :: compat_scan
  assume p: "prop_rel m p nm v" and ok: "compat_ok ns nm v"
  have "str_is m (prop_name p) ''compatible'' \<longleftrightarrow> name_is ''compatible'' nm"
    using p by (auto simp: prop_rel_def intro!: str_is_cstr)
  then have "listed m p str = Some (lists_compat (c_key str) nm v)" for str
    using string_list_index [OF p, of str] ok by (simp add: listed_def lists_compat_def compat_ok_def position_iff)
  then show "cb_prop \<lparr>cb_open = Some compat_open, cb_prop = compat_prop, cb_done = None, cb_close = Some compat_close\<rparr> nodes p (m, s) =
      Some (m, on_prop compat_walk ns nm v s)"
    by (simp add: compat_prop_def compat_walk_def)
qed (simp_all add: call_open_def call_done_def call_close_def compat_open_def compat_close_def compat_walk_def Let_def)

fun height :: "item list \<Rightarrow> nat" where
  "height [] = 0"
| "height (Node nm its # r) = max (Suc (height its)) (height r)"
| "height (_ # r) = height r"

text \<open>A node is compatible when a property of its own says so; deleting it leaves NOPs of its size.\<close>

fun compatible_items :: "u8 list \<Rightarrow> item list \<Rightarrow> bool" where
  "compatible_items key [] \<longleftrightarrow> False"
| "compatible_items key (Prop off nm v # r) \<longleftrightarrow> lists_compat key nm v \<or> compatible_items key r"
| "compatible_items key (_ # r) \<longleftrightarrow> compatible_items key r"

fun prune :: "u8 list \<Rightarrow> item list \<Rightarrow> item list" where
  "prune key [] = []"
| "prune key (Node nm its # r) =
     (if compatible_items key its then replicate (words [Node nm its]) Nop else [Node nm (prune key its)]) @ prune key r"
| "prune key (i # r) = i # prune key r"

lemma compat_walk_marked:
  "co_kill s \<le> co_depth s \<Longrightarrow> snd (walk compat_walk seen ch ns its s) = s"
proof (induction its arbitrary: seen ch ns s rule: words.induct)
  case (4 nm its r)
  let ?s = "s\<lparr>co_depth := co_depth s + 1\<rparr>"
  have "snd (walk compat_walk False an_default (ch\<lparr>an_name := nm\<rparr> # ns) its ?s) = ?s"
    using "4.prems" by (intro "4.IH"(1)) simp
  then show ?case
    using "4.IH"(2) [of s] "4.prems"
    by (auto simp: case_prod_unfold Let_def compat_walk_def finish_def)
qed (auto simp: case_prod_unfold Let_def compat_walk_def finish_def)

lemma compat_walk_prunes:
  assumes "co_kill s = 999" "0 \<le> co_depth s" "co_depth s + int (height its) < 999"
  shows "(\<not> compatible_items (c_key (co_compat s)) its \<longrightarrow> walk compat_walk seen ch ns its s = (prune (c_key (co_compat s)) its, s)) \<and>
    (compatible_items (c_key (co_compat s)) its \<longrightarrow> snd (walk compat_walk seen ch ns its s) = s\<lparr>co_kill := co_depth s\<rparr>)"
  using assms
proof (induction its arbitrary: seen ch ns s rule: words.induct)
  case (3 off nm v r)
  show ?case
  proof (cases "lists_compat (c_key (co_compat s)) nm v")
    case True
    with 3 compat_walk_marked [of "s\<lparr>co_kill := co_depth s\<rparr>" seen ch "with_cells nm v ns" r] show ?thesis
      by (simp add: case_prod_unfold Let_def compat_walk_def)
  next
    case False
    have "on_prop compat_walk (with_cells nm v ns) nm v s = s"
      using False by (simp add: compat_walk_def)
    with False 3 show ?thesis by (simp add: case_prod_unfold Let_def)
  qed
next
  case (4 nm its r)
  let ?s = "s\<lparr>co_depth := co_depth s + 1\<rparr>" and ?key = "c_key (co_compat s)"
  let ?w = "walk compat_walk False an_default (ch\<lparr>an_name := nm\<rparr> # ns) its ?s"
  have o: "on_open compat_walk (ch\<lparr>an_name := nm\<rparr> # ns) (finish compat_walk seen ns s) = ?s"
    by (simp add: compat_walk_def finish_def)
  have inner: "(\<not> compatible_items ?key its \<longrightarrow> ?w = (prune ?key its, ?s)) \<and>
      (compatible_items ?key its \<longrightarrow> snd ?w = ?s\<lparr>co_kill := co_depth ?s\<rparr>)"
    using "4.prems" "4.IH"(1) [of ?s False an_default "ch\<lparr>an_name := nm\<rparr> # ns"] by simp
  then have cl: "on_close compat_walk (own_cells its (ch\<lparr>an_name := nm\<rparr> # ns)) (snd ?w) = (compatible_items ?key its, s)"
    using "4.prems" by (cases "compatible_items ?key its") (simp_all add: compat_walk_def)
  show ?case
    using "4.prems" "4.IH"(2) [of s True "hd (own_cells its (ch\<lparr>an_name := nm\<rparr> # ns))" ns] inner
    by (auto simp: case_prod_unfold Let_def o cl)
qed (simp_all add: case_prod_unfold Let_def compat_walk_def finish_def)

fun any_compatible :: "u8 list \<Rightarrow> item list \<Rightarrow> bool" where
  "any_compatible key [] \<longleftrightarrow> False"
| "any_compatible key (Node nm its # r) \<longleftrightarrow> compatible_items key its \<or> any_compatible key its \<or> any_compatible key r"
| "any_compatible key (_ # r) \<longleftrightarrow> any_compatible key r"

lemma compatible_items_append: "compatible_items key (xs @ ys) \<longleftrightarrow> compatible_items key xs \<or> compatible_items key ys"
  by (induction xs rule: words.induct) auto

lemma any_compatible_append: "any_compatible key (xs @ ys) \<longleftrightarrow> any_compatible key xs \<or> any_compatible key ys"
  by (induction xs rule: words.induct) auto

lemma nops_compatible: "\<not> compatible_items key (replicate k Nop)" "\<not> any_compatible key (replicate k Nop)"
  by (induction k) auto

lemma compatible_items_prune: "compatible_items key (prune key its) \<longleftrightarrow> compatible_items key its"
  by (induction its rule: words.induct) (auto simp: compatible_items_append nops_compatible)

lemma any_compatible_prune: "\<not> any_compatible key (prune key its)"
  by (induction its rule: words.induct)
    (auto simp: any_compatible_append nops_compatible compatible_items_prune simp del: replicate_Suc)

text \<open>
  C9. \<open>filter_compat\<close> deletes from a blob exactly the nodes whose \<open>compatible\<close> property lists the given
  string, with their children: it returns, the structure block then holds the same tree with those
  nodes overwritten by NOP tokens, no compatible node is left in it, and no byte outside the
  structure block changes.
\<close>

theorem filter_compat_prunes:
  assumes "blob m fdt its" "scannable compat_ok False an_default [] its"
    and "\<not> compatible_items (c_key str) its" "height its < 999"
  shows "\<exists>m'. filter_compat fdt str m = Some m' \<and> blob m' fdt (prune (c_key str) its) \<and>
    \<not> any_compatible (c_key str) (prune (c_key str) its) \<and>
    (\<forall>x. x < blob_struct m fdt \<or> blob_struct m fdt + 4 * words its \<le> x \<longrightarrow> m' x = m x)"
proof -
  let ?s = "\<lparr>co_compat = str, co_depth = 0, co_kill = 999\<rparr>"
  have "walk compat_walk False an_default [] its ?s = (prune (c_key str) its, ?s)"
    using compat_walk_prunes [of ?s its False an_default "[]"] assms(3,4) by simp
  with compat_scan.fdt_scan_walk [OF assms(1,2), of ?s] show ?thesis
    by (auto simp: filter_compat_def any_compatible_prune)
qed

lemma sample_compat_scan: "scannable compat_ok False an_default [] sample_tree"
  unfolding sample_tree_def by (simp add: compat_ok_def terminated_def name_is_def c_bytes_names with_cells_def)

lemma sample_compatible: "\<not> compatible_items (c_key ''hd20,aes0'') sample_tree" "height sample_tree < 999"
  unfolding sample_tree_def by simp_all

lemma sample_pruned: "prune (c_key ''hd20,aes0'') sample_tree =
    [Node [] (Prop 0 (c_bytes ''#address-cells'') [0, 0, 0, 1] # replicate 14 Nop)]"
  unfolding sample_tree_def
  by (simp add: lists_compat_def c_key_def c_bytes_names name_is_def head_string_def)

theorem filter_compat_prunes_witness:
  "blob sample_mem 0 sample_tree \<and> scannable compat_ok False an_default [] sample_tree \<and>
   (\<exists>m'. filter_compat 0 ''hd20,aes0'' sample_mem = Some m' \<and>
     blob m' 0 [Node [] (Prop 0 (c_bytes ''#address-cells'') [0, 0, 0, 1] # replicate 14 Nop)])"
  using filter_compat_prunes [OF sample_blob_ok sample_compat_scan sample_compatible]
    sample_blob_ok sample_compat_scan unfolding sample_pruned by blast

end
