(* ===== verification/Snprintf.thy ===== *)
theory Snprintf
  imports Cstring
begin

text \<open>
  Formatted output (\<open>pk/util/snprintf.c\<close>). The buffer is a function from offsets to characters,
  the variable arguments a list; a directive that finds no argument of its kind, or whose
  negation overflows, has no defined behaviour (\<open>None\<close>). The reference \<open>render\<close> produces the whole
  text as a list; the routine is shown to deliver the part of it that fits, never to touch the
  buffer beyond its size, and to return the full length.
\<close>

section \<open>Model\<close>

datatype va_arg = VWord u64 | VStr string

record vst =
  vpos :: nat
  vout :: "nat \<Rightarrow> char"
  vformat :: bool
  vlong :: bool
  vlonglong :: bool

text \<open>\<open>if (++pos < n) out[pos-1] = c\<close>\<close>

definition emit :: "nat \<Rightarrow> char \<Rightarrow> vst \<Rightarrow> vst" where
  "emit n c st = (let p = vpos st + 1
     in st\<lparr>vpos := p, vout := (if p < n then (vout st)(p - 1 := c) else vout st)\<rparr>)"

definition hex_digit :: "nat \<Rightarrow> char" where
  "hex_digit d = char_of (if d < 10 then 48 + d else 97 + d - 10)"

text \<open>The digit loop of \<open>%x\<close>, for digit indices \<open>k-1\<close> down to 0.\<close>

fun hex_loop :: "nat \<Rightarrow> nat \<Rightarrow> u64 \<Rightarrow> vst \<Rightarrow> vst" where
  "hex_loop n 0 num st = st"
| "hex_loop n (Suc k) num st =
     hex_loop n k num (emit n (hex_digit (unat (drop_bit (4 * k) num AND 0xF))) st)"

fun count_digits :: "nat \<Rightarrow> nat" where
  "count_digits nn = (if nn div 10 = 0 then 1 else Suc (count_digits (nn div 10)))"

definition dec_digit :: "nat \<Rightarrow> char" where
  "dec_digit d = char_of (48 + d)"

text \<open>The digit loop of \<open>%d\<close>, for digit indices \<open>k-1\<close> down to 0.\<close>

fun dec_loop :: "nat \<Rightarrow> nat \<Rightarrow> nat \<Rightarrow> nat \<Rightarrow> (nat \<Rightarrow> char) \<Rightarrow> (nat \<Rightarrow> char)" where
  "dec_loop n pos 0 num out = out"
| "dec_loop n pos (Suc i) num out =
     dec_loop n pos i (num div 10)
       (if pos + i + 1 < n then out(pos + i := dec_digit (num mod 10)) else out)"

fun str_loop :: "nat \<Rightarrow> string \<Rightarrow> vst \<Rightarrow> vst" where
  "str_loop n [] st = st"
| "str_loop n (c # s) st = str_loop n s (emit n c st)"

text \<open>\<open>va_arg(vl, int)\<close> reads the low half of a slot, sign-extended.\<close>

definition int_arg :: "u64 \<Rightarrow> u64" where
  "int_arg w = scast (ucast w :: u32)"

definition fmt_x :: "nat \<Rightarrow> va_arg list \<Rightarrow> vst \<Rightarrow> (va_arg list \<times> vst) option" where
  "fmt_x n vl st =
     (case vl of
        VWord w # vl \<Rightarrow>
          let num = (if vlong st then w else int_arg w);
              st = hex_loop n (2 * (if vlong st then 8 else 4)) num st
          in Some (vl, st\<lparr>vlong := False, vformat := False\<rparr>)
      | _ \<Rightarrow> None)"

definition fmt_d :: "nat \<Rightarrow> va_arg list \<Rightarrow> vst \<Rightarrow> (va_arg list \<times> vst) option" where
  "fmt_d n vl st =
     (case vl of
        VWord w # vl \<Rightarrow>
          let num = sint (if vlong st \<or> vlonglong st then w else int_arg w)
          in if num = - (2 ^ 63) then None
             else let st = (if num < 0 then emit n CHR ''-'' st else st);
                      num = nat \<bar>num\<bar>;
                      digits = count_digits num;
                      out = dec_loop n (vpos st) digits num (vout st)
                  in Some (vl, st\<lparr>vout := out, vpos := vpos st + digits, vlong := False,
                                  vlonglong := False, vformat := False\<rparr>)
      | _ \<Rightarrow> None)"

definition fmt_s :: "nat \<Rightarrow> va_arg list \<Rightarrow> vst \<Rightarrow> (va_arg list \<times> vst) option" where
  "fmt_s n vl st =
     (case vl of VStr s2 # vl \<Rightarrow> Some (vl, (str_loop n s2 st)\<lparr>vlong := False, vformat := False\<rparr>)
      | _ \<Rightarrow> None)"

text \<open>\<open>if (++pos < n) out[pos-1] = (char)va_arg(vl,int)\<close>: a character that does not fit takes no argument.\<close>

definition fmt_c :: "nat \<Rightarrow> va_arg list \<Rightarrow> vst \<Rightarrow> (va_arg list \<times> vst) option" where
  "fmt_c n vl st =
     (if vpos st + 1 < n
      then case vl of
             VWord w # vl \<Rightarrow>
               Some (vl, (emit n (char_of (unat (ucast w :: u8))) st)\<lparr>vlong := False, vformat := False\<rparr>)
           | _ \<Rightarrow> None
      else Some (vl, st\<lparr>vpos := vpos st + 1, vlong := False, vformat := False\<rparr>))"

fun vsn_loop :: "nat \<Rightarrow> string \<Rightarrow> va_arg list \<Rightarrow> vst \<Rightarrow> vst option" where
  "vsn_loop n [] vl st = Some st"
| "vsn_loop n (c # s) vl st =
     (if vformat st
      then if c = CHR ''l''
           then if s \<noteq> [] \<and> hd s = CHR ''l'' then vsn_loop n (tl s) vl (st\<lparr>vlonglong := True\<rparr>)
                else vsn_loop n s vl (st\<lparr>vlong := True\<rparr>)
           else let r = (if c = CHR ''p''
                         then fmt_x n vl (emit n CHR ''x'' (emit n CHR ''0'' (st\<lparr>vlong := True\<rparr>)))
                         else if c = CHR ''x'' then fmt_x n vl st
                         else if c = CHR ''d'' then fmt_d n vl st
                         else if c = CHR ''s'' then fmt_s n vl st
                         else if c = CHR ''c'' then fmt_c n vl st
                         else Some (vl, st))
                in (case r of None \<Rightarrow> None | Some (vl, st) \<Rightarrow> vsn_loop n s vl st)
      else if c = CHR ''%'' then vsn_loop n s vl (st\<lparr>vformat := True\<rparr>)
      else vsn_loop n s vl (emit n c st))"

text \<open>The result is an \<open>int\<close>, to which the position is converted.\<close>

definition vsnprintf :: "(nat \<Rightarrow> char) \<Rightarrow> nat \<Rightarrow> string \<Rightarrow> va_arg list \<Rightarrow> ((nat \<Rightarrow> char) \<times> u32) option" where
  "vsnprintf out n s vl =
     (case vsn_loop n s vl \<lparr>vpos = 0, vout = out, vformat = False, vlong = False, vlonglong = False\<rparr> of
        None \<Rightarrow> None
      | Some st \<Rightarrow>
          let out = (if vpos st < n then (vout st)(vpos st := char_of (0 :: nat))
                     else if n \<noteq> 0 then (vout st)(n - 1 := char_of (0 :: nat)) else vout st)
          in Some (out, of_nat (vpos st)))"

definition snprintf :: "(nat \<Rightarrow> char) \<Rightarrow> nat \<Rightarrow> string \<Rightarrow> va_arg list \<Rightarrow> ((nat \<Rightarrow> char) \<times> u32) option" where
  "snprintf out n s vl = vsnprintf out n s vl"

section \<open>Reference\<close>

text \<open>The text a format and its arguments denote.\<close>

fun decimal :: "nat \<Rightarrow> string" where
  "decimal num = (if num < 10 then [dec_digit num] else decimal (num div 10) @ [dec_digit (num mod 10)])"

definition hexadecimal :: "nat \<Rightarrow> u64 \<Rightarrow> string" where
  "hexadecimal k num = map (\<lambda>i. hex_digit (unat (drop_bit (4 * i) num AND 0xF))) (rev [0..<k])"

definition show_int :: "int \<Rightarrow> string" where
  "show_int x = (if x < 0 then CHR ''-'' # decimal (nat (- x)) else decimal (nat x))"

text \<open>
  \<open>room\<close> is how many characters still fit. It matters for \<open>%c\<close> alone: the routine takes the argument of a \<open>%c\<close> only when
  the character fits, so that the directives behind it, which no longer show but count for the length, find it; a
  question mark stands for the character that is not shown. Flags: inside a directive, \<open>l\<close> seen, \<open>ll\<close> seen. The routine
  resets \<open>ll\<close> only at \<open>%d\<close>, and \<open>%x\<close> does not look at it.
\<close>

fun render :: "nat \<Rightarrow> bool \<times> bool \<times> bool \<Rightarrow> string \<Rightarrow> va_arg list \<Rightarrow> string option" where
  "render room fl [] vl = Some []"
| "render room (f, l, ll) (c # s) vl =
     (if \<not> f then if c = CHR ''%'' then render room (True, l, ll) s vl
                 else map_option (Cons c) (render (room - 1) (False, l, ll) s vl)
      else if c = CHR ''l''
      then if s \<noteq> [] \<and> hd s = CHR ''l'' then render room (True, l, True) (tl s) vl else render room (True, True, ll) s vl
      else if c \<in> {CHR ''p'', CHR ''x''}
      then case vl of
             VWord w # vl \<Rightarrow>
               let long = (l \<or> c = CHR ''p'');
                   t = (if c = CHR ''p'' then ''0x'' else '''') @
                       hexadecimal (if long then 16 else 8) (if long then w else int_arg w)
               in map_option (append t) (render (room - length t) (False, False, ll) s vl)
           | _ \<Rightarrow> None
      else if c = CHR ''d''
      then case vl of
             VWord w # vl \<Rightarrow>
               let num = sint (if l \<or> ll then w else int_arg w)
               in if num = - (2 ^ 63) then None
                  else map_option (append (show_int num)) (render (room - length (show_int num)) (False, False, False) s vl)
           | _ \<Rightarrow> None
      else if c = CHR ''s''
      then case vl of
             VStr t # vl \<Rightarrow> map_option (append t) (render (room - length t) (False, False, ll) s vl)
           | _ \<Rightarrow> None
      else if c = CHR ''c''
      then if room = 0 then map_option (Cons (CHR ''?'')) (render 0 (False, False, ll) s vl)
           else case vl of
             VWord w # vl \<Rightarrow> map_option (Cons (char_of (unat (ucast w :: u8)))) (render (room - 1) (False, False, ll) s vl)
           | _ \<Rightarrow> None
      else render room (True, l, ll) s vl)"

section \<open>Refinement\<close>

text \<open>The state after the text \<open>acc\<close> has been produced into a buffer of \<open>n\<close> characters.\<close>

definition delivered :: "nat \<Rightarrow> (nat \<Rightarrow> char) \<Rightarrow> string \<Rightarrow> vst \<Rightarrow> bool" where
  "delivered n out0 acc st \<longleftrightarrow> vpos st = length acc \<and>
     vout st = (\<lambda>i. if i < length acc \<and> i + 1 < n then acc ! i else out0 i)"

definition flags :: "vst \<Rightarrow> bool \<times> bool \<times> bool" where
  "flags st = (vformat st, vlong st, vlonglong st)"

lemma delivered_emit: "delivered n out0 acc st \<Longrightarrow> delivered n out0 (acc @ [c]) (emit n c st)"
  by (auto simp: delivered_def emit_def Let_def fun_eq_iff nth_append less_Suc_eq)

lemma emit_flags [simp]:
  "vformat (emit n c st) = vformat st" "vlong (emit n c st) = vlong st"
  "vlonglong (emit n c st) = vlonglong st"
  by (simp_all add: emit_def Let_def)

lemma delivered_flags [simp]:
  "delivered n out0 acc (st\<lparr>vformat := f\<rparr>) = delivered n out0 acc st"
  "delivered n out0 acc (st\<lparr>vlong := f\<rparr>) = delivered n out0 acc st"
  "delivered n out0 acc (st\<lparr>vlonglong := f\<rparr>) = delivered n out0 acc st"
  by (simp_all add: delivered_def)

lemma hex_loop_flags [simp]:
  "vformat (hex_loop n k num st) = vformat st" "vlong (hex_loop n k num st) = vlong st"
  "vlonglong (hex_loop n k num st) = vlonglong st"
  by (induction k arbitrary: st) simp_all

lemma hexadecimal_Suc:
  "hexadecimal (Suc k) num = hex_digit (unat (drop_bit (4 * k) num AND 0xF)) # hexadecimal k num"
  by (simp add: hexadecimal_def)

lemma delivered_hex:
  "delivered n out0 acc st \<Longrightarrow> delivered n out0 (acc @ hexadecimal k num) (hex_loop n k num st)"
proof (induction k arbitrary: acc st)
  case 0
  then show ?case by (simp add: hexadecimal_def)
next
  case (Suc k)
  from Suc.IH [OF delivered_emit [OF Suc.prems]] show ?case by (simp add: hexadecimal_Suc)
qed

lemma str_loop_flags [simp]:
  "vformat (str_loop n s st) = vformat st" "vlong (str_loop n s st) = vlong st"
  "vlonglong (str_loop n s st) = vlonglong st"
  by (induction s arbitrary: st) simp_all

lemma delivered_str: "delivered n out0 acc st \<Longrightarrow> delivered n out0 (acc @ s) (str_loop n s st)"
proof (induction s arbitrary: acc st)
  case (Cons c s)
  from Cons.IH [OF delivered_emit [OF Cons.prems]] show ?case by simp
qed simp

declare count_digits.simps [simp del] decimal.simps [simp del]

lemma length_decimal: "length (decimal num) = count_digits num"
proof (induction num rule: decimal.induct)
  case (1 num)
  then show ?case
    by (subst decimal.simps, subst count_digits.simps) (auto simp: div_eq_0_iff)
qed

lemma dec_loop_decimal:
  "dec_loop n pos (count_digits num) num out =
     (\<lambda>i. if pos \<le> i \<and> i < pos + count_digits num \<and> i + 1 < n then decimal num ! (i - pos) else out i)"
proof (induction num arbitrary: out rule: decimal.induct)
  case (1 num)
  show ?case
  proof (cases "num < 10")
    case True
    then have "count_digits num = 1" "decimal num = [dec_digit num]"
      by (simp_all add: count_digits.simps decimal.simps)
    then show ?thesis using True by (auto simp: fun_eq_iff)
  next
    case False
    define k where "k = count_digits (num div 10)"
    have c: "count_digits num = Suc k" using False
      by (subst count_digits.simps) (simp add: k_def div_eq_0_iff)
    have d: "decimal num = decimal (num div 10) @ [dec_digit (num mod 10)]"
      using False by (subst decimal.simps) simp
    have len: "length (decimal (num div 10)) = k" by (simp add: k_def length_decimal)
    show ?thesis
      unfolding c using 1 [OF False, folded k_def]
      by (auto simp: fun_eq_iff d nth_append len)
  qed
qed

lemma delivered_dec:
  assumes "delivered n out0 acc st"
  shows "delivered n out0 (acc @ decimal num)
    (st\<lparr>vout := dec_loop n (vpos st) (count_digits num) num (vout st), vpos := vpos st + count_digits num\<rparr>)"
  using assms
  by (auto simp: delivered_def dec_loop_decimal length_decimal fun_eq_iff nth_append)

text \<open>What one directive does: it consumes arguments and appends their text.\<close>

lemma fmt_x_delivered:
  assumes "delivered n out0 acc st"
  shows "case vl of
      VWord w # vl' \<Rightarrow> \<exists>st'. fmt_x n vl st = Some (vl', st') \<and>
        delivered n out0 (acc @ hexadecimal (if vlong st then 16 else 8) (if vlong st then w else int_arg w)) st' \<and>
        flags st' = (False, False, vlonglong st)
    | _ \<Rightarrow> fmt_x n vl st = None"
  using delivered_hex [OF assms]
  by (auto simp: fmt_x_def flags_def split: list.split va_arg.split)

lemma fmt_d_delivered:
  assumes "delivered n out0 acc st"
  shows "case vl of
      VWord w # vl' \<Rightarrow>
        (let num = sint (if vlong st \<or> vlonglong st then w else int_arg w)
         in if num = - (2 ^ 63) then fmt_d n vl st = None
            else \<exists>st'. fmt_d n vl st = Some (vl', st') \<and> delivered n out0 (acc @ show_int num) st' \<and>
              flags st' = (False, False, False))
    | _ \<Rightarrow> fmt_d n vl st = None"
proof (cases vl)
  case (Cons a vl')
  show ?thesis
  proof (cases a)
    case (VWord w)
    define num where "num = sint (if vlong st \<or> vlonglong st then w else int_arg w)"
    let ?st = "if num < 0 then emit n CHR ''-'' st else st"
    let ?acc = "if num < 0 then acc @ ''-'' else acc"
    have "delivered n out0 ?acc ?st" using delivered_emit [OF assms] assms by simp
    from delivered_dec [OF this, of "nat \<bar>num\<bar>"]
    have "delivered n out0 (acc @ show_int num) (?st\<lparr>vout := dec_loop n (vpos ?st)
        (count_digits (nat \<bar>num\<bar>)) (nat \<bar>num\<bar>) (vout ?st), vpos := vpos ?st + count_digits (nat \<bar>num\<bar>)\<rparr>)"
      by (auto simp: show_int_def split: if_splits)
    then show ?thesis
      by (auto simp: fmt_d_def flags_def Let_def Cons VWord num_def [symmetric] delivered_def)
  qed (simp add: fmt_d_def Cons)
qed (simp add: fmt_d_def)

lemma fmt_s_delivered:
  assumes "delivered n out0 acc st"
  shows "case vl of
      VStr t # vl' \<Rightarrow> \<exists>st'. fmt_s n vl st = Some (vl', st') \<and> delivered n out0 (acc @ t) st' \<and>
        flags st' = (False, False, vlonglong st)
    | _ \<Rightarrow> fmt_s n vl st = None"
  using delivered_str [OF assms]
  by (auto simp: fmt_s_def flags_def split: list.split va_arg.split)

lemma fmt_c_delivered:
  assumes "delivered n out0 acc st"
  shows "if n - 1 - length acc = 0
    then \<exists>st'. fmt_c n vl st = Some (vl, st') \<and> delivered n out0 (acc @ ''?'') st' \<and> flags st' = (False, False, vlonglong st)
    else case vl of
      VWord w # vl' \<Rightarrow> \<exists>st'. fmt_c n vl st = Some (vl', st') \<and>
        delivered n out0 (acc @ [char_of (unat (ucast w :: u8))]) st' \<and>
        flags st' = (False, False, vlonglong st)
    | _ \<Rightarrow> fmt_c n vl st = None"
proof (cases "length acc + 1 < n")
  case True
  with delivered_emit [OF assms] assms show ?thesis
    by (auto simp: fmt_c_def flags_def delivered_def [of n out0 acc st] split: list.split va_arg.split)
next
  case False
  with assms show ?thesis by (auto simp: fmt_c_def flags_def delivered_def nth_append fun_eq_iff)
qed

text \<open>The loop delivers the rendered text, and is undefined exactly where rendering is.\<close>

definition outcome :: "nat \<Rightarrow> (nat \<Rightarrow> char) \<Rightarrow> string \<Rightarrow> string option \<Rightarrow> vst option \<Rightarrow> bool" where
  "outcome n out0 acc r v = (case r of None \<Rightarrow> v = None
     | Some t \<Rightarrow> \<exists>st. v = Some st \<and> delivered n out0 (acc @ t) st)"

lemma outcome_append:
  "outcome n out0 (acc @ t) r v \<Longrightarrow> outcome n out0 acc (map_option (append t) r) v"
  "outcome n out0 (acc @ [c]) r v \<Longrightarrow> outcome n out0 acc (map_option (Cons c) r) v"
  by (auto simp: outcome_def split: option.splits)

lemma vsn_loop_outcome:
  "delivered n out0 acc st \<Longrightarrow> outcome n out0 acc (render (n - 1 - length acc) (flags st) s vl) (vsn_loop n s vl st)"
proof (induction "length s" arbitrary: s vl st acc rule: less_induct)
  case less
  show ?case
  proof (cases s)
    case Nil
    with less.prems show ?thesis by (simp add: outcome_def)
  next
    case (Cons c s')
    have IH: "delivered n out0 acc' st' \<Longrightarrow> flags st' = fl \<Longrightarrow> room = n - 1 - length acc' \<Longrightarrow>
        outcome n out0 acc' (render room fl s' vl') (vsn_loop n s' vl' st')" for acc' st' fl vl' room
      using less.hyps [of s' acc' st' vl'] Cons by auto
    have IH2: "delivered n out0 acc' st' \<Longrightarrow> flags st' = fl \<Longrightarrow> room = n - 1 - length acc' \<Longrightarrow>
        outcome n out0 acc' (render room fl (tl s') vl') (vsn_loop n (tl s') vl' st')" for acc' st' fl vl' room
      using less.hyps [of "tl s'" acc' st' vl'] Cons by (cases s') auto
    show ?thesis
    proof (cases "vformat st")
      case False
      then show ?thesis using less.prems Cons
        by (auto simp: flags_def intro!: IH outcome_append(2) delivered_emit)
    next
      case True
      note f = this
      consider "c = CHR ''l''" | "c = CHR ''p''" | "c = CHR ''x''" | "c = CHR ''d''" | "c = CHR ''s''"
        | "c = CHR ''c''" | "c \<notin> {CHR ''l'', CHR ''p'', CHR ''x'', CHR ''d'', CHR ''s'', CHR ''c''}"
        by blast
      then show ?thesis
      proof cases
        case 1
        then show ?thesis using less.prems Cons f
          by (auto simp: flags_def outcome_def [where r = "Some []"] intro!: IH IH2)
      next
        case 2
        have "delivered n out0 (acc @ ''0x'') (emit n CHR ''x'' (emit n CHR ''0'' (st\<lparr>vlong := True\<rparr>)))"
          using delivered_emit [OF delivered_emit, of n out0 acc "st\<lparr>vlong := True\<rparr>"] less.prems by simp
        from fmt_x_delivered [OF this, of vl] show ?thesis using Cons f 2
          by (auto simp: flags_def outcome_def [where v = None] Let_def intro!: IH outcome_append
              split: list.split va_arg.split)
      next
        case 3
        from fmt_x_delivered [OF less.prems, of vl] show ?thesis using Cons f 3
          by (auto simp: flags_def outcome_def [where v = None] Let_def intro!: IH outcome_append
              split: list.split va_arg.split)
      next
        case 4
        from fmt_d_delivered [OF less.prems, of vl] show ?thesis using Cons f 4
          by (auto simp: flags_def outcome_def [where v = None] Let_def intro!: IH outcome_append
              split: list.split va_arg.split if_splits)
            (auto simp: outcome_def split: option.split)
      next
        case 5
        from fmt_s_delivered [OF less.prems, of vl] show ?thesis using Cons f 5
          by (auto simp: flags_def outcome_def [where v = None] Let_def intro!: IH outcome_append
              split: list.split va_arg.split)
      next
        case 6
        from fmt_c_delivered [OF less.prems, of vl] show ?thesis using Cons f 6
          by (auto simp: flags_def outcome_def [where v = None] Let_def intro!: IH outcome_append
              split: list.split va_arg.split)
      next
        case 7
        then show ?thesis using less.prems Cons f by (auto simp: flags_def intro!: IH)
      qed
    qed
  qed
qed

text \<open>
  C7. \<open>vsnprintf\<close> produces the text the format denotes, cut to the buffer: the first \<open>n - 1\<close>
  characters of it, then a NUL right after the part that was written, and no character at or
  beyond offset \<open>n\<close> is touched; it returns the length of the whole text as an \<open>int\<close>. It has no defined
  behaviour exactly when rendering the format has none. (A \<open>%c\<close> whose character no longer fits takes no argument, so that
  the length of what follows it, which is not shown, comes from other arguments than those meant.)
\<close>

theorem vsnprintf_renders:
  "case render (n - 1) (False, False, False) s vl of
     None \<Rightarrow> vsnprintf out n s vl = None
   | Some t \<Rightarrow> (\<exists>out'. vsnprintf out n s vl = Some (out', of_nat (length t)) \<and>
       map out' [0..<min (length t) (n - 1)] = take (n - 1) t \<and>
       (0 < n \<longrightarrow> out' (min (length t) (n - 1)) = char_of (0 :: nat)) \<and>
       (\<forall>i\<ge>n. out' i = out i))"
proof -
  let ?st = "\<lparr>vpos = 0, vout = out, vformat = False, vlong = False, vlonglong = False\<rparr>"
  have "delivered n out [] ?st" by (simp add: delivered_def)
  from vsn_loop_outcome [OF this, of s vl]
  have o: "outcome n out [] (render (n - 1) (False, False, False) s vl) (vsn_loop n s vl ?st)"
    by (simp add: flags_def)
  show ?thesis
  proof (cases "render (n - 1) (False, False, False) s vl")
    case None
    with o show ?thesis by (simp add: outcome_def vsnprintf_def)
  next
    case (Some t)
    with o obtain st where st: "vsn_loop n s vl ?st = Some st" "delivered n out t st"
      by (auto simp: outcome_def)
    from st(2) have p: "vpos st = length t"
      and v: "vout st = (\<lambda>i. if i < length t \<and> i + 1 < n then t ! i else out i)"
      by (simp_all add: delivered_def)
    show ?thesis
      unfolding Some option.case vsnprintf_def st(1) Let_def
      by (auto simp: p v intro!: nth_equalityI)
  qed
qed

theorem vsnprintf_renders_witness:
  "render 3 (False, False, False) ''v=%d'' [VWord 42] = Some ''v=42'' \<and>
   (\<exists>out'. vsnprintf (\<lambda>_. CHR ''z'') 4 ''v=%d'' [VWord 42] = Some (out', 4) \<and>
      map out' [0..<3] = ''v=4'' \<and> out' 3 = char_of (0 :: nat) \<and> out' 4 = CHR ''z'')"
proof -
  have r: "render 3 (False, False, False) ''v=%d'' [VWord 42] = Some ''v=42''" by code_simp
  then have r': "render (4 - 1) (False, False, False) ''v=%d'' [VWord 42] = Some ''v=42''" by simp
  have "of_nat (length ''v=42'') = (4 :: u32)" "min (length ''v=42'') (4 - 1) = 3" "take (4 - 1) ''v=42'' = ''v=4''"
    by simp_all
  with vsnprintf_renders [where s = "''v=%d''" and vl = "[VWord 42]" and n = 4
      and out = "\<lambda>_. CHR ''z''", unfolded r' option.case] r
  show ?thesis by (metis order_refl zero_less_numeral)
qed

section \<open>Printing and reading numbers\<close>

lemma of_char_dec_digit: "d < 10 \<Longrightarrow> of_char (dec_digit d) = 48 + d"
  by (simp add: dec_digit_def)

lemma atol_digits_append:
  "atol_digits (s @ t) r = (case atol_digits s r of None \<Rightarrow> None | Some r \<Rightarrow> atol_digits t r)"
  by (induction s arbitrary: r) (auto split: option.split)

lemma atol_digits_decimal: "int num < 2 ^ 63 \<Longrightarrow> atol_digits (decimal num) 0 = Some (int num)"
proof (induction num rule: decimal.induct)
  case (1 num)
  show ?case
  proof (cases "num < 10")
    case True
    then show ?thesis by (subst decimal.simps) (simp add: of_char_dec_digit c_long_def)
  next
    case False
    define q where "q = num div 10"
    have "num = 10 * q + num mod 10" by (simp add: q_def)
    then have n: "int num = 10 * int q + int (num mod 10)" by (metis of_nat_add of_nat_mult of_nat_numeral)
    have "int q < 2 ^ 63" using n 1(2) by linarith
    with 1(1) [OF False] have "atol_digits (decimal q) 0 = Some (int q)" by (simp add: q_def)
    moreover have "c_long (int q * 10) = Some (int q * 10)" "c_long (int num) = Some (int num)"
      using n 1(2) by (auto simp: c_long_def)
    ultimately show ?thesis using False n
      by (subst decimal.simps) (simp add: q_def [symmetric] atol_digits_append of_char_dec_digit ac_simps)
  qed
qed

lemma decimal_hd: "\<exists>d s. decimal num = dec_digit d # s \<and> d < 10"
proof (induction num rule: decimal.induct)
  case (1 num)
  show ?case
  proof (cases "num < 10")
    case True
    then show ?thesis by (subst decimal.simps) auto
  next
    case False
    with 1 obtain d s where "decimal (num div 10) = dec_digit d # s" "d < 10" by auto
    with False show ?thesis by (subst decimal.simps) auto
  qed
qed

lemma dec_digit_not_special:
  "d < 10 \<Longrightarrow> dec_digit d \<notin> {CHR '' '', CHR ''-'', CHR ''+''}"
  using of_char_dec_digit [of d] by auto

lemma length_decimal_le: "v < 10 ^ Suc k \<Longrightarrow> length (decimal v) \<le> Suc k"
proof (induction k arbitrary: v)
  case (Suc k)
  show ?case
  proof (cases "v < 10")
    case False
    then have "decimal v = decimal (v div 10) @ [dec_digit (v mod 10)]" by (subst decimal.simps) simp
    moreover have "v div 10 < 10 ^ Suc k" using Suc.prems by (simp add: less_mult_imp_div_less)
    ultimately show ?thesis using Suc.IH [of "v div 10"] by simp
  qed (subst decimal.simps, simp)
qed (subst decimal.simps, simp)

lemma length_show_int: "- (2 ^ 63) \<le> x \<Longrightarrow> x < 2 ^ 63 \<Longrightarrow> length (show_int x) \<le> 20"
proof -
  assume "- (2 ^ 63) \<le> x" "x < 2 ^ 63"
  then have "nat \<bar>x\<bar> < 10 ^ Suc 18" by simp
  from length_decimal_le [OF this] show ?thesis by (cases "x < 0") (simp_all add: show_int_def)
qed

lemma atol_show_int:
  assumes "- (2 ^ 63) < x" "x < 2 ^ 63"
  shows "atol (show_int x) = Some x"
proof (cases "x < 0")
  case True
  then have "atol_digits (decimal (nat (- x))) 0 = Some (- x)"
    using atol_digits_decimal [of "nat (- x)"] assms by simp
  with True show ?thesis by (simp add: show_int_def atol_def)
next
  case False
  then have a: "atol_digits (decimal (nat x)) 0 = Some x"
    using atol_digits_decimal [of "nat x"] assms by simp
  obtain d s where "decimal (nat x) = dec_digit d # s" "d < 10" using decimal_hd by blast
  with dec_digit_not_special [of d] a False show ?thesis by (simp add: show_int_def atol_def)
qed

lemma vsnprintf_text:
  assumes "render (n - 1) (False, False, False) s vl = Some t" "length t < n"
  shows "\<exists>out'. vsnprintf out n s vl = Some (out', of_nat (length t)) \<and> map out' [0..<length t] = t \<and> out' (length t) = char_of (0 :: nat)"
proof -
  let ?st = "\<lparr>vpos = 0, vout = out, vformat = False, vlong = False, vlonglong = False\<rparr>"
  have "delivered n out [] ?st" by (simp add: delivered_def)
  from vsn_loop_outcome [OF this, of s vl] assms(1) obtain st where st: "vsn_loop n s vl ?st = Some st" "delivered n out t st"
    by (auto simp: flags_def outcome_def)
  then have "vpos st = length t" "vout st = (\<lambda>i. if i < length t \<and> i + 1 < n then t ! i else out i)" by (simp_all add: delivered_def)
  with assms(2) show ?thesis unfolding vsnprintf_def st(1) by (auto simp: Let_def intro!: nth_equalityI)
qed

text \<open>
  C28. Reading a printed number gives it back: for every \<open>long\<close> other than the least (whose negation overflows),
  \<open>snprintf\<close> with \<open>%ld\<close> into a buffer of 21 characters or more leaves a string there that \<open>atol\<close> reads as the number.
\<close>

theorem atol_of_printed:
  assumes "sint w \<noteq> - (2 ^ 63)" "21 \<le> n"
  shows "\<exists>out' k. snprintf out n ''%ld'' [VWord w] = Some (out', of_nat k) \<and> k < n \<and> out' k = char_of (0 :: nat) \<and>
    atol (map out' [0..<k]) = Some (sint w)"
proof -
  have b: "- (2 ^ 63) \<le> sint w" "sint w < 2 ^ 63" using sint_greater_eq [of w] sint_less [of w] by simp_all
  have "render (n - 1) (False, False, False) ''%ld'' [VWord w] = Some (show_int (sint w))" using assms(1) by simp
  moreover have l: "length (show_int (sint w)) < n" using length_show_int [OF b] assms(2) by simp
  ultimately obtain out' where "vsnprintf out n ''%ld'' [VWord w] = Some (out', of_nat (length (show_int (sint w))))"
    "map out' [0..<length (show_int (sint w))] = show_int (sint w)" "out' (length (show_int (sint w))) = char_of (0 :: nat)"
    using vsnprintf_text by blast
  with atol_show_int [of "sint w"] b assms(1) l show ?thesis unfolding snprintf_def
    by (intro exI [of _ out'] exI [of _ "length (show_int (sint w))"]) simp
qed

theorem atol_of_printed_witness:
  "\<exists>out' k. snprintf (\<lambda>_. CHR ''z'') 32 ''%ld'' [VWord (- 15)] = Some (out', of_nat k) \<and> atol (map out' [0..<k]) = Some (- 15)"
  using atol_of_printed [of "- 15" 32 "\<lambda>_. CHR ''z''"] by auto

end
