(* ===== verification/File_table.thy ===== *)
theory File_table
  imports Cstring "HOL-Library.Monad_Syntax"
begin

text \<open>
  The proxy kernel's file table (\<open>pk/pk/file.c\<close>): descriptors point into a table of reference-counted
  files, each of which stands for a descriptor of the host. One hart runs the kernel, so the atomic
  operations act at once. \<open>None\<close> is a call that does not return (a failed \<open>kassert\<close>, a page fault
  that cannot be resolved, a string without end) or that has no outcome in the model: the code takes the address of a
  buffer from the process unchecked, and a call that stores to an address of the kernel may overwrite any of
  its data, the file table and the page tables included (\<open>user_area\<close>).

  A live file has a count of one more than its references, a free one has zero. The locale
  \<open>refcounted\<close> states what the operations promise in terms of references: who holds one, and when
  the host descriptor is closed.
\<close>

unbundle bit_operations_syntax

section \<open>Model\<close>

record file_t =
  kfd :: u32
  refcnt :: u32

text \<open>
  What the file layer calls: the host behind \<open>frontend_syscall\<close> (it gets the eight words of
  \<open>magic_mem\<close> and returns the first one), the touching of user pages by \<open>populate_mapping\<close>, the
  user's bytes and stores to them, the address of the \<open>frontend_stat\<close> on the kernel stack with the
  thirteen fields the host leaves there, the size of the \<open>struct stat\<close> of the C library and their copy to one, the
  address of the text buffer of \<open>vprintk\<close>, and the first physical address behind the kernel.
\<close>

record 'h env =
  frontend :: "u64 list \<Rightarrow> 'h \<Rightarrow> u64 \<times> 'h"
  populate :: "u64 \<Rightarrow> u64 \<Rightarrow> u32 \<Rightarrow> 'h \<Rightarrow> 'h option"
  user_mem :: "'h \<Rightarrow> bmem"
  poke :: "u64 \<Rightarrow> u8 list \<Rightarrow> 'h \<Rightarrow> 'h"
  stat_buf :: u64
  stat_of :: "'h \<Rightarrow> u64 list"
  stat_len :: nat
  write_stat :: "u64 \<Rightarrow> u64 list \<Rightarrow> 'h \<Rightarrow> 'h"
  out_buf :: u64
  free_paddr :: u64

record 'h ftab =
  fds :: "nat \<Rightarrow> nat option"
  files :: "nat \<Rightarrow> file_t"
  host :: 'h

abbreviation (input) MAX_FDS :: nat where "MAX_FDS \<equiv> 128"
abbreviation (input) MAX_FILES :: nat where "MAX_FILES \<equiv> 128"

definition kassert :: "bool \<Rightarrow> unit option" where
  "kassert p = (if p then Some () else None)"

definition frontend_syscall :: "'h env \<Rightarrow> u64 \<Rightarrow> u64 list \<Rightarrow> 'h ftab \<Rightarrow> u64 \<times> 'h ftab" where
  "frontend_syscall e n args st =
     (let (ret, h) = frontend e (n # args) (host st) in (ret, st\<lparr>host := h\<rparr>))"

definition va2pa :: "'h env \<Rightarrow> u64 \<Rightarrow> u64" where
  "va2pa e va = (if va \<ge> 0x80000000 then va else va + free_paddr e)"

text \<open>
  The addresses that \<open>va2pa\<close> does not leave as they are belong to the process; the others are the kernel's,
  mapped to themselves. A range that a call stores to for the process has to be among the former.
\<close>

definition user_area :: "u64 \<Rightarrow> nat \<Rightarrow> bool" where
  "user_area p n \<longleftrightarrow> n = 0 \<or> unat p + n \<le> 0x80000000"

definition for_user :: "u64 \<Rightarrow> nat \<Rightarrow> 'a option \<Rightarrow> 'a option" where
  "for_user p n r = (if user_area p n then r else None)"

definition set_refcnt :: "nat \<Rightarrow> u32 \<Rightarrow> 'h ftab \<Rightarrow> 'h ftab" where
  "set_refcnt f c st = st\<lparr>files := (files st)(f := (files st f)\<lparr>refcnt := c\<rparr>)\<rparr>"

definition file_incref :: "nat \<Rightarrow> 'h ftab \<Rightarrow> 'h ftab option" where
  "file_incref f st =
     (let prev = refcnt (files st f);
          st = set_refcnt f (prev + 1) st
      in if prev > 0 then Some st else None)"

definition file_decref :: "'h env \<Rightarrow> nat \<Rightarrow> 'h ftab \<Rightarrow> 'h ftab" where
  "file_decref e f st =
     (let old = refcnt (files st f);
          st = set_refcnt f (old - 1) st
      in if old = 2
         then let k = kfd (files st f);
                  st = set_refcnt f 0 st
              in snd (frontend_syscall e 57 [scast k, 0, 0, 0, 0, 0, 0] st)
         else st)"

text \<open>The loops over the tables look for the first free entry.\<close>

fun first_from :: "(nat \<Rightarrow> bool) \<Rightarrow> nat \<Rightarrow> nat \<Rightarrow> nat option" where
  "first_from p i 0 = None"
| "first_from p i (Suc k) = (if p i then Some i else first_from p (i + 1) k)"

definition file_get_free :: "'h ftab \<Rightarrow> (nat \<times> 'h ftab) option" where
  "file_get_free st =
     map_option (\<lambda>f. (f, set_refcnt f 2 st)) (first_from (\<lambda>f. refcnt (files st f) = 0) 0 MAX_FILES)"

definition file_dup :: "nat \<Rightarrow> 'h ftab \<Rightarrow> (int \<times> 'h ftab) option" where
  "file_dup f st =
     (case first_from (\<lambda>i. fds st i = None) 0 MAX_FDS of
        None \<Rightarrow> Some (-1, st)
      | Some i \<Rightarrow> do { st \<leftarrow> file_incref f (st\<lparr>fds := (fds st)(i \<mapsto> f)\<rparr>); Some (int i, st) })"

definition file_dup3 :: "nat \<Rightarrow> int \<Rightarrow> 'h ftab \<Rightarrow> (int \<times> 'h ftab) option" where
  "file_dup3 f newfd st =
     (if newfd < 0 \<or> newfd \<ge> int MAX_FDS then Some (-1, st)
      else if fds st (nat newfd) = None
      then do { st \<leftarrow> file_incref f (st\<lparr>fds := (fds st)(nat newfd \<mapsto> f)\<rparr>); Some (newfd, st) }
      else Some (-1, st))"

fun init_fds :: "nat \<Rightarrow> nat \<Rightarrow> 'h ftab \<Rightarrow> 'h ftab option" where
  "init_fds i 0 st = Some st"
| "init_fds i (Suc k) st = do {
     (f, st) \<leftarrow> file_get_free st;
     let st = st\<lparr>files := (files st)(f := (files st f)\<lparr>kfd := of_nat i\<rparr>)\<rparr>;
     (_, st) \<leftarrow> file_dup f st;
     init_fds (i + 1) k st
   }"

definition file_init :: "'h ftab \<Rightarrow> 'h ftab option" where
  "file_init st = init_fds 0 3 st"

definition file_get :: "int \<Rightarrow> 'h ftab \<Rightarrow> nat option \<times> 'h ftab" where
  "file_get fd st =
     (if fd < 0 \<or> fd \<ge> int MAX_FDS then (None, st)
      else case fds st (nat fd) of None \<Rightarrow> (None, st)
      | Some f \<Rightarrow>
          let old_cnt = refcnt (files st f)
          in if old_cnt = 0 then (None, st) else (Some f, set_refcnt f (old_cnt + 1) st))"

text \<open>A file or a negative error number; an error below -4096 would be taken for a pointer.\<close>

definition file_openat :: "'h env \<Rightarrow> u32 \<Rightarrow> u64 \<Rightarrow> u32 \<Rightarrow> u32 \<Rightarrow> 'h ftab \<Rightarrow> ((int + nat) \<times> 'h ftab) option" where
  "file_openat e dirfd fn flags mode st =
     (case file_get_free st of None \<Rightarrow> Some (Inl (-12), st)
      | Some (f, st) \<Rightarrow> do {
          n \<leftarrow> strlen (user_mem e (host st)) (unat fn);
          let (ret, st) = frontend_syscall e 56
                [scast dirfd, va2pa e fn, of_nat (n + 1), scast flags, scast mode, 0, 0] st;
          (if 0 \<le> sint ret
           then Some (Inr f, st\<lparr>files := (files st)(f := (files st f)\<lparr>kfd := ucast ret\<rparr>)\<rparr>)
           else let st = file_decref e f st
                in if sint ret < -4096 then None else Some (Inl (sint ret), st))
        })"

definition file_open :: "'h env \<Rightarrow> u64 \<Rightarrow> u32 \<Rightarrow> u32 \<Rightarrow> 'h ftab \<Rightarrow> ((int + nat) \<times> 'h ftab) option" where
  "file_open e fn flags mode st = file_openat e (-100) fn flags mode st"

definition fd_close :: "'h env \<Rightarrow> int \<Rightarrow> 'h ftab \<Rightarrow> int \<times> 'h ftab" where
  "fd_close e fd st =
     (case file_get fd st of (None, st) \<Rightarrow> (-1, st)
      | (Some f, st) \<Rightarrow>
          let old = fds st (nat fd);
              st = (if old = Some f then st\<lparr>fds := (fds st)(nat fd := None)\<rparr> else st);
              st = file_decref e f st
          in if old \<noteq> Some f then (-1, st) else (0, file_decref e f st))"

definition with_populate :: "'h env \<Rightarrow> u64 \<Rightarrow> u64 \<Rightarrow> u32 \<Rightarrow> 'h ftab \<Rightarrow> 'h ftab option" where
  "with_populate e buf sz prot st = map_option (\<lambda>h. st\<lparr>host := h\<rparr>) (populate e buf sz prot (host st))"

definition file_read :: "'h env \<Rightarrow> nat \<Rightarrow> u64 \<Rightarrow> u64 \<Rightarrow> 'h ftab \<Rightarrow> (u64 \<times> 'h ftab) option" where
  "file_read e f buf sz st = for_user buf (unat sz) (do {
     st \<leftarrow> with_populate e buf sz 2 st;
     Some (frontend_syscall e 63 [scast (kfd (files st f)), va2pa e buf, sz, 0, 0, 0, 0] st)
   })"

text \<open>The kernel reads the headers of a program into its own buffer with this one, so that the guard is at \<open>sys_pread\<close>.\<close>

definition file_pread :: "'h env \<Rightarrow> nat \<Rightarrow> u64 \<Rightarrow> u64 \<Rightarrow> u64 \<Rightarrow> 'h ftab \<Rightarrow> (u64 \<times> 'h ftab) option" where
  "file_pread e f buf sz offset st = do {
     st \<leftarrow> with_populate e buf sz 2 st;
     Some (frontend_syscall e 67 [scast (kfd (files st f)), va2pa e buf, sz, offset, 0, 0, 0] st)
   }"

definition file_write :: "'h env \<Rightarrow> nat \<Rightarrow> u64 \<Rightarrow> u64 \<Rightarrow> 'h ftab \<Rightarrow> (u64 \<times> 'h ftab) option" where
  "file_write e f buf sz st = do {
     st \<leftarrow> with_populate e buf sz 1 st;
     Some (frontend_syscall e 64 [scast (kfd (files st f)), va2pa e buf, sz, 0, 0, 0, 0] st)
   }"

definition file_pwrite :: "'h env \<Rightarrow> nat \<Rightarrow> u64 \<Rightarrow> u64 \<Rightarrow> u64 \<Rightarrow> 'h ftab \<Rightarrow> (u64 \<times> 'h ftab) option" where
  "file_pwrite e f buf sz offset st = do {
     st \<leftarrow> with_populate e buf sz 1 st;
     Some (frontend_syscall e 68 [scast (kfd (files st f)), va2pa e buf, sz, offset, 0, 0, 0] st)
   }"

definition file_truncate :: "'h env \<Rightarrow> nat \<Rightarrow> u64 \<Rightarrow> 'h ftab \<Rightarrow> u64 \<times> 'h ftab" where
  "file_truncate e f len st = frontend_syscall e 46 [scast (kfd (files st f)), len, 0, 0, 0, 0, 0] st"

definition file_lseek :: "'h env \<Rightarrow> nat \<Rightarrow> u64 \<Rightarrow> u32 \<Rightarrow> 'h ftab \<Rightarrow> u64 \<times> 'h ftab" where
  "file_lseek e f ptr dir st = frontend_syscall e 62 [scast (kfd (files st f)), ptr, scast dir, 0, 0, 0, 0] st"

definition copy_stat :: "'h env \<Rightarrow> u64 \<Rightarrow> 'h ftab \<Rightarrow> 'h ftab option" where
  "copy_stat e dest st = for_user dest (stat_len e) (Some (st\<lparr>host := write_stat e dest (stat_of e (host st)) (host st)\<rparr>))"

definition file_stat :: "'h env \<Rightarrow> nat \<Rightarrow> u64 \<Rightarrow> 'h ftab \<Rightarrow> (u64 \<times> 'h ftab) option" where
  "file_stat e f s st =
     (let (ret, st) = frontend_syscall e 80 [scast (kfd (files st f)), va2pa e (stat_buf e), 0, 0, 0, 0, 0] st
      in map_option (Pair ret) (copy_stat e s st))"

lemma for_user_Some [simp]: "for_user p n r = Some x \<longleftrightarrow> user_area p n \<and> r = Some x"
  by (simp add: for_user_def)

section \<open>Reference counting\<close>

definition refs :: "'h ftab \<Rightarrow> nat \<Rightarrow> nat" where
  "refs st f = card {i. i < MAX_FDS \<and> fds st i = Some f}"

definition count_of :: "nat \<Rightarrow> nat" where
  "count_of n = (if n = 0 then 0 else n + 1)"

text \<open>\<open>exact held st\<close>: besides the descriptors, \<open>held f\<close> references to file \<open>f\<close> are held elsewhere.\<close>

definition exact :: "(nat \<Rightarrow> nat) \<Rightarrow> 'h ftab \<Rightarrow> bool" where
  "exact held st \<longleftrightarrow>
     (\<forall>i f. i < MAX_FDS \<longrightarrow> fds st i = Some f \<longrightarrow> f < MAX_FILES) \<and> (\<forall>f\<ge>MAX_FILES. held f = 0) \<and>
     (\<forall>f<MAX_FILES. unat (refcnt (files st f)) = count_of (refs st f + held f))"

lemma refs_le: "refs st f \<le> 128"
proof -
  have "refs st f \<le> card {..<128::nat}"
    unfolding refs_def by (rule card_mono) auto
  then show ?thesis by simp
qed

lemma refs_pos: "i < MAX_FDS \<Longrightarrow> fds st i = Some f \<Longrightarrow> 0 < refs st f"
  unfolding refs_def by (subst card_gt_0_iff) auto

lemma refs_insert:
  assumes "i < MAX_FDS" "fds st i = None"
  shows "refs (st\<lparr>fds := (fds st)(i \<mapsto> f)\<rparr>) g = (if g = f then refs st g + 1 else refs st g)"
proof -
  have "{j. j < 128 \<and> ((fds st)(i \<mapsto> f)) j = Some g} =
      (if g = f then insert i {j. j < 128 \<and> fds st j = Some g} else {j. j < 128 \<and> fds st j = Some g})"
    using assms by auto
  moreover have "i \<notin> {j. j < 128 \<and> fds st j = Some g}" "finite {j. j < 128 \<and> fds st j = Some g}" using assms by simp_all
  ultimately show ?thesis by (auto simp: refs_def card_insert_if)
qed

lemma refs_remove:
  assumes "i < MAX_FDS" "fds st i = Some f"
  shows "refs (st\<lparr>fds := (fds st)(i := None)\<rparr>) g = (if g = f then refs st g - 1 else refs st g)"
proof -
  have "{j. j < 128 \<and> ((fds st)(i := None)) j = Some g} =
      (if g = f then {j. j < 128 \<and> fds st j = Some g} - {i} else {j. j < 128 \<and> fds st j = Some g})"
    using assms by auto
  moreover have "i \<in> {j. j < 128 \<and> fds st j = Some f}" using assms by simp
  ultimately show ?thesis by (simp add: refs_def)
qed

lemma refs_cong: "fds st' = fds st \<Longrightarrow> refs st' = refs st"
  by (simp add: refs_def fun_eq_iff)

lemma set_refcnt_simps [simp]:
  "fds (set_refcnt f c st) = fds st" "host (set_refcnt f c st) = host st"
  "refs (set_refcnt f c st) = refs st"
  "kfd (files (set_refcnt f c st) g) = kfd (files st g)"
  "refcnt (files (set_refcnt f c st) g) = (if g = f then c else refcnt (files st g))"
  by (auto simp: set_refcnt_def refs_def)

lemma frontend_syscall_simps [simp]:
  "fds (snd (frontend_syscall e n as st)) = fds st" "files (snd (frontend_syscall e n as st)) = files st"
  "refs (snd (frontend_syscall e n as st)) = refs st"
  by (auto simp: frontend_syscall_def refs_def split: prod.splits)

lemma exactI:
  assumes "exact held st" "fds st' = fds st" "\<And>g. MAX_FILES \<le> g \<Longrightarrow> held' g = held g"
    and "\<And>g. g < MAX_FILES \<Longrightarrow> unat (refcnt (files st' g)) = count_of (refs st g + held' g)"
  shows "exact held' st'"
  using assms unfolding exact_def refs_cong [OF assms(2)] by auto

lemma unat_inc: "unat c + 1 < 2 ^ 32 \<Longrightarrow> unat (c + 1 :: u32) = unat c + 1"
  by (simp add: unat_word_ariths)

lemma unat_dec: "c \<noteq> 0 \<Longrightarrow> unat (c - 1 :: u32) = unat c - 1"
  by (simp add: unat_sub word_le_nat_alt unat_gt_0 Suc_leI)

text \<open>References are few: at most 128 descriptors, and a bounded number of references elsewhere.\<close>

definition few :: "(nat \<Rightarrow> nat) \<Rightarrow> bool" where
  "few held \<longleftrightarrow> (\<forall>f. held f + 200 < 2 ^ 32)"

lemma exact_live:
  assumes "exact held st" "f < MAX_FILES"
  shows "refcnt (files st f) = 0 \<longleftrightarrow> refs st f + held f = 0"
  using assms by (auto simp: exact_def count_of_def unat_eq_0 [symmetric] split: if_splits)

lemma exact_inc:
  assumes "exact held st" "f < MAX_FILES" "few held" "0 < refs st f + held f"
  shows "unat (refcnt (files st f) + 1) = refs st f + held f + 2" "refcnt (files st f) > 0"
proof -
  have "unat (refcnt (files st f)) = refs st f + held f + 1"
    using assms by (auto simp: exact_def count_of_def)
  then show "unat (refcnt (files st f) + 1) = refs st f + held f + 2" "refcnt (files st f) > 0"
    using refs_le [of st f] assms(3) by (auto simp: few_def unat_inc word_greater_zero_iff word_unat_eq_iff dest: spec [of _ f])
qed

lemma file_get_exact:
  assumes "exact held st" "few held"
  shows "case file_get fd st of
      (None, st') \<Rightarrow> st' = st \<and> (fd < 0 \<or> int MAX_FDS \<le> fd \<or> fds st (nat fd) = None)
    | (Some f, st') \<Rightarrow> 0 \<le> fd \<and> fd < int MAX_FDS \<and> fds st (nat fd) = Some f \<and> f < MAX_FILES \<and>
        exact (held(f := held f + 1)) st' \<and> fds st' = fds st \<and> host st' = host st \<and> (\<forall>g. kfd (files st' g) = kfd (files st g))"
proof (cases "fd < 0 \<or> int MAX_FDS \<le> fd \<or> fds st (nat fd) = None")
  case True
  then show ?thesis by (auto simp: file_get_def)
next
  case False
  then obtain f where f: "fds st (nat fd) = Some f" "0 \<le> fd" "fd < 128" by auto
  moreover from f have "nat fd < 128" by simp
  ultimately have f128: "f < 128" "0 < refs st f" using assms(1) by (auto simp: exact_def intro: refs_pos)
  then have live: "refcnt (files st f) \<noteq> 0" using exact_live [OF assms(1)] by simp
  have "exact (held(f := held f + 1)) (set_refcnt f (refcnt (files st f) + 1) st)"
    using assms(1)
  proof (rule exactI)
    fix g :: nat
    assume "g < 128"
    with assms(1) show "unat (refcnt (files (set_refcnt f (refcnt (files st f) + 1) st) g)) = count_of (refs st g + (held(f := held f + 1)) g)"
      using exact_inc [OF assms(1) f128(1) assms(2)] f128 by (auto simp: exact_def count_of_def)
  qed (use f128 in auto)
  with f f128 live show ?thesis by (simp add: file_get_def Let_def)
qed

lemma file_decref_exact:
  assumes "exact held st" "f < MAX_FILES" "0 < held f"
  shows "exact (held(f := held f - 1)) (file_decref e f st)" "fds (file_decref e f st) = fds st"
    "\<And>g. kfd (files (file_decref e f st) g) = kfd (files st g)"
    "host (file_decref e f st) = (if refs st f + held f = 1 then snd (frontend e (57 # [scast (kfd (files st f)), 0, 0, 0, 0, 0, 0]) (host st)) else host st)"
proof -
  let ?c = "refcnt (files st f)"
  have c: "unat ?c = refs st f + held f + 1" using assms by (auto simp: exact_def count_of_def)
  then have two: "?c = 2 \<longleftrightarrow> refs st f + held f = 1"
    by (simp add: word_unat_eq_iff)
  have nz: "?c \<noteq> 0" using c by (auto simp: word_unat_eq_iff)
  let ?st = "set_refcnt f (if ?c = 2 then 0 else ?c - 1) st"
  have "exact (held(f := held f - 1)) ?st"
    using assms(1)
  proof (rule exactI)
    fix g :: nat
    assume "g < 128"
    with assms c two show "unat (refcnt (files ?st g)) = count_of (refs st g + (held(f := held f - 1)) g)"
      by (auto simp: exact_def count_of_def unat_dec [OF nz])
  qed (use assms(2) in auto)
  moreover have "fds (file_decref e f st) = fds ?st" "files (file_decref e f st) = files ?st"
    by (simp_all add: file_decref_def Let_def) (auto simp: set_refcnt_def)
  ultimately show "exact (held(f := held f - 1)) (file_decref e f st)"
    by (simp add: exact_def refs_def)
  show "fds (file_decref e f st) = fds st" by (simp add: file_decref_def Let_def)
  show "kfd (files (file_decref e f st) g) = kfd (files st g)" for g
    by (simp add: file_decref_def Let_def)
  show "host (file_decref e f st) = (if refs st f + held f = 1 then snd (frontend e (57 # [scast (kfd (files st f)), 0, 0, 0, 0, 0, 0]) (host st)) else host st)"
    using two by (simp add: file_decref_def Let_def frontend_syscall_def split: prod.splits)
qed

lemma first_from_Some: "first_from p i k = Some j \<Longrightarrow> i \<le> j \<and> j < i + k \<and> p j \<and> (\<forall>n. i \<le> n \<and> n < j \<longrightarrow> \<not> p n)"
proof (induction p i k rule: first_from.induct)
  case (2 p i k)
  then show ?case by (cases "p i") (auto simp: Suc_le_eq, metis Suc_leI le_neq_implies_less)
qed simp

lemma first_from_None: "first_from p i k = None \<longleftrightarrow> (\<forall>n. i \<le> n \<and> n < i + k \<longrightarrow> \<not> p n)"
proof (induction p i k rule: first_from.induct)
  case (2 p i k)
  have "(\<forall>n. i \<le> n \<and> n < i + Suc k \<longrightarrow> \<not> p n) \<longleftrightarrow> \<not> p i \<and> (\<forall>n. i + 1 \<le> n \<and> n < i + 1 + k \<longrightarrow> \<not> p n)"
    by (auto simp: Suc_le_eq) (metis le_neq_implies_less)
  with 2 show ?case by auto
qed auto

lemma file_get_free_exact:
  assumes "exact held st" "file_get_free st = Some (f, st')"
  shows "f < MAX_FILES" "held f = 0" "refs st f = 0" "exact (held(f := 1)) st'" "fds st' = fds st" "host st' = host st"
    "\<And>g. kfd (files st' g) = kfd (files st g)"
proof -
  from assms(2) have f: "first_from (\<lambda>f. refcnt (files st f) = 0) 0 128 = Some f" and st': "st' = set_refcnt f 2 st"
    by (auto simp: file_get_free_def)
  from first_from_Some [OF f] show f128: "f < 128" by simp
  have "refs st f + held f = 0"
    using first_from_Some [OF f] exact_live [OF assms(1) f128] by simp
  then show z: "held f = 0" "refs st f = 0" by simp_all
  show "exact (held(f := 1)) st'"
    using assms(1)
  proof (rule exactI)
    fix g :: nat
    assume "g < 128"
    with assms(1) z show "unat (refcnt (files st' g)) = count_of (refs st g + (held(f := 1)) g)"
      by (simp add: st' exact_def count_of_def)
  qed (use f128 in \<open>auto simp: st'\<close>)
  show "fds st' = fds st" "host st' = host st" "kfd (files st' g) = kfd (files st g)" for g
    by (simp_all add: st')
qed

lemma install_exact:
  assumes "exact held st" "few held" "f < MAX_FILES" "0 < held f" "i < MAX_FDS" "fds st i = None"
  shows "\<exists>st'. file_incref f (st\<lparr>fds := (fds st)(i \<mapsto> f)\<rparr>) = Some st' \<and> exact held st' \<and>
    fds st' = (fds st)(i \<mapsto> f) \<and> host st' = host st \<and> (\<forall>g. kfd (files st' g) = kfd (files st g)) \<and>
    (\<forall>g. g \<noteq> f \<longrightarrow> files st' g = files st g) \<and> refcnt (files st' f) = refcnt (files st f) + 1"
proof -
  let ?st = "st\<lparr>fds := (fds st)(i \<mapsto> f)\<rparr>"
  let ?st' = "set_refcnt f (refcnt (files st f) + 1) ?st"
  note inc = exact_inc [OF assms(1,3,2)]
  have "exact held ?st'"
    unfolding exact_def
  proof (intro conjI allI impI)
    fix g :: nat
    assume "g < 128"
    then show "unat (refcnt (files ?st' g)) = count_of (refs ?st' g + held g)"
      using assms inc refs_insert [OF assms(5,6), of f g] by (auto simp: exact_def count_of_def)
  qed (use assms in \<open>auto simp: exact_def split: if_splits\<close>)
  moreover have "file_incref f ?st = Some ?st'" using inc assms(4) by (simp add: file_incref_def)
  ultimately show ?thesis by (auto simp: set_refcnt_def)
qed

lemma file_dup_exact:
  assumes "exact held st" "few held" "f < MAX_FILES" "0 < held f"
  shows "\<exists>r st'. file_dup f st = Some (r, st') \<and> exact held st' \<and> host st' = host st \<and> (\<forall>g. kfd (files st' g) = kfd (files st g)) \<and>
    (r = -1 \<and> st' = st \<and> (\<forall>i<MAX_FDS. fds st i \<noteq> None) \<or>
     (\<exists>i<MAX_FDS. r = int i \<and> fds st i = None \<and> fds st' = (fds st)(i \<mapsto> f) \<and>
       (\<forall>g. g \<noteq> f \<longrightarrow> files st' g = files st g) \<and> refcnt (files st' f) = refcnt (files st f) + 1))"
proof (cases "first_from (\<lambda>i. fds st i = None) 0 128")
  case None
  with first_from_None [of "\<lambda>i. fds st i = None" 0 128] assms(1) show ?thesis
    by (auto simp: file_dup_def)
next
  case (Some i)
  from first_from_Some [OF Some] have i: "i < 128" "fds st i = None" by auto
  from install_exact [OF assms i] i show ?thesis unfolding file_dup_def Some by auto
qed

lemma file_dup3_exact:
  assumes "exact held st" "few held" "f < MAX_FILES" "0 < held f"
  shows "\<exists>r st'. file_dup3 f newfd st = Some (r, st') \<and> exact held st' \<and> host st' = host st \<and>
    (r = -1 \<and> st' = st \<or> r = newfd \<and> 0 \<le> newfd \<and> fds st' = (fds st)(nat newfd \<mapsto> f))"
proof (cases "0 \<le> newfd \<and> newfd < 128 \<and> fds st (nat newfd) = None")
  case True
  then have "nat newfd < 128" by auto
  with install_exact [OF assms this] True show ?thesis by (auto simp: file_dup3_def)
next
  case False
  with assms(1) show ?thesis by (auto simp: file_dup3_def)
qed

text \<open>Room for the few references a system call takes on top of those held.\<close>

definition roomy :: "(nat \<Rightarrow> nat) \<Rightarrow> bool" where
  "roomy held \<longleftrightarrow> (\<forall>f. held f + 210 < 2 ^ 32)"

lemma roomy_few: "roomy held \<Longrightarrow> few held"
  unfolding roomy_def few_def
proof
  fix f
  assume "\<forall>f. held f + 210 < 2 ^ 32"
  from spec [OF this, of f] show "held f + 200 < 2 ^ 32" by simp
qed

lemma roomy_few_inc: "roomy held \<Longrightarrow> few (held(g := held g + 1))"
  unfolding roomy_def few_def
proof
  fix f
  assume "\<forall>f. held f + 210 < 2 ^ 32"
  from spec [OF this, of f] show "(held(g := held g + 1)) f + 200 < 2 ^ 32" by auto
qed

lemma exact_held_file: "exact held st \<Longrightarrow> 0 < held f \<Longrightarrow> f < MAX_FILES"
  by (rule ccontr) (simp add: exact_def)

locale refcounted =
  fixes get_ref :: "int \<Rightarrow> 's \<Rightarrow> nat option \<times> 's" and put_ref :: "nat \<Rightarrow> 's \<Rightarrow> 's" and ok :: "(nat \<Rightarrow> nat) \<Rightarrow> 's \<Rightarrow> bool"
  assumes get_none: "ok held s \<Longrightarrow> few held \<Longrightarrow> get_ref fd s = (None, s') \<Longrightarrow> s' = s"
    and get_some: "ok held s \<Longrightarrow> few held \<Longrightarrow> get_ref fd s = (Some f, s') \<Longrightarrow> ok (held(f := held f + 1)) s'"
    and put_law: "ok held s \<Longrightarrow> 0 < held f \<Longrightarrow> ok (held(f := held f - 1)) (put_ref f s)"
begin

text \<open>The pattern of a call on a descriptor: take a reference, use the file, drop the reference.\<close>

lemma bracket_ok:
  assumes "ok held s" "roomy held"
    and body: "\<And>f s r s'. ok (held(f := held f + 1)) s \<Longrightarrow> body f s = Some (r, s') \<Longrightarrow> ok (held(f := held f + 1)) s'"
    and run: "(case get_ref fd s of (None, s) \<Rightarrow> Some (err, s)
      | (Some f, s) \<Rightarrow> map_option (\<lambda>(r, s). (r, put_ref f s)) (body f s)) = Some (r, s')"
  shows "ok held s'"
proof (cases "get_ref fd s")
  case (Pair o' s1)
  show ?thesis
  proof (cases o')
    case None
    with Pair run get_none [OF assms(1) roomy_few [OF assms(2)]] assms(1) show ?thesis by auto
  next
    case (Some f)
    with Pair run obtain s2 where b: "body f s1 = Some (r, s2)" "s' = put_ref f s2" by auto
    have "ok (held(f := held f + 1)) s1" using get_some [OF assms(1) roomy_few [OF assms(2)]] Pair Some by auto
    then have "ok (held(f := held f + 1)) s2" using b(1) by (rule body)
    then have "ok ((held(f := held f + 1))(f := (held(f := held f + 1)) f - 1)) s'"
      unfolding b(2) by (rule put_law) simp
    then show ?thesis by simp
  qed
qed

end

interpretation file_refs: refcounted file_get "file_decref e" exact for e :: "'h env"
proof
  fix held and s s' :: "'h ftab" and fd f
  assume *: "exact held s" "few held"
  show "s' = s" if "file_get fd s = (None, s')" using file_get_exact [OF *, of fd] that by simp
  show "exact (held(f := held f + 1)) s'" if "file_get fd s = (Some f, s')" using file_get_exact [OF *, of fd] that by simp
next
  fix held and s :: "'h ftab" and f
  assume "exact held s" "0 < held f"
  then show "exact (held(f := held f - 1)) (file_decref e f s)"
    using file_decref_exact(1) exact_held_file by blast
qed

end
