(* ===== verification/Console.thy ===== *)
theory Console
  imports Snprintf File_table
begin

text \<open>
  The kernel's console (\<open>pk/pk/console.c\<close>): text is formatted into a buffer on the stack and written to
  the file of standard error. A panic does not return, so it is \<open>None\<close>.
\<close>

unbundle bit_operations_syntax

section \<open>Model\<close>

record trapframe_t =
  gpr :: "nat \<Rightarrow> u64"
  status :: u64
  epc :: u64
  badvaddr :: u64
  cause :: u64
  insn :: u64

definition vprintk :: "'h env \<Rightarrow> string \<Rightarrow> va_arg list \<Rightarrow> 'h ftab \<Rightarrow> 'h ftab option" where
  "vprintk e s vl st = do {
     (out, res) \<leftarrow> vsnprintf (\<lambda>i. char_of (unat (user_mem e (host st) (unat (out_buf e) + i)))) 256 s vl;
     let st = st\<lparr>host := poke e (out_buf e) (map (\<lambda>i. of_nat (of_char (out i))) [0..<256]) (host st)\<rparr>;
     (_, st) \<leftarrow> file_write e 2 (out_buf e) (let res = scast res in if res < 256 then res else 256) st;
     Some st
   }"

definition printk :: "'h env \<Rightarrow> string \<Rightarrow> va_arg list \<Rightarrow> 'h ftab \<Rightarrow> 'h ftab option" where
  "printk e s vl = vprintk e s vl"

definition regnames :: "string list" where
  "regnames = [''z '', ''ra'', ''sp'', ''gp'', ''tp'', ''t0'', ''t1'', ''t2'', ''s0'', ''s1'', ''a0'', ''a1'', ''a2'', ''a3'', ''a4'', ''a5'',
     ''a6'', ''a7'', ''s2'', ''s3'', ''s4'', ''s5'', ''s6'', ''s7'', ''s8'', ''s9'', ''sA'', ''sB'', ''t3'', ''t4'', ''t5'', ''t6'']"

fun dump_regs :: "'h env \<Rightarrow> trapframe_t \<Rightarrow> nat list \<Rightarrow> 'h ftab \<Rightarrow> 'h ftab option" where
  "dump_regs e tf [] st = Some st"
| "dump_regs e tf (k # ks) st = do {
     st \<leftarrow> printk e ''%s %lx%c'' [VStr (regnames ! k), VWord (gpr tf k), VWord (if k mod 4 < 3 then 32 else 10)] st;
     dump_regs e tf ks st
   }"

definition dump_tf :: "'h env \<Rightarrow> trapframe_t \<Rightarrow> 'h ftab \<Rightarrow> (trapframe_t \<times> 'h ftab) option" where
  "dump_tf e tf st = do {
     let tf = tf\<lparr>gpr := (gpr tf)(0 := 0)\<rparr>;
     st \<leftarrow> dump_regs e tf [0..<32] st;
     st \<leftarrow> printk e (''pc %lx va %lx insn       %x sr %lx'' @ [CHR 0x0A])
       [VWord (epc tf), VWord (badvaddr tf), VWord (insn tf AND 0xffffffff), VWord (status tf)] st;
     Some (tf, st)
   }"

section \<open>The console leaves the file table alone\<close>

lemma vprintk_table:
  assumes "vprintk e s vl st = Some st'"
  shows "fds st' = fds st" "files st' = files st"
  using assms by (auto simp: vprintk_def file_write_def with_populate_def frontend_syscall_def Let_def
      split: bind_splits option.splits prod.splits)

lemma printk_table: "printk e s vl st = Some st' \<Longrightarrow> fds st' = fds st \<and> files st' = files st"
  unfolding printk_def using vprintk_table by blast

lemma dump_regs_table: "dump_regs e tf ks st = Some st' \<Longrightarrow> fds st' = fds st \<and> files st' = files st"
  by (induction ks arbitrary: st) (auto dest!: printk_table split: bind_splits)

lemma dump_tf_table: "dump_tf e tf st = Some (tf', st') \<Longrightarrow> fds st' = fds st \<and> files st' = files st"
  unfolding dump_tf_def Let_def by (auto dest!: printk_table dump_regs_table split: bind_splits)

end
