(* ===== verification/Syscalls.thy ===== *)
theory Syscalls
  imports Console
begin

text \<open>
  The system calls of the proxy kernel on files and paths (\<open>pk/pk/syscall.c\<close>), as functions from the
  file table to a result and the file table. Results are the 64-bit values returned in \<open>a0\<close>; the
  \<open>int\<close> results of the code are sign-extended. \<open>None\<close> is a call that does not return, or that stores to an address of
  the kernel because the process passed it as a buffer (the code does not check; see \<open>File_table\<close>).
\<close>

unbundle bit_operations_syntax

section \<open>Model\<close>

abbreviation (input) EBADF :: u64 where "EBADF \<equiv> 9"
abbreviation (input) ENOMEM :: u64 where "ENOMEM \<equiv> 12"
abbreviation (input) AT_FDCWD :: u32 where "AT_FDCWD \<equiv> -100"

definition ret_int :: "u64 \<Rightarrow> u64" where
  "ret_int r = scast (ucast r :: u32)"

text \<open>The frame shared by the calls on a descriptor.\<close>

definition with_file :: "'h env \<Rightarrow> u32 \<Rightarrow> (nat \<Rightarrow> 'h ftab \<Rightarrow> (u64 \<times> 'h ftab) option) \<Rightarrow> 'h ftab \<Rightarrow> (u64 \<times> 'h ftab) option" where
  "with_file e fd body st =
     (case file_get (sint fd) st of (None, st) \<Rightarrow> Some (- EBADF, st)
      | (Some f, st) \<Rightarrow> map_option (\<lambda>(r, st). (r, file_decref e f st)) (body f st))"

definition sys_read :: "'h env \<Rightarrow> u32 \<Rightarrow> u64 \<Rightarrow> u64 \<Rightarrow> 'h ftab \<Rightarrow> (u64 \<times> 'h ftab) option" where
  "sys_read e fd buf n = with_file e fd (\<lambda>f. file_read e f buf n)"

definition sys_pread :: "'h env \<Rightarrow> u32 \<Rightarrow> u64 \<Rightarrow> u64 \<Rightarrow> u64 \<Rightarrow> 'h ftab \<Rightarrow> (u64 \<times> 'h ftab) option" where
  "sys_pread e fd buf n offset = with_file e fd (\<lambda>f st. for_user buf (unat n) (file_pread e f buf n offset st))"

definition sys_write :: "'h env \<Rightarrow> u32 \<Rightarrow> u64 \<Rightarrow> u64 \<Rightarrow> 'h ftab \<Rightarrow> (u64 \<times> 'h ftab) option" where
  "sys_write e fd buf n = with_file e fd (\<lambda>f. file_write e f buf n)"

definition at_kfd :: "u32 \<Rightarrow> 'h ftab \<Rightarrow> u32 \<times> 'h ftab" where
  "at_kfd dirfd st =
     (if dirfd = AT_FDCWD then (AT_FDCWD, st)
      else case file_get (sint dirfd) st of (None, st) \<Rightarrow> (-1, st)
      | (Some dir, st) \<Rightarrow> (kfd (files st dir), st))"

definition sys_openat :: "'h env \<Rightarrow> u32 \<Rightarrow> u64 \<Rightarrow> u32 \<Rightarrow> u32 \<Rightarrow> 'h ftab \<Rightarrow> (u64 \<times> 'h ftab) option" where
  "sys_openat e dirfd name flags' mode st =
     (let (k, st) = at_kfd dirfd st
      in if k \<noteq> -1
         then do {
           (file, st) \<leftarrow> file_openat e k name flags' mode st;
           (case file of Inl err \<Rightarrow> Some (ret_int (of_int err), st)
            | Inr f \<Rightarrow> do {
                (fd, st) \<leftarrow> file_dup f st;
                (if fd < 0 then Some (- ENOMEM, file_decref e f st) else Some (of_int fd, st))
              })
         }
         else Some (- EBADF, st))"

definition sys_open :: "'h env \<Rightarrow> u64 \<Rightarrow> u32 \<Rightarrow> u32 \<Rightarrow> 'h ftab \<Rightarrow> (u64 \<times> 'h ftab) option" where
  "sys_open e name flags' mode = sys_openat e AT_FDCWD name flags' mode"

definition sys_close :: "'h env \<Rightarrow> u32 \<Rightarrow> 'h ftab \<Rightarrow> (u64 \<times> 'h ftab) option" where
  "sys_close e fd st =
     (let (ret, st) = fd_close e (sint fd) st in Some (if ret < 0 then - EBADF else of_int ret, st))"

definition strlen_at :: "'h env \<Rightarrow> u64 \<Rightarrow> 'h ftab \<Rightarrow> u64 option" where
  "strlen_at e p st = map_option of_nat (strlen (user_mem e (host st)) (unat p))"

text \<open>A call that names paths relative to two directories, and one that names a single path.\<close>

definition two_paths :: "'h env \<Rightarrow> u64 \<Rightarrow> u32 \<Rightarrow> u64 \<Rightarrow> u32 \<Rightarrow> u64 \<Rightarrow> u64 \<Rightarrow> 'h ftab \<Rightarrow> (u64 \<times> 'h ftab) option" where
  "two_paths e nr old_fd old_path new_fd new_path flags' st =
     (let (old_k, st) = at_kfd old_fd st; (new_k, st) = at_kfd new_fd st
      in if old_k \<noteq> -1 \<and> new_k \<noteq> -1
         then do {
           old_n \<leftarrow> strlen_at e old_path st;
           new_n \<leftarrow> strlen_at e new_path st;
           Some (frontend_syscall e nr [scast old_k, va2pa e old_path, old_n + 1, scast new_k, va2pa e new_path, new_n + 1, flags'] st)
         }
         else Some (- EBADF, st))"

definition sys_renameat :: "'h env \<Rightarrow> u32 \<Rightarrow> u64 \<Rightarrow> u32 \<Rightarrow> u64 \<Rightarrow> 'h ftab \<Rightarrow> (u64 \<times> 'h ftab) option" where
  "sys_renameat e old_fd old_path new_fd new_path st =
     map_option (\<lambda>(r, st). (ret_int r, st)) (two_paths e 38 old_fd old_path new_fd new_path 0 st)"

definition sys_linkat :: "'h env \<Rightarrow> u32 \<Rightarrow> u64 \<Rightarrow> u32 \<Rightarrow> u64 \<Rightarrow> u32 \<Rightarrow> 'h ftab \<Rightarrow> (u64 \<times> 'h ftab) option" where
  "sys_linkat e old_dirfd old_name new_dirfd new_name flags' st =
     two_paths e 37 old_dirfd old_name new_dirfd new_name (scast flags') st"

definition sys_link :: "'h env \<Rightarrow> u64 \<Rightarrow> u64 \<Rightarrow> 'h ftab \<Rightarrow> (u64 \<times> 'h ftab) option" where
  "sys_link e old_name new_name = sys_linkat e AT_FDCWD old_name AT_FDCWD new_name 0"

definition one_path :: "'h env \<Rightarrow> u64 \<Rightarrow> u32 \<Rightarrow> u64 \<Rightarrow> (u64 \<Rightarrow> u64 list) \<Rightarrow> 'h ftab \<Rightarrow> (u64 \<times> 'h ftab) option" where
  "one_path e nr dirfd name rest st =
     (let (k, st) = at_kfd dirfd st
      in if k \<noteq> -1
         then do {
           n \<leftarrow> strlen_at e name st;
           Some (frontend_syscall e nr ([scast k, va2pa e name, n + 1] @ rest n) st)
         }
         else Some (- EBADF, st))"

definition sys_faccessat :: "'h env \<Rightarrow> u32 \<Rightarrow> u64 \<Rightarrow> u32 \<Rightarrow> 'h ftab \<Rightarrow> (u64 \<times> 'h ftab) option" where
  "sys_faccessat e dirfd name mode = one_path e 48 dirfd name (\<lambda>_. [scast mode, 0, 0, 0])"

definition sys_access :: "'h env \<Rightarrow> u64 \<Rightarrow> u32 \<Rightarrow> 'h ftab \<Rightarrow> (u64 \<times> 'h ftab) option" where
  "sys_access e name mode = sys_faccessat e AT_FDCWD name mode"

definition sys_unlinkat :: "'h env \<Rightarrow> u32 \<Rightarrow> u64 \<Rightarrow> u32 \<Rightarrow> 'h ftab \<Rightarrow> (u64 \<times> 'h ftab) option" where
  "sys_unlinkat e dirfd name flags' = one_path e 35 dirfd name (\<lambda>_. [scast flags', 0, 0, 0])"

definition sys_unlink :: "'h env \<Rightarrow> u64 \<Rightarrow> 'h ftab \<Rightarrow> (u64 \<times> 'h ftab) option" where
  "sys_unlink e name = sys_unlinkat e AT_FDCWD name 0"

definition sys_mkdirat :: "'h env \<Rightarrow> u32 \<Rightarrow> u64 \<Rightarrow> u32 \<Rightarrow> 'h ftab \<Rightarrow> (u64 \<times> 'h ftab) option" where
  "sys_mkdirat e dirfd name mode = one_path e 34 dirfd name (\<lambda>_. [scast mode, 0, 0, 0])"

definition sys_mkdir :: "'h env \<Rightarrow> u64 \<Rightarrow> u32 \<Rightarrow> 'h ftab \<Rightarrow> (u64 \<times> 'h ftab) option" where
  "sys_mkdir e name mode = sys_mkdirat e AT_FDCWD name mode"

definition sys_fstatat :: "'h env \<Rightarrow> u32 \<Rightarrow> u64 \<Rightarrow> u64 \<Rightarrow> u32 \<Rightarrow> 'h ftab \<Rightarrow> (u64 \<times> 'h ftab) option" where
  "sys_fstatat e dirfd name s flags' st =
     (let (k, st) = at_kfd dirfd st
      in if k \<noteq> -1
         then do {
           n \<leftarrow> strlen_at e name st;
           let (ret, st) = frontend_syscall e 79 [scast k, va2pa e name, n + 1, va2pa e (stat_buf e), scast flags', 0, 0] st;
           map_option (Pair ret) (copy_stat e s st)
         }
         else Some (- EBADF, st))"

definition sys_stat :: "'h env \<Rightarrow> u64 \<Rightarrow> u64 \<Rightarrow> 'h ftab \<Rightarrow> (u64 \<times> 'h ftab) option" where
  "sys_stat e name s = sys_fstatat e AT_FDCWD name s 0"

definition sys_lstat :: "'h env \<Rightarrow> u64 \<Rightarrow> u64 \<Rightarrow> 'h ftab \<Rightarrow> (u64 \<times> 'h ftab) option" where
  "sys_lstat e name s st = do {
     n \<leftarrow> strlen_at e name st;
     let (ret, st) = frontend_syscall e 1039 [va2pa e name, n + 1, va2pa e (stat_buf e), 0, 0, 0, 0] st;
     map_option (Pair ret) (copy_stat e s st)
   }"

definition sys_fstat :: "'h env \<Rightarrow> u32 \<Rightarrow> u64 \<Rightarrow> 'h ftab \<Rightarrow> (u64 \<times> 'h ftab) option" where
  "sys_fstat e fd s = with_file e fd (\<lambda>f st. map_option (\<lambda>(r, st). (ret_int r, st)) (file_stat e f s st))"

definition sys_fcntl :: "'h env \<Rightarrow> u32 \<Rightarrow> u32 \<Rightarrow> u32 \<Rightarrow> 'h ftab \<Rightarrow> (u64 \<times> 'h ftab) option" where
  "sys_fcntl e fd cmd arg = with_file e fd (\<lambda>f st.
     let (r, st) = frontend_syscall e 25 [scast (kfd (files st f)), scast cmd, scast arg, 0, 0, 0, 0] st in Some (ret_int r, st))"

definition sys_ftruncate :: "'h env \<Rightarrow> u32 \<Rightarrow> u64 \<Rightarrow> 'h ftab \<Rightarrow> (u64 \<times> 'h ftab) option" where
  "sys_ftruncate e fd len = with_file e fd (\<lambda>f st. let (r, st) = file_truncate e f len st in Some (ret_int r, st))"

definition sys_dup :: "'h env \<Rightarrow> u32 \<Rightarrow> 'h ftab \<Rightarrow> (u64 \<times> 'h ftab) option" where
  "sys_dup e fd = with_file e fd (\<lambda>f st. map_option (\<lambda>(r, st). (of_int r, st)) (file_dup f st))"

definition sys_dup3 :: "'h env \<Rightarrow> u32 \<Rightarrow> u32 \<Rightarrow> u32 \<Rightarrow> 'h ftab \<Rightarrow> (u64 \<times> 'h ftab) option" where
  "sys_dup3 e fd newfd flags' st =
     (if flags' \<noteq> 0 then None
      else with_file e fd (\<lambda>f st. map_option (\<lambda>(r, st). (of_int r, st)) (file_dup3 f (sint newfd) st)) st)"

definition sys_lseek :: "'h env \<Rightarrow> u32 \<Rightarrow> u64 \<Rightarrow> u32 \<Rightarrow> 'h ftab \<Rightarrow> (u64 \<times> 'h ftab) option" where
  "sys_lseek e fd ptr dir = with_file e fd (\<lambda>f st. Some (file_lseek e f ptr dir st))"

definition sys_getcwd :: "'h env \<Rightarrow> u64 \<Rightarrow> u64 \<Rightarrow> 'h ftab \<Rightarrow> (u64 \<times> 'h ftab) option" where
  "sys_getcwd e buf sz st = for_user buf (unat sz) (do {
     st \<leftarrow> with_populate e buf sz 2 st;
     Some (frontend_syscall e 17 [va2pa e buf, sz, 0, 0, 0, 0, 0] st)
   })"

definition sys_chdir :: "'h env \<Rightarrow> u64 \<Rightarrow> 'h ftab \<Rightarrow> (u64 \<times> 'h ftab) option" where
  "sys_chdir e path st = (let (r, st) = frontend_syscall e 49 [va2pa e path, 0, 0, 0, 0, 0, 0] st in Some (ret_int r, st))"

text \<open>\<open>iov[i]\<close>: a word of the user's vector.\<close>

definition user_word :: "'h env \<Rightarrow> 'h ftab \<Rightarrow> u64 \<Rightarrow> u64" where
  "user_word e st p = le_word (map (\<lambda>i. user_mem e (host st) (unat (p + of_nat i))) [0..<8])"

fun writev_loop :: "'h env \<Rightarrow> u32 \<Rightarrow> u64 \<Rightarrow> nat \<Rightarrow> nat \<Rightarrow> u64 \<Rightarrow> 'h ftab \<Rightarrow> (u64 \<times> 'h ftab) option" where
  "writev_loop e fd iov i 0 ret st = Some (ret, st)"
| "writev_loop e fd iov i (Suc k) ret st = do {
     (r, st) \<leftarrow> sys_write e fd (user_word e st (iov + of_nat (16 * i))) (user_word e st (iov + of_nat (16 * i + 8))) st;
     (if sint r < 0 then Some (r, st) else writev_loop e fd iov (i + 1) k (ret + r) st)
   }"

definition sys_writev :: "'h env \<Rightarrow> u32 \<Rightarrow> u64 \<Rightarrow> u32 \<Rightarrow> 'h ftab \<Rightarrow> (u64 \<times> 'h ftab) option" where
  "sys_writev e fd iov cnt = writev_loop e fd iov 0 (nat (sint cnt)) 0"

definition store_user :: "'h env \<Rightarrow> u64 \<Rightarrow> u8 list \<Rightarrow> 'h ftab \<Rightarrow> 'h ftab option" where
  "store_user e p bs st = for_user p (length bs) (Some (st\<lparr>host := poke e p bs (host st)\<rparr>))"

definition store_words :: "'h env \<Rightarrow> u64 \<Rightarrow> u64 list \<Rightarrow> 'h ftab \<Rightarrow> 'h ftab option" where
  "store_words e p ws = store_user e p (concat (map (le_bytes 8) ws))"

text \<open>Time is the cycle counter, with a clock of 1 GHz.\<close>

definition sys_time :: "'h env \<Rightarrow> u64 \<Rightarrow> u64 \<Rightarrow> 'h ftab \<Rightarrow> (u64 \<times> 'h ftab) option" where
  "sys_time e t loc st = map_option (Pair t) (if loc \<noteq> 0 then store_words e loc [t] st else Some st)"

definition sys_times :: "'h env \<Rightarrow> u64 \<Rightarrow> u64 \<Rightarrow> 'h ftab \<Rightarrow> (u64 \<times> 'h ftab) option" where
  "sys_times e t loc st = map_option (Pair 0) (store_words e loc [t div 1000, 0, 0, 0] st)"

definition sys_cycles :: "'h env \<Rightarrow> u64 \<Rightarrow> u64 \<Rightarrow> 'h ftab \<Rightarrow> (u64 \<times> 'h ftab) option" where
  "sys_cycles e t loc st = map_option (Pair 0) (store_words e loc [t] st)"

definition sys_gettimeofday :: "'h env \<Rightarrow> u64 \<Rightarrow> u64 \<Rightarrow> 'h ftab \<Rightarrow> (u64 \<times> 'h ftab) option" where
  "sys_gettimeofday e t loc st = map_option (Pair 0) (store_words e loc [t div 1000000000, (t mod 1000000000) div 1000] st)"

definition sys_clock_gettime :: "'h env \<Rightarrow> u64 \<Rightarrow> u64 \<Rightarrow> 'h ftab \<Rightarrow> (u64 \<times> 'h ftab) option" where
  "sys_clock_gettime e t loc st = map_option (Pair 0) (store_words e loc [t div 1000000000, (t mod 1000000000) div 1] st)"

definition sys_rt_sigaction :: "'h env \<Rightarrow> u64 \<Rightarrow> 'h ftab \<Rightarrow> (u64 \<times> 'h ftab) option" where
  "sys_rt_sigaction e oact st = map_option (Pair 0) (if oact \<noteq> 0 then store_user e oact (replicate 24 0) st else Some st)"

definition lit :: "string \<Rightarrow> u8 list" where
  "lit s = map (\<lambda>c. of_nat (of_char c)) s @ [0]"

definition sys_uname :: "'h env \<Rightarrow> u64 \<Rightarrow> 'h ftab \<Rightarrow> (u64 \<times> 'h ftab) option" where
  "sys_uname e buf st = do {
     st \<leftarrow> store_user e (buf + 0 * 65) (lit ''Proxy Kernel'') st;
     st \<leftarrow> store_user e (buf + 1 * 65) (lit []) st;
     st \<leftarrow> store_user e (buf + 2 * 65) (lit ''4.15.0'') st;
     st \<leftarrow> store_user e (buf + 3 * 65) (lit []) st;
     st \<leftarrow> store_user e (buf + 4 * 65) (lit []) st;
     st \<leftarrow> store_user e (buf + 5 * 65) (lit []) st;
     Some (0, st)
   }"

section \<open>Dispatch\<close>

definition sys_hello_world :: "'h env \<Rightarrow> 'h ftab \<Rightarrow> (u64 \<times> 'h ftab) option" where
  "sys_hello_world e st = do { st \<leftarrow> printk e (''system call hello'' @ [CHR 0x0A]) [] st; Some (0, st) }"

text \<open>
  The two tables of \<open>do_syscall\<close>. \<open>t\<close> is the cycle counter. The calls that do not touch the file
  table (memory mapping, the accelerators, exit) are the argument \<open>other\<close>; a number without an entry
  is a panic.
\<close>

definition stub_success :: "nat set" where "stub_success = {172, 174, 175, 176, 177, 135, 61}"
definition stub_nosys :: "nat set" where "stub_nosys = {261, 78, 29, 165, 163, 164, 96, 99, 233}"
definition other_calls :: "nat set" where
  "other_calls = {93, 94, 214, 222, 215, 216, 226, 1022, 1021, 1020, 1019, 1018, 1017, 1016, 1015, 1014, 1013, 1012}"

definition do_syscall :: "'h env \<Rightarrow> u64 \<Rightarrow> (nat \<Rightarrow> u64 list \<Rightarrow> 'h ftab \<Rightarrow> (u64 \<times> 'h ftab) option) \<Rightarrow>
    u64 \<Rightarrow> u64 \<Rightarrow> u64 \<Rightarrow> u64 \<Rightarrow> u64 \<Rightarrow> u64 \<Rightarrow> nat \<Rightarrow> 'h ftab \<Rightarrow> (u64 \<times> 'h ftab) option" where
  "do_syscall e t other a0 a1 a2 a3 a4 a5 n st =
     (if n = 63 then sys_read e (ucast a0) a1 a2 st
      else if n = 67 then sys_pread e (ucast a0) a1 a2 a3 st
      else if n = 64 then sys_write e (ucast a0) a1 a2 st
      else if n = 56 then sys_openat e (ucast a0) a1 (ucast a2) (ucast a3) st
      else if n = 57 then sys_close e (ucast a0) st
      else if n = 80 then sys_fstat e (ucast a0) a1 st
      else if n = 62 then sys_lseek e (ucast a0) a1 (ucast a2) st
      else if n = 79 then sys_fstatat e (ucast a0) a1 a2 (ucast a3) st
      else if n = 37 then sys_linkat e (ucast a0) a1 (ucast a2) a3 (ucast a4) st
      else if n = 35 then sys_unlinkat e (ucast a0) a1 (ucast a2) st
      else if n = 34 then sys_mkdirat e (ucast a0) a1 (ucast a2) st
      else if n = 38 then sys_renameat e (ucast a0) a1 (ucast a2) a3 st
      else if n = 17 then sys_getcwd e a0 a1 st
      else if n = 160 then sys_uname e a0 st
      else if n = 134 then sys_rt_sigaction e a2 st
      else if n = 169 then sys_gettimeofday e t a0 st
      else if n = 153 then sys_times e t a0 st
      else if n = 66 then sys_writev e (ucast a0) a1 (ucast a2) st
      else if n = 48 then sys_faccessat e (ucast a0) a1 (ucast a2) st
      else if n = 25 then sys_fcntl e (ucast a0) (ucast a1) (ucast a2) st
      else if n = 46 then sys_ftruncate e (ucast a0) a1 st
      else if n = 23 then sys_dup e (ucast a0) st
      else if n = 24 then sys_dup3 e (ucast a0) (ucast a1) (ucast a2) st
      else if n = 113 then sys_clock_gettime e t a1 st
      else if n = 49 then sys_chdir e a0 st
      else if n = 1011 then sys_cycles e t a0 st
      else if n = 1023 then sys_hello_world e st
      else if n = 1024 then sys_open e a0 (ucast a1) (ucast a2) st
      else if n = 1025 then sys_link e a0 a1 st
      else if n = 1026 then sys_unlink e a0 st
      else if n = 1030 then sys_mkdir e a0 (ucast a1) st
      else if n = 1033 then sys_access e a0 (ucast a1) st
      else if n = 1038 then sys_stat e a0 a1 st
      else if n = 1039 then sys_lstat e a0 a1 st
      else if n = 1062 then sys_time e t a0 st
      else if n \<in> stub_success then Some (0, st)
      else if n \<in> stub_nosys then Some (-38, st)
      else if n \<in> other_calls then other n [a0, a1, a2, a3, a4, a5] st
      else None)"

section \<open>The table is well counted\<close>

text \<open>\<open>counted B st\<close>: the counts are exact, with at most \<open>B\<close> references to a file held elsewhere.\<close>

definition counted :: "nat \<Rightarrow> 'h ftab \<Rightarrow> bool" where
  "counted B st \<longleftrightarrow> (\<exists>held. exact held st \<and> (\<forall>f. held f \<le> B))"

lemma countedI: "exact held st \<Longrightarrow> (\<And>f. held f \<le> B) \<Longrightarrow> counted B st"
  unfolding counted_def by blast

lemma counted_mono: "counted A st \<Longrightarrow> A \<le> B \<Longrightarrow> counted B st"
  unfolding counted_def by (meson order_trans)

lemma bounded_roomy: "(\<And>f. held f \<le> B) \<Longrightarrow> B + 210 < 2 ^ 32 \<Longrightarrow> roomy held"
  unfolding roomy_def by (intro allI) (meson add_le_mono1 le_less_trans)

lemma exact_host [simp]: "exact held (st\<lparr>host := h\<rparr>) = exact held st"
  by (simp add: exact_def refs_def)

lemma frontend_exact: "frontend_syscall e n as st = (r, st') \<Longrightarrow> exact held st \<Longrightarrow> exact held st'"
  by (auto simp: frontend_syscall_def split: prod.splits)

lemma kfd_exact [simp]: "exact held (st\<lparr>files := (files st)(f := (files st f)\<lparr>kfd := k\<rparr>)\<rparr>) = exact held st"
proof -
  have "refcnt (((files st)(f := (files st f)\<lparr>kfd := k\<rparr>)) g) = refcnt (files st g)" for g by simp
  then show ?thesis by (simp add: exact_def refs_def)
qed

lemma with_file_exact:
  assumes "exact held st" "roomy held" "with_file e fd body st = Some (r, st')"
    and "\<And>f st r st'. exact (held(f := held f + 1)) st \<Longrightarrow> body f st = Some (r, st') \<Longrightarrow> exact (held(f := held f + 1)) st'"
  shows "exact held st'"
  using assms(4) assms(3) [unfolded with_file_def] by (rule file_refs.bracket_ok [OF assms(1,2)])

lemmas with_file_defs = sys_read_def sys_pread_def sys_write_def sys_fstat_def sys_fcntl_def sys_ftruncate_def sys_lseek_def
lemmas file_io_defs = file_read_def file_pread_def file_write_def file_truncate_def file_lseek_def file_stat_def
  with_populate_def copy_stat_def

lemma balanced_calls:
  assumes "exact held st" "roomy held"
  shows "sys_read e fd buf n st = Some (r, st') \<Longrightarrow> exact held st'"
    "sys_pread e fd buf n off st = Some (r, st') \<Longrightarrow> exact held st'"
    "sys_write e fd buf n st = Some (r, st') \<Longrightarrow> exact held st'"
    "sys_fstat e fd s st = Some (r, st') \<Longrightarrow> exact held st'"
    "sys_fcntl e fd cmd arg st = Some (r, st') \<Longrightarrow> exact held st'"
    "sys_ftruncate e fd len st = Some (r, st') \<Longrightarrow> exact held st'"
    "sys_lseek e fd ptr dir st = Some (r, st') \<Longrightarrow> exact held st'"
  unfolding with_file_defs
  by (erule with_file_exact [OF assms];
      auto simp: file_io_defs Let_def split: prod.splits option.splits bind_splits dest: frontend_exact)+

lemma detach_exact:
  assumes "exact held st" "i < MAX_FDS" "fds st i = Some f"
  shows "exact (held(f := held f + 1)) (st\<lparr>fds := (fds st)(i := None)\<rparr>)"
  using assms refs_remove [OF assms(2,3)] refs_pos [OF assms(2,3)]
  by (auto simp: exact_def count_of_def)

lemma fd_close_exact:
  assumes "exact held st" "roomy held"
  shows "exact held (snd (fd_close e fd st))"
proof (cases "file_get fd st")
  case (Pair o' st1)
  note get = file_get_exact [OF assms(1) roomy_few [OF assms(2)], of fd, unfolded Pair]
  show ?thesis
  proof (cases o')
    case None
    with get Pair assms(1) show ?thesis by (simp add: fd_close_def)
  next
    case (Some f)
    let ?st = "st1\<lparr>fds := (fds st1)(nat fd := None)\<rparr>"
    from get Some have g: "nat fd < 128" "fds st1 (nat fd) = Some f" "exact (held(f := held f + 1)) st1" by auto
    from detach_exact [OF g(3,1,2)] have "exact (held(f := held f + 2)) ?st" by simp
    from file_refs.put_law [OF this, of f e] have "exact (held(f := held f + 1)) (file_decref e f ?st)" by simp
    from file_refs.put_law [OF this, of f e] have "exact held (file_decref e f (file_decref e f ?st))" by simp
    then show ?thesis using Pair Some g(2) by (simp add: fd_close_def Let_def)
  qed
qed

lemma sys_dup_exact:
  assumes "exact held st" "roomy held"
  shows "sys_dup e fd st = Some (r, st') \<Longrightarrow> exact held st'"
    "sys_dup3 e fd newfd flags' st = Some (r, st') \<Longrightarrow> exact held st'"
proof -
  have d: "exact (held(f := held f + 1)) st'" if "exact (held(f := held f + 1)) st" "file_dup f st = Some (r, st')"
    for f st r and st' :: "'a ftab"
    using file_dup_exact [OF that(1) roomy_few_inc [OF assms(2)], of f] exact_held_file [OF that(1), of f] that(2) by auto
  have d3: "exact (held(f := held f + 1)) st'" if "exact (held(f := held f + 1)) st" "file_dup3 f x st = Some (r, st')"
    for f st r x and st' :: "'a ftab"
    using file_dup3_exact [OF that(1) roomy_few_inc [OF assms(2)], of f x] exact_held_file [OF that(1), of f] that(2) by auto
  show "sys_dup e fd st = Some (r, st') \<Longrightarrow> exact held st'"
    unfolding sys_dup_def by (erule with_file_exact [OF assms]) (use d in fastforce)
  show "sys_dup3 e fd newfd flags' st = Some (r, st') \<Longrightarrow> exact held st'"
    unfolding sys_dup3_def by (simp split: if_splits, erule with_file_exact [OF assms]) (use d3 in fastforce)
qed

lemma at_kfd_counted:
  assumes "counted B st" "B + 210 < 2 ^ 32" "at_kfd dirfd st = (k, st')"
  shows "counted (B + 1) st'"
proof (cases "dirfd = AT_FDCWD")
  case True
  with assms show ?thesis by (auto simp: at_kfd_def intro: counted_mono)
next
  case False
  from assms(1) obtain held where h: "exact held st" "\<And>f. held f \<le> B" by (auto simp: counted_def)
  note get = file_get_exact [OF h(1) roomy_few [OF bounded_roomy [OF h(2) assms(2)]], of "sint dirfd"]
  obtain o' st1 where p: "file_get (sint dirfd) st = (o', st1)" by fastforce
  show ?thesis
  proof (cases o')
    case None
    with get p assms False show ?thesis by (auto simp: at_kfd_def intro: counted_mono)
  next
    case (Some f)
    with get p have "exact (held(f := held f + 1)) st1" by simp
    moreover have "st' = st1" using assms(3) False p Some by (simp add: at_kfd_def)
    moreover have "(held(f := held f + 1)) g \<le> B + 1" for g using h(2) [of g] by auto
    ultimately show ?thesis by (auto intro!: countedI [of "held(f := held f + 1)"])
  qed
qed

lemma file_openat_grows:
  assumes "exact held st" "roomy held" "file_openat e k name flags' mode st = Some (file, st')"
  shows "case file of Inl _ \<Rightarrow> exact held st' | Inr f \<Rightarrow> exact (held(f := 1)) st' \<and> held f = 0 \<and> f < MAX_FILES"
proof (cases "file_get_free st")
  case None
  with assms show ?thesis by (auto simp: file_openat_def)
next
  case (Some p)
  then obtain f st1 where p: "file_get_free st = Some (f, st1)" by (cases p) auto
  note free = file_get_free_exact [OF assms(1) p]
  obtain n where n: "strlen (user_mem e (host st1)) (unat name) = Some n"
    using assms(3) p by (cases "strlen (user_mem e (host st1)) (unat name)") (auto simp: file_openat_def)
  obtain ret st2 where r: "frontend_syscall e 56 [scast k, va2pa e name, of_nat (n + 1), scast flags', scast mode, 0, 0] st1 = (ret, st2)"
    by fastforce
  have st2: "exact (held(f := 1)) st2" using frontend_exact [OF r free(4)] .
  have "exact held (file_decref e f st2)" using file_refs.put_law [OF st2, of f e] free(2) by (simp add: fun_upd_idem)
  with assms(3) p r [simplified] n st2 free show ?thesis
    by (auto simp: file_openat_def Let_def split: if_splits)
qed

lemma sys_openat_counted:
  assumes "counted B st" "B + 220 < 2 ^ 32" "sys_openat e dirfd name flags' mode st = Some (r, st')"
  shows "counted (B + 2) st'"
proof -
  obtain k st1 where a: "at_kfd dirfd st = (k, st1)" by fastforce
  have c1: "counted (B + 1) st1" using at_kfd_counted [OF assms(1) _ a] assms(2) by simp
  show ?thesis
  proof (cases "k = -1")
    case True
    with assms(3) a c1 show ?thesis by (auto simp: sys_openat_def intro: counted_mono)
  next
    case False
    from c1 obtain h where h: "exact h st1" "\<And>f. h f \<le> B + 1" unfolding counted_def by blast
    have room: "roomy h" using h(2) by (rule bounded_roomy) (use assms(2) in simp)
    obtain fl st2 where f: "file_openat e k name flags' mode st1 = Some (fl, st2)"
      using assms(3) a False by (cases "file_openat e k name flags' mode st1") (auto simp: sys_openat_def)
    note o = file_openat_grows [OF h(1) room f]
    show ?thesis
    proof (cases fl)
      case (Inl err)
      with o assms(3) a False f have "exact h st'" by (auto simp: sys_openat_def)
      then show ?thesis by (rule countedI) (use h(2) in \<open>auto intro: le_SucI\<close>)
    next
      case (Inr g)
      with o have g: "exact (h(g := 1)) st2" "h g = 0" "g < 128" by simp_all
      have few: "few (h(g := 1))" using roomy_few_inc [OF room, of g] g(2) by simp
      obtain fd st3 where d: "file_dup g st2 = Some (fd, st3)" "exact (h(g := 1)) st3"
        using file_dup_exact [OF g(1) few g(3)] by auto
      have "exact h (file_decref e g st3)" using file_refs.put_law [OF d(2), of g e] g(2) by (simp add: fun_upd_idem)
      with d assms(3) a False f Inr have "exact h st' \<or> exact (h(g := 1)) st'"
        by (auto simp: sys_openat_def split: if_splits)
      moreover have "h x \<le> B + 2" "(h(g := 1)) x \<le> B + 2" for x using h(2) [of x] by auto
      ultimately show ?thesis by (auto intro: countedI)
    qed
  qed
qed

lemma two_paths_counted:
  assumes "counted B st" "B + 220 < 2 ^ 32" "two_paths e nr d1 p1 d2 p2 flags' st = Some (r, st')"
  shows "counted (B + 2) st'"
proof -
  obtain k1 st1 where a: "at_kfd d1 st = (k1, st1)" by fastforce
  obtain k2 st2 where b: "at_kfd d2 st1 = (k2, st2)" by fastforce
  have "counted (B + 1) st1" using at_kfd_counted [OF assms(1) _ a] assms(2) by simp
  then have "counted (B + 1 + 1) st2" using at_kfd_counted [of "B + 1" st1 d2 k2 st2] b assms(2) by simp
  with assms(3) a b show ?thesis
    by (auto simp: two_paths_def counted_def split: if_splits option.splits bind_splits dest: frontend_exact)
qed

lemma one_path_counted:
  assumes "counted B st" "B + 220 < 2 ^ 32" "one_path e nr d p rest st = Some (r, st')"
  shows "counted (B + 1) st'"
proof -
  obtain k1 st1 where a: "at_kfd d st = (k1, st1)" by fastforce
  have "counted (B + 1) st1" using at_kfd_counted [OF assms(1) _ a] assms(2) by simp
  with assms(3) a show ?thesis
    by (auto simp: one_path_def counted_def split: if_splits option.splits bind_splits dest: frontend_exact)
qed

lemma sys_fstatat_counted:
  assumes "counted B st" "B + 220 < 2 ^ 32" "sys_fstatat e d p s flags' st = Some (r, st')"
  shows "counted (B + 1) st'"
proof -
  obtain k1 st1 where a: "at_kfd d st = (k1, st1)" by fastforce
  have "counted (B + 1) st1" using at_kfd_counted [OF assms(1) _ a] assms(2) by simp
  with assms(3) a show ?thesis
    by (auto simp: sys_fstatat_def copy_stat_def counted_def split: if_splits option.splits bind_splits prod.splits)
      (blast dest: frontend_exact)+
qed

lemma writev_exact: "exact held st \<Longrightarrow> roomy held \<Longrightarrow> writev_loop e fd iov i k ret st = Some (r, st') \<Longrightarrow> exact held st'"
proof (induction k arbitrary: i ret st)
  case (Suc k)
  from Suc.prems(3) obtain r1 st1 where
    w: "sys_write e fd (user_word e st (iov + of_nat (16 * i))) (user_word e st (iov + of_nat (16 * i + 8))) st = Some (r1, st1)"
    by (auto split: bind_splits)
  from balanced_calls(3) [OF Suc.prems(1,2) w] Suc.IH [of st1] Suc.prems(2,3) w show ?case
    by (auto split: if_splits)
qed simp

lemma counted_host [simp]: "counted B (st\<lparr>host := h\<rparr>) = counted B st"
  by (simp add: counted_def)

lemma counted_frontend: "frontend_syscall e n as st = (r, st') \<Longrightarrow> counted B st \<Longrightarrow> counted B st'"
  by (auto simp: frontend_syscall_def split: prod.splits)

lemma balanced_counted:
  assumes "counted B st" "B + 220 < 2 ^ 32"
    and "\<And>held. exact held st \<Longrightarrow> roomy held \<Longrightarrow> exact held st'"
  shows "counted B st'"
proof -
  from assms(1) obtain held where h: "exact held st" "\<And>f. held f \<le> B" unfolding counted_def by blast
  have "roomy held" using h(2) by (rule bounded_roomy) (use assms(2) in simp)
  with assms(3) h show ?thesis by (auto intro: countedI)
qed

lemma printk_counted: "printk e s vl st = Some st' \<Longrightarrow> counted B st' \<longleftrightarrow> counted B st"
  by (drule printk_table) (simp add: counted_def exact_def refs_def)

lemma pure_calls_counted:
  assumes "counted B st"
  shows "sys_getcwd e a s st = Some (r, st') \<Longrightarrow> counted B st'" "sys_uname e a st = Some (r, st') \<Longrightarrow> counted B st'"
    "sys_rt_sigaction e a st = Some (r, st') \<Longrightarrow> counted B st'" "sys_gettimeofday e t a st = Some (r, st') \<Longrightarrow> counted B st'"
    "sys_times e t a st = Some (r, st') \<Longrightarrow> counted B st'" "sys_clock_gettime e t a st = Some (r, st') \<Longrightarrow> counted B st'"
    "sys_chdir e a st = Some (r, st') \<Longrightarrow> counted B st'" "sys_cycles e t a st = Some (r, st') \<Longrightarrow> counted B st'"
    "sys_lstat e a s st = Some (r, st') \<Longrightarrow> counted B st'" "sys_time e t a st = Some (r, st') \<Longrightarrow> counted B st'"
    "sys_hello_world e st = Some (r, st') \<Longrightarrow> counted B st'"
  using assms
  by (auto simp: sys_getcwd_def sys_uname_def sys_rt_sigaction_def sys_gettimeofday_def sys_times_def sys_clock_gettime_def
    sys_chdir_def sys_cycles_def sys_lstat_def sys_time_def sys_hello_world_def printk_counted store_words_def store_user_def with_populate_def copy_stat_def Let_def
    split: prod.splits bind_splits if_splits dest: counted_frontend)

lemma sys_close_exact: "exact held st \<Longrightarrow> roomy held \<Longrightarrow> sys_close e fd st = Some (r, st') \<Longrightarrow> exact held st'"
  using fd_close_exact [of held st e "sint fd"] by (auto simp: sys_close_def split: prod.splits)

lemma do_syscall_counted:
  assumes c: "counted B st" "B + 220 < 2 ^ 32" and n: "n \<notin> other_calls"
    and run: "do_syscall e t other a0 a1 a2 a3 a4 a5 n st = Some (r, st')"
  shows "counted (B + 2) st'"
proof -
  note bal = balanced_counted [OF c]
  have eq: "counted B st'" if "st' = st" using that c(1) by simp
  have B: "counted B st' \<Longrightarrow> counted (B + 2) st'" "counted (B + 1) st' \<Longrightarrow> counted (B + 2) st'"
    by (auto intro: counted_mono)
  have path: "sys_faccessat e d p m st = Some (r, st') \<Longrightarrow> counted (B + 1) st'"
     "sys_unlinkat e d p m st = Some (r, st') \<Longrightarrow> counted (B + 1) st'"
     "sys_mkdirat e d p m st = Some (r, st') \<Longrightarrow> counted (B + 1) st'" for d p m
    unfolding sys_faccessat_def sys_unlinkat_def sys_mkdirat_def by (erule one_path_counted [OF c])+
  have path2: "sys_linkat e d p d' p' m st = Some (r, st') \<Longrightarrow> counted (B + 2) st'"
     "sys_renameat e d p d' p' st = Some (r, st') \<Longrightarrow> counted (B + 2) st'" for d p d' p' m
    unfolding sys_linkat_def sys_renameat_def by (auto dest: two_paths_counted [OF c])
  have io: "sys_read e fd b k st = Some (r, st') \<Longrightarrow> counted B st'"
     "sys_pread e fd b k off st = Some (r, st') \<Longrightarrow> counted B st'"
     "sys_write e fd b k st = Some (r, st') \<Longrightarrow> counted B st'"
     "sys_fstat e fd b st = Some (r, st') \<Longrightarrow> counted B st'"
     "sys_fcntl e fd cmd arg st = Some (r, st') \<Longrightarrow> counted B st'"
     "sys_ftruncate e fd b st = Some (r, st') \<Longrightarrow> counted B st'"
     "sys_lseek e fd b cmd st = Some (r, st') \<Longrightarrow> counted B st'"
     "sys_dup e fd st = Some (r, st') \<Longrightarrow> counted B st'"
     "sys_dup3 e fd cmd arg st = Some (r, st') \<Longrightarrow> counted B st'"
     "sys_close e fd st = Some (r, st') \<Longrightarrow> counted B st'"
     "sys_writev e fd b cmd st = Some (r, st') \<Longrightarrow> counted B st'" for fd b k off cmd arg
    by (rule bal; metis balanced_calls sys_dup_exact sys_close_exact writev_exact sys_writev_def)+
  note calls = sys_openat_counted [OF c] path2 sys_fstatat_counted [OF c, THEN B(2)] path [THEN B(2)]
    io [THEN B(1)] pure_calls_counted [OF c(1), THEN B(1)]
  show ?thesis
    using run n
    unfolding do_syscall_def sys_open_def sys_access_def sys_unlink_def sys_mkdir_def sys_stat_def sys_link_def
    by (simp del: add_2_eq_Suc' split: if_split_asm) (erule calls | simp add: B eq del: add_2_eq_Suc')+
qed

section \<open>Reachable tables\<close>

text \<open>
  The tables a process can reach: the one \<open>file_init\<close> makes from the initial arrays, and whatever the
  calls on files make of it. \<open>k\<close> counts the calls.
\<close>

inductive reach :: "'h env \<Rightarrow> nat \<Rightarrow> 'h ftab \<Rightarrow> bool" for e where
  init: "file_init \<lparr>fds = \<lambda>_. None, files = \<lambda>_. \<lparr>kfd = -1, refcnt = 0\<rparr>, host = h\<rparr> = Some st \<Longrightarrow> reach e 0 st"
| call: "reach e k st \<Longrightarrow> n \<notin> other_calls \<Longrightarrow>
    do_syscall e t other a0 a1 a2 a3 a4 a5 n st = Some (r, st') \<Longrightarrow> reach e (Suc k) st'"

lemma init_fds_counted: "exact held st \<Longrightarrow> (\<And>f. held f \<le> 1) \<Longrightarrow> init_fds i k st = Some st' \<Longrightarrow> counted 1 st'"
proof (induction k arbitrary: i st held)
  case 0
  then show ?case by (auto intro: countedI)
next
  case (Suc k)
  from Suc.prems(3) obtain f st1 where f: "file_get_free st = Some (f, st1)" by (auto split: bind_splits)
  note free = file_get_free_exact [OF Suc.prems(1) f]
  let ?st1 = "st1\<lparr>files := (files st1)(f := (files st1 f)\<lparr>kfd := of_nat i\<rparr>)\<rparr>"
  have ex: "exact (held(f := 1)) ?st1" using free(4) by simp
  have b: "(held(f := 1)) g \<le> 1" for g using Suc.prems(2) [of g] by simp
  from bounded_roomy [of "held(f := 1)" 1] b have few: "few (held(f := 1))" by (simp add: roomy_few)
  from file_dup_exact [OF ex few free(1)] obtain r st2 where "file_dup f ?st1 = Some (r, st2)" "exact (held(f := 1)) st2" by auto
  with Suc.IH [OF this(2) b] Suc.prems(3) f show ?case by (simp add: Let_def)
qed

lemma reach_counted: "reach e k st \<Longrightarrow> 2 * k + 221 < 2 ^ 32 \<Longrightarrow> counted (2 * k + 1) st"
proof (induction rule: reach.induct)
  case (init h st)
  have "exact (\<lambda>_. 0) \<lparr>fds = \<lambda>_. None, files = \<lambda>_. \<lparr>kfd = -1, refcnt = 0\<rparr>, host = h\<rparr>"
    by (simp add: exact_def refs_def count_of_def)
  from init_fds_counted [OF this _ init.hyps [unfolded file_init_def]] show ?case by simp
next
  case (call k st n t other a0 a1 a2 a3 a4 a5 r st')
  from do_syscall_counted [OF call.IH _ call.hyps(2,3)] call.prems show ?case by simp
qed

lemma reach_exact:
  assumes "reach e k st" "k < 2 ^ 30"
  obtains held where "exact held st" "roomy held"
proof -
  from reach_counted [OF assms(1)] assms(2) obtain held where h: "exact held st" "\<And>f. held f \<le> 2 * k + 1"
    unfolding counted_def by auto
  with assms(2) have "roomy held" by (intro bounded_roomy [OF h(2)]) auto
  with h(1) that show thesis by blast
qed

lemma first_fromI:
  assumes "j < k" "p j" "\<And>n. n < j \<Longrightarrow> \<not> p n"
  shows "first_from p 0 k = Some j"
proof (cases "first_from p 0 k")
  case None
  with assms show ?thesis by (auto simp: first_from_None)
next
  case (Some j')
  from first_from_Some [OF this] assms show ?thesis unfolding Some
    by (metis le0 linorder_neqE_nat)
qed

text \<open>A descriptor in use.\<close>

lemma file_get_open:
  assumes "exact held st" "few held" "i < MAX_FDS" "fds st i = Some f"
  shows "file_get (int i) st = (Some f, set_refcnt f (refcnt (files st f) + 1) st)"
    "0 < refs st f" "f < MAX_FILES" "unat (refcnt (files st f)) = refs st f + held f + 1"
proof -
  show r: "0 < refs st f" using refs_pos [OF assms(3,4)] .
  show f: "f < 128" using assms by (auto simp: exact_def)
  show c: "unat (refcnt (files st f)) = refs st f + held f + 1" using assms(1) f r by (auto simp: exact_def count_of_def)
  then have "refcnt (files st f) \<noteq> 0" by (auto simp: word_unat_eq_iff)
  then show "file_get (int i) st = (Some f, set_refcnt f (refcnt (files st f) + 1) st)"
    using assms(3,4) by (simp add: file_get_def Let_def)
qed

lemma set_refcnt_again [simp]:
  "set_refcnt f c (set_refcnt f d st) = set_refcnt f c st" "set_refcnt f (refcnt (files st f)) st = st"
  "set_refcnt f c (st\<lparr>host := h\<rparr>) = (set_refcnt f c st)\<lparr>host := h\<rparr>"
  by (simp_all add: set_refcnt_def)

lemma file_decref_many: "refcnt (files st f) \<noteq> 2 \<Longrightarrow> file_decref e f st = set_refcnt f (refcnt (files st f) - 1) st"
  by (simp add: file_decref_def Let_def)

lemma small_fd: "i < 128 \<Longrightarrow> sint (of_nat i :: u32) = int i"
  by (simp add: signed_of_nat signed_take_bit_int_eq_self)

lemma with_file_open:
  assumes "exact held st" "roomy held" "i < MAX_FDS" "fds st i = Some f"
    and body: "body f (set_refcnt f (refcnt (files st f) + 1) st) = Some (r, (set_refcnt f (refcnt (files st f) + 1) st)\<lparr>host := h\<rparr>)"
  shows "with_file e (of_nat i) body st = Some (r, st\<lparr>host := h\<rparr>)"
proof -
  note g = file_get_open [OF assms(1) roomy_few [OF assms(2)] assms(3,4)]
  have "refcnt (files st f) \<noteq> 1" using g(2,4) by (auto simp: word_unat_eq_iff)
  then have "refcnt (files st f) + 1 \<noteq> 2" by (metis add_right_cancel one_add_one)
  with g(1) body assms(3) show ?thesis by (simp add: with_file_def small_fd file_decref_many)
qed

text \<open>
  C3. In every table reachable by fewer than \<open>2^30\<close> calls each descriptor in use refers to a file of the table, whose count is
  larger than the number of descriptors that refer to it: a file in use is not taken for a free one,
  and \<open>file_get_free\<close> hands out only files no descriptor refers to. (The bound is needed: \<open>at_kfd\<close> leaks a reference, and
  enough leaks would wrap the 32-bit count around.)
\<close>

theorem descriptors_stay_live:
  assumes "reach e k st" "k < 2 ^ 30"
  shows "(\<forall>i<MAX_FDS. \<forall>f. fds st i = Some f \<longrightarrow> f < MAX_FILES \<and> refs st f < unat (refcnt (files st f))) \<and>
    (\<forall>f st'. file_get_free st = Some (f, st') \<longrightarrow> f < MAX_FILES \<and> (\<forall>i<MAX_FDS. fds st i \<noteq> Some f))"
proof
  obtain held where h: "exact held st" "roomy held" using reach_exact [OF assms] .
  show "\<forall>i<128. \<forall>f. fds st i = Some f \<longrightarrow> f < 128 \<and> refs st f < unat (refcnt (files st f))"
    using file_get_open(3,4) [OF h(1) roomy_few [OF h(2)]] by auto
  show "\<forall>f st'. file_get_free st = Some (f, st') \<longrightarrow> f < 128 \<and> (\<forall>i<128. fds st i \<noteq> Some f)"
    using file_get_free_exact(1,3) [OF h(1)] refs_pos [of _ st] by fastforce
qed

text \<open>
  C30. Duplicating an open descriptor and closing the copy restores the table, and the host hears of
  neither: \<open>sys_dup\<close> returns the lowest free descriptor, which shares the file.
\<close>

theorem dup_close_roundtrip:
  assumes "reach e k st" "k < 2 ^ 30" "i < MAX_FDS" "fds st i = Some f"
    and j: "j < MAX_FDS" "fds st j = None" "\<And>n. n < j \<Longrightarrow> fds st n \<noteq> None"
  shows "\<exists>st1. sys_dup e (of_nat i) st = Some (of_nat j, st1) \<and> fds st1 = (fds st)(j \<mapsto> f) \<and>
    sys_close e (of_nat j) st1 = Some (0, st)"
proof -
  obtain held where h: "exact held st" "roomy held" using reach_exact [OF assms(1,2)] .
  note few = roomy_few [OF h(2)]
  note g = file_get_open [OF h(1) few assms(3,4)]
  let ?c = "refcnt (files st f)"
  have c: "?c \<noteq> 0" "?c \<noteq> 1" using g(2,4) by (auto simp: word_unat_eq_iff)
  have small: "unat ?c + 2 < 2 ^ 32"
    using g(4) refs_le [of st f] spec [OF h(2) [unfolded roomy_def], of f] by simp
  then have u: "unat (?c + 1) = unat ?c + 1" "unat (?c + 2) = unat ?c + 2"
    by (simp_all add: unat_word_ariths)
  have c': "?c + 1 > 0" "?c + 1 \<noteq> 2" "?c + 2 \<noteq> 2" "?c + 1 \<noteq> 0"
    using u g(4) g(2) by (auto simp: word_greater_zero_iff word_unat_eq_iff)
  note first = first_fromI [where p = "\<lambda>i. fds st i = None", OF j]
  let ?st1 = "set_refcnt f (?c + 1) (st\<lparr>fds := (fds st)(j \<mapsto> f)\<rparr>)"
  have "sys_dup e (of_nat i) st = Some (of_nat j, ?st1)"
    using g(1) first c' assms(3)
    by (simp add: sys_dup_def with_file_def small_fd file_dup_def file_incref_def file_decref_def Let_def)
      (simp add: set_refcnt_def add.commute)
  moreover have "sys_close e (of_nat j) ?st1 = Some (0, st)"
    using j c c'
    by (simp add: sys_close_def fd_close_def small_fd file_get_def Let_def file_decref_def)
      (simp add: set_refcnt_def fun_upd_idem)
  ultimately show ?thesis by auto
qed

text \<open>
  A read or write on an open descriptor returns what the host answers for the host descriptor of
  the file, and leaves the table as it was; on a closed descriptor it returns \<open>-EBADF\<close> and does nothing.
\<close>

theorem io_passes_through:
  assumes "reach e k st" "k < 2 ^ 30" "i < MAX_FDS"
  shows "case fds st i of
      Some f \<Rightarrow>
        (\<forall>h. user_area buf (unat n) \<longrightarrow> populate e buf n 2 (host st) = Some h \<longrightarrow> sys_read e (of_nat i) buf n st =
          Some (map_prod id (\<lambda>h. st\<lparr>host := h\<rparr>) (frontend e [63, scast (kfd (files st f)), va2pa e buf, n, 0, 0, 0, 0] h))) \<and>
        (\<forall>h. populate e buf n 1 (host st) = Some h \<longrightarrow> sys_write e (of_nat i) buf n st =
          Some (map_prod id (\<lambda>h. st\<lparr>host := h\<rparr>) (frontend e [64, scast (kfd (files st f)), va2pa e buf, n, 0, 0, 0, 0] h)))
    | None \<Rightarrow> sys_read e (of_nat i) buf n st = Some (- EBADF, st) \<and> sys_write e (of_nat i) buf n st = Some (- EBADF, st)"
proof (cases "fds st i")
  case None
  with assms(3) show ?thesis by (simp add: sys_read_def sys_write_def with_file_def small_fd file_get_def)
next
  case (Some f)
  obtain held where h: "exact held st" "roomy held" using reach_exact [OF assms(1,2)] .
  note io = for_user_def file_read_def file_write_def with_populate_def frontend_syscall_def case_prod_unfold map_prod_def Let_def
  from Some show ?thesis
    by (auto simp: sys_read_def sys_write_def io intro!: with_file_open [OF h assms(3)])
qed

text \<open>
  C31. A file opened with \<open>sys_open\<close> and closed again is not released: the reference \<open>file_get_free\<close>
  hands to the opener is never dropped, so the slot keeps a count of 2, and the host is not asked to
  close its descriptor.
\<close>

theorem open_close_leaks:
  assumes "reach e k st" "k < 2 ^ 30" "file_get_free st = Some (f, st0)"
    and j: "j < MAX_FDS" "fds st j = None" "\<And>n. n < j \<Longrightarrow> fds st n \<noteq> None"
    and path: "strlen (user_mem e (host st)) (unat name) = Some n"
    and ans: "frontend e [56, -100, va2pa e name, of_nat (n + 1), scast flags', scast mode, 0, 0] (host st) = (ret, h)" "0 \<le> sint ret"
  shows "\<exists>st1 st2. sys_open e name flags' mode st = Some (of_nat j, st1) \<and> sys_close e (of_nat j) st1 = Some (0, st2) \<and>
    fds st2 = fds st \<and> host st2 = h \<and> refcnt (files st f) = 0 \<and> refcnt (files st2 f) = 2"
proof -
  have f: "refcnt (files st f) = 0" "st0 = set_refcnt f 2 st"
    using assms(3) by (auto simp: file_get_free_def dest: first_from_Some)
  note first = first_fromI [where p = "\<lambda>i. fds st i = None", OF j]
  let ?st1 = "st\<lparr>host := h, fds := (fds st)(j \<mapsto> f), files := (files st)(f := files st f\<lparr>kfd := ucast ret, refcnt := 3\<rparr>)\<rparr>"
  have "sys_open e name flags' mode st = Some (of_nat j, ?st1)"
    using assms(3) first path ans
    by (simp add: f(2) sys_open_def sys_openat_def at_kfd_def file_openat_def frontend_syscall_def Let_def file_dup_def file_incref_def)
      (simp add: set_refcnt_def word_greater_zero_iff)
  moreover have "sys_close e (of_nat j) ?st1 =
      Some (0, st\<lparr>host := h, fds := fds st, files := (files st)(f := files st f\<lparr>kfd := ucast ret, refcnt := 2\<rparr>)\<rparr>)"
    using j by (simp add: sys_close_def fd_close_def small_fd file_get_def Let_def file_decref_def)
      (simp add: set_refcnt_def fun_upd_idem)
  ultimately show ?thesis using f(1) by auto
qed

section \<open>Examples\<close>

text \<open>A host that answers every call with 7, and the table at the start.\<close>

definition echo :: "nat env" where
  "echo = \<lparr>frontend = \<lambda>_ h. (7, h + 1), populate = \<lambda>_ _ _ h. Some h, user_mem = \<lambda>_ _. 0, poke = \<lambda>_ _ h. h,
     stat_buf = 0, stat_of = \<lambda>_. [], stat_len = 128, write_stat = \<lambda>_ _ h. h, out_buf = 0, free_paddr = 0\<rparr>"

definition start :: "nat ftab" where
  "start = \<lparr>fds = [0 \<mapsto> 0, 1 \<mapsto> 1, 2 \<mapsto> 2],
     files = (\<lambda>_. \<lparr>kfd = -1, refcnt = 0\<rparr>)(0 := \<lparr>kfd = 0, refcnt = 3\<rparr>, 1 := \<lparr>kfd = 1, refcnt = 3\<rparr>, 2 := \<lparr>kfd = 2, refcnt = 3\<rparr>),
     host = 0\<rparr>"

lemma first_from_numeral:
  "first_from p i (numeral k) = (if p i then Some i else first_from p (i + 1) (pred_numeral k))"
  by (simp add: numeral_eq_Suc)

lemma start_reach: "reach echo 0 start"
proof (rule reach.init)
  show "file_init \<lparr>fds = \<lambda>_. None, files = \<lambda>_. \<lparr>kfd = -1, refcnt = 0\<rparr>, host = 0\<rparr> = Some start"
    by (simp add: first_from_numeral file_init_def file_get_free_def file_dup_def file_incref_def numeral_3_eq_3 set_refcnt_def
        Let_def word_greater_zero_iff start_def fun_eq_iff)
qed

lemma start_fds: "fds start 0 = Some 0" "fds start (Suc 0) = Some 1" "fds start 2 = Some 2" "2 < n \<Longrightarrow> fds start n = None"
  by (simp_all add: start_def)

theorem descriptors_stay_live_witness: "refs start 1 < unat (refcnt (files start 1))"
  using spec [OF conjunct1 [OF descriptors_stay_live [OF start_reach]], of 1] by (simp add: start_fds)

theorem dup_close_roundtrip_witness:
  "\<exists>st1. sys_dup echo 1 start = Some (3, st1) \<and> fds st1 = (fds start)(3 \<mapsto> 1) \<and> sys_close echo 3 st1 = Some (0, start)"
  using dup_close_roundtrip [OF start_reach, of 1 1 3] by (auto simp: start_def)

theorem io_passes_through_witness: "sys_write echo 1 0x1000 5 start = Some (7, start\<lparr>host := 1\<rparr>)"
  using io_passes_through [OF start_reach, of 1 "0x1000" 5]
  by (simp add: start_def echo_def)

theorem open_close_leaks_witness:
  "\<exists>st1 st2. sys_open echo 0x1000 0 0 start = Some (3, st1) \<and> sys_close echo 3 st1 = Some (0, st2) \<and>
    fds st2 = fds start \<and> host st2 = 1 \<and> refcnt (files start 3) = 0 \<and> refcnt (files st2 3) = 2"
proof -
  have "file_get_free start = Some (3, set_refcnt 3 2 start)" by (simp add: first_from_numeral file_get_free_def start_def numeral_3_eq_3)
  moreover have "strlen (user_mem echo (host start)) (unat (0x1000 :: u64)) = Some 0"
    unfolding strlen_def by (subst strlen_loop.simps) (simp add: echo_def)
  ultimately show ?thesis
    using open_close_leaks [OF start_reach, where j = 3 and name = "0x1000" and flags' = 0 and mode = 0]
    by (force simp: echo_def start_def)
qed

end
