(* ===== verification/Page_table.thy ===== *)
theory Page_table
  imports Prelude "HOL-Library.Monad_Syntax"
begin

text \<open>
  The page tables of the proxy kernel (\<open>__page_alloc\<close>, \<open>__walk\<close> and \<open>__walk_create\<close> of
  \<open>pk/pk/mmap.c\<close>, Sv39). Memory is read and written in words of 64 bits. The well-formed tables form
  a tree of distinct pages, and behave like a map from virtual pages to entries: this is the
  contract \<open>page_map\<close> the clients use. \<open>None\<close> is a failed assertion (no page is left).
\<close>

unbundle bit_operations_syntax

section \<open>Model\<close>

record ptab =
  ptm :: "u64 \<Rightarrow> u64"
  root_page_table :: u64
  first_free_page :: u64
  next_free_page :: u64
  free_pages :: u64

abbreviation (input) PGSIZE :: u64 where "PGSIZE \<equiv> 4096"

definition zero_page :: "u64 \<Rightarrow> (u64 \<Rightarrow> u64) \<Rightarrow> u64 \<Rightarrow> u64" where
  "zero_page addr m = (\<lambda>p. if p - addr < PGSIZE then 0 else m p)"

definition page_alloc :: "'a ptab_scheme \<Rightarrow> (u64 \<times> 'a ptab_scheme) option" where
  "page_alloc st =
     (if next_free_page st = free_pages st then None
      else let addr = first_free_page st + PGSIZE * next_free_page st
           in Some (addr, st\<lparr>next_free_page := next_free_page st + 1, ptm := zero_page addr (ptm st)\<rparr>))"

definition pte_ppn :: "u64 \<Rightarrow> u64" where
  "pte_ppn pte = drop_bit 10 pte"

definition ppn :: "u64 \<Rightarrow> u64" where
  "ppn addr = drop_bit 12 addr"

definition pt_idx :: "u64 \<Rightarrow> nat \<Rightarrow> u64" where
  "pt_idx addr level = drop_bit (9 * level + 12) addr AND 511"

definition pte_create :: "u64 \<Rightarrow> u64 \<Rightarrow> u64" where
  "pte_create n type = push_bit 10 n OR 1 OR type"

definition ptd_create :: "u64 \<Rightarrow> u64" where
  "ptd_create n = pte_create n 1"

text \<open>
  The loop of \<open>__walk_internal\<close> from a level down to 1: the address of the entry that stops it, or
  of the entry of the last level.
\<close>

fun descend :: "'a ptab_scheme \<Rightarrow> u64 \<Rightarrow> nat \<Rightarrow> u64 \<Rightarrow> u64 + u64" where
  "descend st addr 0 t = Inr (t + 8 * pt_idx addr 0)"
| "descend st addr (Suc i) t =
     (let p = t + 8 * pt_idx addr (Suc i)
      in if ptm st p AND 1 = 0 then Inl p else descend st addr i (push_bit 12 (pte_ppn (ptm st p))))"

definition walk :: "u64 \<Rightarrow> 'a ptab_scheme \<Rightarrow> u64 option" where
  "walk addr st = (case descend st addr 2 (root_page_table st) of Inl _ \<Rightarrow> None | Inr p \<Rightarrow> Some p)"

definition set_pte :: "u64 \<Rightarrow> u64 \<Rightarrow> 'a ptab_scheme \<Rightarrow> 'a ptab_scheme" where
  "set_pte p v st = st\<lparr>ptm := (ptm st)(p := v)\<rparr>"

partial_function (option) walk_create :: "u64 \<Rightarrow> 'a ptab_scheme \<Rightarrow> (u64 \<times> 'a ptab_scheme) option" where
  "walk_create addr st =
     (case descend st addr 2 (root_page_table st) of
        Inr p \<Rightarrow> Some (p, st)
      | Inl p \<Rightarrow> do {
          (page, st) \<leftarrow> page_alloc st;
          walk_create addr (set_pte p (ptd_create (ppn page)) st)
        })"

definition va_avail :: "'a ptab_scheme \<Rightarrow> u64 \<Rightarrow> bool" where
  "va_avail st vaddr = (case walk vaddr st of None \<Rightarrow> True | Some p \<Rightarrow> ptm st p = 0)"

section \<open>Addresses\<close>

abbreviation aligned :: "u64 \<Rightarrow> bool" where "aligned t \<equiv> 4096 dvd unat t"

lemma aligned_iff: "t AND 4095 = 0 \<longleftrightarrow> aligned t"
proof -
  have "t AND 4095 = t mod 4096" by (simp add: take_bit_eq_mask mask_eq_exp_minus_1 flip: take_bit_eq_mod [of 12, simplified])
  then show ?thesis by (simp add: word_unat_eq_iff unat_mod_distrib dvd_eq_mod_eq_0)
qed

lemma pt_idx_less: "pt_idx va i < 512"
proof -
  have "pt_idx va i = take_bit 9 (drop_bit (9 * i + 12) va)" by (simp add: pt_idx_def take_bit_eq_mask mask_eq_exp_minus_1)
  then show ?thesis by (simp add: take_bit_eq_mod word_less_nat_alt unat_mod)
qed

lemma same_multiple: "4096 * a + d = 4096 * b + e \<Longrightarrow> d < 4096 \<Longrightarrow> e < 4096 \<Longrightarrow> a = b \<and> d = (e :: nat)"
proof -
  assume e: "4096 * a + d = 4096 * b + e" and d: "d < 4096" "e < 4096"
  from d have "(4096 * a + d) div 4096 = a" "(4096 * b + e) div 4096 = b" by simp_all
  with e show ?thesis by simp
qed

lemma unat_in_page:
  assumes "aligned t" "d < 4096"
  shows "unat (t + d) = unat t + unat d"
proof -
  from assms(1) obtain c where c: "unat t = 4096 * c" by blast
  have "unat t < 2 ^ 64" using unsigned_less [of t] by simp
  with c have "c < 4503599627370496" by simp
  moreover have "unat d < 4096" using assms(2) by (simp add: word_less_nat_alt)
  ultimately have "unat t + unat d < 2 ^ 64" using c by simp
  then show ?thesis by (simp add: unat_word_ariths)
qed

lemma in_page_eq:
  assumes "aligned t" "aligned a" "d < 4096" "e < 4096" "t + d = a + e"
  shows "t = a \<and> d = e"
proof -
  have e: "unat t + unat d = unat a + unat e"
    using assms(5) unat_in_page [OF assms(1,3)] unat_in_page [OF assms(2,4)] by simp
  from assms(1,2) obtain x y where "unat t = 4096 * x" "unat a = 4096 * y" by blast
  with e assms(3,4) same_multiple [of x "unat d" y "unat e"] show ?thesis
    by (simp add: word_less_nat_alt word_unat_eq_iff)
qed

lemma slot_less: "k < 512 \<Longrightarrow> 8 * k < (4096 :: u64)"
  by (simp add: word_less_nat_alt unat_word_ariths)

lemma slot_inj:
  assumes "aligned t" "aligned t'" "k < 512" "k' < 512"
  shows "t + 8 * k = t' + 8 * k' \<longleftrightarrow> t = t' \<and> k = (k' :: u64)"
proof
  assume "t + 8 * k = t' + 8 * k'"
  from in_page_eq [OF assms(1,2) slot_less [OF assms(3)] slot_less [OF assms(4)] this]
  have "t = t'" "8 * k = 8 * k'" by simp_all
  with assms(3,4) show "t = t' \<and> k = k'"
    by (simp add: word_unat_eq_iff word_less_nat_alt unat_word_ariths)
qed simp

lemma slot_in_page:
  assumes "aligned t" "aligned a" "k < 512"
  shows "t + 8 * k - a < 4096 \<longleftrightarrow> t = a"
proof
  assume l: "t + 8 * k - a < 4096"
  from in_page_eq [OF assms(1,2) slot_less [OF assms(3)] l] show "t = a" by simp
qed (simp add: slot_less [OF assms(3)])

text \<open>An entry that points to a page leads back to it.\<close>

lemma ptd_valid [simp]: "ptd_create n AND 1 = 1" "pte_create n ty AND 1 = 1"
  by (auto simp: ptd_create_def pte_create_def bit_eq_iff bit_simps bit_1_iff)

lemma unat_less: "unat (t :: u64) < 18446744073709551616"
  using unsigned_less [of t] by simp

lemma unat_take_64 [simp]: "take_bit 64 (unat (t :: u64)) = unat t"
  using unat_less [of t] by (simp add: take_bit_nat_eq_self)

lemma small_take_bit: "unat (n :: u64) < 2 ^ k \<Longrightarrow> take_bit k n = n"
  by (simp add: word_unat_eq_iff unsigned_take_bit_eq take_bit_nat_eq_self)

lemma small_drop_bit: "unat (n :: u64) < 2 ^ k \<Longrightarrow> drop_bit k n = 0"
  unfolding word_unat_eq_iff unsigned_drop_bit_eq by (simp add: drop_bit_eq_div)

lemma pte_ppn_create:
  assumes "unat n < 2 ^ 54" "unat ty < 2 ^ 10"
  shows "pte_ppn (pte_create n ty) = n"
proof -
  have "drop_bit 10 (push_bit 10 n) = take_bit 54 n" by (rule bit_word_eqI) (auto simp: bit_simps)
  then show ?thesis
    using small_take_bit [OF assms(1)] small_drop_bit [OF assms(2)] small_drop_bit [of 1 10]
    by (simp add: pte_ppn_def pte_create_def)
qed

lemma unat_ppn: "unat (ppn t) = unat t div 4096"
  unfolding ppn_def unsigned_drop_bit_eq by (simp add: drop_bit_eq_div)

lemma ptd_page:
  assumes "aligned t"
  shows "push_bit 12 (pte_ppn (ptd_create (ppn t))) = t"
proof -
  have "unat (ppn t) < 2 ^ 54" using unat_less [of t] by (simp add: unat_ppn)
  then have "pte_ppn (ptd_create (ppn t)) = ppn t" unfolding ptd_create_def by (rule pte_ppn_create) simp
  moreover have "push_bit 12 (ppn t) = t"
  proof -
    have z: "take_bit 12 t = 0"
      using assms unfolding word_unat_eq_iff unsigned_take_bit_eq by (simp add: take_bit_eq_mod)
    have "\<not> bit t i" if "i < 12" for i
      using arg_cong [OF z, of "\<lambda>w. bit w i"] that by (simp add: bit_take_bit_iff)
    then have "bit (push_bit 12 (ppn t)) n = bit t n" if "n < 64" for n
      using that by (cases "n < 12") (auto simp: ppn_def bit_simps)
    then show ?thesis by (intro bit_word_eqI) simp
  qed
  ultimately show ?thesis by simp
qed

section \<open>The tree of tables\<close>

text \<open>
  The table at a position: the empty list is the root, \<open>k # up\<close> the table entry \<open>k\<close> of the table at
  \<open>up\<close> points to.
\<close>

fun table_at :: "'a ptab_scheme \<Rightarrow> u64 list \<Rightarrow> u64 option" where
  "table_at st [] = Some (root_page_table st)"
| "table_at st (k # up) =
     (case table_at st up of None \<Rightarrow> None
      | Some t \<Rightarrow> if ptm st (t + 8 * k) AND 1 = 0 then None else Some (push_bit 12 (pte_ppn (ptm st (t + 8 * k)))))"

definition position :: "u64 list \<Rightarrow> bool" where
  "position up \<longleftrightarrow> length up \<le> 2 \<and> (\<forall>k\<in>set up. k < 512)"

definition page_at :: "'a ptab_scheme \<Rightarrow> nat \<Rightarrow> u64" where
  "page_at st i = first_free_page st + PGSIZE * of_nat i"

definition in_use :: "'a ptab_scheme \<Rightarrow> u64 set" where
  "in_use st = page_at st ` {..<unat (next_free_page st)}"

definition room :: "'a ptab_scheme \<Rightarrow> bool" where
  "room st \<longleftrightarrow> aligned (first_free_page st) \<and> unat (first_free_page st) + 4096 * unat (free_pages st) \<le> 2 ^ 64 \<and>
     next_free_page st \<le> free_pages st"

text \<open>Tables at different positions are different pages, all of them allocated.\<close>

definition tree :: "'a ptab_scheme \<Rightarrow> bool" where
  "tree st \<longleftrightarrow> room st \<and>
     (\<forall>up t. position up \<longrightarrow> table_at st up = Some t \<longrightarrow> t \<in> in_use st) \<and>
     (\<forall>up up' t. position up \<longrightarrow> position up' \<longrightarrow> table_at st up = Some t \<longrightarrow> table_at st up' = Some t \<longrightarrow> up = up')"

definition view :: "'a ptab_scheme \<Rightarrow> u64 \<Rightarrow> u64" where
  "view st va = (case walk va st of None \<Rightarrow> 0 | Some p \<Rightarrow> ptm st p)"

definition same_page :: "u64 \<Rightarrow> u64 \<Rightarrow> bool" where
  "same_page va va' \<longleftrightarrow> (\<forall>i<3. pt_idx va i = pt_idx va' i)"

lemma unat_page_at:
  assumes "room st" "i < unat (free_pages st)"
  shows "unat (page_at st i) = unat (first_free_page st) + 4096 * i"
proof -
  have f: "unat (first_free_page st) + 4096 * unat (free_pages st) \<le> 18446744073709551616"
    using assms(1) by (simp add: room_def)
  have "unat (of_nat i :: u64) = i" using assms(2) unat_less [of "free_pages st"] by (simp add: unat_of_nat)
  then have "unat (4096 * of_nat i :: u64) = 4096 * i"
    using f assms(2) by (simp add: unat_word_ariths)
  then show ?thesis using f assms(2) by (simp add: page_at_def unat_word_ariths)
qed

lemma page_at_aligned:
  assumes "room st" "i < unat (free_pages st)"
  shows "aligned (page_at st i)"
proof -
  have "aligned (first_free_page st)" using assms(1) by (simp add: room_def)
  then show ?thesis unfolding unat_page_at [OF assms] by (rule dvd_add) simp
qed

lemma page_at_inj:
  assumes "room st" "i < unat (free_pages st)" "j < unat (free_pages st)" "page_at st i = page_at st j"
  shows "i = j"
proof -
  have "unat (first_free_page st) + 4096 * i = unat (first_free_page st) + 4096 * j"
    unfolding unat_page_at [OF assms(1,2), symmetric] unat_page_at [OF assms(1,3), symmetric] assms(4) ..
  then show ?thesis by simp
qed

lemma in_use_aligned: "room st \<Longrightarrow> t \<in> in_use st \<Longrightarrow> aligned t"
proof -
  assume r: "room st" and "t \<in> in_use st"
  then obtain i where i: "i < unat (next_free_page st)" "t = page_at st i" by (auto simp: in_use_def)
  have "unat (next_free_page st) \<le> unat (free_pages st)" using r by (simp add: room_def word_le_nat_alt)
  with i r show "aligned t" by (simp add: page_at_aligned)
qed

lemma table_aligned: "tree st \<Longrightarrow> position up \<Longrightarrow> table_at st up = Some t \<Longrightarrow> aligned t"
  unfolding tree_def by (metis in_use_aligned)

lemma position_Cons [simp]: "position (k # up) \<longleftrightarrow> k < 512 \<and> length up < 2 \<and> position up"
  by (auto simp: position_def)

lemma position_Nil [simp]: "position []" by (simp add: position_def)

text \<open>The walk reads the tables at the positions its indices name.\<close>

lemma walk_eq:
  "walk va st = map_option (\<lambda>t. t + 8 * pt_idx va 0) (table_at st [pt_idx va 1, pt_idx va 2])"
  by (simp add: walk_def numeral_2_eq_2 Let_def)

lemma view_eq:
  "view st va = (case table_at st [pt_idx va 1, pt_idx va 2] of None \<Rightarrow> 0 | Some t \<Rightarrow> ptm st (t + 8 * pt_idx va 0))"
  by (simp add: view_def walk_eq split: option.splits)

lemma position_idx [simp]: "position [pt_idx va i, pt_idx va j]" "position [pt_idx va i]"
  by (simp_all add: pt_idx_less)

section \<open>Growing the tree\<close>

lemma page_alloc_fresh:
  assumes "room st" "page_alloc st = Some (pg, st')"
  shows "aligned pg" "pg \<notin> in_use st" "in_use st' = insert pg (in_use st)" "room st'"
    "unat (next_free_page st') = unat (next_free_page st) + 1"
    "\<exists>m n. st' = st\<lparr>ptm := m, next_free_page := n\<rparr>"
    "\<And>t k. aligned t \<Longrightarrow> k < 512 \<Longrightarrow> ptm st' (t + 8 * k) = (if t = pg then 0 else ptm st (t + 8 * k))"
proof -
  have lt: "unat (next_free_page st) < unat (free_pages st)"
    using assms by (auto simp: room_def page_alloc_def word_le_nat_alt word_unat_eq_iff split: if_splits)
  have pg: "pg = page_at st (unat (next_free_page st))"
    and st': "st' = st\<lparr>next_free_page := next_free_page st + 1, ptm := zero_page pg (ptm st)\<rparr>"
    using assms(2) by (auto simp: page_alloc_def page_at_def Let_def split: if_splits)
  show al: "aligned pg" unfolding pg using assms(1) lt by (rule page_at_aligned)
  show "pg \<notin> in_use st"
  proof
    assume "pg \<in> in_use st"
    then obtain i where "i < unat (next_free_page st)" "pg = page_at st i" by (auto simp: in_use_def)
    with page_at_inj [OF assms(1) lt, of i] lt pg show False by simp
  qed
  have n: "unat (next_free_page st + 1) = unat (next_free_page st) + 1"
    using lt unat_less [of "free_pages st"] by (simp add: unat_word_ariths)
  have "page_at st' = page_at st" by (simp add: st' page_at_def fun_eq_iff)
  then show "in_use st' = insert pg (in_use st)"
    unfolding in_use_def pg using n by (simp add: st' lessThan_Suc)
  show "room st'" using assms(1) lt n by (simp add: room_def st' word_le_nat_alt)
  show "unat (next_free_page st') = unat (next_free_page st) + 1" using n by (simp add: st')
  show "\<exists>m n. st' = st\<lparr>ptm := m, next_free_page := n\<rparr>"
    by (rule exI [of _ "zero_page pg (ptm st)"], rule exI [of _ "next_free_page st + 1"]) (simp add: st')
  show "ptm st' (t + 8 * k) = (if t = pg then 0 else ptm st (t + 8 * k))" if "aligned t" "k < 512" for t k
    using slot_in_page [OF that(1) al that(2)] by (simp add: st' zero_page_def)
qed

text \<open>A new, empty table behind an entry that was not valid.\<close>

lemma grow_step:
  assumes tree: "tree st" and pos: "position (k # up)" and t: "table_at st up = Some t" "ptm st (t + 8 * k) AND 1 = 0"
    and pg: "page_alloc st = Some (pg, st1)"
  defines "st2 \<equiv> set_pte (t + 8 * k) (ptd_create (ppn pg)) st1"
  shows "tree st2" "\<And>p. position p \<Longrightarrow> table_at st2 p = (if p = k # up then Some pg else table_at st p)"
    "\<And>va. view st2 va = view st va"
proof -
  have room: "room st" using tree by (simp add: tree_def)
  note fresh = page_alloc_fresh [OF room pg]
  have k: "k < 512" and up: "position up" using pos by simp_all
  have use: "\<And>p x. position p \<Longrightarrow> table_at st p = Some x \<Longrightarrow> x \<in> in_use st \<and> aligned x \<and> x \<noteq> pg"
    using tree fresh(2) in_use_aligned [OF room] unfolding tree_def by blast
  have t': "aligned t" "t \<noteq> pg" using use [OF up t(1)] by simp_all
  have slot: "ptm st2 (x + 8 * a) = (if x = t \<and> a = k then ptd_create (ppn pg) else if x = pg then 0 else ptm st (x + 8 * a))"
    if "aligned x" "a < 512" for x a
    using that slot_inj [OF that(1) t'(1) that(2) k] fresh(7) [OF that] by (cases "x = pg") (auto simp: st2_def set_pte_def)
  have root: "root_page_table st2 = root_page_table st" using fresh(6) by (auto simp: st2_def set_pte_def)
  have eq_up: "x = t \<longleftrightarrow> q = up" if "position q" "table_at st q = Some x" for q x
    using tree up t(1) that unfolding tree_def by (metis option.inject)
  show tab: "table_at st2 p = (if p = k # up then Some pg else table_at st p)" if "position p" for p
    using that
  proof (induction p)
    case Nil
    show ?case by (simp add: root)
  next
    case (Cons a q)
    then have q: "position q" "a < 512" by simp_all
    note IH = Cons.IH [OF q(1)]
    show ?case
    proof (cases "q = k # up")
      case True
      with IH q fresh(1) t t'(2) show ?thesis by (simp add: slot)
    next
      case False
      show ?thesis
      proof (cases "table_at st q")
        case None
        with IH False t(1) show ?thesis by auto
      next
        case (Some x)
        then have "aligned x" "x \<noteq> pg" using use [OF q(1)] by simp_all
        then have "ptm st2 (x + 8 * a) = (if q = up \<and> a = k then ptd_create (ppn pg) else ptm st (x + 8 * a))"
          using slot [OF _ q(2)] eq_up [OF q(1) Some] by simp
        with IH False Some ptd_page [OF fresh(1)] show ?thesis by (cases "q = up \<and> a = k") auto
      qed
    qed
  qed
  have use2: "in_use st2 = insert pg (in_use st)" "room st2"
    using fresh(3,4) by (simp_all add: st2_def set_pte_def in_use_def page_at_def room_def)
  show "tree st2"
    unfolding tree_def
  proof (intro conjI allI impI)
    show "x \<in> in_use st2" if "position p" "table_at st2 p = Some x" for p x
      using that use tab [OF that(1)] use2(1) by (auto split: if_splits)
    show "p = p'" if "position p" "position p'" "table_at st2 p = Some x" "table_at st2 p' = Some x" for p p' x
      using that use tab [OF that(1)] tab [OF that(2)] tree unfolding tree_def by (metis option.inject)
  qed (rule use2(2))
  show "view st2 va = view st va" for va
  proof (cases "[pt_idx va 1, pt_idx va 2] = k # up")
    case True
    then have "table_at st [pt_idx va 1, pt_idx va 2] = None" using t by simp
    moreover have "table_at st2 [pt_idx va 1, pt_idx va 2] = Some pg" using tab [OF position_idx(1)] True by metis
    ultimately show ?thesis using t'(2) slot [OF fresh(1) pt_idx_less [of va 0]]
      by (simp add: view_eq del: table_at.simps)
  next
    case False
    then have eq: "table_at st2 [pt_idx va 1, pt_idx va 2] = table_at st [pt_idx va 1, pt_idx va 2]"
      using tab [OF position_idx(1)] by metis
    show ?thesis
    proof (cases "table_at st [pt_idx va 1, pt_idx va 2]")
      case None
      with eq show ?thesis by (simp add: view_eq del: table_at.simps)
    next
      case (Some x)
      have "x \<noteq> t" using eq_up [OF position_idx(1) Some] pos by auto
      with Some eq use [OF position_idx(1) Some] show ?thesis
        by (simp add: view_eq slot pt_idx_less del: table_at.simps)
    qed
  qed
qed

text \<open>Storing an entry of the last level.\<close>

lemma set_pte_leaf:
  assumes tree: "tree st" and p: "walk va st = Some p"
  shows "tree (set_pte p v st)" "\<And>va'. walk va' (set_pte p v st) = walk va' st"
    "\<And>va'. view (set_pte p v st) va' = (if same_page va va' then v else view st va')"
proof -
  let ?leaf = "[pt_idx va 1, pt_idx va 2]"
  obtain t where t: "table_at st ?leaf = Some t" "p = t + 8 * pt_idx va 0" using p by (auto simp: walk_eq simp del: table_at.simps)
  have al: "aligned t" using table_aligned [OF tree position_idx(1) t(1)] .
  have same: "x = t \<longleftrightarrow> q = ?leaf" if "position q" "table_at st q = Some x" for q x
    using tree that t(1) position_idx(1) unfolding tree_def by (metis option.inject)
  have slot: "ptm (set_pte p v st) (x + 8 * a) = (if x = t \<and> a = pt_idx va 0 then v else ptm st (x + 8 * a))"
    if "aligned x" "a < 512" for x a
    using slot_inj [OF that(1) al that(2) pt_idx_less [of va 0]] by (auto simp: set_pte_def t(2))
  have tab: "table_at (set_pte p v st) q = table_at st q" if "position q" for q
    using that
  proof (induction q)
    case (Cons a q)
    then have q: "position q" "a < 512" "length q < 2" by simp_all
    show ?case
    proof (cases "table_at st q")
      case (Some x)
      with same [OF q(1) Some] q have "x \<noteq> t" by auto
      with Some Cons.IH [OF q(1)] slot [OF table_aligned [OF tree q(1) Some] q(2)] show ?thesis by simp
    qed (use Cons.IH [OF q(1)] in simp)
  qed (simp add: set_pte_def)
  have "in_use (set_pte p v st) = in_use st" "room (set_pte p v st) = room st"
    by (simp_all add: set_pte_def in_use_def page_at_def room_def)
  with tree show "tree (set_pte p v st)" unfolding tree_def by (metis tab)
  show "walk va' (set_pte p v st) = walk va' st" for va'
    by (simp add: walk_eq tab pt_idx_less del: table_at.simps)
  show "view (set_pte p v st) va' = (if same_page va va' then v else view st va')" for va'
  proof -
    have sp: "same_page va va' \<longleftrightarrow> pt_idx va' 0 = pt_idx va 0 \<and> [pt_idx va' 1, pt_idx va' 2] = ?leaf"
      by (auto simp: same_page_def numeral_3_eq_3 less_Suc_eq numeral_2_eq_2)
    show ?thesis
    proof (cases "table_at st [pt_idx va' 1, pt_idx va' 2]")
      case None
      with t(1) sp show ?thesis by (auto simp: view_eq tab pt_idx_less simp del: table_at.simps)
    next
      case (Some x)
      with same [OF position_idx(1) Some] sp table_aligned [OF tree position_idx(1) Some] show ?thesis
        by (auto simp: view_eq tab slot pt_idx_less simp del: table_at.simps)
    qed
  qed
qed

text \<open>What the walk that creates tables does to the state: pages are taken, no entry changes.\<close>

definition grown :: "'a ptab_scheme \<Rightarrow> 'a ptab_scheme \<Rightarrow> bool" where
  "grown st st' \<longleftrightarrow> tree st' \<and> view st' = view st \<and> unat (next_free_page st) \<le> unat (next_free_page st') \<and>
     st\<lparr>ptm := ptm st', next_free_page := next_free_page st'\<rparr> = st'"

lemma grown_refl: "tree st \<Longrightarrow> grown st st"
  by (simp add: grown_def)

lemma grown_trans: "grown a b \<Longrightarrow> grown b c \<Longrightarrow> grown a c"
  unfolding grown_def by (cases a; cases b; cases c) simp

lemma grown_step:
  assumes "tree st" "position (k # up)" "table_at st up = Some t" "ptm st (t + 8 * k) AND 1 = 0" "page_alloc st = Some (pg, st1)"
  shows "grown st (set_pte (t + 8 * k) (ptd_create (ppn pg)) st1)"
proof -
  have room: "room st" using assms(1) by (simp add: tree_def)
  note g = grow_step [OF assms] and f = page_alloc_fresh [OF room assms(5)]
  from f(6) obtain m n where st1: "st1 = st\<lparr>ptm := m, next_free_page := n\<rparr>" by blast
  have "view (set_pte (t + 8 * k) (ptd_create (ppn pg)) st1) = view st" using g(3) by blast
  moreover have "unat (next_free_page (set_pte (t + 8 * k) (ptd_create (ppn pg)) st1)) = unat (next_free_page st) + 1"
    using f(5) by (simp add: set_pte_def)
  ultimately show ?thesis using g(1) unfolding grown_def by (simp add: set_pte_def st1)
qed

lemma descend_eq:
  "descend st va 2 (root_page_table st) =
     (case table_at st [pt_idx va 2] of None \<Rightarrow> Inl (root_page_table st + 8 * pt_idx va 2)
      | Some t \<Rightarrow> (case table_at st [pt_idx va 1, pt_idx va 2] of None \<Rightarrow> Inl (t + 8 * pt_idx va 1)
                   | Some t0 \<Rightarrow> Inr (t0 + 8 * pt_idx va 0)))"
  by (simp add: numeral_2_eq_2 Let_def)

lemma page_alloc_Some: "next_free_page st \<noteq> free_pages st \<Longrightarrow> \<exists>pg st'. page_alloc st = Some (pg, st')"
  by (simp add: page_alloc_def Let_def)

text \<open>Three rounds at most: the tables of the two upper levels are made, then the walk succeeds.\<close>

lemma walk_create_found: "table_at st [pt_idx va 1, pt_idx va 2] = Some t \<Longrightarrow> walk_create va st = Some (t + 8 * pt_idx va 0, st)"
  by (subst walk_create.simps) (auto simp: descend_eq simp del: table_at.simps split: option.splits, auto split: option.splits)

lemma walk_create_leaf:
  assumes "tree st" "table_at st [pt_idx va 2] = Some t" "table_at st [pt_idx va 1, pt_idx va 2] = None"
  shows "case page_alloc st of None \<Rightarrow> walk_create va st = None
    | Some (pg, st1) \<Rightarrow> \<exists>p st'. walk_create va st = Some (p, st') \<and> grown st st' \<and> walk va st' = Some p \<and>
        unat (next_free_page st') \<le> unat (next_free_page st) + 1"
proof (cases "page_alloc st")
  case None
  then show ?thesis by (subst walk_create.simps) (use assms in \<open>simp add: descend_eq del: table_at.simps\<close>)
next
  case (Some r)
  then obtain pg st1 where pg: "page_alloc st = Some (pg, st1)" by (cases r) auto
  let ?st = "set_pte (t + 8 * pt_idx va 1) (ptd_create (ppn pg)) st1"
  have room: "room st" using assms(1) by (simp add: tree_def)
  have inv: "ptm st (t + 8 * pt_idx va 1) AND 1 = 0" using assms(2,3) by (auto split: if_splits)
  note g = grown_step [OF assms(1) position_idx(1) assms(2) inv pg] grow_step(2) [OF assms(1) position_idx(1) assms(2) inv pg position_idx(1) [of va 1 2]]
  then have tab: "table_at ?st [pt_idx va 1, pt_idx va 2] = Some pg" by simp
  have "walk_create va st = walk_create va ?st"
    by (subst walk_create.simps) (use assms pg in \<open>simp add: descend_eq del: table_at.simps\<close>)
  also have "\<dots> = Some (pg + 8 * pt_idx va 0, ?st)" using walk_create_found [OF tab] .
  finally have "walk_create va st = Some (pg + 8 * pt_idx va 0, ?st)" .
  moreover have "walk va ?st = Some (pg + 8 * pt_idx va 0)" unfolding walk_eq tab by simp
  moreover have "unat (next_free_page ?st) = unat (next_free_page st) + 1"
    using page_alloc_fresh(5) [OF room pg] by (simp add: set_pte_def)
  ultimately show ?thesis using g(1) pg by auto
qed

lemma walk_create_spec:
  assumes "tree st"
  shows "case walk_create va st of None \<Rightarrow> unat (free_pages st) < unat (next_free_page st) + 2
    | Some (p, st') \<Rightarrow> grown st st' \<and> walk va st' = Some p \<and> unat (next_free_page st') \<le> unat (next_free_page st) + 2"
proof (cases "table_at st [pt_idx va 1, pt_idx va 2]")
  case (Some t)
  then have "walk va st = Some (t + 8 * pt_idx va 0)" by (simp add: walk_eq del: table_at.simps)
  with walk_create_found [OF Some] assms show ?thesis by (simp add: grown_refl)
next
  case None
  have room: "room st" using assms by (simp add: tree_def)
  have full: "unat (free_pages s) \<le> unat (next_free_page s)" if "page_alloc s = None" for s :: "'a ptab_scheme"
    using that page_alloc_Some [of s] by (cases "next_free_page s = free_pages s") auto
  show ?thesis
  proof (cases "table_at st [pt_idx va 2]")
    case (Some t)
    from walk_create_leaf [OF assms Some None] full [of st] show ?thesis by (fastforce split: option.splits)
  next
    case upper: None
    show ?thesis
    proof (cases "page_alloc st")
      case None
      then have "walk_create va st = None"
        by (subst walk_create.simps) (use upper in \<open>simp add: descend_eq del: table_at.simps\<close>)
      with full [OF None] show ?thesis by simp
    next
      case (Some r)
      then obtain pg st1 where pg: "page_alloc st = Some (pg, st1)" by (cases r) auto
      let ?st = "set_pte (root_page_table st + 8 * pt_idx va 2) (ptd_create (ppn pg)) st1"
      have inv: "ptm st (root_page_table st + 8 * pt_idx va 2) AND 1 = 0" using upper by (auto split: if_splits)
      note args = assms position_idx(2) table_at.simps(1) inv pg
      have g: "grown st ?st" using grown_step [OF args] .
      have tab: "table_at ?st [pt_idx va 2] = Some pg" "table_at ?st [pt_idx va 1, pt_idx va 2] = None"
        using grow_step(2) [OF args position_idx(2) [of va 2]] grow_step(2) [OF args position_idx(1) [of va 1 2]] None
        by (simp_all del: table_at.simps)
      have step: "walk_create va st = walk_create va ?st"
        by (subst walk_create.simps) (use upper pg in \<open>simp add: descend_eq del: table_at.simps\<close>)
      have n: "unat (next_free_page ?st) = unat (next_free_page st) + 1" "free_pages ?st = free_pages st" "tree ?st"
        using page_alloc_fresh(5,6) [OF room pg] g by (auto simp: set_pte_def grown_def)
      have "unat (free_pages ?st) \<le> unat (next_free_page ?st)" if "page_alloc ?st = None"
        using full [OF that] .
      with walk_create_leaf [OF n(3) tab] grown_trans [OF g] n(1,2) show ?thesis
        unfolding step by (fastforce split: option.splits)
    qed
  qed
qed

section \<open>Page tables as a map\<close>

text \<open>
  What the users of the tables rely on: a view from addresses to entries, the entry behind an
  address (if its table exists), the entry made on demand, and a store to an entry.
\<close>

locale page_map =
  fixes ok :: "'s \<Rightarrow> bool" and entry :: "'s \<Rightarrow> u64 \<Rightarrow> u64" and find :: "u64 \<Rightarrow> 's \<Rightarrow> 'p option"
    and create :: "u64 \<Rightarrow> 's \<Rightarrow> ('p \<times> 's) option" and content :: "'s \<Rightarrow> 'p \<Rightarrow> u64" and put :: "'p \<Rightarrow> u64 \<Rightarrow> 's \<Rightarrow> 's"
  assumes find_entry: "entry s va = (case find va s of None \<Rightarrow> 0 | Some p \<Rightarrow> content s p)"
    and put_ok: "ok s \<Longrightarrow> find va s = Some p \<Longrightarrow> ok (put p v s)"
    and put_entry: "ok s \<Longrightarrow> find va s = Some p \<Longrightarrow> entry (put p v s) va' = (if same_page va va' then v else entry s va')"
    and create_ok: "ok s \<Longrightarrow> create va s = Some (p, s') \<Longrightarrow> ok s'"
    and create_entry: "ok s \<Longrightarrow> create va s = Some (p, s') \<Longrightarrow> entry s' = entry s"
    and create_find: "ok s \<Longrightarrow> create va s = Some (p, s') \<Longrightarrow> find va s' = Some p"
begin

lemma created_content:
  assumes "ok s" "create va s = Some (p, s')"
  shows "content s' p = entry s va"
  using find_entry [of s' va] create_find [OF assms] create_entry [OF assms] by simp

lemma map_page:
  assumes "ok s" "create va s = Some (p, s')"
  shows "ok (put p v s')" "entry (put p v s') va' = (if same_page va va' then v else entry s va')"
  using put_ok [OF create_ok [OF assms] create_find [OF assms]]
    put_entry [OF create_ok [OF assms] create_find [OF assms]] create_entry [OF assms] by simp_all

lemma unmapped: "find va s = None \<Longrightarrow> entry s va = 0"
  by (simp add: find_entry)

lemma mapped: "find va s = Some p \<Longrightarrow> entry s va = content s p"
  by (simp add: find_entry)

lemma present: "entry s va \<noteq> 0 \<Longrightarrow> \<exists>p. find va s = Some p"
  by (cases "find va s") (auto simp: find_entry)

end

interpretation pt: page_map tree view walk walk_create ptm set_pte
proof
  fix s :: "'a ptab_scheme" and va p v va' s'
  show "view s va = (case walk va s of None \<Rightarrow> 0 | Some p \<Rightarrow> ptm s p)" by (simp add: view_def)
  show "tree (set_pte p v s)" "view (set_pte p v s) va' = (if same_page va va' then v else view s va')"
    if "tree s" "walk va s = Some p"
    using set_pte_leaf [OF that] by simp_all
  assume "tree s" "walk_create va s = Some (p, s')"
  then show "tree s'" "view s' = view s" "walk va s' = Some p"
    using walk_create_spec [of s va] by (simp_all add: grown_def)
qed

lemma va_avail_view: "va_avail st va \<longleftrightarrow> view st va = 0"
  by (simp add: va_avail_def view_def split: option.splits)

text \<open>The walk looks at bits 12 to 38 of the address.\<close>

lemma bit_pt_idx: "bit (pt_idx va i) k \<longleftrightarrow> k < 9 \<and> bit va (9 * i + 12 + k)"
proof -
  have "pt_idx va i = take_bit 9 (drop_bit (9 * i + 12) va)" by (simp add: pt_idx_def take_bit_eq_mask mask_eq_exp_minus_1)
  then show ?thesis by (simp add: bit_take_bit_iff bit_drop_bit_eq)
qed

lemma same_page_bits: "same_page va va' \<longleftrightarrow> take_bit 27 (drop_bit 12 va) = take_bit 27 (drop_bit 12 va')"
proof
  assume same: "same_page va va'"
  show "take_bit 27 (drop_bit 12 va) = take_bit 27 (drop_bit 12 va')"
  proof (rule bit_word_eqI)
    fix n :: nat
    let ?i = "n div 9" and ?k = "n mod 9"
    have n: "9 * ?i + 12 + ?k = 12 + n" by simp
    have "?i < 3" if "n < 27" using that by simp
    then have "bit va (12 + n) = bit va' (12 + n)" if "n < 27"
      using same that bit_pt_idx [of va ?i ?k] bit_pt_idx [of va' ?i ?k] unfolding same_page_def n by simp
    then show "bit (take_bit 27 (drop_bit 12 va)) n = bit (take_bit 27 (drop_bit 12 va')) n"
      by (auto simp: bit_take_bit_iff bit_drop_bit_eq)
  qed
next
  assume eq: "take_bit 27 (drop_bit 12 va) = take_bit 27 (drop_bit 12 va')"
  have "bit va (12 + n) = bit va' (12 + n)" if "n < 27" for n
    using arg_cong [OF eq, of "\<lambda>w. bit w n"] that by (simp add: bit_take_bit_iff bit_drop_bit_eq)
  from this [of "9 * i + k" for i k] have b: "bit va (9 * i + 12 + k) = bit va' (9 * i + 12 + k)" if "i < 3" "k < 9" for i k
    using that by (simp add: ac_simps)
  show "same_page va va'"
    unfolding same_page_def
  proof (intro allI impI bit_word_eqI)
    fix i k :: nat
    assume "i < 3"
    then show "bit (pt_idx va i) k = bit (pt_idx va' i) k" using b by (auto simp: bit_pt_idx)
  qed
qed

lemma same_page_low:
  assumes "aligned a" "aligned b" "unat a < 2 ^ 39" "unat b < 2 ^ 39"
  shows "same_page a b \<longleftrightarrow> a = b"
proof -
  have low: "unat (take_bit 27 (drop_bit 12 x)) = unat x div 4096" if "unat x < 2 ^ 39" for x :: u64
  proof -
    have "unat (drop_bit 12 x) = unat x div 4096" using unat_ppn [of x] by (simp add: ppn_def)
    moreover from this that have "unat (drop_bit 12 x) < 2 ^ 27" by simp
    ultimately show ?thesis by (simp add: small_take_bit)
  qed
  show ?thesis
    unfolding same_page_bits word_unat_eq_iff low [OF assms(3)] low [OF assms(4)] using assms(1,2) by (auto elim!: dvdE)
qed

text \<open>
  C2. The page tables refine a map from pages to entries: asking for the entry of an address and
  storing to it changes the map at the pages with the same number (bits 12 to 38) and nowhere else,
  and keeps the tables a tree; the request returns whenever two pages are left.
\<close>

theorem page_tables_refine_map:
  assumes "tree st"
  shows "case walk_create va st of
      None \<Rightarrow> unat (free_pages st) < unat (next_free_page st) + 2
    | Some (p, st') \<Rightarrow> ptm st' p = view st va \<and> tree (set_pte p v st') \<and>
        view (set_pte p v st') = (\<lambda>va'. if same_page va va' then v else view st va')"
  using walk_create_spec [OF assms, of va] pt.map_page [OF assms] pt.created_content [OF assms]
  by (fastforce split: option.splits simp: fun_eq_iff)

definition boot_pt :: ptab where
  "boot_pt = \<lparr>ptm = \<lambda>_. 0, root_page_table = 0x80200000, first_free_page = 0x80200000, next_free_page = 1, free_pages = 8\<rparr>"

lemma boot_pt_tree: "tree boot_pt"
proof -
  have t: "table_at boot_pt up = (if up = [] then Some 0x80200000 else None)" for up
    by (induction up) (auto simp: boot_pt_def)
  have "in_use boot_pt = {0x80200000}" by (auto simp: in_use_def page_at_def boot_pt_def)
  then show ?thesis by (auto simp: tree_def room_def t, auto simp: boot_pt_def)
qed

theorem page_tables_refine_map_witness:
  "\<exists>p st'. walk_create 0x10000 boot_pt = Some (p, st') \<and> view (set_pte p 7 st') 0x10fff = 7 \<and> view (set_pte p 7 st') 0x11000 = 0"
proof -
  have v: "view boot_pt va = 0" for va by (simp add: view_def boot_pt_def walk_eq)
  have s: "same_page 0x10000 0x10fff" "\<not> same_page 0x10000 0x11000"
    by (simp_all add: same_page_bits take_bit_eq_mod drop_bit_eq_div)
  obtain p st' where w: "walk_create 0x10000 boot_pt = Some (p, st')"
    using page_tables_refine_map [OF boot_pt_tree, of "0x10000"]
    by (cases "walk_create 0x10000 boot_pt") (auto simp: boot_pt_def)
  from page_tables_refine_map [OF boot_pt_tree, of "0x10000" 7] w v s show ?thesis by simp
qed

section \<open>Pages by number\<close>

abbreviation (input) NPAGES :: nat where "NPAGES \<equiv> 134217728"

definition vpn_of :: "u64 \<Rightarrow> nat" where
  "vpn_of va = unat (take_bit 27 (drop_bit 12 va))"

definition page_addr :: "nat \<Rightarrow> u64" where
  "page_addr n = 4096 * of_nat n"

definition pmap :: "'a ptab_scheme \<Rightarrow> nat \<Rightarrow> u64" where
  "pmap st n = view st (page_addr n)"

lemma same_page_vpn: "same_page va va' \<longleftrightarrow> vpn_of va = vpn_of va'"
  by (simp add: same_page_bits vpn_of_def word_unat_eq_iff)

lemma vpn_of_less: "vpn_of va < NPAGES"
  unfolding vpn_of_def unsigned_take_bit_eq by (simp add: take_bit_eq_mod)

lemma vpn_of_low: "unat a < 549755813888 \<Longrightarrow> vpn_of a = unat a div 4096"
proof -
  assume a: "unat a < 549755813888"
  have "unat (drop_bit 12 a) = unat a div 4096" using unat_ppn [of a] by (simp add: ppn_def)
  moreover from this a have "unat (drop_bit 12 a) < NPAGES" by simp
  ultimately show ?thesis by (simp add: vpn_of_def small_take_bit)
qed

lemma unat_page_addr: "n < NPAGES \<Longrightarrow> unat (page_addr n) = 4096 * n"
  by (simp add: page_addr_def unat_word_ariths unat_of_nat)

lemma vpn_page_addr [simp]: "n < NPAGES \<Longrightarrow> vpn_of (page_addr n) = n"
  using unat_page_addr [of n] vpn_of_low [of "page_addr n"] by simp

lemma view_pmap: "view st va = pmap st (vpn_of va)"
proof -
  have "same_page va (page_addr (vpn_of va))" by (simp add: same_page_vpn vpn_of_less)
  then have "pt_idx va i = pt_idx (page_addr (vpn_of va)) i" if "i < 3" for i using that by (simp add: same_page_def)
  from this [of 0] this [of 1] this [of 2] show ?thesis by (auto simp: pmap_def view_eq simp del: table_at.simps split: option.splits)
qed

lemma pmap_set_pte:
  assumes "tree st" "walk va st = Some p" "n < NPAGES"
  shows "pmap (set_pte p v st) n = ((pmap st)(vpn_of va := v)) n"
  using pt.put_entry [OF assms(1,2)] assms(3) by (simp add: pmap_def same_page_vpn)

text \<open>How often a value occurs in the map.\<close>

definition occurs :: "(nat \<Rightarrow> u64) \<Rightarrow> u64 \<Rightarrow> nat" where
  "occurs f x = card {n. n < NPAGES \<and> f n = x}"

lemma occurs_le: "occurs f x \<le> NPAGES"
  unfolding occurs_def using card_mono [of "{..<NPAGES}" "{n. n < NPAGES \<and> f n = x}"] by fastforce

lemma occurs_cong: "(\<And>n. n < NPAGES \<Longrightarrow> f n = g n) \<Longrightarrow> occurs f x = occurs g x"
  unfolding occurs_def by (metis (mono_tags, lifting))

lemma occurs_upd:
  assumes "k < NPAGES"
  shows "occurs (f(k := v)) x + (if f k = x then 1 else 0) = occurs f x + (if v = x then 1 else 0)"
proof -
  let ?A = "{n. n < NPAGES \<and> n \<noteq> k \<and> f n = x}"
  have fin: "finite ?A" "k \<notin> ?A" by simp_all
  have "{n. n < NPAGES \<and> (f(k := v)) n = x} = (if v = x then insert k ?A else ?A)"
    "{n. n < NPAGES \<and> f n = x} = (if f k = x then insert k ?A else ?A)"
    using assms by auto
  then show ?thesis using fin by (simp add: occurs_def)
qed

lemma occurs_pos: "k < NPAGES \<Longrightarrow> f k = x \<Longrightarrow> 0 < occurs f x"
  unfolding occurs_def by (subst card_gt_0_iff) auto

lemma occurs_zero: "occurs f x = 0 \<Longrightarrow> k < NPAGES \<Longrightarrow> f k \<noteq> x"
  using occurs_pos [of k f x] by auto

text \<open>Taking a page for another purpose changes no entry.\<close>

lemma page_alloc_grown:
  assumes "tree st" "page_alloc st = Some (pg, st')"
  shows "grown st st'" "pg \<noteq> 0 \<Longrightarrow> aligned pg"
proof -
  have room: "room st" using assms(1) by (simp add: tree_def)
  note fresh = page_alloc_fresh [OF room assms(2)]
  have use: "x \<in> in_use st" "aligned x" "x \<noteq> pg" if "position p" "table_at st p = Some x" for p x
    using assms(1) that fresh(2) in_use_aligned [OF room] unfolding tree_def by blast+
  have st': "st\<lparr>ptm := ptm st', next_free_page := next_free_page st'\<rparr> = st'" using fresh(6) by auto
  have root: "root_page_table st' = root_page_table st" using st' by (metis ptab.ext_inject ptab.surjective ptab.update_convs(1,4))
  have tab: "table_at st' p = table_at st p" if "position p" for p
    using that by (induction p) (auto simp: root fresh(7) use split: option.splits)
  have "view st' va = view st va" for va
    using tab [OF position_idx(1), of va 1 2] use [OF position_idx(1), of va 1 2]
    by (auto simp: view_eq fresh(7) pt_idx_less simp del: table_at.simps split: option.splits)
  moreover have "tree st'" using assms(1) fresh(3,4) tab unfolding tree_def by (metis insertCI)
  ultimately show "grown st st'" using st' fresh(5) by (auto simp: grown_def)
  show "aligned pg" by (rule fresh(1))
qed

end
