(* ===== verification/Vm.thy ===== *)
theory Vm
  imports Page_table Console Syscalls
begin

text \<open>
  The virtual memory of a process (\<open>pk/pk/mmap.c\<close>). Mappings are lazy: \<open>__do_mmap\<close> stores a pointer
  to a record of the mapping in the entries of its pages, and the page fault handler replaces it by a
  translation. The state holds the page tables, the table of 102 mapping records, the break and
  the bounds of the process, and the file table. \<open>None\<close> is a call that does not return: a failed
  assertion or an endless loop.
\<close>

unbundle bit_operations_syntax

section \<open>Model\<close>

record vmr_t =
  v_addr :: u64
  v_length :: u64
  v_file :: "nat option"
  v_offset :: u64
  v_refcnt :: u32
  v_prot :: u32

record 'h vm = ptab +
  vmrs :: u64
  vmr_tab :: "nat \<Rightarrow> vmr_t"
  first_free_paddr :: u64
  demand_paging :: bool
  brk_min :: u64
  brk :: u64
  brk_max :: u64
  mmap_max :: u64
  stack_top :: u64
  sptbr :: u64
  ft :: "'h ftab"

abbreviation (input) MAX_VMR :: nat where "MAX_VMR \<equiv> 102"
abbreviation (input) PROT_READ :: u32 where "PROT_READ \<equiv> 1"
abbreviation (input) PROT_WRITE :: u32 where "PROT_WRITE \<equiv> 2"
abbreviation (input) PROT_EXEC :: u32 where "PROT_EXEC \<equiv> 4"
abbreviation (input) MAP_PRIVATE :: u32 where "MAP_PRIVATE \<equiv> 0x2"
abbreviation (input) MAP_FIXED :: u32 where "MAP_FIXED \<equiv> 0x10"
abbreviation (input) MAP_ANONYMOUS :: u32 where "MAP_ANONYMOUS \<equiv> 0x20"
abbreviation (input) MAP_POPULATE :: u32 where "MAP_POPULATE \<equiv> 0x8000"
abbreviation (input) PTE_V :: u64 where "PTE_V \<equiv> 1"
abbreviation (input) PTE_U :: u64 where "PTE_U \<equiv> 0x10"
abbreviation (input) DRAM_BASE :: u64 where "DRAM_BASE \<equiv> 0x80000000"
abbreviation (input) EINVAL :: u64 where "EINVAL \<equiv> 22"
abbreviation (input) EACCES :: u64 where "EACCES \<equiv> 13"
abbreviation (input) ENOSYS :: u64 where "ENOSYS \<equiv> 38"

definition ROUNDUP :: "u64 \<Rightarrow> u64 \<Rightarrow> u64" where
  "ROUNDUP a b = ((a - 1) div b + 1) * b"

definition ROUNDDOWN :: "u64 \<Rightarrow> u64 \<Rightarrow> u64" where
  "ROUNDDOWN a b = a div b * b"

text \<open>\<open>va2pa\<close> in the file layer reads the variable of this file.\<close>

definition kenv :: "'h env \<Rightarrow> 'h vm \<Rightarrow> 'h env" where
  "kenv e st = e\<lparr>free_paddr := first_free_paddr st\<rparr>"

definition vmr_ptr :: "'h vm \<Rightarrow> nat \<Rightarrow> u64" where
  "vmr_ptr st i = vmrs st + 40 * of_nat i"

definition vmr_of :: "'h vm \<Rightarrow> u64 \<Rightarrow> nat" where
  "vmr_of st p = unat ((p - vmrs st) div 40)"

definition set_vmr :: "nat \<Rightarrow> vmr_t \<Rightarrow> 'h vm \<Rightarrow> 'h vm" where
  "set_vmr i v st = st\<lparr>vmr_tab := (vmr_tab st)(i := v)\<rparr>"

definition vmr_page :: "'h vm \<Rightarrow> 'h vm option" where
  "vmr_page st =
     (if vmrs st = 0
      then map_option (\<lambda>(page, st). st\<lparr>vmrs := page,
        vmr_tab := \<lambda>_. \<lparr>v_addr = 0, v_length = 0, v_file = None, v_offset = 0, v_refcnt = 0, v_prot = 0\<rparr>\<rparr>) (page_alloc st)
      else Some st)"

definition vmr_alloc :: "'h env \<Rightarrow> u64 \<Rightarrow> u64 \<Rightarrow> nat option \<Rightarrow> u64 \<Rightarrow> u32 \<Rightarrow> u32 \<Rightarrow> 'h vm \<Rightarrow> (nat option \<times> 'h vm) option" where
  "vmr_alloc e addr length' file' offset refcnt' prot st = do {
     st \<leftarrow> vmr_page st;
     t \<leftarrow> printk (kenv e st) (''%x, %x'' @ [CHR 0x0A]) [VWord (v_addr (vmr_tab st 0)), VWord addr] (ft st);
     let st = st\<lparr>ft := t\<rparr>;
     (case first_from (\<lambda>i. v_refcnt (vmr_tab st i) = 0) 0 MAX_VMR of
        None \<Rightarrow> Some (None, st)
      | Some i \<Rightarrow> do {
          t \<leftarrow> (case file' of None \<Rightarrow> Some (ft st) | Some f \<Rightarrow> file_incref f (ft st));
          Some (Some i, set_vmr i \<lparr>v_addr = addr, v_length = length', v_file = file', v_offset = offset,
            v_refcnt = refcnt', v_prot = prot\<rparr> (st\<lparr>ft := t\<rparr>))
        })
   }"

definition vmr_decref :: "'h env \<Rightarrow> nat \<Rightarrow> u32 \<Rightarrow> 'h vm \<Rightarrow> 'h vm" where
  "vmr_decref e i dec st =
     (let v = vmr_tab st i;
          c = v_refcnt v - dec;
          st = set_vmr i (v\<lparr>v_refcnt := c\<rparr>) st
      in if c = 0
         then case v_file v of None \<Rightarrow> st | Some f \<Rightarrow> st\<lparr>ft := file_decref (kenv e st) f (ft st)\<rparr>
         else st)"

text \<open>The two loops of \<open>__vm_alloc\<close>.\<close>

partial_function (option) scan_back :: "'a ptab_scheme \<Rightarrow> u64 \<Rightarrow> u64 \<Rightarrow> u64 option" where
  "scan_back st first a = (if a > first \<and> va_avail st a then scan_back st first (a - PGSIZE) else Some a)"

partial_function (option) vm_alloc_loop :: "'a ptab_scheme \<Rightarrow> u64 \<Rightarrow> u64 \<Rightarrow> u64 \<Rightarrow> u64 option" where
  "vm_alloc_loop st npage end' a =
     (if a \<le> end'
      then if \<not> va_avail st a then vm_alloc_loop st npage end' (a + PGSIZE)
           else do {
             b \<leftarrow> scan_back st a (a + (npage - 1) * PGSIZE);
             (if b > a then vm_alloc_loop st npage end' (b + PGSIZE) else Some b)
           }
      else Some 0)"

definition vm_alloc :: "'h vm \<Rightarrow> u64 \<Rightarrow> u64 option" where
  "vm_alloc st npage = vm_alloc_loop st npage (mmap_max st - npage * PGSIZE) (brk st)"

definition prot_to_type :: "u32 \<Rightarrow> bool \<Rightarrow> u64" where
  "prot_to_type prot user =
     (let pte = (0 :: u64);
          pte = (if prot AND PROT_READ \<noteq> 0 then pte OR 0x42 else pte);
          pte = (if prot AND PROT_WRITE \<noteq> 0 then pte OR 0x84 else pte);
          pte = (if prot AND PROT_EXEC \<noteq> 0 then pte OR 0x48 else pte);
          pte = (if pte = 0 then 2 else pte)
      in if user then pte OR PTE_U else pte)"

definition valid_user_range :: "'h vm \<Rightarrow> u64 \<Rightarrow> u64 \<Rightarrow> bool" where
  "valid_user_range st vaddr len = (if vaddr + len < vaddr then False else vaddr + len \<le> mmap_max st)"

text \<open>The page's contents: from the file, with zeros behind its end, or all zeros.\<close>

definition fill_page :: "'h env \<Rightarrow> u64 \<Rightarrow> vmr_t \<Rightarrow> 'h vm \<Rightarrow> 'h vm option" where
  "fill_page e vaddr v st =
     (let zero = (\<lambda>p n t. t\<lparr>host := poke e p (replicate n 0) (host t)\<rparr>)
      in case v_file v of
           Some f \<Rightarrow> do {
             let flen = min PGSIZE (v_length v - (vaddr - v_addr v));
             (ret, t) \<leftarrow> file_pread (kenv e st) f vaddr flen (vaddr - v_addr v + v_offset v) (ft st);
             (if \<not> sint ret > 0 then None
              else Some (st\<lparr>ft := (if sint ret < 4096 then zero (vaddr + ret) (unat (PGSIZE - ret)) t else t)\<rparr>))
           }
         | None \<Rightarrow> Some (st\<lparr>ft := zero vaddr 4096 (ft st)\<rparr>))"

text \<open>The branch of \<open>__handle_page_fault\<close> that replaces a pending entry by a translation.\<close>

definition resolve_page :: "'h env \<Rightarrow> u64 \<Rightarrow> u64 \<Rightarrow> u64 \<Rightarrow> 'h vm \<Rightarrow> 'h vm option" where
  "resolve_page e vpn vaddr pte st =
     (let n = vpn + first_free_paddr st div PGSIZE;
          i = vmr_of st (ptm st pte)
      in do {
        st \<leftarrow> fill_page e vaddr (vmr_tab st i) (set_pte pte (pte_create n (prot_to_type (PROT_READ OR PROT_WRITE) False)) st);
        let st = vmr_decref e i 1 st;
        Some (set_pte pte (pte_create n (prot_to_type (v_prot (vmr_tab st i)) True)) st)
      })"

definition handle_page_fault :: "'h env \<Rightarrow> u64 \<Rightarrow> u32 \<Rightarrow> 'h vm \<Rightarrow> (int \<times> 'h vm) option" where
  "handle_page_fault e vaddr prot st =
     (let vpn = drop_bit 12 vaddr;
          vaddr = push_bit 12 vpn
      in case walk vaddr st of
           None \<Rightarrow> Some (-1, st)
         | Some pte \<Rightarrow>
             if ptm st pte = 0 \<or> \<not> valid_user_range st vaddr 1 then Some (-1, st)
             else do {
               st \<leftarrow> (if ptm st pte AND PTE_V = 0 then resolve_page e vpn vaddr pte st else Some st);
               let perms = pte_create 0 (prot_to_type prot True);
               Some (if ptm st pte AND perms \<noteq> perms then -1 else 0, st)
             })"

text \<open>\<open>for (a = start; a < end; a += RISCV_PGSIZE)\<close>\<close>

partial_function (option) for_pages :: "(u64 \<Rightarrow> 's \<Rightarrow> 's option) \<Rightarrow> u64 \<Rightarrow> u64 \<Rightarrow> 's \<Rightarrow> 's option" where
  "for_pages body a end' st = (if a < end' then do { st \<leftarrow> body a st; for_pages body (a + PGSIZE) end' st } else Some st)"

definition unmap_page :: "'h env \<Rightarrow> u64 \<Rightarrow> 'h vm \<Rightarrow> 'h vm" where
  "unmap_page e a st =
     (case walk a st of None \<Rightarrow> st
      | Some pte \<Rightarrow>
          if ptm st pte = 0 then st
          else set_pte pte 0 (if ptm st pte AND PTE_V = 0 then vmr_decref e (vmr_of st (ptm st pte)) 1 st else st))"

definition do_munmap_pages :: "'h env \<Rightarrow> u64 \<Rightarrow> u64 \<Rightarrow> 'h vm \<Rightarrow> 'h vm option" where
  "do_munmap_pages e addr len = for_pages (\<lambda>a st. Some (unmap_page e a st)) addr (addr + len)"

definition mmap_page :: "'h env \<Rightarrow> u64 \<Rightarrow> u64 \<Rightarrow> 'h vm \<Rightarrow> 'h vm option" where
  "mmap_page e v a st = do {
     (pte, st) \<leftarrow> walk_create a st;
     st \<leftarrow> (if ptm st pte \<noteq> 0 then do_munmap_pages e a PGSIZE st else Some st);
     Some (set_pte pte v st)
   }"

definition do_mmap_pages :: "'h env \<Rightarrow> u64 \<Rightarrow> u64 \<Rightarrow> u32 \<Rightarrow> u32 \<Rightarrow> nat option \<Rightarrow> u64 \<Rightarrow> 'h vm \<Rightarrow> (u64 \<times> 'h vm) option" where
  "do_mmap_pages e addr length' prot flags' f offset st =
     (let npage = (length' - 1) div PGSIZE + 1
      in do {
        addr \<leftarrow> (if flags' AND MAP_FIXED \<noteq> 0
                then Some (if addr AND (PGSIZE - 1) \<noteq> 0 \<or> \<not> valid_user_range st addr length' then None else Some addr)
                else map_option (\<lambda>addr. if addr = 0 then None else Some addr) (vm_alloc st npage));
        (case addr of None \<Rightarrow> Some (-1, st)
         | Some addr \<Rightarrow> do {
             (v, st) \<leftarrow> vmr_alloc e addr length' f offset (ucast npage) prot st;
             (case v of None \<Rightarrow> Some (-1, st)
              | Some i \<Rightarrow> do {
                  st \<leftarrow> for_pages (mmap_page e (vmr_ptr st i)) addr (addr + length') st;
                  st \<leftarrow> (if \<not> demand_paging st \<or> flags' AND MAP_POPULATE \<noteq> 0
                        then for_pages (\<lambda>a st. do { (r, st) \<leftarrow> handle_page_fault e a prot st; (if r = 0 then Some st else None) })
                               addr (addr + length') st
                        else Some st);
                  Some (addr, st)
                })
           })
      })"

definition do_munmap :: "'h env \<Rightarrow> u64 \<Rightarrow> u64 \<Rightarrow> 'h vm \<Rightarrow> (u64 \<times> 'h vm) option" where
  "do_munmap e addr length' st =
     (if addr AND (PGSIZE - 1) \<noteq> 0 \<or> \<not> valid_user_range st addr length' then Some (- EINVAL, st)
      else map_option (\<lambda>st. (0, st)) (do_munmap_pages e addr length' st))"

definition do_mmap :: "'h env \<Rightarrow> u64 \<Rightarrow> u64 \<Rightarrow> u32 \<Rightarrow> u32 \<Rightarrow> u32 \<Rightarrow> u64 \<Rightarrow> 'h vm \<Rightarrow> (u64 \<times> 'h vm) option" where
  "do_mmap e addr length' prot flags' fd offset st =
     (if flags' AND MAP_PRIVATE = 0 \<or> length' = 0 \<or> offset AND (PGSIZE - 1) \<noteq> 0 then Some (- EINVAL, st)
      else let (f, t) = (if flags' AND MAP_ANONYMOUS = 0 then file_get (sint fd) (ft st) else (None, ft st));
               st = st\<lparr>ft := t\<rparr>
           in if flags' AND MAP_ANONYMOUS = 0 \<and> f = None then Some (- EBADF, st)
              else do {
                (addr, st) \<leftarrow> do_mmap_pages e addr length' prot flags' f offset st;
                let st = (if addr < brk_max st then st\<lparr>brk_max := addr\<rparr> else st);
                let st = (case f of None \<Rightarrow> st | Some f \<Rightarrow> st\<lparr>ft := file_decref (kenv e st) f (ft st)\<rparr>);
                Some (addr, st)
              })"

definition do_brk :: "'h env \<Rightarrow> u64 \<Rightarrow> 'h vm \<Rightarrow> (u64 \<times> 'h vm) option" where
  "do_brk e addr st =
     (let newbrk = (if addr < brk_min st then brk_min st else if addr > brk_max st then brk_max st else addr);
          st = (if brk st = 0 then st\<lparr>brk := ROUNDUP (brk_min st) PGSIZE\<rparr> else st);
          newbrk_page = ROUNDUP newbrk PGSIZE
      in do {
        st \<leftarrow> (if brk st > newbrk_page then do_munmap_pages e newbrk_page (brk st - newbrk_page) st
              else if brk st < newbrk_page
              then do {
                (a, st') \<leftarrow> do_mmap_pages e (brk st) (newbrk_page - brk st) (-1) (MAP_FIXED OR MAP_PRIVATE OR MAP_ANONYMOUS) None 0 st;
                (if a = brk st then Some st' else None)
              }
              else Some st);
        Some (newbrk, st\<lparr>brk := newbrk_page\<rparr>)
      })"

definition do_mremap :: "u64 \<Rightarrow> u64 \<Rightarrow> u64 \<Rightarrow> u32 \<Rightarrow> u64" where
  "do_mremap addr old_size new_size flags' = - ENOSYS"

definition mprotect_page :: "u32 \<Rightarrow> u64 \<Rightarrow> 'h vm \<Rightarrow> u64 + 'h vm" where
  "mprotect_page prot a st =
     (case walk a st of None \<Rightarrow> Inl (- ENOMEM)
      | Some pte \<Rightarrow>
          let x = ptm st pte
          in if x = 0 then Inl (- ENOMEM)
             else if x AND PTE_V = 0
             then let i = vmr_of st x; v = vmr_tab st i
                  in if (v_prot v XOR prot) AND NOT (v_prot v) \<noteq> 0 then Inl (- EACCES)
                     else Inr (set_vmr i (v\<lparr>v_prot := prot\<rparr>) st)
             else if x AND PTE_U = 0 \<or> prot AND PROT_READ \<noteq> 0 \<and> x AND 2 = 0 \<or> prot AND PROT_WRITE \<noteq> 0 \<and> x AND 4 = 0 \<or>
               prot AND PROT_EXEC \<noteq> 0 \<and> x AND 8 = 0
             then Inl (- EACCES)
             else Inr (set_pte pte (pte_create (pte_ppn x) (prot_to_type prot True)) st))"

partial_function (option) mprotect_loop :: "u32 \<Rightarrow> u64 \<Rightarrow> u64 \<Rightarrow> 'h vm \<Rightarrow> (u64 \<times> 'h vm) option" where
  "mprotect_loop prot a end' st =
     (if a < end'
      then case mprotect_page prot a st of Inl err \<Rightarrow> Some (err, st) | Inr st' \<Rightarrow> mprotect_loop prot (a + PGSIZE) end' st'
      else Some (0, st))"

definition do_mprotect :: "u64 \<Rightarrow> u64 \<Rightarrow> u32 \<Rightarrow> 'h vm \<Rightarrow> (u64 \<times> 'h vm) option" where
  "do_mprotect addr length' prot st =
     (if addr AND (PGSIZE - 1) \<noteq> 0 then Some (- EINVAL, st) else mprotect_loop prot addr (addr + length') st)"

fun map_kernel_pages :: "u64 \<Rightarrow> u32 \<Rightarrow> nat \<Rightarrow> u64 \<Rightarrow> 'h vm \<Rightarrow> 'h vm option" where
  "map_kernel_pages offset prot 0 a st = Some st"
| "map_kernel_pages offset prot (Suc n) a st = do {
     (pte, st) \<leftarrow> walk_create a st;
     map_kernel_pages offset prot n (a + PGSIZE)
       (set_pte pte (pte_create (drop_bit 12 (a + offset)) (prot_to_type prot False)) st)
   }"

definition map_kernel_range :: "u64 \<Rightarrow> u64 \<Rightarrow> u64 \<Rightarrow> u32 \<Rightarrow> 'h vm \<Rightarrow> 'h vm option" where
  "map_kernel_range vaddr paddr len prot =
     map_kernel_pages (paddr - vaddr) prot (unat (ROUNDUP len PGSIZE div PGSIZE)) vaddr"

text \<open>\<open>touch\<close> stands for the access of one word, a load or an atomic update.\<close>

definition populate_mapping :: "(bool \<Rightarrow> u64 \<Rightarrow> 's \<Rightarrow> 's option) \<Rightarrow> u64 \<Rightarrow> u64 \<Rightarrow> u32 \<Rightarrow> 's \<Rightarrow> 's option" where
  "populate_mapping touch start' size' prot =
     for_pages (touch (prot AND PROT_WRITE \<noteq> 0)) (ROUNDDOWN start' PGSIZE) (start' + size')"

text \<open>\<open>pk_vm_init\<close>: the sizes, the kernel's mapping, the stack of the process, and the kernel's stack.\<close>

definition vm_sizes :: "u64 \<Rightarrow> u64 \<Rightarrow> 'h vm \<Rightarrow> 'h vm" where
  "vm_sizes mem_pages end' st =
     (let st = st\<lparr>free_pages := max 8 (drop_bit 8 mem_pages)\<rparr>;
          st = st\<lparr>first_free_page := ROUNDUP end' PGSIZE\<rparr>
      in st\<lparr>first_free_paddr := first_free_page st + free_pages st * PGSIZE\<rparr>)"

definition init_stack :: "'h env \<Rightarrow> u64 \<Rightarrow> u64 \<Rightarrow> 'h vm \<Rightarrow> 'h vm option" where
  "init_stack e mem_size mem_pages st =
     (let m = min DRAM_BASE (mem_size - (first_free_paddr st - DRAM_BASE));
          st = st\<lparr>brk_max := m, mmap_max := m\<rparr>;
          stack_size = min (drop_bit 5 mem_pages) 2048 * PGSIZE
      in do {
        (stack_bottom, st) \<leftarrow> do_mmap_pages e (mmap_max st - stack_size) stack_size (PROT_READ OR PROT_WRITE OR PROT_EXEC)
          (MAP_PRIVATE OR MAP_ANONYMOUS OR MAP_FIXED) None 0 st;
        (if stack_bottom = -1 then None else Some (st\<lparr>stack_top := stack_bottom + stack_size\<rparr>))
      })"

definition pk_vm_init :: "'h env \<Rightarrow> u64 \<Rightarrow> u64 \<Rightarrow> 'h vm \<Rightarrow> (u64 \<times> 'h vm) option" where
  "pk_vm_init e mem_size end' st =
     (let mem_size = min mem_size (2 ^ 31);
          mem_pages = drop_bit 12 mem_size
      in do {
        (root, st) \<leftarrow> page_alloc (vm_sizes mem_pages end' st);
        st \<leftarrow> map_kernel_range DRAM_BASE DRAM_BASE (first_free_paddr st - DRAM_BASE) (PROT_READ OR PROT_WRITE OR PROT_EXEC)
          (st\<lparr>root_page_table := root\<rparr>);
        st \<leftarrow> init_stack e mem_size mem_pages st;
        let st = st\<lparr>sptbr := drop_bit 12 (root_page_table st) OR push_bit 60 8\<rparr>;
        (page, st) \<leftarrow> page_alloc st;
        Some (page + PGSIZE, st)
      })"

text \<open>The system calls on memory.\<close>

definition sys_brk :: "'h env \<Rightarrow> u64 \<Rightarrow> 'h vm \<Rightarrow> (u64 \<times> 'h vm) option" where
  "sys_brk e pos = do_brk e pos"

definition sys_mmap :: "'h env \<Rightarrow> u64 \<Rightarrow> u64 \<Rightarrow> u32 \<Rightarrow> u32 \<Rightarrow> u32 \<Rightarrow> u64 \<Rightarrow> 'h vm \<Rightarrow> (u64 \<times> 'h vm) option" where
  "sys_mmap e addr length' prot flags' fd offset st = do {
     t \<leftarrow> printk (kenv e st) (''addr %lx length %ld prot %d flags %d '' @ [CHR 0x0A])
       [VWord addr, VWord length', VWord (scast prot), VWord (scast flags')] (ft st);
     do_mmap e addr length' prot flags' fd offset (st\<lparr>ft := t\<rparr>)
   }"

definition sys_munmap :: "'h env \<Rightarrow> u64 \<Rightarrow> u64 \<Rightarrow> 'h vm \<Rightarrow> (u64 \<times> 'h vm) option" where
  "sys_munmap e addr length' = do_munmap e addr length'"

definition sys_mremap :: "u64 \<Rightarrow> u64 \<Rightarrow> u64 \<Rightarrow> u32 \<Rightarrow> u64" where
  "sys_mremap addr old_size new_size flags' = do_mremap addr old_size new_size flags'"

definition sys_mprotect :: "u64 \<Rightarrow> u64 \<Rightarrow> u32 \<Rightarrow> 'h vm \<Rightarrow> (u64 \<times> 'h vm) option" where
  "sys_mprotect addr length' prot = do_mprotect addr length' prot"

section \<open>Invariant\<close>

text \<open>
  Every entry is empty, a pointer to a mapping record, a translation for the kernel only, or a
  translation for the user: then of its own page, to the frame at the same distance behind the kernel.
\<close>

definition entry_ok :: "'h vm \<Rightarrow> nat \<Rightarrow> u64 \<Rightarrow> bool" where
  "entry_ok st n x \<longleftrightarrow> x = 0 \<or> (vmrs st \<noteq> 0 \<and> (\<exists>i<MAX_VMR. x = vmr_ptr st i)) \<or>
     x AND PTE_V \<noteq> 0 \<and> (x AND PTE_U = 0 \<or> pte_ppn x = of_nat n + first_free_paddr st div PGSIZE \<and> 4096 * n < unat (mmap_max st))"

text \<open>
  \<open>good owed st\<close>: the tables are a tree, the entries are as above, and the count of a mapping record
  is the number of entries that point to it, plus \<open>owed\<close>.
\<close>

definition good :: "(nat \<Rightarrow> nat) \<Rightarrow> 'h vm \<Rightarrow> bool" where
  "good owed st \<longleftrightarrow> tree st \<and> mmap_max st \<le> 0x80000000 \<and> aligned (vmrs st) \<and> first_free_page st \<noteq> 0 \<and>
     (\<forall>n<NPAGES. entry_ok st n (pmap st n)) \<and>
     (vmrs st \<noteq> 0 \<longrightarrow> (\<forall>i<MAX_VMR. unat (v_refcnt (vmr_tab st i)) = occurs (pmap st) (vmr_ptr st i) + owed i))"

lemma vmr_ptr_facts:
  assumes "aligned (vmrs st)" "i < MAX_VMR"
  shows "unat (vmr_ptr st i) = unat (vmrs st) + 40 * i" "vmr_ptr st i AND 1 = 0" "vmr_of st (vmr_ptr st i) = i"
    "vmrs st \<noteq> 0 \<Longrightarrow> vmr_ptr st i \<noteq> 0"
proof -
  have i: "unat (of_nat i :: u64) = i" "unat (40 * of_nat i :: u64) = 40 * i"
    using assms(2) by (simp_all add: unat_word_ariths unat_of_nat)
  then have "40 * of_nat i < (4096 :: u64)" using assms(2) by (simp add: word_less_nat_alt)
  from unat_in_page [OF assms(1) this] show u: "unat (vmr_ptr st i) = unat (vmrs st) + 40 * i"
    by (simp add: vmr_ptr_def i)
  from assms(1) have "even (unat (vmr_ptr st i))" unfolding u by (auto elim!: dvdE)
  then have "\<not> bit (unat (vmr_ptr st i)) 0" by (simp only: bit_0 not_not)
  then have "\<not> bit (vmr_ptr st i) 0" unfolding bit_unsigned_iff by simp
  then show "vmr_ptr st i AND 1 = 0" by (simp add: and_one_eq bit_0 mod_2_eq_odd)
  show "vmr_of st (vmr_ptr st i) = i"
    using i by (simp add: vmr_of_def vmr_ptr_def unat_div_distrib)
  show "vmr_ptr st i \<noteq> 0" if "vmrs st \<noteq> 0" using that u by (auto simp: word_unat_eq_iff)
qed

lemma vmr_ptr_inj: "aligned (vmrs st) \<Longrightarrow> i < MAX_VMR \<Longrightarrow> j < MAX_VMR \<Longrightarrow> vmr_ptr st i = vmr_ptr st j \<longleftrightarrow> i = j"
  using vmr_ptr_facts(3) by metis

lemma goodD:
  assumes "good owed st"
  shows "tree st" "mmap_max st \<le> 0x80000000" "aligned (vmrs st)"
    "\<And>n. n < NPAGES \<Longrightarrow> entry_ok st n (pmap st n)"
    "\<And>i. vmrs st \<noteq> 0 \<Longrightarrow> i < MAX_VMR \<Longrightarrow> unat (v_refcnt (vmr_tab st i)) = occurs (pmap st) (vmr_ptr st i) + owed i"
    "first_free_page st \<noteq> 0"
  using assms by (auto simp: good_def)

text \<open>An entry that is not valid leads to a record in use.\<close>

lemma pending_entry:
  assumes "good owed st" "n < NPAGES" "pmap st n \<noteq> 0" "pmap st n AND PTE_V = 0"
  obtains i where "i < MAX_VMR" "pmap st n = vmr_ptr st i" "vmr_of st (pmap st n) = i" "vmrs st \<noteq> 0"
    "0 < unat (v_refcnt (vmr_tab st i))"
proof -
  from goodD(4) [OF assms(1,2)] assms(3,4) obtain i where i: "i < MAX_VMR" "pmap st n = vmr_ptr st i" "vmrs st \<noteq> 0"
    by (auto simp: entry_ok_def)
  moreover have "0 < unat (v_refcnt (vmr_tab st i))"
    using goodD(5) [OF assms(1) i(3,1)] occurs_pos [of n "pmap st", OF assms(2) i(2)] by simp
  ultimately show thesis using that [of i] vmr_ptr_facts(3) [OF goodD(3) [OF assms(1)] i(1)] by simp
qed

text \<open>The parts of the state the invariant reads, besides the tables and the counts.\<close>

definition same_frame :: "'h vm \<Rightarrow> 'h vm \<Rightarrow> bool" where
  "same_frame st st' \<longleftrightarrow> mmap_max st' = mmap_max st \<and> first_free_paddr st' = first_free_paddr st \<and> vmrs st' = vmrs st \<and>
     demand_paging st' = demand_paging st \<and> brk st' = brk st \<and> brk_min st' = brk_min st \<and> brk_max st' = brk_max st"

lemma same_frame_refl [simp]: "same_frame st st"
  by (simp add: same_frame_def)

lemma same_frame_trans: "same_frame a b \<Longrightarrow> same_frame b c \<Longrightarrow> same_frame a c"
  by (simp add: same_frame_def)

lemma same_frame_ptr: "same_frame st st' \<Longrightarrow> vmr_ptr st' = vmr_ptr st \<and> entry_ok st' = entry_ok st \<and> vmr_of st' = vmr_of st"
  by (simp add: same_frame_def vmr_ptr_def entry_ok_def vmr_of_def fun_eq_iff)

lemma table_at_cong: "ptm st' = ptm st \<Longrightarrow> root_page_table st' = root_page_table st \<Longrightarrow> table_at st' p = table_at st p"
  by (induction p) (auto split: option.splits)

lemma pt_cong:
  assumes "ptm st' = ptm st" "root_page_table st' = root_page_table st"
  shows "walk a st' = walk a st" "pmap st' = pmap st"
  using table_at_cong [OF assms] assms(1)
  by (auto simp: walk_eq pmap_def view_eq fun_eq_iff simp del: table_at.simps split: option.splits)

lemma tree_cong:
  assumes "ptm st' = ptm st" "root_page_table st' = root_page_table st" "first_free_page st' = first_free_page st"
    "next_free_page st' = next_free_page st" "free_pages st' = free_pages st"
  shows "tree st' = tree st"
  using table_at_cong [OF assms(1,2)] assms by (simp add: tree_def room_def in_use_def page_at_def)

lemma vm_upd_simps [simp]:
  "tree (st\<lparr>vmr_tab := x\<rparr>) = tree (st :: 'h vm)" "tree (st\<lparr>ft := t\<rparr>) = tree st" "pmap (st\<lparr>vmr_tab := x\<rparr>) = pmap st"
  "pmap (st\<lparr>ft := t\<rparr>) = pmap st" "walk a (st\<lparr>vmr_tab := x\<rparr>) = walk a st" "walk a (st\<lparr>ft := t\<rparr>) = walk a st"
  by (rule tree_cong pt_cong; simp)+

lemma good_ft [simp]: "good owed (st\<lparr>ft := t\<rparr>) = good owed st"
  by (simp add: good_def entry_ok_def vmr_ptr_def)

text \<open>Replacing an entry, and what it owes.\<close>

lemma good_set_pte:
  assumes g: "good owed st" and p: "walk va st = Some p" and x: "entry_ok st (vpn_of va) x"
    and owed': "\<And>i. vmrs st \<noteq> 0 \<Longrightarrow> i < MAX_VMR \<Longrightarrow>
      owed' i + (if x = vmr_ptr st i then 1 else 0) = owed i + (if view st va = vmr_ptr st i then 1 else 0)"
  shows "good owed' (set_pte p x st)"
proof -
  note G = goodD [OF g]
  have f: "same_frame st (set_pte p x st)" "vmr_tab (set_pte p x st) = vmr_tab st" by (simp_all add: same_frame_def set_pte_def)
  have pm: "pmap (set_pte p x st) n = ((pmap st)(vpn_of va := x)) n" if "n < NPAGES" for n
    using pmap_set_pte [OF G(1) p that] .
  have occ: "occurs (pmap (set_pte p x st)) y + (if view st va = y then 1 else 0) = occurs (pmap st) y + (if x = y then 1 else 0)" for y
    using occurs_upd [OF vpn_of_less [of va], of "pmap st" x y] occurs_cong [of "pmap (set_pte p x st)" "(pmap st)(vpn_of va := x)" y, OF pm]
    unfolding view_pmap by metis
  show ?thesis
    unfolding good_def
  proof (intro conjI allI impI)
    show "tree (set_pte p x st)" using pt.put_ok [OF G(1) p] .
    show "entry_ok (set_pte p x st) n (pmap (set_pte p x st) n)" if "n < NPAGES" for n
      using same_frame_ptr [OF f(1)] pm [OF that] G(4) [OF that] x by simp
    show "unat (v_refcnt (vmr_tab (set_pte p x st) i)) = occurs (pmap (set_pte p x st)) (vmr_ptr (set_pte p x st) i) + owed' i"
      if "vmrs (set_pte p x st) \<noteq> 0" "i < MAX_VMR" for i
    proof -
      have v: "vmrs st \<noteq> 0" using that(1) f(1) by (simp add: same_frame_def)
      show ?thesis
        using G(5) [OF v that(2)] owed' [OF v that(2)] occ [of "vmr_ptr st i"] same_frame_ptr [OF f(1)] f(2)
        by (simp split: if_splits)
    qed
  qed (use G(2,3,6) f in \<open>auto simp: same_frame_def set_pte_def\<close>)
qed

subsection \<open>Records\<close>

lemma vmr_decref_frame:
  "same_frame st (vmr_decref e i d st)" "ptm (vmr_decref e i d st) = ptm st" "root_page_table (vmr_decref e i d st) = root_page_table st"
  "first_free_page (vmr_decref e i d st) = first_free_page st" "next_free_page (vmr_decref e i d st) = next_free_page st"
  "free_pages (vmr_decref e i d st) = free_pages st"
  "vmr_tab (vmr_decref e i d st) = (vmr_tab st)(i := (vmr_tab st i)\<lparr>v_refcnt := v_refcnt (vmr_tab st i) - d\<rparr>)"
  by (auto simp: vmr_decref_def set_vmr_def same_frame_def Let_def split: option.splits)

lemmas vmr_decref_pt [simp] = pt_cong [OF vmr_decref_frame(2,3)] tree_cong [OF vmr_decref_frame(2-6)]

lemma vmr_decref_set_pte: "vmr_decref e i d (set_pte p x st) = set_pte p x (vmr_decref e i d st)"
  by (simp add: vmr_decref_def set_vmr_def set_pte_def kenv_def Let_def split: option.splits)

lemma good_decref:
  assumes "good owed st" "i < MAX_VMR" "vmrs st \<noteq> 0" "0 < owed i"
  shows "good (owed(i := owed i - 1)) (vmr_decref e i 1 st)"
proof -
  note G = goodD [OF assms(1)] and F = vmr_decref_frame [where st = st and e = e and i = i and d = 1]
  have "unat (v_refcnt (vmr_tab st i) - 1) = unat (v_refcnt (vmr_tab st i)) - 1"
    using G(5) [OF assms(3,2)] assms(4) by (intro unat_dec) (auto simp: word_unat_eq_iff)
  then have "unat (v_refcnt (vmr_tab (vmr_decref e i 1 st) j)) = occurs (pmap st) (vmr_ptr st j) + (owed(i := owed i - 1)) j"
    if "j < MAX_VMR" for j
    using G(5) [OF assms(3) that] assms(4) by (auto simp: F(7))
  then show ?thesis
    using G F(1,4) same_frame_ptr [OF F(1)] unfolding good_def by (auto simp: same_frame_def)
qed

lemma good_grown:
  assumes "good owed st" "grown st st'"
  shows "good owed st'" "same_frame st st'" "vmr_tab st' = vmr_tab st" "ft st' = ft st" "pmap st' = pmap st"
proof -
  from assms(2) have g: "tree st'" "view st' = view st" "st\<lparr>ptm := ptm st', next_free_page := next_free_page st'\<rparr> = st'"
    by (simp_all add: grown_def)
  show f: "same_frame st st'" "vmr_tab st' = vmr_tab st" "ft st' = ft st"
    by (subst g(3) [symmetric], simp add: same_frame_def)+
  have first: "first_free_page st' = first_free_page st" by (subst g(3) [symmetric], simp)
  show p: "pmap st' = pmap st" by (simp add: pmap_def fun_eq_iff g(2))
  show "good owed st'"
    using assms(1) g(1) f first same_frame_ptr [OF f(1)] unfolding good_def p by (auto simp: same_frame_def)
qed

subsection \<open>Unmapping\<close>

lemma unmap_page_good:
  assumes "good owed st"
  shows "good owed (unmap_page e a st)" "same_frame st (unmap_page e a st)"
    "\<And>n. n < NPAGES \<Longrightarrow> pmap (unmap_page e a st) n = ((pmap st)(vpn_of a := 0)) n"
    "walk b (unmap_page e a st) = walk b st"
proof -
  note G = goodD [OF assms]
  have "good owed (unmap_page e a st) \<and> same_frame st (unmap_page e a st) \<and>
    (\<forall>n<NPAGES. pmap (unmap_page e a st) n = ((pmap st)(vpn_of a := 0)) n) \<and> walk b (unmap_page e a st) = walk b st"
  proof (cases "view st a = 0")
    case True
    then have "unmap_page e a st = st" by (auto simp: unmap_page_def view_def split: option.splits)
    with True assms show ?thesis by (simp add: view_pmap fun_upd_idem)
  next
    case False
    then obtain p where p: "walk a st = Some p" "view st a = ptm st p" using pt.present [of st a] by (auto simp: view_def)
    have zero: "entry_ok st (vpn_of a) 0" by (simp add: entry_ok_def)
    show ?thesis
    proof (cases "view st a AND PTE_V = 0")
      case pend: True
      obtain i where i: "i < MAX_VMR" "view st a = vmr_ptr st i" "vmr_of st (view st a) = i" "vmrs st \<noteq> 0"
        using pending_entry [OF assms vpn_of_less [of a]] False pend unfolding view_pmap by metis
      have un: "unmap_page e a st = vmr_decref e i 1 (set_pte p 0 st)"
        using False pend p i(3) by (simp add: unmap_page_def vmr_decref_set_pte)
      have "good (owed(i := owed i + 1)) (set_pte p 0 st)"
        using vmr_ptr_facts(4) [OF G(3) _ i(4)] vmr_ptr_inj [OF G(3) i(1)] i(1,2)
        by (intro good_set_pte [OF assms p(1) zero]) auto
      from good_decref [OF this i(1), of e] i(4) have "good owed (unmap_page e a st)"
        unfolding un by (simp add: set_pte_def)
      moreover have "same_frame st (unmap_page e a st)"
        unfolding un using vmr_decref_frame(1) [where st = "set_pte p 0 st" and e = e and i = i and d = 1] by (simp add: same_frame_def set_pte_def)
      ultimately show ?thesis
        using pmap_set_pte [OF G(1) p(1), of _ 0] set_pte_leaf(2) [OF G(1) p(1), where va' = b] by (simp add: un)
    next
      case valid: False
      have un: "unmap_page e a st = set_pte p 0 st" using False valid p by (simp add: unmap_page_def)
      have "vmr_ptr st i \<noteq> view st a" if "i < MAX_VMR" for i using vmr_ptr_facts(2) [OF G(3) that] valid by auto
      then have "good owed (set_pte p 0 st)"
        using vmr_ptr_facts(4) [OF G(3)] by (intro good_set_pte [OF assms p(1) zero]) fastforce+
      then show ?thesis
        using pmap_set_pte [OF G(1) p(1), of _ 0] set_pte_leaf(2) [OF G(1) p(1), where va' = b]
        by (simp add: un same_frame_def) (simp add: set_pte_def)
    qed
  qed
  then show "good owed (unmap_page e a st)" "same_frame st (unmap_page e a st)"
    "\<And>n. n < NPAGES \<Longrightarrow> pmap (unmap_page e a st) n = ((pmap st)(vpn_of a := 0)) n"
    "walk b (unmap_page e a st) = walk b st" by simp_all
qed

subsection \<open>Loops over pages\<close>

text \<open>A loop over a range that does not wrap around visits its pages in order and ends.\<close>

fun page_fold :: "(u64 \<Rightarrow> 's \<Rightarrow> 's option) \<Rightarrow> nat \<Rightarrow> u64 \<Rightarrow> 's \<Rightarrow> 's option" where
  "page_fold body 0 a st = Some st"
| "page_fold body (Suc n) a st = do { st \<leftarrow> body a st; page_fold body n (a + PGSIZE) st }"

definition npages :: "u64 \<Rightarrow> nat" where
  "npages len = (unat len + 4095) div 4096"

lemma npages_less: "m < npages len \<longleftrightarrow> 4096 * m < unat len"
  unfolding npages_def by auto

lemma unat_add_page: "unat a + 4096 < 18446744073709551616 \<Longrightarrow> unat (a + 4096 :: u64) = unat a + 4096"
  by (simp add: unat_word_ariths)

lemma for_pages_fold:
  assumes "unat a + unat len + 4096 < 18446744073709551616"
  shows "for_pages body a (a + len) st = page_fold body (npages len) a st"
  using assms
proof (induction "npages len" arbitrary: a len st)
  case 0
  then have "len = 0" using npages_less [of 0 len] by (simp add: unat_gt_0)
  with 0 show ?case by (subst for_pages.simps) (simp add: npages_def)
next
  case (Suc n)
  have pos: "0 < unat len" using npages_less [of 0 len] Suc.hyps(2) by simp
  have e: "unat (a + len) = unat a + unat len" using Suc.prems by (simp add: unat_word_ariths)
  have lt: "a < a + len" using pos e by (simp add: word_less_nat_alt)
  have a': "unat (a + 4096) = unat a + 4096" using Suc.prems by (intro unat_add_page) simp
  have rest: "for_pages body (a + 4096) (a + len) st = page_fold body n (a + 4096) st" for st
  proof (cases "unat len \<le> 4096")
    case True
    then have "n = 0" using npages_less [of 1 len] Suc.hyps(2) by auto
    moreover have "\<not> a + 4096 < a + len" using True e a' by (simp add: word_less_nat_alt)
    ultimately show ?thesis by (subst for_pages.simps) simp
  next
    case False
    have l: "unat (len - 4096) = unat len - 4096" using False unat_sub [of 4096 len] by (simp add: word_le_nat_alt)
    have "npages len = Suc (npages (len - 4096))"
    proof -
      have "unat len + 4095 = (unat len - 4096 + 4095) + 4096" using False by simp
      then show ?thesis unfolding npages_def l by (metis add.commute div_add_self1 plus_1_eq_Suc zero_neq_numeral)
    qed
    then have n: "n = npages (len - 4096)" using Suc.hyps(2) by simp
    have "unat (a + 4096) + unat (len - 4096) + 4096 < 18446744073709551616" using a' l False Suc.prems by simp
    from Suc.hyps(1) [OF n this, of st] show ?thesis using n by (simp add: algebra_simps)
  qed
  show ?case unfolding Suc.hyps(2) [symmetric] by (subst for_pages.simps) (simp add: lt ext [of "for_pages body (a + 4096) (a + len)", OF rest])
qed

lemma page_fold_inv:
  assumes "page_fold body n a st = Some st'" "P 0 st"
    and step: "\<And>k s s'. k < n \<Longrightarrow> P k s \<Longrightarrow> body (a + 4096 * of_nat k) s = Some s' \<Longrightarrow> P (Suc k) s'"
  shows "P n st'"
  using assms
proof (induction n arbitrary: a st P)
  case (Suc n)
  then obtain s where s: "body a st = Some s" "page_fold body n (a + 4096) s = Some st'" by (auto split: bind_splits)
  have "P 1 s" using Suc.prems(3) [of 0 st s] Suc.prems(2) s(1) by simp
  moreover have "P (Suc (Suc k)) s2" if "k < n" "P (Suc k) s1" "body (a + 4096 + 4096 * of_nat k) s1 = Some s2" for k s1 s2
    using Suc.prems(3) [of "Suc k" s1 s2] that by (simp add: algebra_simps)
  ultimately show ?case using Suc.IH [OF s(2), of "\<lambda>k. P (Suc k)"] by simp
qed simp

lemma page_fold_total:
  assumes "P 0 st" and step: "\<And>k s. k < n \<Longrightarrow> P k s \<Longrightarrow> \<exists>s'. body (a + 4096 * of_nat k) s = Some s' \<and> P (Suc k) s'"
  shows "\<exists>st'. page_fold body n a st = Some st' \<and> P n st'"
  using assms
proof (induction n arbitrary: a st P)
  case (Suc n)
  from Suc.prems(2) [of 0 st] Suc.prems(1) obtain s where s: "body a st = Some s" "P 1 s" by auto
  have "\<exists>s'. body (a + 4096 + 4096 * of_nat k) s1 = Some s' \<and> P (Suc (Suc k)) s'" if "k < n" "P (Suc k) s1" for k s1
    using Suc.prems(2) [of "Suc k" s1] that by (simp add: algebra_simps)
  with Suc.IH [of "\<lambda>k. P (Suc k)" s "a + 4096"] s show ?case by auto
qed simp

text \<open>The pages of an aligned range below 2 GiB.\<close>

lemma range_page:
  assumes "aligned a" "unat a + unat len \<le> 2147483648" "k < npages len"
  shows "unat (a + 4096 * of_nat k) = unat a + 4096 * k" "vpn_of (a + 4096 * of_nat k) = unat a div 4096 + k"
proof -
  have k: "4096 * k < unat len" using assms(3) npages_less by simp
  with assms(2) have k2: "4096 * k < 2147483648" by simp
  then have "unat (4096 * of_nat k :: u64) = 4096 * k" by (simp add: unat_word_ariths unat_of_nat)
  with k assms(2) show u: "unat (a + 4096 * of_nat k) = unat a + 4096 * k" by (simp add: unat_word_ariths)
  with k assms(2) have "unat (a + 4096 * of_nat k) < 549755813888" by simp
  from vpn_of_low [OF this] show "vpn_of (a + 4096 * of_nat k) = unat a div 4096 + k" unfolding u by simp
qed

text \<open>The entries of \<open>k\<close> pages from page \<open>m\<close> on, set to \<open>x\<close>.\<close>

definition set_range :: "nat \<Rightarrow> nat \<Rightarrow> u64 \<Rightarrow> (nat \<Rightarrow> u64) \<Rightarrow> nat \<Rightarrow> u64" where
  "set_range m k x f = (\<lambda>n. if m \<le> n \<and> n < m + k then x else f n)"

lemma set_range_0 [simp]: "set_range m 0 x f = f"
  by (auto simp: set_range_def fun_eq_iff)

lemma set_range_Suc: "set_range m (Suc k) x f = (set_range m k x f)(m + k := x)"
  by (auto simp: set_range_def fun_eq_iff)

lemma munmap_good:
  assumes "good owed st" "aligned a" "unat a + unat len \<le> 2147483648"
  shows "\<exists>st'. do_munmap_pages e a len st = Some st' \<and> good owed st' \<and> same_frame st st' \<and> (\<forall>b. walk b st' = walk b st) \<and>
    (\<forall>n<NPAGES. pmap st' n = set_range (unat a div 4096) (npages len) 0 (pmap st) n)"
proof -
  have fold: "do_munmap_pages e a len st = page_fold (\<lambda>a st. Some (unmap_page e a st)) (npages len) a st"
    unfolding do_munmap_pages_def using assms(3) by (intro for_pages_fold) simp
  let ?P = "\<lambda>k s. good owed s \<and> same_frame st s \<and> (\<forall>b. walk b s = walk b st) \<and>
    (\<forall>n<NPAGES. pmap s n = set_range (unat a div 4096) k 0 (pmap st) n)"
  have "\<exists>st'. page_fold (\<lambda>a st. Some (unmap_page e a st)) (npages len) a st = Some st' \<and> ?P (npages len) st'"
  proof (rule page_fold_total)
    fix k and s :: "'a vm"
    assume k: "k < npages len" and P: "?P k s"
    note U = unmap_page_good [where e = e and a = "a + 4096 * of_nat k" and st = s, OF conjunct1 [OF P]]
    show "\<exists>s'. Some (unmap_page e (a + 4096 * of_nat k) s) = Some s' \<and> ?P (Suc k) s'"
      using P U range_page(2) [OF assms(2,3) k] same_frame_trans by (auto simp: set_range_Suc)
  qed (use assms(1) in simp)
  then show ?thesis unfolding fold .
qed

subsection \<open>Mapping\<close>

lemma walk_create_good:
  assumes "good owed st" "walk_create a st = Some (p, st')"
  shows "good owed st'" "same_frame st st'" "vmr_tab st' = vmr_tab st" "ft st' = ft st" "pmap st' = pmap st" "walk a st' = Some p"
    "ptm st' p = view st a"
proof -
  have "grown st st'" "walk a st' = Some p" using walk_create_spec [OF goodD(1) [OF assms(1)], of a] assms(2) by simp_all
  then show "good owed st'" "same_frame st st'" "vmr_tab st' = vmr_tab st" "ft st' = ft st" "pmap st' = pmap st" "walk a st' = Some p"
    using good_grown [OF assms(1)] by simp_all
  show "ptm st' p = view st a" using pt.created_content [OF goodD(1) [OF assms(1)] assms(2)] .
qed

lemma mmap_page_good:
  assumes g: "good owed st" and i: "i < MAX_VMR" "vmrs st \<noteq> 0" "0 < owed i"
    and a: "aligned a" "unat a + 4096 \<le> 2147483648" and run: "mmap_page e (vmr_ptr st i) a st = Some st'"
  shows "good (owed(i := owed i - 1)) st'" "same_frame st st'"
    "\<And>n. n < NPAGES \<Longrightarrow> pmap st' n = ((pmap st)(vpn_of a := vmr_ptr st i)) n"
proof -
  from run obtain p st1 where w: "walk_create a st = Some (p, st1)" by (auto simp: mmap_page_def split: bind_splits)
  note W = walk_create_good [OF g w]
  obtain st2 where st2: "(if ptm st1 p \<noteq> 0 then do_munmap_pages e a 4096 st1 else Some st1) = Some st2" "st' = set_pte p (vmr_ptr st i) st2"
    using run w by (auto simp: mmap_page_def split: bind_splits)
  obtain st3 where m: "do_munmap_pages e a 4096 st1 = Some st3" "good owed st3" "same_frame st1 st3" "walk a st3 = walk a st1"
      "\<And>n. n < NPAGES \<Longrightarrow> pmap st3 n = set_range (unat a div 4096) (npages 4096) 0 (pmap st1) n"
    using munmap_good [OF W(1) a(1), of 4096 e] a(2) by auto
  have vpn: "vpn_of a = unat a div 4096" using a(2) by (intro vpn_of_low) simp
  have one: "npages 4096 = 1" by (simp add: npages_def)
  have "good owed st2 \<and> same_frame st st2 \<and> walk a st2 = Some p \<and> view st2 a = 0 \<and> (\<forall>n<NPAGES. n \<noteq> vpn_of a \<longrightarrow> pmap st2 n = pmap st n)"
  proof (cases "ptm st1 p = 0")
    case True
    with st2(1) W show ?thesis by (simp add: view_pmap)
  next
    case False
    with st2(1) m(1) have "st2 = st3" by simp
    with m W one vpn same_frame_trans [OF W(2) m(3)] vpn_of_less [of a] show ?thesis
      by (auto simp: view_pmap set_range_def)
  qed
  then have s2: "good owed st2" "same_frame st st2" "walk a st2 = Some p" "view st2 a = 0" "\<And>n. n < NPAGES \<Longrightarrow> n \<noteq> vpn_of a \<Longrightarrow> pmap st2 n = pmap st n"
    by simp_all
  note P = same_frame_ptr [OF s2(2)] and G = goodD [OF s2(1)]
  have v: "vmrs st2 \<noteq> 0" using s2(2) i(2) by (simp add: same_frame_def)
  have "entry_ok st2 (vpn_of a) (vmr_ptr st i)" using i(1) v P unfolding entry_ok_def by auto
  then show "good (owed(i := owed i - 1)) st'"
    unfolding st2(2) using P vmr_ptr_facts(4) [OF G(3) _ v] vmr_ptr_inj [OF G(3)] i(1,3) s2(4)
    by (intro good_set_pte [OF s2(1) s2(3)]) auto
  show "same_frame st st'" using s2(2) unfolding st2(2) by (simp add: same_frame_def set_pte_def)
  show "pmap st' n = ((pmap st)(vpn_of a := vmr_ptr st i)) n" if "n < NPAGES" for n
    unfolding st2(2) using pmap_set_pte [OF G(1) s2(3) that] s2(5) [OF that] by simp
qed

text \<open>Only \<open>mprotect\<close> changes what a record says of its mapping, apart from the count.\<close>

definition meta :: "vmr_t \<Rightarrow> vmr_t" where
  "meta v = v\<lparr>v_refcnt := 0\<rparr>"

lemma meta_decref [simp]: "meta (vmr_tab (vmr_decref e i d st) j) = meta (vmr_tab st j)"
  by (simp add: vmr_decref_frame(7) meta_def)

lemma meta_set_pte [simp]: "vmr_tab (set_pte p x st) = vmr_tab st"
  by (simp add: set_pte_def)

lemma meta_unmap [simp]: "meta (vmr_tab (unmap_page e a st) j) = meta (vmr_tab st j)"
  by (simp add: unmap_page_def split: option.splits)

lemma meta_mmap_page:
  assumes "good owed st" "aligned a" "unat a + 4096 \<le> 2147483648" "mmap_page e x a st = Some st'"
  shows "meta (vmr_tab st' j) = meta (vmr_tab st j)"
proof -
  from assms(4) obtain p st1 where w: "walk_create a st = Some (p, st1)" by (auto simp: mmap_page_def bind_eq_Some_conv)
  note W = walk_create_good [OF assms(1) w]
  have one: "npages 4096 = Suc 0" by (simp add: npages_def)
  have "do_munmap_pages e a 4096 st1 = Some (unmap_page e a st1)"
    unfolding do_munmap_pages_def using assms(3) one by (subst for_pages_fold) simp_all
  with assms(4) w W(3) show ?thesis by (auto simp: mmap_page_def bind_eq_Some_conv split: if_splits)
qed

text \<open>The loop of \<open>__do_mmap\<close>.\<close>

lemma mmap_pages_good:
  assumes g: "good owed st" and i: "i < MAX_VMR" "vmrs st \<noteq> 0" "owed i = npages len"
    and a: "aligned a" "unat a + 4096 * npages len \<le> 2147483648"
    and run: "for_pages (mmap_page e (vmr_ptr st i)) a (a + len) st = Some st'"
  shows "good (owed(i := 0)) st'" "same_frame st st'"
    "\<And>n. n < NPAGES \<Longrightarrow> pmap st' n = set_range (unat a div 4096) (npages len) (vmr_ptr st i) (pmap st) n"
    "\<And>j. meta (vmr_tab st' j) = meta (vmr_tab st j)"
proof -
  have len: "unat len \<le> 4096 * npages len" by (metis less_irrefl linorder_not_less npages_less)
  with a(2) have al: "unat a + unat len \<le> 2147483648" by simp
  have fold: "page_fold (mmap_page e (vmr_ptr st i)) (npages len) a st = Some st'"
    using run for_pages_fold [of a len "mmap_page e (vmr_ptr st i)" st] al by simp
  let ?P = "\<lambda>k s. good (owed(i := npages len - k)) s \<and> same_frame st s \<and>
    (\<forall>n<NPAGES. pmap s n = set_range (unat a div 4096) k (vmr_ptr st i) (pmap st) n) \<and> (\<forall>j. meta (vmr_tab s j) = meta (vmr_tab st j))"
  have "?P (npages len) st'"
    using fold
  proof (rule page_fold_inv [where P = ?P])
    show "?P 0 st" using g i(3) by (simp add: fun_upd_idem)
    fix k and s s' :: "'a vm"
    assume k: "k < npages len" and P: "?P k s" and run: "mmap_page e (vmr_ptr st i) (a + 4096 * of_nat k) s = Some s'"
    have f: "same_frame st s" and ptr: "vmr_ptr st i = vmr_ptr s i" "vmrs s \<noteq> 0"
      using P i(2) same_frame_ptr [of st s] by (simp_all add: same_frame_def)
    have al': "aligned (a + 4096 * of_nat k)" "unat (a + 4096 * of_nat k) + 4096 \<le> 2147483648"
      using range_page(1) [OF a(1) al k] a k by auto
    note M = mmap_page_good [OF conjunct1 [OF P] i(1) ptr(2) _ al' run [unfolded ptr(1)]]
    have "npages len - k - 1 = npages len - Suc k" by simp
    with M P k same_frame_trans [OF f] range_page(2) [OF a(1) al k] ptr(1) meta_mmap_page [OF conjunct1 [OF P] al' run] show "?P (Suc k) s'"
      by (auto simp: set_range_Suc)
  qed
  then show "good (owed(i := 0)) st'" "same_frame st st'"
    "\<And>n. n < NPAGES \<Longrightarrow> pmap st' n = set_range (unat a div 4096) (npages len) (vmr_ptr st i) (pmap st) n"
    "\<And>j. meta (vmr_tab st' j) = meta (vmr_tab st j)" by simp_all
qed

end
