(* ===== verification/Vm_calls.thy ===== *)
theory Vm_calls
  imports Vm
begin

text \<open>
  What the operations of \<open>pk/pk/mmap.c\<close> do to the map from pages to entries, and that each of them keeps
  the invariant of the virtual memory: page faults, the search for free addresses, \<open>mmap\<close>, \<open>munmap\<close>, \<open>brk\<close>,
  \<open>mprotect\<close>, and the set-up at boot.
\<close>

unbundle bit_operations_syntax

subsection \<open>Faults and protection\<close>

lemma prot_to_type_small: "unat (prot_to_type prot u) < 2 ^ 10"
  by (simp add: prot_to_type_def Let_def)

lemma prot_to_type_user: "prot_to_type prot u AND 16 = (if u then 16 else 0)"
  by (simp add: prot_to_type_def Let_def)

lemma pte_create_user: "pte_create n ty AND 16 = ty AND 16"
proof -
  have "push_bit 10 n AND 2 ^ 4 = 0" for n :: u64
    by (simp only: and_exp_eq_0_iff_not_bit) (simp add: bit_push_bit_iff)
  then show ?thesis by (simp add: pte_create_def bit.conj_disj_distrib2)
qed

lemma walk_frame: "ptm st' = ptm st \<Longrightarrow> root_page_table st' = root_page_table st \<Longrightarrow> walk a st' = walk a st"
  by (rule pt_cong)

lemma fill_page_frame: "fill_page e a v st = Some st' \<Longrightarrow> \<exists>t. st' = st\<lparr>ft := t\<rparr>"
  by (auto simp: fill_page_def Let_def split: option.splits bind_splits if_splits)

text \<open>The frame of a user page.\<close>

lemma user_frame:
  assumes "good owed st" "valid_user_range st (push_bit 12 (drop_bit 12 va)) 1"
  shows "unat va < 2147483648" "vpn_of va = unat (drop_bit 12 va)" "vpn_of (push_bit 12 (drop_bit 12 va)) = vpn_of va"
    "unat (drop_bit 12 va + first_free_paddr st div 4096) < 2 ^ 54"
    "4096 * vpn_of va < unat (mmap_max st)"
proof -
  let ?v = "push_bit 12 (drop_bit 12 va)"
  have d: "unat (drop_bit 12 va) = unat va div 4096" using unat_ppn [of va] by (simp add: ppn_def)
  have u: "unat ?v = 4096 * (unat va div 4096)"
  proof -
    have "unat ?v = take_bit 64 (push_bit 12 (unat va div 4096))" unfolding unsigned_push_bit_eq d by simp
    also have "\<dots> = take_bit 64 (4096 * (unat va div 4096))" by (simp add: push_bit_eq_mult ac_simps)
    also have "\<dots> = 4096 * (unat va div 4096)"
      using unat_less [of va] by (intro take_bit_nat_eq_self) (simp add: le_less_trans [OF times_div_less_eq_dividend])
    finally show ?thesis .
  qed
  have "unat (?v + 1) = unat ?v + 1" using unat_in_page [of ?v 1] u by simp
  then have v: "4096 * (unat va div 4096) < unat (mmap_max st)"
    using assms(2) u by (simp add: valid_user_range_def word_le_nat_alt split: if_splits)
  moreover have "unat (mmap_max st) \<le> 2147483648" using goodD(2) [OF assms(1)] by (simp add: word_le_nat_alt)
  ultimately have "4096 * (unat va div 4096) < 2147483648" by simp
  then have q: "unat va div 4096 < 524288" by simp
  then show a: "unat va < 2147483648" by (simp add: div_less_iff_less_mult)
  then have n: "vpn_of va = unat va div 4096" by (intro vpn_of_low) simp
  then show "vpn_of va = unat (drop_bit 12 va)" using d by simp
  show "vpn_of ?v = vpn_of va" using vpn_of_low [of ?v] u q n by simp
  have "unat (first_free_paddr st div 4096) < 4503599627370496"
    using unat_less [of "first_free_paddr st"] by (simp add: unat_div_distrib less_mult_imp_div_less)
  with q d show "unat (drop_bit 12 va + first_free_paddr st div 4096) < 2 ^ 54" by (simp add: unat_word_ariths)
  show "4096 * vpn_of va < unat (mmap_max st)" using v n by simp
qed

lemma entry_ok_kernel: "entry_ok st n (pte_create x (prot_to_type prot False))"
  using ptd_valid(2) [of x "prot_to_type prot False"] by (simp add: entry_ok_def pte_create_user prot_to_type_user)

lemma entry_ok_user:
  assumes "good owed st" "valid_user_range st (push_bit 12 (drop_bit 12 va)) 1"
  shows "entry_ok st (vpn_of va) (pte_create (drop_bit 12 va + first_free_paddr st div 4096) (prot_to_type prot True))"
proof -
  note U = user_frame [OF assms]
  have "(of_nat (vpn_of va) :: u64) = drop_bit 12 va" unfolding U(2) by simp
  then show ?thesis
    using U(5) pte_ppn_create [OF U(4) prot_to_type_small] ptd_valid(2) by (simp add: entry_ok_def)
qed

lemma resolve_good:
  assumes g: "good owed st" and p: "walk a st = Some p" and a: "vpn_of a = vpn_of va" and nz: "ptm st p \<noteq> 0"
    and pend: "ptm st p AND PTE_V = 0" and rng: "valid_user_range st (push_bit 12 (drop_bit 12 va)) 1"
    and run: "resolve_page e (drop_bit 12 va) a p st = Some st'"
  defines "U \<equiv> pte_create (drop_bit 12 va + first_free_paddr st div 4096) (prot_to_type (v_prot (vmr_tab st (vmr_of st (ptm st p)))) True)"
  shows "good owed st'" "same_frame st st'" "ptm st' p = U" "walk a st' = Some p"
    "\<And>n. n < NPAGES \<Longrightarrow> pmap st' n = ((pmap st)(vpn_of va := U)) n"
proof -
  note G = goodD [OF g]
  let ?n = "drop_bit 12 va + first_free_paddr st div 4096"
  let ?K = "pte_create ?n (prot_to_type (PROT_READ OR PROT_WRITE) False)"
  have x: "pmap st (vpn_of a) = ptm st p" using p by (simp add: view_pmap [symmetric] view_def)
  obtain i where i: "i < MAX_VMR" "ptm st p = vmr_ptr st i" "vmr_of st (ptm st p) = i" "vmrs st \<noteq> 0"
    using pending_entry [OF g vpn_of_less [of a]] pend nz unfolding x by metis
  from run obtain s where f: "fill_page e a (vmr_tab st i) (set_pte p ?K st) = Some s"
    and st': "st' = set_pte p (pte_create ?n (prot_to_type (v_prot (vmr_tab (vmr_decref e i 1 s) i)) True)) (vmr_decref e i 1 s)"
    unfolding resolve_page_def Let_def i(3) by (auto simp: bind_eq_Some_conv)
  from fill_page_frame [OF f] obtain t where s: "s = (set_pte p ?K st)\<lparr>ft := t\<rparr>" by blast
  let ?d = "vmr_decref e i 1 s"
  have "v_prot (vmr_tab ?d i) = v_prot (vmr_tab st i)" by (simp add: vmr_decref_frame(7) s set_pte_def)
  then have st': "st' = set_pte p U ?d" using st' i(3) by (simp add: U_def)
  have notptr: "pte_create n ty \<noteq> vmr_ptr st j" if "j < MAX_VMR" for n ty j
    using vmr_ptr_facts(2) [OF G(3) that] ptd_valid(2) [of n ty] by (metis zero_neq_one)
  have w: "walk a (set_pte p ?K st) = Some p" using set_pte_leaf(2) [OF G(1) p] p by simp
  have "good (owed(i := owed i + 1)) (set_pte p ?K st)"
    using entry_ok_kernel x a i vmr_ptr_inj [OF G(3) i(1)] notptr
    by (intro good_set_pte [OF g p]) (auto simp: view_pmap)
  then have "good (owed(i := owed i + 1)) s" unfolding s by simp
  moreover have v: "vmrs s \<noteq> 0" using i(4) by (simp add: s set_pte_def)
  ultimately have d: "good owed ?d" using good_decref [of "owed(i := owed i + 1)" s i e] i(1) by simp
  have fr: "same_frame st ?d" using vmr_decref_frame(1) [where st = s and e = e and i = i and d = 1] by (simp add: same_frame_def s set_pte_def)
  note P = same_frame_ptr [OF fr]
  have wd: "walk a ?d = Some p" using w by (simp add: s)
  have vd: "view ?d a = ?K" using wd w by (simp add: view_def vmr_decref_frame(2) s set_pte_def)
  have "entry_ok ?d (vpn_of a) U" using entry_ok_user [OF g rng] P unfolding U_def a by simp
  then show "good owed st'"
    unfolding st' using P notptr vd by (intro good_set_pte [OF d wd]) (auto simp: U_def)
  show "same_frame st st'" using fr unfolding st' by (simp add: same_frame_def set_pte_def)
  show "ptm st' p = U" unfolding st' by (simp add: set_pte_def)
  show "walk a st' = Some p" unfolding st' using set_pte_leaf(2) [OF goodD(1) [OF d] wd] wd by simp
  show "pmap st' n = ((pmap st)(vpn_of va := U)) n" if "n < NPAGES" for n
    using pmap_set_pte [OF goodD(1) [OF d] wd that] pmap_set_pte [OF G(1) p that] unfolding st' by (simp add: a s)
qed

text \<open>
  What a fault does to the entry of its page: a pending entry becomes the translation of the page with the
  protection of its mapping, and the result says whether the entry allows the access.
\<close>

definition fault_outcome :: "'h vm \<Rightarrow> u64 \<Rightarrow> u32 \<Rightarrow> int \<Rightarrow> 'h vm \<Rightarrow> bool" where
  "fault_outcome st va prot r st' \<longleftrightarrow>
     (let x = pmap st (vpn_of va); x' = pmap st' (vpn_of va); perms = pte_create 0 (prot_to_type prot True)
      in if x = 0 \<or> \<not> valid_user_range st (push_bit 12 (drop_bit 12 va)) 1 then r = -1 \<and> st' = st
         else r = (if x' AND perms = perms then 0 else -1) \<and>
           x' = (if x AND PTE_V \<noteq> 0 then x
                 else pte_create (drop_bit 12 va + first_free_paddr st div 4096) (prot_to_type (v_prot (vmr_tab st (vmr_of st x))) True)))"

lemma fault_good:
  assumes g: "good owed st" and run: "handle_page_fault e va prot st = Some (r, st')"
  shows "good owed st' \<and> same_frame st st' \<and> (\<forall>n<NPAGES. n \<noteq> vpn_of va \<longrightarrow> pmap st' n = pmap st n) \<and> fault_outcome st va prot r st'"
proof -
  let ?v = "push_bit 12 (drop_bit 12 va)" and ?perms = "pte_create 0 (prot_to_type prot True)"
  note G = goodD [OF g]
  have same: "view st ?v = view st va" if "valid_user_range st ?v 1" using user_frame(3) [OF g that] by (simp add: view_pmap)
  show ?thesis
  proof (cases "view st ?v = 0 \<or> \<not> valid_user_range st ?v 1")
    case True
    then have "handle_page_fault e va prot st = Some (-1, st)" by (auto simp: handle_page_fault_def view_def Let_def split: option.splits)
    moreover have "pmap st (vpn_of va) = 0 \<or> \<not> valid_user_range st ?v 1"
      using True same by (auto simp: view_pmap)
    ultimately show ?thesis using g run by (simp add: fault_outcome_def)
  next
    case False
    then obtain p where p: "walk ?v st = Some p" and nz: "ptm st p \<noteq> 0" and rng: "valid_user_range st ?v 1"
      by (auto simp: view_def split: option.splits)
    have x: "pmap st (vpn_of va) = ptm st p" using same [OF rng] p by (simp add: view_pmap [symmetric] view_def)
    have run': "(if ptm st p AND PTE_V = 0 then resolve_page e (drop_bit 12 va) ?v p st else Some st) = Some st'"
        "r = (if ptm st' p AND ?perms = ?perms then 0 else -1)"
      using run p nz rng by (auto simp: handle_page_fault_def Let_def bind_eq_Some_conv)
    show ?thesis
    proof (cases "ptm st p AND PTE_V = 0")
      case False
      with run' have "st' = st" by simp
      with False g nz rng run'(2) show ?thesis by (simp add: fault_outcome_def Let_def x)
    next
      case True
      with run'(1) have "resolve_page e (drop_bit 12 va) ?v p st = Some st'" by simp
      note R = resolve_good [OF g p user_frame(3) [OF g rng] nz True rng this]
      from R(5) [OF vpn_of_less [of va]] have "pmap st' (vpn_of va) = ptm st' p" unfolding R(3) by simp
      with True R(1,2,3,5) run'(2) nz rng show ?thesis by (simp add: fault_outcome_def Let_def x)
    qed
  qed
qed

subsection \<open>Finding free addresses\<close>

text \<open>\<open>k\<close> pages from \<open>a\<close> on are free.\<close>

definition fits :: "'a ptab_scheme \<Rightarrow> u64 \<Rightarrow> nat \<Rightarrow> bool" where
  "fits st a k \<longleftrightarrow> (\<forall>m<k. va_avail st (a + 4096 * of_nat m))"

lemma page_step_less:
  assumes "unat a + 4096 * k < 18446744073709551616"
  shows "unat (a + 4096 * of_nat k :: u64) = unat a + 4096 * k"
proof -
  have "unat (4096 * of_nat k :: u64) = 4096 * k" using assms by (simp add: unat_word_ariths unat_of_nat)
  then show ?thesis using assms by (simp add: unat_word_ariths)
qed

lemma scan_back_spec:
  assumes "unat a + 4096 * k < 18446744073709551616"
  shows "\<exists>j\<le>k. scan_back st a (a + 4096 * of_nat k) = Some (a + 4096 * of_nat j) \<and>
    (0 < j \<longrightarrow> \<not> va_avail st (a + 4096 * of_nat j)) \<and> (\<forall>m. j < m \<and> m \<le> k \<longrightarrow> va_avail st (a + 4096 * of_nat m))"
  using assms
proof (induction k)
  case 0
  show ?case by (subst scan_back.simps) simp
next
  case (Suc k)
  have gt: "a < a + 4096 * of_nat (Suc k)" using page_step_less [OF Suc.prems] by (simp add: word_less_nat_alt)
  show ?case
  proof (cases "va_avail st (a + 4096 * of_nat (Suc k))")
    case False
    then show ?thesis by (subst scan_back.simps) (auto intro!: exI [of _ "Suc k"])
  next
    case True
    have "scan_back st a (a + 4096 * of_nat (Suc k)) = scan_back st a (a + 4096 * of_nat k)"
      by (subst scan_back.simps) (simp add: gt True del: of_nat_Suc, simp add: algebra_simps)
    moreover from Suc obtain j where "j \<le> k" "scan_back st a (a + 4096 * of_nat k) = Some (a + 4096 * of_nat j)"
      "0 < j \<longrightarrow> \<not> va_avail st (a + 4096 * of_nat j)" "\<forall>m. j < m \<and> m \<le> k \<longrightarrow> va_avail st (a + 4096 * of_nat m)" by auto
    ultimately show ?thesis using True by (intro exI [of _ j]) (auto simp: le_Suc_eq simp del: of_nat_Suc)
  qed
qed

text \<open>The first fit at or behind \<open>a\<close>, at a distance that is a multiple of the page size; 0 if there is none.\<close>

definition first_fit :: "'a ptab_scheme \<Rightarrow> nat \<Rightarrow> u64 \<Rightarrow> u64 \<Rightarrow> u64 \<Rightarrow> bool" where
  "first_fit st np end' a r \<longleftrightarrow>
     r = 0 \<and> (\<forall>k. unat a + 4096 * k \<le> unat end' \<longrightarrow> \<not> fits st (a + 4096 * of_nat k) np) \<or>
     (\<exists>k. r = a + 4096 * of_nat k \<and> unat a + 4096 * k \<le> unat end' \<and> fits st r np \<and>
       (\<forall>j<k. \<not> fits st (a + 4096 * of_nat j) np))"

lemma not_fits:
  assumes "\<not> va_avail st (a + 4096 * of_nat b)" "b < np" "k \<le> b"
  shows "\<not> fits st (a + 4096 * of_nat k) np"
proof
  assume "fits st (a + 4096 * of_nat k) np"
  then have "va_avail st (a + 4096 * of_nat k + 4096 * of_nat (b - k))" using assms(2) unfolding fits_def by (simp add: less_imp_diff_less del: of_nat_diff)
  with assms(1,3) show False by (simp add: of_nat_diff algebra_simps)
qed

lemma first_fit_skip:
  assumes b: "\<not> va_avail st (a + 4096 * of_nat b)" "b < np" and u: "unat a + 4096 * Suc b < 18446744073709551616"
    and r: "first_fit st np end' (a + 4096 * of_nat (Suc b)) r"
  shows "first_fit st np end' a r"
proof -
  let ?a = "a + 4096 * of_nat (Suc b)"
  have shift: "?a + 4096 * of_nat k = a + 4096 * of_nat (Suc b + k)" for k by (simp add: algebra_simps)
  have ua: "unat ?a = unat a + 4096 * Suc b" using page_step_less [OF u] .
  note none = not_fits [OF b]
  consider "r = 0" "\<And>k. unat ?a + 4096 * k \<le> unat end' \<Longrightarrow> \<not> fits st (?a + 4096 * of_nat k) np"
    | k where "r = ?a + 4096 * of_nat k" "unat ?a + 4096 * k \<le> unat end'" "fits st r np" "\<And>j. j < k \<Longrightarrow> \<not> fits st (?a + 4096 * of_nat j) np"
    using r unfolding first_fit_def by blast
  then show ?thesis
  proof cases
    case 1
    have "\<not> fits st (a + 4096 * of_nat k) np" if "unat a + 4096 * k \<le> unat end'" for k
      using none [of k] 1(2) [of "k - Suc b"] that unfolding shift ua by (cases "k \<le> b") simp_all
    with 1(1) show ?thesis by (simp add: first_fit_def)
  next
    case 2
    have "\<not> fits st (a + 4096 * of_nat j) np" if "j < Suc b + k" for j
      using none [of j] 2(4) [of "j - Suc b"] that unfolding shift by (cases "j \<le> b") simp_all
    with 2(1-3) show ?thesis
      unfolding first_fit_def shift ua by (intro disjI2 exI [of _ "Suc b + k"]) simp
  qed
qed

lemma vm_alloc_loop_spec:
  assumes "0 < np" "unat end' + 4096 * np + 4096 \<le> 9223372036854775808"
  shows "\<exists>r. vm_alloc_loop st (of_nat np) end' a = Some r \<and> first_fit st np end' a r"
proof (induction "unat end' + 4096 * np + 4096 - unat a" arbitrary: a rule: less_induct)
  case less
  show ?case
  proof (cases "a \<le> end'")
    case False
    then have "\<not> unat a + 4096 * k \<le> unat end'" for k by (simp add: word_le_nat_alt)
    with False show ?thesis by (subst vm_alloc_loop.simps) (simp add: first_fit_def)
  next
    case True
    then have le: "unat a \<le> unat end'" by (simp add: word_le_nat_alt)
    have skip: "\<exists>r. vm_alloc_loop st (of_nat np) end' (a + 4096 * of_nat (Suc b)) = Some r \<and> first_fit st np end' a r"
      if b: "\<not> va_avail st (a + 4096 * of_nat b)" "b < np" for b
    proof -
      have u: "unat a + 4096 * Suc b < 18446744073709551616" using le assms(2) b(2) by simp
      have "unat (a + 4096 * of_nat (Suc b)) = unat a + 4096 * Suc b" using page_step_less [OF u] .
      moreover from this le b(2) have "\<exists>r. vm_alloc_loop st (of_nat np) end' (a + 4096 * of_nat (Suc b)) = Some r \<and>
          first_fit st np end' (a + 4096 * of_nat (Suc b)) r"
        by (intro less(1)) simp_all
      ultimately show ?thesis using first_fit_skip [OF b u, of end'] by blast
    qed
    show ?thesis
    proof (cases "va_avail st a")
      case False
      with skip [of 0] assms(1) True show ?thesis by (subst vm_alloc_loop.simps) simp
    next
      case avail: True
      have sb: "unat a + 4096 * (np - 1) < 18446744073709551616" using le assms(2) by simp
      obtain j where j: "j \<le> np - 1" "scan_back st a (a + 4096 * of_nat (np - 1)) = Some (a + 4096 * of_nat j)"
        "0 < j \<longrightarrow> \<not> va_avail st (a + 4096 * of_nat j)" "\<forall>m. j < m \<and> m \<le> np - 1 \<longrightarrow> va_avail st (a + 4096 * of_nat m)"
        using scan_back_spec [of a "np - 1" st] sb by blast
      have "(of_nat np - 1) * 4096 = (4096 * of_nat (np - 1) :: u64)" using assms(1) by (simp add: of_nat_diff algebra_simps)
      with True avail j(2) have eq: "vm_alloc_loop st (of_nat np) end' a =
          (if a + 4096 * of_nat j > a then vm_alloc_loop st (of_nat np) end' (a + 4096 * of_nat j + 4096) else Some (a + 4096 * of_nat j))"
        by (subst vm_alloc_loop.simps) simp
      have uj: "unat (a + 4096 * of_nat j) = unat a + 4096 * j" using le assms(2) j(1) by (intro page_step_less) simp
      show ?thesis
      proof (cases "j = 0")
        case True
        have "va_avail st (a + 4096 * of_nat m)" if "m < np" for m
          using avail j(4) True that by (cases "m = 0") simp_all
        then have f: "fits st a np" by (simp add: fits_def)
        then have "first_fit st np end' a a" unfolding first_fit_def using le by (intro disjI2 exI [of _ 0]) simp
        with eq True show ?thesis by simp
      next
        case False
        then have "a + 4096 * of_nat j > a" using uj by (simp add: word_less_nat_alt)
        with eq skip [of j] j False assms(1) show ?thesis by (auto simp: algebra_simps)
      qed
    qed
  qed
qed

subsection \<open>New mappings\<close>

definition same_bounds :: "'h vm \<Rightarrow> 'h vm \<Rightarrow> bool" where
  "same_bounds st st' \<longleftrightarrow> mmap_max st' = mmap_max st \<and> first_free_paddr st' = first_free_paddr st \<and>
     demand_paging st' = demand_paging st \<and> brk st' = brk st \<and> brk_min st' = brk_min st \<and> brk_max st' = brk_max st"

lemma same_frame_bounds: "same_frame st st' \<Longrightarrow> same_bounds st st'"
  by (simp add: same_frame_def same_bounds_def)

lemma same_bounds_trans: "same_bounds a b \<Longrightarrow> same_bounds b c \<Longrightarrow> same_bounds a c"
  by (simp add: same_bounds_def)

lemma page_nonzero: "room st \<Longrightarrow> first_free_page st \<noteq> 0 \<Longrightarrow> page_alloc st = Some (pg, st') \<Longrightarrow> pg \<noteq> 0"
proof -
  assume a: "room st" "first_free_page st \<noteq> 0" "page_alloc st = Some (pg, st')"
  have lt: "unat (next_free_page st) < unat (free_pages st)" "pg = page_at st (unat (next_free_page st))"
    using a by (auto simp: room_def page_alloc_def page_at_def Let_def word_le_nat_alt word_unat_eq_iff split: if_splits)
  from unat_page_at [OF a(1) lt(1)] a(2) show "pg \<noteq> 0" unfolding lt(2) by (auto simp: word_unat_eq_iff)
qed

lemma vmr_page_good:
  assumes g: "good (\<lambda>_. 0) st" and run: "vmr_page st = Some st'"
  shows "good (\<lambda>_. 0) st'" "same_bounds st st'" "pmap st' = pmap st" "vmrs st' \<noteq> 0" "ft st' = ft st"
proof -
  note G = goodD [OF g]
  have "good (\<lambda>_. 0) st' \<and> same_bounds st st' \<and> pmap st' = pmap st \<and> vmrs st' \<noteq> 0 \<and> ft st' = ft st"
  proof (cases "vmrs st = 0")
    case False
    with run g show ?thesis by (simp add: vmr_page_def same_bounds_def)
  next
    case True
    then obtain pg s where pg: "page_alloc st = Some (pg, s)"
      and st': "st' = s\<lparr>vmrs := pg, vmr_tab := \<lambda>_. \<lparr>v_addr = 0, v_length = 0, v_file = None, v_offset = 0, v_refcnt = 0, v_prot = 0\<rparr>\<rparr>"
      using run by (auto simp: vmr_page_def)
    have room: "room st" using G(1) by (simp add: tree_def)
    note A = page_alloc_fresh(1) [OF room pg] page_nonzero [OF room G(6) pg] and S = good_grown [OF g page_alloc_grown(1) [OF G(1) pg]]
    have pm: "pmap st' = pmap st" unfolding S(5) [symmetric] by (rule pt_cong) (simp_all add: st')
    have ent: "pmap st n = 0 \<or> pmap st n AND 1 \<noteq> 0 \<and> (pmap st n AND 16 = 0 \<or>
        pte_ppn (pmap st n) = of_nat n + first_free_paddr st div 4096 \<and> 4096 * n < unat (mmap_max st))" if "n < NPAGES" for n
      using G(4) [OF that] True by (simp add: entry_ok_def)
    have "occurs (pmap st) (vmr_ptr st' i) = 0" if "i < MAX_VMR" for i
      using ent vmr_ptr_facts(2,4) [of st' i] that A unfolding occurs_def by (force simp: st')
    moreover have "tree st'" using goodD(1) [OF S(1)] tree_cong [of st' s] by (simp add: st')
    moreover have "same_bounds st st'" using same_frame_bounds [OF S(2)] by (simp add: st' same_bounds_def)
    moreover have "first_free_page st' \<noteq> 0" using goodD(6) [OF S(1)] by (simp add: st')
    ultimately show ?thesis
      using ent A G(2) S(4) pm unfolding good_def entry_ok_def pm by (auto simp: st' same_bounds_def)
  qed
  then show "good (\<lambda>_. 0) st'" "same_bounds st st'" "pmap st' = pmap st" "vmrs st' \<noteq> 0" "ft st' = ft st" by simp_all
qed

lemma vmr_alloc_good:
  assumes g: "good (\<lambda>_. 0) st" and run: "vmr_alloc e a len f off c prot st = Some (v, st')"
  shows "same_bounds st st' \<and> pmap st' = pmap st \<and> (case v of None \<Rightarrow> good (\<lambda>_. 0) st'
    | Some i \<Rightarrow> i < MAX_VMR \<and> vmrs st' \<noteq> 0 \<and> good ((\<lambda>_. 0)(i := unat c)) st' \<and>
        vmr_tab st' i = \<lparr>v_addr = a, v_length = len, v_file = f, v_offset = off, v_refcnt = c, v_prot = prot\<rparr>)"
proof -
  obtain s where s: "vmr_page st = Some s" using run by (cases "vmr_page st") (simp_all add: vmr_alloc_def)
  obtain t where t: "printk (kenv e s) (''%x, %x'' @ [CHR 0x0A]) [VWord (v_addr (vmr_tab s 0)), VWord a] (ft s) = Some t"
    using run s by (cases "printk (kenv e s) (''%x, %x'' @ [CHR 0x0A]) [VWord (v_addr (vmr_tab s 0)), VWord a] (ft s)")
      (simp_all add: vmr_alloc_def)
  let ?v = "\<lparr>v_addr = a, v_length = len, v_file = f, v_offset = off, v_refcnt = c, v_prot = prot\<rparr>"
  have rest: "(case first_from (\<lambda>i. v_refcnt (vmr_tab s i) = 0) 0 MAX_VMR of
        None \<Rightarrow> Some (None, s\<lparr>ft := t\<rparr>)
      | Some i \<Rightarrow> (case f of None \<Rightarrow> Some t | Some f \<Rightarrow> file_incref f t) \<bind> (\<lambda>t. Some (Some i, set_vmr i ?v (s\<lparr>ft := t\<rparr>)))) = Some (v, st')"
    using run s t by (simp add: vmr_alloc_def Let_def cong: option.case_cong)
  note V = vmr_page_good [OF g s]
  show ?thesis
  proof (cases "first_from (\<lambda>i. v_refcnt (vmr_tab s i) = 0) 0 MAX_VMR")
    case None
    with rest V show ?thesis by (auto simp: same_bounds_def)
  next
    case (Some i)
    from first_from_Some [OF this] have i: "i < MAX_VMR" "v_refcnt (vmr_tab s i) = 0" by simp_all
    from rest Some obtain t' where st': "v = Some i" "st' = set_vmr i ?v (s\<lparr>ft := t'\<rparr>)"
      by (auto simp: bind_eq_Some_conv)
    have z: "occurs (pmap s) (vmr_ptr s i) = 0" using goodD(5) [OF V(1,4) i(1)] i(2) by simp
    have "good ((\<lambda>_. 0)(i := unat c)) st'"
      using V(1) z unfolding good_def by (auto simp: st' set_vmr_def entry_ok_def vmr_ptr_def)
    with V i st' show ?thesis by (simp add: set_vmr_def same_bounds_def)
  qed
qed

lemma unat_npage: "len \<noteq> 0 \<Longrightarrow> unat ((len - 1) div 4096 + 1 :: u64) = npages len"
proof -
  assume "len \<noteq> 0"
  then obtain l where l: "unat len = Suc l" "unat (len - 1) = l" by (metis unat_gt_0 gr0_implies_Suc unat_minus_one diff_Suc_1)
  have "l div 4096 < 18446744073709551615" using unat_less [of "len - 1"] l(2) by (simp add: less_mult_imp_div_less)
  then show ?thesis using l by (simp add: unat_word_ariths unat_div_distrib npages_def)
qed

lemma npage_count:
  assumes "npages len \<le> 524288"
  shows "unat (ucast ((len - 1) div 4096 + 1 :: u64) :: u32) = npages len"
proof (cases "len = 0")
  case True
  then show ?thesis by (simp add: npages_def)
next
  case False
  with assms unat_npage [OF False] show ?thesis by (simp add: unsigned_ucast_eq take_bit_nat_eq_self)
qed

lemma npages_fit:
  assumes "aligned a" "unat a + unat len \<le> 2147483648"
  shows "unat a + 4096 * npages len \<le> 2147483648"
proof -
  from assms(1) obtain c where c: "unat a = 4096 * c" by blast
  then have "unat len \<le> 4096 * (524288 - c)" using assms(2) by simp
  then have "npages len \<le> 524288 - c" unfolding npages_def by (simp add: div_le_mono less_Suc_eq_le [symmetric] div_less_iff_less_mult)
  moreover have "c \<le> 524288" using c assms(2) by simp
  ultimately have "c + npages len \<le> 524288" by simp
  then show ?thesis using c by simp
qed

text \<open>The invariant between calls.\<close>

definition core_inv :: "'h vm \<Rightarrow> bool" where
  "core_inv st \<longleftrightarrow> good (\<lambda>_. 0) st \<and> aligned (brk st)"

definition vm_inv :: "'h vm \<Rightarrow> bool" where
  "vm_inv st \<longleftrightarrow> core_inv st \<and> brk st \<le> 0x80000000 \<and> brk_min st \<le> 0x80000000 \<and> brk_max st \<le> 0x80000000 \<and>
     aligned (first_free_paddr st) \<and> first_free_paddr st \<le> 0x400000000"

text \<open>A request the search for free addresses can handle.\<close>

definition searchable :: "'h vm \<Rightarrow> u64 \<Rightarrow> u32 \<Rightarrow> bool" where
  "searchable st len fl \<longleftrightarrow> fl AND MAP_FIXED \<noteq> 0 \<or> len \<noteq> 0 \<and> 4096 * npages len \<le> unat (mmap_max st)"

lemma valid_range:
  assumes "valid_user_range st a len"
  shows "unat a + unat len \<le> unat (mmap_max st)"
proof -
  have "\<not> a + len < a" "a + len \<le> mmap_max st" using assms by (auto simp: valid_user_range_def split: if_splits)
  moreover from this(1) have "unat (a + len) = unat a + unat len"
    using unat_less [of a] unat_less [of len] by (simp add: word_less_nat_alt unat_word_ariths mod_if split: if_splits)
  ultimately show ?thesis by (simp add: word_le_nat_alt)
qed

lemma vm_alloc_spec:
  assumes "mmap_max st \<le> 0x80000000" "len \<noteq> 0" "4096 * npages len \<le> unat (mmap_max st)"
  shows "\<exists>r. vm_alloc st ((len - 1) div 4096 + 1) = Some r \<and>
    first_fit st (npages len) (mmap_max st - of_nat (npages len) * 4096) (brk st) r"
    "unat (mmap_max st - of_nat (npages len) * 4096) = unat (mmap_max st) - 4096 * npages len"
proof -
  have np: "(len - 1) div 4096 + 1 = (of_nat (npages len) :: u64)"
    using arg_cong [OF unat_npage [OF assms(2)], of "of_nat :: nat \<Rightarrow> u64"] by simp
  have m: "unat (mmap_max st) \<le> 2147483648" using assms(1) by (simp add: word_le_nat_alt)
  have u: "unat (of_nat (npages len) * 4096 :: u64) = 4096 * npages len"
    using page_step_less [of 0 "npages len"] assms(3) m by (simp add: mult.commute [of _ 4096])
  show e: "unat (mmap_max st - of_nat (npages len) * 4096) = unat (mmap_max st) - 4096 * npages len"
    using unat_sub [of "of_nat (npages len) * 4096" "mmap_max st"] assms(3) u by (simp add: word_le_nat_alt)
  have "0 < npages len" using assms(2) npages_less [of 0 len] by (simp add: unat_gt_0)
  from vm_alloc_loop_spec [OF this, of "mmap_max st - of_nat (npages len) * 4096" st "brk st"] e m assms(3)
  show "\<exists>r. vm_alloc st ((len - 1) div 4096 + 1) = Some r \<and>
    first_fit st (npages len) (mmap_max st - of_nat (npages len) * 4096) (brk st) r"
    unfolding vm_alloc_def np by simp
qed

text \<open>The address of a new mapping.\<close>

lemma mmap_addr:
  assumes "core_inv st" "searchable st len fl"
    and "(if fl AND MAP_FIXED \<noteq> 0
      then Some (if a AND (PGSIZE - 1) \<noteq> 0 \<or> \<not> valid_user_range st a len then None else Some a)
      else map_option (\<lambda>addr. if addr = 0 then None else Some addr) (vm_alloc st ((len - 1) div PGSIZE + 1))) = Some (Some r)"
  shows "aligned r" "unat r + unat len \<le> unat (mmap_max st)"
    "if fl AND MAP_FIXED \<noteq> 0 then r = a
     else first_fit st (npages len) (mmap_max st - of_nat (npages len) * 4096) (brk st) r \<and> r \<noteq> 0 \<and> fits st r (npages len)"
proof -
  have m: "mmap_max st \<le> 0x80000000" using assms(1) by (simp add: core_inv_def good_def)
  have len: "unat len \<le> 4096 * npages len" by (metis less_irrefl linorder_not_less npages_less)
  have "aligned r \<and> unat r + unat len \<le> unat (mmap_max st) \<and> (if fl AND MAP_FIXED \<noteq> 0 then r = a
     else first_fit st (npages len) (mmap_max st - of_nat (npages len) * 4096) (brk st) r \<and> r \<noteq> 0 \<and> fits st r (npages len))"
  proof (cases "fl AND MAP_FIXED \<noteq> 0")
    case True
    with assms(3) aligned_iff [of a] valid_range [of st a len] show ?thesis by (auto split: if_splits)
  next
    case False
    with assms(2) have s: "len \<noteq> 0" "4096 * npages len \<le> unat (mmap_max st)" by (simp_all add: searchable_def)
    note V = vm_alloc_spec [OF m s]
    from V(1) assms(3) False have r: "first_fit st (npages len) (mmap_max st - of_nat (npages len) * 4096) (brk st) r" "r \<noteq> 0"
      by (auto split: if_splits)
    then obtain k where k: "r = brk st + 4096 * of_nat k" "unat (brk st) + 4096 * k \<le> unat (mmap_max st) - 4096 * npages len" "fits st r (npages len)"
      unfolding first_fit_def V(2) by auto
    have "unat r = unat (brk st) + 4096 * k"
      unfolding k(1) using k(2) unat_less [of "mmap_max st"] by (intro page_step_less) simp
    moreover have "aligned (brk st)" using assms(1) by (simp add: core_inv_def)
    ultimately have "aligned r" "unat r + unat len \<le> unat (mmap_max st)" using k(2) s(2) len by auto
    with r k(3) False show ?thesis by simp
  qed
  then show "aligned r" "unat r + unat len \<le> unat (mmap_max st)"
    "if fl AND MAP_FIXED \<noteq> 0 then r = a
     else first_fit st (npages len) (mmap_max st - of_nat (npages len) * 4096) (brk st) r \<and> r \<noteq> 0 \<and> fits st r (npages len)" by simp_all
qed

lemma meta_fill: "fill_page e a v st = Some st' \<Longrightarrow> vmr_tab st' = vmr_tab st"
  using fill_page_frame by fastforce

lemma meta_resolve: "resolve_page e vpn a p st = Some st' \<Longrightarrow> meta (vmr_tab st' j) = meta (vmr_tab st j)"
  by (auto simp: resolve_page_def Let_def bind_eq_Some_conv dest: meta_fill)

lemma meta_fault: "handle_page_fault e va prot st = Some (r, st') \<Longrightarrow> meta (vmr_tab st' j) = meta (vmr_tab st j)"
  by (auto simp: handle_page_fault_def Let_def bind_eq_Some_conv split: option.splits if_splits dest: meta_resolve)

lemma populate_good:
  assumes g: "good owed st" and a: "unat a + unat len \<le> 2147483648" "aligned a"
    and run: "for_pages (\<lambda>a st. do { (r, st) \<leftarrow> handle_page_fault e a prot st; (if r = 0 then Some st else None) }) a (a + len) st = Some st'"
  shows "good owed st'" "same_frame st st'" "\<And>j. meta (vmr_tab st' j) = meta (vmr_tab st j)"
    "\<And>n. n < NPAGES \<Longrightarrow> \<not> (unat a div 4096 \<le> n \<and> n < unat a div 4096 + npages len) \<Longrightarrow> pmap st' n = pmap st n"
proof -
  let ?b = "\<lambda>a st. do { (r, st) \<leftarrow> handle_page_fault e a prot st; (if r = 0 then Some st else None) }"
  let ?P = "\<lambda>k s. good owed s \<and> same_frame st s \<and> (\<forall>j. meta (vmr_tab s j) = meta (vmr_tab st j)) \<and>
    (\<forall>n<NPAGES. \<not> (unat a div 4096 \<le> n \<and> n < unat a div 4096 + npages len) \<longrightarrow> pmap s n = pmap st n)"
  have "page_fold ?b (npages len) a st = Some st'" using run for_pages_fold [of a len ?b st] a by simp
  then have "?P (npages len) st'"
  proof (rule page_fold_inv [where P = ?P])
    fix k and s s' :: "'a vm"
    assume k: "k < npages len" and P: "?P k s" and run: "?b (a + 4096 * of_nat k) s = Some s'"
    then obtain r where f: "handle_page_fault e (a + 4096 * of_nat k) prot s = Some (r, s')"
      by (auto simp: bind_eq_Some_conv split: if_splits)
    from fault_good [OF conjunct1 [OF P] f] P meta_fault [OF f] range_page(2) [OF a(2,1) k] k show "?P (Suc k) s'"
      using same_frame_trans by fastforce
  qed (use g in simp)
  then show "good owed st'" "same_frame st st'" "\<And>j. meta (vmr_tab st' j) = meta (vmr_tab st j)"
    "\<And>n. n < NPAGES \<Longrightarrow> \<not> (unat a div 4096 \<le> n \<and> n < unat a div 4096 + npages len) \<Longrightarrow> pmap st' n = pmap st n" by simp_all
qed

text \<open>The second half of \<open>__do_mmap\<close>: the entries, and the faults on request.\<close>

lemma mmap_mapped:
  assumes g: "good ((\<lambda>_. 0)(i := npages len)) st1" and i: "i < MAX_VMR" "vmrs st1 \<noteq> 0"
    and x: "aligned x" "unat x + unat len \<le> 2147483648" "unat x + 4096 * npages len \<le> 2147483648"
    and st2: "for_pages (mmap_page e (vmr_ptr st1 i)) x (x + len) st1 = Some st2"
    and st': "(if c then for_pages (\<lambda>a st. do { (r, st) \<leftarrow> handle_page_fault e a prot st; (if r = 0 then Some st else None) }) x (x + len) st2
      else Some st2) = Some st'"
  shows "good (\<lambda>_. 0) st'" "same_frame st1 st'" "\<And>j. meta (vmr_tab st' j) = meta (vmr_tab st1 j)"
    "\<And>n. n < NPAGES \<Longrightarrow> \<not> (unat x div 4096 \<le> n \<and> n < unat x div 4096 + npages len) \<Longrightarrow> pmap st' n = pmap st1 n"
    "\<And>n. \<not> c \<Longrightarrow> unat x div 4096 \<le> n \<and> n < unat x div 4096 + npages len \<Longrightarrow> pmap st' n = vmr_ptr st' i"
proof -
  note M = mmap_pages_good [OF g i fun_upd_same x(1,3) st2]
  have g2: "good (\<lambda>_. 0) st2" using M(1) unfolding fun_upd_upd by (metis fun_upd_triv)
  have E: "good (\<lambda>_. 0) st' \<and> same_frame st2 st' \<and> (\<forall>j. meta (vmr_tab st' j) = meta (vmr_tab st2 j)) \<and>
    (\<forall>n<NPAGES. \<not> (unat x div 4096 \<le> n \<and> n < unat x div 4096 + npages len) \<longrightarrow> pmap st' n = pmap st2 n)"
  proof (cases c)
    case True
    with st' have "for_pages (\<lambda>a st. do { (r, st) \<leftarrow> handle_page_fault e a prot st; (if r = 0 then Some st else None) }) x (x + len) st2 = Some st'"
      by simp
    from populate_good [OF g2 x(2,1) this] show ?thesis by blast
  qed (use st' g2 in simp)
  then show "good (\<lambda>_. 0) st'" "same_frame st1 st'" "\<And>j. meta (vmr_tab st' j) = meta (vmr_tab st1 j)"
    "\<And>n. n < NPAGES \<Longrightarrow> \<not> (unat x div 4096 \<le> n \<and> n < unat x div 4096 + npages len) \<Longrightarrow> pmap st' n = pmap st1 n"
    using M(2-4) same_frame_trans by (auto simp: set_range_def)
  show "pmap st' n = vmr_ptr st' i" if "\<not> c" "unat x div 4096 \<le> n \<and> n < unat x div 4096 + npages len" for n
  proof -
    have "n < NPAGES" using that(2) x(3) by auto
    then show ?thesis using M(3) [of n] that st' same_frame_ptr [OF M(2)] by (simp add: set_range_def)
  qed
qed

text \<open>
  What \<open>__do_mmap\<close> makes of the state: nothing new to the user when it fails; otherwise a range of pages,
  at the address asked for or at the first free one, whose entries point to a record of the mapping
  (unless they were populated at once).
\<close>

definition mmap_outcome :: "'h vm \<Rightarrow> u64 \<Rightarrow> u64 \<Rightarrow> u32 \<Rightarrow> u32 \<Rightarrow> nat option \<Rightarrow> u64 \<Rightarrow> u64 \<Rightarrow> 'h vm \<Rightarrow> bool" where
  "mmap_outcome st a len prot fl f off r st' \<longleftrightarrow>
     r = -1 \<and> pmap st' = pmap st \<or>
     (\<exists>i<MAX_VMR. aligned r \<and> unat r + unat len \<le> unat (mmap_max st) \<and> vmrs st' \<noteq> 0 \<and>
       (if fl AND MAP_FIXED \<noteq> 0 then r = a
        else first_fit st (npages len) (mmap_max st - of_nat (npages len) * 4096) (brk st) r \<and> fits st r (npages len)) \<and>
       (\<forall>n<NPAGES. \<not> (unat r div 4096 \<le> n \<and> n < unat r div 4096 + npages len) \<longrightarrow> pmap st' n = pmap st n) \<and>
       (demand_paging st \<and> fl AND MAP_POPULATE = 0 \<longrightarrow>
         (\<forall>n. unat r div 4096 \<le> n \<and> n < unat r div 4096 + npages len \<longrightarrow> pmap st' n = vmr_ptr st' i)) \<and>
       meta (vmr_tab st' i) = \<lparr>v_addr = r, v_length = len, v_file = f, v_offset = off, v_refcnt = 0, v_prot = prot\<rparr>)"

lemma do_mmap_pages_spec:
  assumes inv: "core_inv st" and s: "searchable st len fl"
    and run: "do_mmap_pages e a len prot fl f off st = Some (r, st')"
  shows "core_inv st'" "same_bounds st st'" "mmap_outcome st a len prot fl f off r st'"
proof -
  have g: "good (\<lambda>_. 0) st" using inv by (simp add: core_inv_def)
  have m: "unat (mmap_max st) \<le> 2147483648" using goodD(2) [OF g] by (simp add: word_le_nat_alt)
  let ?A = "if fl AND MAP_FIXED \<noteq> 0
      then Some (if a AND (PGSIZE - 1) \<noteq> 0 \<or> \<not> valid_user_range st a len then None else Some a)
      else map_option (\<lambda>addr. if addr = 0 then None else Some addr) (vm_alloc st ((len - 1) div PGSIZE + 1))"
  obtain ra where ra: "?A = Some ra" using run by (cases ?A) (simp_all add: do_mmap_pages_def)
  have "core_inv st' \<and> same_bounds st st' \<and> mmap_outcome st a len prot fl f off r st'"
  proof (cases ra)
    case None
    then have "r = -1" "st' = st" using run ra by (simp_all add: do_mmap_pages_def)
    then show ?thesis using inv by (simp add: same_bounds_def mmap_outcome_def)
  next
    case (Some x)
    note X = mmap_addr [OF inv s ra [unfolded Some]]
    let ?c = "ucast ((len - 1) div PGSIZE + 1) :: u32"
    obtain v st1 where v: "vmr_alloc e x len f off ?c prot st = Some (v, st1)"
      using run ra Some by (cases "vmr_alloc e x len f off ?c prot st") (auto simp: do_mmap_pages_def)
    note V = vmr_alloc_good [OF g v]
    show ?thesis
    proof (cases v)
      case None
      then have "r = -1" "st' = st1" using run ra Some v by (simp_all add: do_mmap_pages_def)
      then show ?thesis using V None inv by (simp add: core_inv_def mmap_outcome_def same_bounds_def)
    next
      case i: (Some i)
      have fit: "unat x + 4096 * npages len \<le> 2147483648" using npages_fit [OF X(1)] X(2) m by simp
      have c: "unat ?c = npages len" using fit by (intro npage_count) simp
      from V i have V': "same_bounds st st1" "pmap st1 = pmap st" "i < MAX_VMR" "vmrs st1 \<noteq> 0"
        "good ((\<lambda>_. 0)(i := npages len)) st1"
        "meta (vmr_tab st1 i) = \<lparr>v_addr = x, v_length = len, v_file = f, v_offset = off, v_refcnt = 0, v_prot = prot\<rparr>"
        unfolding c by (simp_all add: meta_def)
      obtain st2 where st2: "for_pages (mmap_page e (vmr_ptr st1 i)) x (x + len) st1 = Some st2"
        using run ra Some v i by (cases "for_pages (mmap_page e (vmr_ptr st1 i)) x (x + len) st1") (simp_all add: do_mmap_pages_def)
      have xl: "unat x + unat len \<le> 2147483648" using X(2) m by simp
      note M = mmap_pages_good [OF V'(5,3,4) fun_upd_same X(1) fit st2]
      have "demand_paging st2 = demand_paging st" using M(2) V'(1) by (simp add: same_frame_def same_bounds_def)
      then have r: "r = x" and st': "(if \<not> demand_paging st \<or> fl AND MAP_POPULATE \<noteq> 0
          then for_pages (\<lambda>a st. do { (r, st) \<leftarrow> handle_page_fault e a prot st; (if r = 0 then Some st else None) }) x (x + len) st2
          else Some st2) = Some st'"
        using run ra Some v i st2 by (auto simp: do_mmap_pages_def bind_eq_Some_conv split: if_splits)
      note E = mmap_mapped [OF V'(5,3,4) X(1) xl fit st2 st']
      have "mmap_outcome st a len prot fl f off r st'"
        unfolding mmap_outcome_def r using X V' E by (intro disjI2 exI [of _ i]) (auto simp: same_frame_def)
      with E(1,2) V'(1) inv show ?thesis by (simp add: core_inv_def same_bounds_def same_frame_def)
    qed
  qed
  then show "core_inv st'" "same_bounds st st'" "mmap_outcome st a len prot fl f off r st'" by simp_all
qed

subsection \<open>The calls keep the invariant\<close>

lemma do_mmap_pages_inv:
  assumes "vm_inv st" "searchable st len fl" "do_mmap_pages e a len prot fl f off st = Some (r, st')"
  shows "vm_inv st'" "same_bounds st st'"
  using do_mmap_pages_spec(1,2) [OF _ assms(2,3)] assms(1) by (auto simp: vm_inv_def same_bounds_def)

lemma good_bounds [simp]:
  "good owed (st\<lparr>brk := x\<rparr>) = good owed st" "good owed (st\<lparr>brk_max := x\<rparr>) = good owed st" "good owed (st\<lparr>stack_top := x\<rparr>) = good owed st"
  "good owed (st\<lparr>sptbr := x\<rparr>) = good owed st"
  unfolding good_def entry_ok_def vmr_ptr_def
  using pt_cong(2) [of "st\<lparr>brk := x\<rparr>" st] tree_cong [of "st\<lparr>brk := x\<rparr>" st]
    pt_cong(2) [of "st\<lparr>brk_max := x\<rparr>" st] tree_cong [of "st\<lparr>brk_max := x\<rparr>" st]
    pt_cong(2) [of "st\<lparr>stack_top := x\<rparr>" st] tree_cong [of "st\<lparr>stack_top := x\<rparr>" st]
    pt_cong(2) [of "st\<lparr>sptbr := x\<rparr>" st] tree_cong [of "st\<lparr>sptbr := x\<rparr>" st]
  by simp_all

lemma npages_le: "unat len \<le> 4096 * npages len"
  by (metis less_irrefl linorder_not_less npages_less)

lemma unat_roundup:
  assumes "4096 * npages a < 18446744073709551616"
  shows "unat (ROUNDUP a 4096) = 4096 * npages a"
proof (cases "a = 0")
  case False
  have n: "(a - 1) div 4096 + 1 = (of_nat (npages a) :: u64)"
    using arg_cong [OF unat_npage [OF False], of "of_nat :: nat \<Rightarrow> u64"] by simp
  show ?thesis unfolding ROUNDUP_def n using page_step_less [of 0 "npages a"] assms by (simp add: mult.commute [of _ 4096])
qed (simp add: ROUNDUP_def npages_def)

lemma roundup_low:
  assumes "a \<le> 0x80000000"
  shows "aligned (ROUNDUP a 4096)" "ROUNDUP a 4096 \<le> 0x80000000" "a \<le> ROUNDUP a 4096"
proof -
  have "4096 * npages a \<le> 2147483648" using npages_fit [of 0 a] assms by (simp add: word_le_nat_alt)
  with unat_roundup [of a] npages_le [of a] show "aligned (ROUNDUP a 4096)" "ROUNDUP a 4096 \<le> 0x80000000" "a \<le> ROUNDUP a 4096"
    by (simp_all add: word_le_nat_alt)
qed

lemma vm_inv_cong: "good (\<lambda>_. 0) st' \<Longrightarrow> same_bounds st st' \<Longrightarrow> vm_inv st \<Longrightarrow> vm_inv st'"
  by (simp add: vm_inv_def core_inv_def same_bounds_def)

lemma vm_inv_ft [simp]: "vm_inv (st\<lparr>ft := t\<rparr>) = vm_inv st"
  by (simp add: vm_inv_def core_inv_def)

text \<open>\<open>munmap\<close>: the pages of the range, and only they, lose their entries.\<close>

lemma do_munmap_spec:
  assumes "vm_inv st"
  shows "\<exists>st'. do_munmap e a len st = Some (if aligned a \<and> valid_user_range st a len then 0 else - EINVAL, st') \<and> vm_inv st' \<and>
    (if aligned a \<and> valid_user_range st a len
     then \<forall>n<NPAGES. pmap st' n = set_range (unat a div 4096) (npages len) 0 (pmap st) n else st' = st)"
proof (cases "aligned a \<and> valid_user_range st a len")
  case True
  have g: "good (\<lambda>_. 0) st" using assms by (simp add: vm_inv_def core_inv_def)
  have "unat (mmap_max st) \<le> 2147483648" using goodD(2) [OF g] by (simp add: word_le_nat_alt)
  moreover have "unat a + unat len \<le> unat (mmap_max st)" using valid_range True by blast
  ultimately have "unat a + unat len \<le> 2147483648" by simp
  from munmap_good [OF g conjunct1 [OF True] this, of e] obtain st' where
    st': "do_munmap_pages e a len st = Some st'" "good (\<lambda>_. 0) st'" "same_frame st st'"
      "\<forall>n<NPAGES. pmap st' n = set_range (unat a div 4096) (npages len) 0 (pmap st) n" by auto
  with True vm_inv_cong [OF st'(2) same_frame_bounds [OF st'(3)] assms] show ?thesis
    by (intro exI [of _ st']) (simp add: do_munmap_def aligned_iff)
next
  case False
  with assms show ?thesis by (simp add: do_munmap_def aligned_iff)
qed

lemma do_mmap_inv:
  assumes "vm_inv st" "searchable st len fl" "do_mmap e a len prot fl fd off st = Some (r, st')"
  shows "vm_inv st'"
proof -
  obtain f t where f: "(if fl AND MAP_ANONYMOUS = 0 then file_get (sint fd) (ft st) else (None, ft st)) = (f, t)" by fastforce
  show ?thesis
  proof (cases "fl AND MAP_PRIVATE = 0 \<or> len = 0 \<or> off AND (PGSIZE - 1) \<noteq> 0 \<or> fl AND MAP_ANONYMOUS = 0 \<and> f = None")
    case True
    with assms f show ?thesis by (auto simp: do_mmap_def Let_def split: if_splits prod.splits)
  next
    case False
    let ?post = "\<lambda>r1 st1. let st2 = (if r1 < brk_max st1 then st1\<lparr>brk_max := r1\<rparr> else st1)
      in (case f of None \<Rightarrow> st2 | Some g \<Rightarrow> st2\<lparr>ft := file_decref (kenv e st2) g (ft st2)\<rparr>)"
    have eq: "do_mmap e a len prot fl fd off st = map_option (\<lambda>(r1, st1). (r1, ?post r1 st1)) (do_mmap_pages e a len prot fl f off (st\<lparr>ft := t\<rparr>))"
      using False f by (cases "do_mmap_pages e a len prot fl f off (st\<lparr>ft := t\<rparr>)") (auto simp: do_mmap_def Let_def case_prod_unfold)
    obtain r1 st1 where m: "do_mmap_pages e a len prot fl f off (st\<lparr>ft := t\<rparr>) = Some (r1, st1)" "st' = ?post r1 st1"
      using assms(3) unfolding eq by (cases "do_mmap_pages e a len prot fl f off (st\<lparr>ft := t\<rparr>)") auto
    have "vm_inv (st\<lparr>ft := t\<rparr>)" "searchable (st\<lparr>ft := t\<rparr>) len fl" using assms(1,2) by (simp_all add: searchable_def)
    from do_mmap_pages_inv(1) [OF this m(1)] have "vm_inv st1" .
    then have "vm_inv (if r1 < brk_max st1 then st1\<lparr>brk_max := r1\<rparr> else st1)" by (auto simp: vm_inv_def core_inv_def)
    then show ?thesis unfolding m(2) Let_def by (cases f) simp_all
  qed
qed

lemma do_brk_inv:
  assumes inv: "vm_inv st" and run: "do_brk e a st = Some (r, st')"
  shows "vm_inv st'" "r = (if a < brk_min st then brk_min st else if a > brk_max st then brk_max st else a)"
    "brk st' = ROUNDUP r PGSIZE"
proof -
  let ?new = "if a < brk_min st then brk_min st else if a > brk_max st then brk_max st else a"
  define s where "s = (if brk st = 0 then st\<lparr>brk := ROUNDUP (brk_min st) PGSIZE\<rparr> else st)"
  define pg where "pg = ROUNDUP ?new PGSIZE"
  have b: "brk_min st \<le> 0x80000000" "?new \<le> 0x80000000" using inv by (auto simp: vm_inv_def core_inv_def not_less)
  note R = roundup_low [OF b(1)] roundup_low [OF b(2), folded pg_def]
  have s: "vm_inv s" using inv R by (simp add: s_def vm_inv_def core_inv_def)
  let ?m = "if brk s > pg then do_munmap_pages e pg (brk s - pg) s
    else if brk s < pg then do { (a, s') \<leftarrow> do_mmap_pages e (brk s) (pg - brk s) (-1) (MAP_FIXED OR MAP_PRIVATE OR MAP_ANONYMOUS) None 0 s;
      (if a = brk s then Some s' else None) } else Some s"
  have eq: "do_brk e a st = map_option (\<lambda>s. (?new, s\<lparr>brk := pg\<rparr>)) ?m"
    unfolding do_brk_def Let_def s_def [symmetric] pg_def [symmetric] by (cases ?m) simp_all
  then obtain s' where m: "?m = Some s'" and r: "r = ?new" "st' = s'\<lparr>brk := pg\<rparr>"
    using run by (cases ?m) (simp_all only: option.map option.distinct option.inject prod.inject)
  have "good (\<lambda>_. 0) s' \<and> same_bounds s s'"
  proof (cases "brk s > pg")
    case True
    have "unat (brk s) \<le> 2147483648" "unat (brk s - pg) = unat (brk s) - unat pg" "unat pg \<le> unat (brk s)"
      using s True unat_sub [of pg "brk s"] by (auto simp: vm_inv_def core_inv_def word_le_nat_alt word_less_nat_alt)
    with munmap_good [of "\<lambda>_. 0" s pg "brk s - pg" e] s R(4) m True show ?thesis
      by (auto simp: vm_inv_def core_inv_def dest: same_frame_bounds)
  next
    case False
    show ?thesis
    proof (cases "brk s < pg")
      case True
      have "searchable s (pg - brk s) (MAP_FIXED OR MAP_PRIVATE OR MAP_ANONYMOUS)" using True by (auto simp: searchable_def)
      note M = do_mmap_pages_inv [OF s this]
      from m False True obtain a' where "do_mmap_pages e (brk s) (pg - brk s) (-1) (MAP_FIXED OR MAP_PRIVATE OR MAP_ANONYMOUS) None 0 s = Some (a', s')"
        by (auto simp: bind_eq_Some_conv split: if_splits)
      from M [OF this] show ?thesis by (simp add: vm_inv_def core_inv_def)
    qed (use m False s in \<open>auto simp: vm_inv_def core_inv_def same_bounds_def\<close>)
  qed
  then show "vm_inv st'" using s R(4,5) unfolding r(2) by (simp add: vm_inv_def core_inv_def same_bounds_def)
  show "r = ?new" "brk st' = ROUNDUP r PGSIZE" by (simp_all only: r) (simp add: pg_def)
qed

lemma good_set_prot: "good owed (set_vmr i ((vmr_tab st i)\<lparr>v_prot := p\<rparr>) st) = good owed st"
proof -
  let ?s = "set_vmr i ((vmr_tab st i)\<lparr>v_prot := p\<rparr>) st"
  have "v_refcnt (vmr_tab ?s j) = v_refcnt (vmr_tab st j)" for j by (simp add: set_vmr_def)
  moreover have "tree ?s = tree st" "pmap ?s = pmap st" "vmrs ?s = vmrs st" "mmap_max ?s = mmap_max st" "first_free_page ?s = first_free_page st"
      "entry_ok ?s = entry_ok st" "vmr_ptr ?s = vmr_ptr st"
    by (simp_all add: set_vmr_def entry_ok_def vmr_ptr_def fun_eq_iff)
  ultimately show ?thesis unfolding good_def by simp
qed

lemma mprotect_page_good:
  assumes g: "good owed st" and run: "mprotect_page prot a st = Inr st'"
  shows "good owed st'" "same_frame st st'"
proof -
  note G = goodD [OF g]
  from run obtain p where p: "walk a st = Some p" "ptm st p \<noteq> 0" by (auto simp: mprotect_page_def Let_def split: option.splits if_splits)
  have x: "pmap st (vpn_of a) = ptm st p" using p(1) by (simp add: view_pmap [symmetric] view_def)
  show "good owed st'"
  proof (cases "ptm st p AND PTE_V = 0")
    case True
    with run p g show ?thesis by (auto simp: mprotect_page_def Let_def good_set_prot split: if_splits)
  next
    case False
    then have st': "st' = set_pte p (pte_create (pte_ppn (ptm st p)) (prot_to_type prot True)) st" and U: "ptm st p AND 16 \<noteq> 0"
      using run p by (auto simp: mprotect_page_def Let_def split: if_splits)
    have notptr: "x \<noteq> vmr_ptr st j" if "x AND 1 \<noteq> 0" "j < MAX_VMR" for x j
      using vmr_ptr_facts(2) [OF G(3) that(2)] that(1) by auto
    have "entry_ok st (vpn_of a) (ptm st p)" using G(4) [OF vpn_of_less [of a]] x by simp
    with False U p(2) notptr have fr: "pte_ppn (ptm st p) = of_nat (vpn_of a) + first_free_paddr st div 4096"
      "4096 * vpn_of a < unat (mmap_max st)" unfolding entry_ok_def by blast+
    have "unat (pte_ppn (ptm st p)) < 2 ^ 54"
      unfolding pte_ppn_def unsigned_drop_bit_eq using unat_less [of "ptm st p"] by (simp add: drop_bit_eq_div less_mult_imp_div_less)
    note ppn = pte_ppn_create [OF this prot_to_type_small]
    have "pte_create n ty AND 1 \<noteq> 0" for n ty using ptd_valid(2) [of n ty] by simp
    then show ?thesis
      unfolding st' using fr ppn notptr False by (intro good_set_pte [OF g p(1)]) (auto simp: entry_ok_def view_pmap x)
  qed
  show "same_frame st st'"
    using run by (auto simp: mprotect_page_def Let_def set_vmr_def set_pte_def same_frame_def split: option.splits if_splits)
qed

lemma mprotect_loop_good:
  assumes "mprotect_loop prot a end' st = Some y" "good owed st"
  shows "good owed (snd y) \<and> same_frame st (snd y)"
proof -
  have "good owed st \<longrightarrow> good owed (snd y) \<and> same_frame st (snd y)"
    using assms(1)
  proof (rule mprotect_loop.raw_induct [rotated])
    fix loop and prot :: u32 and a end' :: u64 and st :: "'a vm" and y
    assume IH: "\<And>prot a end' st y. loop prot a end' st = Some y \<Longrightarrow> good owed st \<longrightarrow> good owed (snd y) \<and> same_frame st (snd y)"
      and run: "(if a < end' then case mprotect_page prot a st of Inl err \<Rightarrow> Some (err, st) | Inr st' \<Rightarrow> loop prot (a + PGSIZE) end' st'
        else Some (0, st)) = Some y"
    show "good owed st \<longrightarrow> good owed (snd y) \<and> same_frame st (snd y)"
    proof (cases "mprotect_page prot a st")
      case (Inr st1)
      with run IH [of prot "a + PGSIZE" end' st1 y] mprotect_page_good [of owed st prot a st1] same_frame_trans [of st st1 "snd y"]
      show ?thesis by (auto split: if_splits)
    qed (use run in \<open>auto split: if_splits\<close>)
  qed
  with assms(2) show ?thesis by simp
qed

subsection \<open>Boot\<close>

lemma map_kernel_pages_good:
  assumes "good (\<lambda>_. 0) st" "vmrs st = 0" "map_kernel_pages off prot n a st = Some st'"
  shows "good (\<lambda>_. 0) st' \<and> same_frame st st'"
  using assms
proof (induction n arbitrary: a st)
  case (Suc n)
  then obtain p st1 where w: "walk_create a st = Some (p, st1)" by (auto simp: bind_eq_Some_conv)
  note W = walk_create_good [OF Suc.prems(1) w]
  let ?x = "pte_create (drop_bit 12 (a + off)) (prot_to_type prot False)"
  have v: "vmrs st1 = 0" using W(2) Suc.prems(2) by (simp add: same_frame_def)
  have "good (\<lambda>_. 0) (set_pte p ?x st1)"
    using v by (intro good_set_pte [OF W(1,6) entry_ok_kernel]) simp
  moreover have "same_frame st (set_pte p ?x st1)" "vmrs (set_pte p ?x st1) = 0"
    using W(2) v by (simp_all add: same_frame_def set_pte_def)
  ultimately show ?case using Suc.IH [of "set_pte p ?x st1" "a + 4096"] Suc.prems(3) w same_frame_trans by auto
qed simp

text \<open>The first page becomes the root; it is empty.\<close>

lemma root_good:
  assumes r: "room st" "first_free_page st \<noteq> 0" "mmap_max st = 0" "vmrs st = 0" "next_free_page st = 0"
    and pg: "page_alloc st = Some (root, s)"
  shows "good (\<lambda>_. 0) (s\<lparr>root_page_table := root\<rparr>)"
proof -
  note F = page_alloc_fresh [OF r(1) pg]
  let ?s = "s\<lparr>root_page_table := root\<rparr>"
  have s: "mmap_max s = mmap_max st" "vmrs s = vmrs st" "first_free_page s = first_free_page st" using F(6) by auto
  have "table_at ?s up = (if up = [] then Some root else None)" if "position up" for up
    using that by (induction up) (auto simp: F(1,7))
  moreover have "in_use ?s = in_use s" "room ?s = room s" by (simp_all add: in_use_def page_at_def room_def)
  ultimately have t: "tree ?s" using F(3,4) by (auto simp: tree_def split: if_splits)
  have "view ?s va = 0" for va
    using \<open>\<And>up. position up \<Longrightarrow> table_at ?s up = (if up = [] then Some root else None)\<close> [OF position_idx(1)]
    by (simp add: view_eq del: table_at.simps)
  then have "pmap ?s n = 0" for n by (simp add: pmap_def)
  with t r(3,4) s show ?thesis by (simp add: good_def entry_ok_def r(2))
qed

text \<open>As long as there are no user pages the bound is free to be set.\<close>

lemma good_set_max:
  assumes "good (\<lambda>_. 0) st" "mmap_max st = 0" "vmrs st = 0" "m \<le> 0x80000000"
  shows "good (\<lambda>_. 0) (st\<lparr>brk_max := m, mmap_max := m\<rparr>)"
proof -
  let ?s = "st\<lparr>brk_max := m, mmap_max := m\<rparr>"
  have "tree ?s = tree st" "pmap ?s = pmap st" by (rule tree_cong pt_cong; simp)+
  moreover have "entry_ok ?s n (pmap st n)" if "n < NPAGES" for n
    using goodD(4) [OF assms(1) that] assms(2,3) by (auto simp: entry_ok_def)
  ultimately show ?thesis using assms(1,3,4) by (simp add: good_def)
qed

text \<open>The variables before \<open>pk_vm_init\<close>, and a kernel image that ends within the first 2 GiB of memory.\<close>

definition zeroed :: "'h vm \<Rightarrow> bool" where
  "zeroed st \<longleftrightarrow> next_free_page st = 0 \<and> vmrs st = 0 \<and> mmap_max st = 0 \<and> brk st = 0 \<and> brk_min st = 0 \<and> brk_max st = 0"

definition image_end :: "u64 \<Rightarrow> bool" where
  "image_end e \<longleftrightarrow> DRAM_BASE < e \<and> e \<le> 0x100000000"

lemma image_end_page:
  assumes "image_end e"
  shows "unat (ROUNDUP e 4096) = 4096 * npages e" "4096 * npages e \<le> 8589934592" "2147483648 \<le> 4096 * npages e"
proof -
  have u: "2147483648 < unat e" "unat e \<le> 4294967296" using assms by (simp_all add: image_end_def word_less_nat_alt word_le_nat_alt)
  have "npages e \<le> 1048576" unfolding npages_def using u(2) by (simp add: div_le_mono less_Suc_eq_le [symmetric] div_less_iff_less_mult)
  with npages_le [of e] u show le: "4096 * npages e \<le> 8589934592" "2147483648 \<le> 4096 * npages e" by simp_all
  then show "unat (ROUNDUP e 4096) = 4096 * npages e" by (intro unat_roundup) simp
qed

lemma vm_sizes_room:
  assumes "zeroed st" "image_end end'" "mem \<le> 0x80000000"
  shows "room (vm_sizes (drop_bit 12 mem) end' st)" "first_free_page (vm_sizes (drop_bit 12 mem) end' st) \<noteq> 0"
    "zeroed (vm_sizes (drop_bit 12 mem) end' st)" "aligned (first_free_paddr (vm_sizes (drop_bit 12 mem) end' st))"
    "first_free_paddr (vm_sizes (drop_bit 12 mem) end' st) \<le> 0x400000000"
proof -
  note I = image_end_page [OF assms(2)]
  have "unat mem div 1048576 \<le> 2048" using assms(3) by (simp add: word_le_nat_alt)
  moreover have "unat (drop_bit 8 (drop_bit 12 mem)) = unat mem div 1048576"
    unfolding drop_bit_drop_bit unsigned_drop_bit_eq by (simp add: drop_bit_eq_div)
  ultimately have f: "unat (max 8 (drop_bit 8 (drop_bit 12 mem))) \<le> 2048" by (simp add: max_def)
  let ?f = "max 8 (drop_bit 8 (drop_bit 12 mem))"
  have "unat (ROUNDUP end' 4096 + ?f * 4096) = 4096 * npages end' + unat ?f * 4096" using I f by (simp add: unat_word_ariths)
  then show "aligned (first_free_paddr (vm_sizes (drop_bit 12 mem) end' st))" "first_free_paddr (vm_sizes (drop_bit 12 mem) end' st) \<le> 0x400000000"
    using I(2) f by (simp_all add: vm_sizes_def Let_def word_le_nat_alt)
  show "room (vm_sizes (drop_bit 12 mem) end' st)"
    using assms(1) I f by (simp add: room_def vm_sizes_def zeroed_def Let_def)
  show "first_free_page (vm_sizes (drop_bit 12 mem) end' st) \<noteq> 0" using I by (auto simp: vm_sizes_def Let_def word_unat_eq_iff)
  show "zeroed (vm_sizes (drop_bit 12 mem) end' st)" using assms(1) by (simp add: zeroed_def vm_sizes_def Let_def)
qed

lemma init_stack_inv:
  assumes "good (\<lambda>_. 0) st" "zeroed (st\<lparr>next_free_page := 0\<rparr>)" "init_stack e mem pages st = Some st'"
    "aligned (first_free_paddr st)" "first_free_paddr st \<le> 0x400000000"
  shows "vm_inv st'"
proof -
  let ?m = "min DRAM_BASE (mem - (first_free_paddr st - DRAM_BASE))"
  let ?s = "st\<lparr>brk_max := ?m, mmap_max := ?m\<rparr>"
  let ?z = "min (drop_bit 5 pages) 2048 * 4096"
  have z: "mmap_max st = 0" "vmrs st = 0" "brk st = 0" "brk_min st = 0" using assms(2) by (simp_all add: zeroed_def)
  have m: "?m \<le> 0x80000000" by simp
  have "vm_inv ?s" using good_set_max [OF assms(1) z(1,2) m] z m assms(4,5) by (simp add: vm_inv_def core_inv_def)
  moreover have "searchable ?s ?z (MAP_PRIVATE OR MAP_ANONYMOUS OR MAP_FIXED)" by (simp add: searchable_def)
  moreover obtain b s4 where "do_mmap_pages e (mmap_max ?s - ?z) ?z (PROT_READ OR PROT_WRITE OR PROT_EXEC)
      (MAP_PRIVATE OR MAP_ANONYMOUS OR MAP_FIXED) None 0 ?s = Some (b, s4)" "st' = s4\<lparr>stack_top := b + ?z\<rparr>"
    using assms(3) unfolding init_stack_def Let_def bind_eq_Some_conv by (auto split: if_splits)
  ultimately show ?thesis using do_mmap_pages_inv(1) [of ?s ?z _ e] by (simp add: vm_inv_def core_inv_def)
qed

lemma pk_vm_init_inv:
  assumes z: "zeroed st" and e: "image_end end'" and run: "pk_vm_init e mem end' st = Some (r, st')"
  shows "vm_inv st'"
proof -
  let ?mem = "min mem (2 ^ 31)"
  let ?s = "vm_sizes (drop_bit 12 ?mem) end' st"
  have "?mem \<le> 0x80000000" by simp
  note S = vm_sizes_room [OF z e this]
  from run obtain y s2 s3 z where y: "page_alloc ?s = Some y"
    "map_kernel_range DRAM_BASE DRAM_BASE (first_free_paddr (snd y) - DRAM_BASE) (PROT_READ OR PROT_WRITE OR PROT_EXEC) ((snd y)\<lparr>root_page_table := fst y\<rparr>) = Some s2"
    "init_stack e ?mem (drop_bit 12 ?mem) s2 = Some s3"
    "page_alloc (s3\<lparr>sptbr := drop_bit 12 (root_page_table s3) OR push_bit 60 8\<rparr>) = Some z" "st' = snd z"
    unfolding pk_vm_init_def Let_def case_prod_unfold bind_eq_Some_conv by blast
  obtain root s1 page where r: "y = (root, s1)" "z = (page, st')" using y(5) by (cases y; cases z) auto
  note r = y(1-4) [unfolded r fst_conv snd_conv]
  have g1: "good (\<lambda>_. 0) (s1\<lparr>root_page_table := root\<rparr>)"
    using root_good [OF S(1,2) _ _ _ r(1)] S(3) by (simp add: zeroed_def)
  have room: "room ?s" by (rule S(1))
  have z1: "zeroed (s1\<lparr>next_free_page := 0\<rparr>)" using page_alloc_fresh(6) [OF room r(1)] S(3) by (auto simp: zeroed_def)
  have p1: "first_free_paddr s1 = first_free_paddr ?s" using page_alloc_fresh(6) [OF room r(1)] by auto
  have "vmrs (s1\<lparr>root_page_table := root\<rparr>) = 0" using z1 by (simp add: zeroed_def)
  from map_kernel_pages_good [OF g1 this r(2) [unfolded map_kernel_range_def]] z1
  have "good (\<lambda>_. 0) s2" "zeroed (s2\<lparr>next_free_page := 0\<rparr>)" "first_free_paddr s2 = first_free_paddr ?s"
    using p1 by (simp_all add: zeroed_def same_frame_def)
  from init_stack_inv [OF this(1,2) r(3)] this(3) S(4,5) have "vm_inv s3" by simp
  then have i: "vm_inv (s3\<lparr>sptbr := drop_bit 12 (root_page_table s3) OR push_bit 60 8\<rparr>)" by (simp add: vm_inv_def core_inv_def)
  then have g: "good (\<lambda>_. 0) (s3\<lparr>sptbr := drop_bit 12 (root_page_table s3) OR push_bit 60 8\<rparr>)" by (simp add: vm_inv_def core_inv_def)
  note K = good_grown [OF g page_alloc_grown(1) [OF goodD(1) [OF g] r(4)]]
  show ?thesis using vm_inv_cong [OF K(1) same_frame_bounds [OF K(2)] i] .
qed

end
