(* ===== verification/Elf.thy ===== *)
theory Elf
  imports Vm_calls
begin

text \<open>
  The program loader (\<open>pk/pk/elf.c\<close>): it opens the executable, checks its header, and maps its segments.
  The headers are read from memory where \<open>file_pread\<close> left them. Every failure is a panic, hence \<open>None\<close>.
\<close>

unbundle bit_operations_syntax

section \<open>Model\<close>

record elf_info =
  phent :: u32
  phnum :: u32
  phdr :: u64
  phdr_size :: u64
  entry :: u64

definition rd :: "bmem \<Rightarrow> u64 \<Rightarrow> nat \<Rightarrow> u64" where
  "rd m p n = le_word (map (\<lambda>i. m (unat (p + of_nat i))) [0..<n])"

record Elf_Ehdr =
  e_ident :: "u8 list"
  e_type :: u64
  e_entry :: u64
  e_phoff :: u64
  e_phnum :: u64

definition read_ehdr :: "bmem \<Rightarrow> u64 \<Rightarrow> Elf_Ehdr" where
  "read_ehdr m p = \<lparr>e_ident = map (\<lambda>i. m (unat (p + of_nat i))) [0..<16], e_type = rd m (p + 16) 2, e_entry = rd m (p + 24) 8,
     e_phoff = rd m (p + 32) 8, e_phnum = rd m (p + 56) 2\<rparr>"

record Elf_Phdr =
  p_type :: u64
  p_flags :: u64
  p_offset :: u64
  p_vaddr :: u64
  p_filesz :: u64
  p_memsz :: u64

definition read_phdr :: "bmem \<Rightarrow> u64 \<Rightarrow> Elf_Phdr" where
  "read_phdr m p = \<lparr>p_type = rd m p 4, p_flags = rd m (p + 4) 4, p_offset = rd m (p + 8) 8, p_vaddr = rd m (p + 16) 8,
     p_filesz = rd m (p + 32) 8, p_memsz = rd m (p + 40) 8\<rparr>"

definition get_prot :: "u64 \<Rightarrow> u32" where
  "get_prot p_flags' =
     (let prot_x = (if p_flags' AND 1 \<noteq> 0 then PROT_EXEC else 0);
          prot_w = (if p_flags' AND 2 \<noteq> 0 then PROT_WRITE else 0);
          prot_r = (if p_flags' AND 4 \<noteq> 0 then PROT_READ else 0)
      in prot_x OR prot_w OR prot_r)"

text \<open>One segment that is loaded.\<close>

definition load_segment :: "'h env \<Rightarrow> nat \<Rightarrow> u64 \<Rightarrow> Elf_Phdr \<Rightarrow> 'h vm \<Rightarrow> 'h vm option" where
  "load_segment e f bias ph st =
     (let prepad = p_vaddr ph mod PGSIZE;
          vaddr = p_vaddr ph + bias;
          st = (if vaddr + p_memsz ph > brk_min st then st\<lparr>brk_min := vaddr + p_memsz ph\<rparr> else st);
          flags1 = MAP_FIXED OR MAP_PRIVATE;
          flags2 = flags1 OR (if prepad \<noteq> 0 then MAP_POPULATE else 0);
          prot = get_prot (p_flags ph)
      in do {
        (a, st) \<leftarrow> do_mmap_pages e (vaddr - prepad) (p_filesz ph + prepad) (prot OR PROT_WRITE) flags2 (Some f) (p_offset ph - prepad) st;
        (if a \<noteq> vaddr - prepad then None
         else do {
           let st = st\<lparr>ft := (ft st)\<lparr>host := poke e (vaddr - prepad) (replicate (unat prepad) 0) (host (ft st))\<rparr>\<rparr>;
           st \<leftarrow> (if prot AND PROT_WRITE = 0
                 then do {
                   (r, st) \<leftarrow> do_mprotect (vaddr - prepad) (p_filesz ph + prepad) prot st;
                   (if r \<noteq> 0 then None else Some st)
                 }
                 else Some st);
           let mapped = ROUNDUP (p_filesz ph + prepad) PGSIZE - prepad;
           (if p_memsz ph > mapped
            then do {
              (a, st) \<leftarrow> do_mmap_pages e (vaddr + mapped) (p_memsz ph - mapped) prot (flags1 OR MAP_ANONYMOUS) None 0 st;
              (if a \<noteq> vaddr + mapped then None else Some st)
            }
            else Some st)
         })
      })"

fun load_segments :: "'h env \<Rightarrow> nat \<Rightarrow> u64 \<Rightarrow> u64 \<Rightarrow> nat \<Rightarrow> 'h vm \<Rightarrow> 'h vm option" where
  "load_segments e f bias phs 0 st = Some st"
| "load_segments e f bias phs (Suc i) st = do {
     let ph = read_phdr (user_mem e (host (ft st))) (phs + 56 * of_nat i);
     (if p_type ph = 3 then None
      else do {
        st \<leftarrow> (if p_type ph = 1 \<and> p_memsz ph \<noteq> 0 then load_segment e f bias ph st else Some st);
        load_segments e f bias phs i st
      })
   }"

text \<open>\<open>eh\<close> is the address of the header's buffer on the kernel stack.\<close>

definition load_elf :: "'h env \<Rightarrow> u64 \<Rightarrow> u64 \<Rightarrow> elf_info \<Rightarrow> 'h vm \<Rightarrow> (elf_info \<times> 'h vm) option" where
  "load_elf e eh fn info st = do {
     (file', t) \<leftarrow> file_open (kenv e st) fn 0 0 (ft st);
     (case file' of Inl _ \<Rightarrow> None
      | Inr f \<Rightarrow> do {
          (ehdr_size, t) \<leftarrow> file_pread (kenv e st) f eh 64 0 t;
          let h = read_ehdr (user_mem e (host t)) eh;
          (if sint ehdr_size < 64 \<or> take 5 (e_ident h) \<noteq> [0x7f, 0x45, 0x4c, 0x46, 2] then None
           else do {
             let size = e_phnum h * 56;
             (if size > phdr_size info then None
              else do {
                (ret, t) \<leftarrow> file_pread (kenv e st) f (phdr info) size (e_phoff h) t;
                (if sint ret < sint size then None
                 else do {
                   let bias = (if e_type h = 3 then PGSIZE else 0);
                   let info = info\<lparr>phnum := ucast (e_phnum h), phent := 56, entry := e_entry h + bias\<rparr>;
                   st \<leftarrow> load_segments e f bias (phdr info) (unat (e_phnum h)) (st\<lparr>ft := t\<rparr>);
                   Some (info, st\<lparr>ft := file_decref (kenv e st) f (ft st)\<rparr>)
                 })
              })
           })
        })
   }"

section \<open>Loading keeps the invariant\<close>

lemma good_brk_min [simp]: "good owed (st\<lparr>brk_min := x\<rparr>) = good owed st"
  unfolding good_def entry_ok_def vmr_ptr_def
  using pt_cong(2) [of "st\<lparr>brk_min := x\<rparr>" st] tree_cong [of "st\<lparr>brk_min := x\<rparr>" st] by simp

lemma core_inv_upd [simp]:
  "core_inv (st\<lparr>brk_min := x\<rparr>) = core_inv st" "core_inv (st\<lparr>ft := t\<rparr>) = core_inv st"
  by (simp_all add: core_inv_def)

lemma core_same_frame: "core_inv st \<Longrightarrow> good (\<lambda>_. 0) st' \<Longrightarrow> same_frame st st' \<Longrightarrow> core_inv st'"
  by (simp add: core_inv_def same_frame_def)

lemma mmap_fixed_range:
  assumes "core_inv st" "fl AND MAP_FIXED \<noteq> 0" "do_mmap_pages e a len prot fl f off st = Some (a, st')" "a \<noteq> -1"
  shows "core_inv st'" "same_bounds st st'" "aligned a" "unat a + unat len \<le> 2147483648"
proof -
  have s: "searchable st len fl" using assms(2) by (simp add: searchable_def)
  note M = do_mmap_pages_spec [OF assms(1) s assms(3)]
  show "core_inv st'" "same_bounds st st'" by (rule M(1,2))+
  have "unat (mmap_max st) \<le> 2147483648" using assms(1) by (simp add: core_inv_def good_def word_le_nat_alt)
  then show "aligned a" "unat a + unat len \<le> 2147483648" using M(3) assms(4) by (auto simp: mmap_outcome_def)
qed

text \<open>The end of a segment lies within the rounded end of its part in the file, or is mapped separately.\<close>

lemma segment_end:
  assumes A: "aligned A" "unat A + unat len \<le> 2147483648" and v: "v = A + pad" "unat pad \<le> unat len"
    and m: "m = ROUNDUP len 4096 - pad"
    and big: "m < sz \<Longrightarrow> unat (v + m) + unat (sz - m) \<le> 2147483648"
  shows "v + sz \<le> 0x80000000"
proof (cases "m < sz")
  case True
  have "unat (v + sz) = unat ((v + m) + (sz - m))" by simp
  also have "\<dots> \<le> 2147483648" using big [OF True] by (simp only: unat_word_ariths) (simp add: le_trans [OF mod_less_eq_dividend])
  finally show ?thesis by (simp add: word_le_nat_alt)
next
  case False
  have "len \<le> 0x80000000" using A(2) by (simp add: word_le_nat_alt)
  note R = roundup_low [OF this]
  have "4096 * npages len \<le> 2147483648" using npages_fit [of 0 len] A(2) by simp
  then have r: "unat (ROUNDUP len 4096) = 4096 * npages len" by (intro unat_roundup) simp
  have "pad \<le> ROUNDUP len 4096" using v(2) R(3) by (simp add: word_le_nat_alt)
  then have "unat m = 4096 * npages len - unat pad" unfolding m using unat_sub [of pad "ROUNDUP len 4096"] r by simp
  moreover have "unat sz \<le> unat m" using False by (simp add: word_le_nat_alt not_less)
  moreover have "unat pad \<le> 4096 * npages len" using v(2) R(3) r by (simp add: word_le_nat_alt)
  moreover have "unat A + 4096 * npages len \<le> 2147483648" using npages_fit [OF A] .
  ultimately have "unat A + unat pad + unat sz \<le> 2147483648" by simp
  then show ?thesis unfolding v(1) word_le_nat_alt by (simp add: unat_word_ariths)
qed

lemma guarded_bind: "(m \<bind> (\<lambda>y. if P y then None else k y)) = Some r \<longleftrightarrow> (\<exists>y. m = Some y \<and> \<not> P y \<and> k y = Some r)"
  by (cases m) auto

lemma load_segment_inv:
  assumes inv: "vm_inv st" and bias: "bias = 0 \<or> bias = PGSIZE" and sz: "unat (p_filesz ph) + 4096 < 18446744073709551616"
    and run: "load_segment e f bias ph st = Some st'"
  shows "vm_inv st'"
proof -
  let ?pad = "p_vaddr ph mod 4096" and ?v = "p_vaddr ph + bias" and ?prot = "get_prot (p_flags ph)"
  let ?A = "?v - ?pad" and ?len = "p_filesz ph + ?pad"
  let ?fl = "(MAP_FIXED OR MAP_PRIVATE) OR (if ?pad \<noteq> 0 then MAP_POPULATE else 0)" and ?m = "ROUNDUP ?len 4096 - ?pad"
  define s0 where "s0 = (if ?v + p_memsz ph > brk_min st then st\<lparr>brk_min := ?v + p_memsz ph\<rparr> else st)"
  define zero where "zero s = s\<lparr>ft := (ft s)\<lparr>host := poke e ?A (replicate (unat ?pad) 0) (host (ft s))\<rparr>\<rparr>" for s :: "'a vm"
  let ?prt = "\<lambda>s. if ?prot AND PROT_WRITE = 0 then do_mprotect ?A ?len ?prot s \<bind> (\<lambda>y. if fst y \<noteq> 0 then None else Some (snd y)) else Some s"
  let ?bss = "\<lambda>s. if p_memsz ph > ?m then do_mmap_pages e (?v + ?m) (p_memsz ph - ?m) ?prot ((MAP_FIXED OR MAP_PRIVATE) OR MAP_ANONYMOUS) None 0 s \<bind>
    (\<lambda>y. if fst y \<noteq> ?v + ?m then None else Some (snd y)) else Some s"
  have eq: "load_segment e f bias ph st = (do_mmap_pages e ?A ?len (?prot OR PROT_WRITE) ?fl (Some f) (p_offset ph - ?pad) s0 \<bind>
      (\<lambda>y. if fst y \<noteq> ?A then None else ?prt (zero (snd y)) \<bind> ?bss))"
    unfolding load_segment_def Let_def case_prod_unfold s0_def zero_def ..
  obtain y where y: "do_mmap_pages e ?A ?len (?prot OR PROT_WRITE) ?fl (Some f) (p_offset ph - ?pad) s0 = Some y"
    "fst y = ?A" "?prt (zero (snd y)) \<bind> ?bss = Some st'"
    using run unfolding eq guarded_bind by blast
  then obtain s2 where s2: "?prt (zero (snd y)) = Some s2" "?bss s2 = Some st'" unfolding bind_eq_Some_conv by blast
  have pad: "unat ?pad < 4096" by (simp add: unat_mod_distrib)
  have eqA: "?A = 4096 * (p_vaddr ph div 4096) + bias" using mod_mult_div_eq [of "p_vaddr ph" 4096] by (simp add: algebra_simps)
  have "even (4096 * (p_vaddr ph div 4096) + bias)" using bias by auto
  then have "even ?A" unfolding eqA .
  then have A: "?A \<noteq> -1" by (metis even_minus odd_one)
  have fixed: "?fl AND MAP_FIXED \<noteq> 0" by simp
  have c0: "core_inv s0" using inv by (simp add: s0_def vm_inv_def)
  have y': "do_mmap_pages e ?A ?len (?prot OR PROT_WRITE) ?fl (Some f) (p_offset ph - ?pad) s0 = Some (?A, snd y)"
    using y(1,2) by (metis prod.collapse)
  note F = mmap_fixed_range [OF c0 fixed y' A]
  have c1: "core_inv (zero (snd y))" "same_bounds s0 (zero (snd y))" using F(1,2) by (simp_all add: zero_def same_bounds_def)
  have c2: "core_inv s2" "same_bounds s0 s2"
  proof -
    have "good (\<lambda>_. 0) s2 \<and> same_frame (zero (snd y)) s2"
      using s2(1) c1(1) mprotect_loop_good [of ?prot ?A "?A + ?len" "zero (snd y)" _ "\<lambda>_. 0"]
      by (auto simp: do_mprotect_def core_inv_def bind_eq_Some_conv split: if_splits)
    then show "core_inv s2" "same_bounds s0 s2"
      using core_same_frame [OF c1(1)] same_bounds_trans [OF c1(2) same_frame_bounds] by blast+
  qed
  have fin: "core_inv st' \<and> same_bounds s0 st' \<and> (?m < p_memsz ph \<longrightarrow> unat (?v + ?m) + unat (p_memsz ph - ?m) \<le> 2147483648)"
  proof (cases "?m < p_memsz ph")
    case True
    with s2(2) have "do_mmap_pages e (?v + ?m) (p_memsz ph - ?m) ?prot ((MAP_FIXED OR MAP_PRIVATE) OR MAP_ANONYMOUS) None 0 s2 \<bind>
      (\<lambda>y. if fst y \<noteq> ?v + ?m then None else Some (snd y)) = Some st'" by (simp only: if_True)
    then obtain z where z: "do_mmap_pages e (?v + ?m) (p_memsz ph - ?m) ?prot ((MAP_FIXED OR MAP_PRIVATE) OR MAP_ANONYMOUS) None 0 s2 = Some z"
      "fst z = ?v + ?m" "st' = snd z" unfolding guarded_bind option.inject by blast
    then have z': "do_mmap_pages e (?v + ?m) (p_memsz ph - ?m) ?prot ((MAP_FIXED OR MAP_PRIVATE) OR MAP_ANONYMOUS) None 0 s2 = Some (?v + ?m, st')"
      by (metis prod.collapse)
    have "?v + ?m = ?A + ROUNDUP ?len 4096" by simp
    moreover have "even (ROUNDUP ?len 4096)" by (simp add: ROUNDUP_def)
    ultimately have "?v + ?m \<noteq> -1" using \<open>even ?A\<close> by (metis even_add even_minus odd_one)
    from mmap_fixed_range [OF c2(1) _ z' this] same_bounds_trans [OF c2(2)] show ?thesis by auto
  qed (use s2(2) c2 in simp)
  have pl: "unat ?pad \<le> unat ?len"
    using sz pad by (simp add: unat_word_ariths)
  have "?v + p_memsz ph \<le> 0x80000000"
    using segment_end [OF F(3,4) _ pl refl, of ?v "p_memsz ph"] fin by simp
  then show ?thesis using fin inv by (auto simp: vm_inv_def same_bounds_def s0_def split: if_splits)
qed

end
