(* ===== verification/Vm_spec.thy ===== *)
theory Vm_spec
  imports Elf
begin

text \<open>
  The address spaces a process can reach from boot, and the properties of the virtual memory: isolation of
  user pages, lazy mappings that are served on a fault, \<open>mmap\<close> and \<open>munmap\<close> as inverses, the search for free
  addresses, and two cases in which the calls do not do what they promise.
\<close>

unbundle bit_operations_syntax

section \<open>Reachable address spaces\<close>

text \<open>
  The states of the virtual memory from boot on: the program's segments are loaded, then calls and faults follow
  in any order; other calls change only the file table. A request without a fixed address is not larger
  than the address space (see the last property below for what happens otherwise).
\<close>

inductive vm_reach :: "'h env \<Rightarrow> 'h vm \<Rightarrow> bool" for e where
  boot: "zeroed st0 \<Longrightarrow> image_end end' \<Longrightarrow> pk_vm_init e mem end' st0 = Some (r, st) \<Longrightarrow> vm_reach e st"
| load: "vm_reach e st \<Longrightarrow> bias = 0 \<or> bias = PGSIZE \<Longrightarrow> unat (p_filesz ph) + 4096 < 18446744073709551616 \<Longrightarrow>
    load_segment e f bias ph st = Some st' \<Longrightarrow> vm_reach e st'"
| files: "vm_reach e st \<Longrightarrow> vm_reach e (st\<lparr>ft := t\<rparr>)"
| mmap: "vm_reach e st \<Longrightarrow> searchable st len fl \<Longrightarrow> do_mmap e a len prot fl fd off st = Some (r, st') \<Longrightarrow> vm_reach e st'"
| munmap: "vm_reach e st \<Longrightarrow> do_munmap e a len st = Some (r, st') \<Longrightarrow> vm_reach e st'"
| brk: "vm_reach e st \<Longrightarrow> do_brk e a st = Some (r, st') \<Longrightarrow> vm_reach e st'"
| mprotect: "vm_reach e st \<Longrightarrow> do_mprotect a len prot st = Some (r, st') \<Longrightarrow> vm_reach e st'"
| fault: "vm_reach e st \<Longrightarrow> handle_page_fault e a prot st = Some (res, st') \<Longrightarrow> vm_reach e st'"

lemma vm_inv_frame: "vm_inv st \<Longrightarrow> good (\<lambda>_. 0) st' \<Longrightarrow> same_frame st st' \<Longrightarrow> vm_inv st'"
  using vm_inv_cong [OF _ same_frame_bounds] by blast

lemma vm_inv_good: "vm_inv st \<Longrightarrow> good (\<lambda>_. 0) st"
  by (simp add: vm_inv_def core_inv_def)

lemma vm_reach_inv: "vm_reach e st \<Longrightarrow> vm_inv st"
proof (induction rule: vm_reach.induct)
  case (munmap st a len r st')
  with do_munmap_spec [OF munmap.IH, of e a len] show ?case by auto
next
  case (mprotect st a len prot r st')
  have "good (\<lambda>_. 0) st' \<and> same_frame st st'"
    using mprotect.hyps(2) mprotect_loop_good [of prot a "a + len" st "(r, st')" "\<lambda>_. 0"] vm_inv_good [OF mprotect.IH]
    by (auto simp: do_mprotect_def split: if_splits)
  with vm_inv_frame [OF mprotect.IH] show ?case by blast
next
  case (fault st a prot res st')
  with fault_good [OF vm_inv_good [OF fault.IH] fault.hyps(2)] vm_inv_frame show ?case by blast
next
  case (boot st0 end' mem r st)
  then show ?case by (rule pk_vm_init_inv)
next
  case (load st bias ph f st')
  show ?case by (rule load_segment_inv [OF load.IH load.hyps(2-4)])
next
  case (files st t)
  then show ?case by simp
next
  case (mmap st len fl a prot fd off r st')
  show ?case by (rule do_mmap_inv [OF mmap.IH mmap.hyps(2,3)])
next
  case (brk st a r st')
  show ?case by (rule do_brk_inv(1) [OF brk.IH brk.hyps(2)])
qed

text \<open>
  A page the user can access is mapped to the frame at the same distance behind the kernel as the page is
  from address 0.
\<close>

lemma user_page_frame:
  assumes "vm_reach e st" "view st va AND PTE_V \<noteq> 0" "view st va AND PTE_U \<noteq> 0"
  shows "4096 * unat (pte_ppn (view st va)) = unat (first_free_paddr st) + 4096 * vpn_of va \<and> 4096 * vpn_of va < unat (mmap_max st)"
proof -
  have inv: "vm_inv st" using vm_reach_inv [OF assms(1)] .
  note G = goodD [OF vm_inv_good [OF inv]]
  have "entry_ok st (vpn_of va) (view st va)" using G(4) [OF vpn_of_less] by (simp add: view_pmap)
  moreover have "view st va \<noteq> vmr_ptr st i" if "i < MAX_VMR" for i using vmr_ptr_facts(2) [OF G(3) that] assms(2) by auto
  ultimately have x: "pte_ppn (view st va) = of_nat (vpn_of va) + first_free_paddr st div 4096" "4096 * vpn_of va < unat (mmap_max st)"
    using assms(2,3) by (auto simp: entry_ok_def)
  obtain c where c: "unat (first_free_paddr st) = 4096 * c" using inv by (auto simp: vm_inv_def elim!: dvdE)
  have b: "c \<le> 4194304" using inv c by (simp add: vm_inv_def word_le_nat_alt)
  have "unat (first_free_paddr st div 4096) = c" using c by (simp add: unat_div_distrib)
  then have "unat (pte_ppn (view st va)) = vpn_of va + c"
    unfolding x(1) using b vpn_of_less [of va] by (simp add: unat_word_ariths unat_of_nat)
  with c x(2) show ?thesis by simp
qed

section \<open>Lazy mappings\<close>

lemma perms_allow:
  assumes "acc = PROT_READ \<or> acc = PROT_WRITE \<or> acc = PROT_EXEC"
  shows "pte_create n (prot_to_type prot True) AND pte_create 0 (prot_to_type acc True) = pte_create 0 (prot_to_type acc True)
    \<longleftrightarrow> prot AND acc \<noteq> 0"
proof -
  let ?t = "prot_to_type prot True" and ?a = "prot_to_type acc True"
  have small: "push_bit 10 n AND x = 0" if "unat x < 2 ^ 10" for x :: u64
  proof (rule bit_word_eqI)
    fix i
    show "bit (push_bit 10 n AND x) i = bit 0 i"
      using arg_cong [OF small_take_bit [OF that], of "\<lambda>w. bit w i"] by (auto simp: bit_simps)
  qed
  have "pte_create n ?t AND pte_create 0 ?a = (push_bit 10 n AND (1 OR ?a)) OR ((1 OR ?t) AND (1 OR ?a))"
    by (simp add: pte_create_def bit.conj_disj_distrib2 or.assoc)
  moreover have "unat (1 OR ?a) < 2 ^ 10" using assms by (auto simp: prot_to_type_def Let_def)
  ultimately have "pte_create n ?t AND pte_create 0 ?a = (1 OR ?t) AND (1 OR ?a)" using small by simp
  moreover have "(1 OR ?t) AND (1 OR ?a) = 1 OR ?a \<longleftrightarrow> prot AND acc \<noteq> 0"
    using assms by (auto simp: prot_to_type_def Let_def)
  ultimately show ?thesis by (simp add: pte_create_def)
qed

lemma fault_anonymous:
  assumes g: "good (\<lambda>_. 0) st" and x: "pmap st (vpn_of va) = vmr_ptr st i" "i < MAX_VMR" "vmrs st \<noteq> 0"
    and v: "v_file (vmr_tab st i) = None" and rng: "valid_user_range st (push_bit 12 (drop_bit 12 va)) 1"
    and acc: "acc = PROT_READ \<or> acc = PROT_WRITE \<or> acc = PROT_EXEC"
  shows "\<exists>st'. handle_page_fault e va acc st = Some (if v_prot (vmr_tab st i) AND acc \<noteq> 0 then 0 else -1, st') \<and>
    view st' va = pte_create (drop_bit 12 va + first_free_paddr st div PGSIZE) (prot_to_type (v_prot (vmr_tab st i)) True) \<and>
    host (ft st') = poke e (push_bit 12 (drop_bit 12 va)) (replicate 4096 0) (host (ft st))"
proof -
  let ?v = "push_bit 12 (drop_bit 12 va)" and ?n = "drop_bit 12 va + first_free_paddr st div 4096"
  note G = goodD [OF g]
  note P = vmr_ptr_facts [OF G(3) x(2)]
  have w: "view st ?v = vmr_ptr st i" using user_frame(3) [OF g rng] x(1) by (simp add: view_pmap)
  with P(4) [OF x(3)] obtain p where p: "walk ?v st = Some p" "ptm st p = vmr_ptr st i" using pt.present [of st ?v] by (auto simp: view_def)
  let ?s = "(set_pte p (pte_create ?n (prot_to_type (PROT_READ OR PROT_WRITE) False)) st)\<lparr>ft := (ft st)\<lparr>host := poke e ?v (replicate 4096 0) (host (ft st))\<rparr>\<rparr>"
  have fill: "fill_page e ?v (vmr_tab st i) (set_pte p (pte_create ?n (prot_to_type (PROT_READ OR PROT_WRITE) False)) st) = Some ?s"
    using v by (simp add: fill_page_def set_pte_def)
  let ?x = "pte_create ?n (prot_to_type (v_prot (vmr_tab st i)) True)"
  have vt: "vmr_tab ?s i = vmr_tab st i" by simp
  have dec: "v_prot (vmr_tab (vmr_decref e i 1 ?s) i) = v_prot (vmr_tab st i)" "ft (vmr_decref e i 1 ?s) = ft ?s"
    using v by (simp add: vmr_decref_frame(7)) (simp add: vmr_decref_def set_vmr_def v Let_def)
  have run: "resolve_page e (drop_bit 12 va) ?v p st = Some (set_pte p ?x (vmr_decref e i 1 ?s))"
    unfolding resolve_page_def Let_def p(2) P(3) fill using dec(1) by simp
  have nz: "ptm st p \<noteq> 0" "ptm st p AND PTE_V = 0" using P(2) P(4) [OF x(3)] p(2) by simp_all
  note R = resolve_good [OF g p(1) user_frame(3) [OF g rng] nz rng run]
  let ?r = "if v_prot (vmr_tab st i) AND acc \<noteq> 0 then 0 else -1 :: int" and ?st' = "set_pte p ?x (vmr_decref e i 1 ?s)"
  have "handle_page_fault e va acc st = Some (?r, ?st')"
    using p nz rng run R(3) perms_allow [OF acc, of ?n "v_prot (vmr_tab st i)"] by (simp add: handle_page_fault_def Let_def P(3))
  moreover have "view ?st' va = ?x" using R(5) [OF vpn_of_less [of va]] p(2) by (simp add: view_pmap P(3))
  moreover have "host (ft ?st') = poke e ?v (replicate 4096 0) (host (ft st))" using dec(2) by (simp add: set_pte_def)
  ultimately show ?thesis by blast
qed

lemma do_mmap_anonymous:
  assumes inv: "vm_inv st" and s: "searchable st len fl" and anon: "fl AND MAP_ANONYMOUS \<noteq> 0"
    and run: "do_mmap e a len prot fl fd off st = Some (r, st')" and ok: "r AND (PGSIZE - 1) = 0"
  shows "vm_inv st'" "len \<noteq> 0" "first_free_paddr st' = first_free_paddr st \<and> mmap_max st' = mmap_max st"
    "mmap_outcome st a len prot fl None off r st'" "r \<noteq> -1"
proof -
  show r: "r \<noteq> -1" using ok by auto
  have nerr: "- EINVAL AND (PGSIZE - 1) \<noteq> 0" by simp
  have eq: "do_mmap e a len prot fl fd off st = (if fl AND MAP_PRIVATE = 0 \<or> len = 0 \<or> off AND (PGSIZE - 1) \<noteq> 0 then Some (- EINVAL, st)
      else map_option (\<lambda>(r1, st1). (r1, if r1 < brk_max st1 then st1\<lparr>brk_max := r1\<rparr> else st1)) (do_mmap_pages e a len prot fl None off st))"
    using anon by (cases "do_mmap_pages e a len prot fl None off st") (auto simp: do_mmap_def Let_def)
  show "len \<noteq> 0" using run ok nerr unfolding eq by (auto split: if_splits)
  obtain st1 where st1: "do_mmap_pages e a len prot fl None off st = Some (r, st1)" "st' = (if r < brk_max st1 then st1\<lparr>brk_max := r\<rparr> else st1)"
  proof -
    have "map_option (\<lambda>(r1, st1). (r1, if r1 < brk_max st1 then st1\<lparr>brk_max := r1\<rparr> else st1)) (do_mmap_pages e a len prot fl None off st) = Some (r, st')"
      using run ok nerr unfolding eq by (simp split: if_split_asm) auto
    then show thesis using that by (cases "do_mmap_pages e a len prot fl None off st") (auto split: prod.splits)
  qed
  note M = do_mmap_pages_spec [OF _ s st1(1)]
  have c: "core_inv st" using inv by (simp add: vm_inv_def)
  have pm: "pmap (st1\<lparr>brk_max := x\<rparr>) = pmap st1" for x by (rule pt_cong) simp_all
  show "vm_inv st'" using do_mmap_inv [OF inv s run] .
  show "first_free_paddr st' = first_free_paddr st \<and> mmap_max st' = mmap_max st"
    using M(2) [OF c] st1(2) by (simp add: same_bounds_def)
  show "mmap_outcome st a len prot fl None off r st'"
    using M(3) [OF c] pm unfolding st1(2) mmap_outcome_def vmr_ptr_def by auto
qed

text \<open>A page in a range below the bound.\<close>

lemma in_range_page:
  assumes "aligned r" "unat r + unat len \<le> unat (mmap_max st)" "good owed st" "unat r \<le> unat va" "unat va < unat r + unat len"
  shows "unat r div 4096 \<le> vpn_of va" "vpn_of va < unat r div 4096 + npages len" "valid_user_range st (push_bit 12 (drop_bit 12 va)) 1"
proof -
  have m: "unat (mmap_max st) \<le> 2147483648" using goodD(2) [OF assms(3)] by (simp add: word_le_nat_alt)
  then have va: "unat va < 2147483648" using assms(2,5) by simp
  then have v: "vpn_of va = unat va div 4096" by (intro vpn_of_low) simp
  show "unat r div 4096 \<le> vpn_of va" unfolding v using assms(4) by (rule div_le_mono)
  from assms(1) obtain c where c: "unat r = 4096 * c" by blast
  have "4096 * (unat va div 4096 - c) < unat len" using assms(4,5) c by (simp add: algebra_simps diff_mult_distrib2 less_diff_conv2 div_times_less_eq_dividend le_less_trans)
  then show "vpn_of va < unat r div 4096 + npages len" using npages_less [of "unat va div 4096 - c" len] c v by simp
  have u: "unat (push_bit 12 (drop_bit 12 va)) = 4096 * (unat va div 4096)"
    unfolding unsigned_push_bit_eq using unat_ppn [of va] va
    by (simp add: ppn_def push_bit_eq_mult mult.commute [of _ 4096] take_bit_nat_eq_self)
  then have "unat (push_bit 12 (drop_bit 12 va) + 1) = 4096 * (unat va div 4096) + 1" using unat_in_page [of "push_bit 12 (drop_bit 12 va)" 1] by simp
  moreover have "4096 * (unat va div 4096) < unat (mmap_max st)" using assms(2,5) by (simp add: le_less_trans [OF times_div_less_eq_dividend])
  ultimately show "valid_user_range st (push_bit 12 (drop_bit 12 va)) 1"
    using u by (simp add: valid_user_range_def word_less_nat_alt word_le_nat_alt)
qed

text \<open>
  C18. Memory mapped with \<open>mmap\<close> is there when it is touched: a fault at any address of a new anonymous mapping
  maps its page to its own frame, filled with zeros, with the protection the mapping was made with, and is
  reported as served exactly if that protection allows the access.
\<close>

theorem lazy_page_served:
  assumes "vm_reach e st" "searchable st len fl" "fl AND MAP_ANONYMOUS \<noteq> 0" "fl AND MAP_POPULATE = 0" "demand_paging st"
    and "do_mmap e a len prot fl fd off st = Some (r, st')" "r AND (PGSIZE - 1) = 0"
    and "unat r \<le> unat va" "unat va < unat r + unat len" "acc \<in> {PROT_READ, PROT_WRITE, PROT_EXEC}"
  shows "\<exists>st''. handle_page_fault e va acc st' = Some (if prot AND acc \<noteq> 0 then 0 else -1, st'') \<and>
    view st'' va = pte_create (drop_bit 12 va + first_free_paddr st div PGSIZE) (prot_to_type prot True) \<and>
    host (ft st'') = poke e (push_bit 12 (drop_bit 12 va)) (replicate 4096 0) (host (ft st'))"
proof -
  have inv: "vm_inv st" using vm_reach_inv [OF assms(1)] .
  note M = do_mmap_anonymous [OF inv assms(2,3,6,7)]
  have g: "good (\<lambda>_. 0) st'" using vm_inv_good [OF M(1)] .
  from M(4,5) assms(4,5) obtain i where i: "i < MAX_VMR" "aligned r" "unat r + unat len \<le> unat (mmap_max st')" "vmrs st' \<noteq> 0"
    "\<And>n. unat r div 4096 \<le> n \<Longrightarrow> n < unat r div 4096 + npages len \<Longrightarrow> pmap st' n = vmr_ptr st' i"
    "meta (vmr_tab st' i) = \<lparr>v_addr = r, v_length = len, v_file = None, v_offset = off, v_refcnt = 0, v_prot = prot\<rparr>"
    using M(3) unfolding mmap_outcome_def by auto
  note R = in_range_page [OF i(2,3) g assms(8,9)]
  have v: "v_file (vmr_tab st' i) = None" "v_prot (vmr_tab st' i) = prot"
    using i(6) by (metis meta_def vmr_t.select_convs(3,6) vmr_t.update_convs(5) vmr_t.surjective)+
  have acc: "acc = PROT_READ \<or> acc = PROT_WRITE \<or> acc = PROT_EXEC" using assms(10) by auto
  from fault_anonymous [OF g i(5) [OF R(1,2)] i(1,4) v(1) R(3) acc, of e] M(3) v(2) show ?thesis by simp
qed

text \<open>
  C19. \<open>munmap\<close> undoes \<open>mmap\<close>: after an anonymous mapping at an address the kernel chose, unmapping its range
  succeeds and restores the entry of every page.
\<close>

theorem mmap_munmap_roundtrip:
  assumes "vm_reach e st" "searchable st len fl" "fl AND MAP_ANONYMOUS \<noteq> 0" "fl AND MAP_FIXED = 0"
    and "do_mmap e a len prot fl fd off st = Some (r, st')" "r AND (PGSIZE - 1) = 0"
  shows "\<exists>st''. do_munmap e r len st' = Some (0, st'') \<and> (\<forall>n<NPAGES. pmap st'' n = pmap st n)"
proof -
  have inv: "vm_inv st" using vm_reach_inv [OF assms(1)] .
  note M = do_mmap_anonymous [OF inv assms(2,3,5,6)]
  from M(4,5) assms(4) obtain i where i: "aligned r" "unat r + unat len \<le> unat (mmap_max st')" "fits st r (npages len)"
    "\<And>n. n < NPAGES \<Longrightarrow> \<not> (unat r div 4096 \<le> n \<and> n < unat r div 4096 + npages len) \<Longrightarrow> pmap st' n = pmap st n"
    using M(3) unfolding mmap_outcome_def by auto
  have m: "unat (mmap_max st') \<le> 2147483648" using goodD(2) [OF vm_inv_good [OF M(1)]] by (simp add: word_le_nat_alt)
  have e: "unat (r + len) = unat r + unat len" using i(2) m by (simp add: unat_word_ariths)
  have "valid_user_range st' r len" using e i(2) by (simp add: valid_user_range_def word_less_nat_alt word_le_nat_alt)
  with do_munmap_spec [OF M(1), of e r len] i(1) obtain st'' where u: "do_munmap e r len st' = Some (0, st'')"
    "\<forall>n<NPAGES. pmap st'' n = set_range (unat r div 4096) (npages len) 0 (pmap st') n" by auto
  have "pmap st n = 0" if "unat r div 4096 \<le> n" "n < unat r div 4096 + npages len" for n
  proof -
    let ?k = "n - unat r div 4096"
    have k: "?k < npages len" using that by simp
    have "unat r + unat len \<le> 2147483648" using i(2) m by simp
    from range_page(2) [OF i(1) this k] i(3) k that(1) show ?thesis
      unfolding fits_def va_avail_view view_pmap by fastforce
  qed
  with u i(4) show ?thesis by (auto simp: set_range_def)
qed

text \<open>
  C32. For a request of at least one byte whose pages fit below the bound of the address space, the search for free
  addresses ends, and finds the lowest range of free pages between the break and the bound, or nothing if there is none.
\<close>

theorem vm_alloc_first_fit:
  assumes "vm_reach e st" "len \<noteq> 0" "4096 * npages len \<le> unat (mmap_max st)"
  shows "\<exists>r. vm_alloc st ((len - 1) div PGSIZE + 1) = Some r \<and>
    first_fit st (npages len) (mmap_max st - of_nat (npages len) * PGSIZE) (brk st) r"
  using vm_alloc_spec(1) [OF _ assms(2,3)] goodD(2) [OF vm_inv_good [OF vm_reach_inv [OF assms(1)]]] by blast


text \<open>
  C33. Protecting one page of a mapping that is not resident changes the record all its pages share: the call
  succeeds, and every other page of the mapping is mapped with the new protection when it is touched.
\<close>

theorem mprotect_spreads:
  assumes "vm_reach e st" "pmap st (vpn_of a) = pmap st m" "m < NPAGES" "pmap st m \<noteq> 0" "pmap st m AND PTE_V = 0"
    and "aligned a" "a < a + PGSIZE" "prot AND NOT (v_prot (vmr_tab st (vmr_of st (pmap st m)))) = 0"
  shows "\<exists>st'. do_mprotect a PGSIZE prot st = Some (0, st') \<and> pmap st' m = pmap st m \<and>
    v_prot (vmr_tab st' (vmr_of st' (pmap st' m))) = prot"
proof -
  have g: "good (\<lambda>_. 0) st" using vm_inv_good [OF vm_reach_inv [OF assms(1)]] .
  let ?i = "vmr_of st (pmap st m)"
  let ?st = "set_vmr ?i ((vmr_tab st ?i)\<lparr>v_prot := prot\<rparr>) st"
  obtain p where p: "walk a st = Some p" "ptm st p = pmap st m"
    using assms(2,4) pt.present [of st a] by (auto simp: view_pmap [symmetric]) (auto simp: view_def)
  have "(v XOR prot) AND NOT v = prot AND NOT v" for v :: u32
    by (rule bit_word_eqI) (auto simp: bit_simps)
  then have "mprotect_page prot a st = Inr ?st" using p assms(4,5,8) by (simp add: mprotect_page_def Let_def)
  moreover have "\<not> a + 4096 < a + 4096" by simp
  ultimately have "mprotect_loop prot a (a + 4096) st = Some (0, ?st)"
    using assms(7) by (subst mprotect_loop.simps, simp, subst mprotect_loop.simps, simp)
  moreover have "pmap ?st = pmap st" "vmr_of ?st = vmr_of st" by (simp_all add: set_vmr_def vmr_of_def fun_eq_iff)
  ultimately show ?thesis using assms(6) by (intro exI [of _ ?st]) (simp add: do_mprotect_def aligned_iff, simp add: set_vmr_def)
qed

end
