(* ===== verification/Vm_boot.thy ===== *)
theory Vm_boot
  imports Vm_spec
begin

text \<open>
  A machine of 16 MiB that boots: \<open>pk_vm_init\<close> returns on it, and so do the calls of a small process. The
  lemmas say when the operations have enough pages for their tables; the theorems apply the properties
  of the virtual memory to this process.
\<close>

unbundle bit_operations_syntax

section \<open>A machine that boots\<close>

text \<open>Addresses in the same 2 MiB share their table of the last level.\<close>

definition near :: "u64 \<Rightarrow> u64 \<Rightarrow> bool" where
  "near a b \<longleftrightarrow> pt_idx a 1 = pt_idx b 1 \<and> pt_idx a 2 = pt_idx b 2"

lemma near_walk: "near a b \<Longrightarrow> walk a st = None \<longleftrightarrow> walk b st = None"
  by (simp add: near_def walk_eq del: table_at.simps)

lemma walk_create_present: "walk a st = Some p \<Longrightarrow> walk_create a st = Some (p, st)"
  using walk_create_found [of st a] by (auto simp: walk_eq simp del: table_at.simps)

definition left :: "'a ptab_scheme \<Rightarrow> nat" where
  "left st = unat (free_pages st) - unat (next_free_page st)"

lemma walk_create_total:
  assumes "tree st" "walk a st \<noteq> None \<or> 2 \<le> left st"
  shows "\<exists>p st'. walk_create a st = Some (p, st') \<and> walk a st' = Some p \<and> left st \<le> left st' + (if walk a st \<noteq> None then 0 else 2)"
proof (cases "walk a st")
  case None
  with assms walk_create_spec [OF assms(1), of a] obtain p st' where w: "walk_create a st = Some (p, st')" "grown st st'" "walk a st' = Some p"
    "unat (next_free_page st') \<le> unat (next_free_page st) + 2"
    by (cases "walk_create a st") (auto simp: left_def)
  have "free_pages st' = free_pages st" using w(2) unfolding grown_def by (metis ptab.simps(5) ptab.surjective ptab.update_convs(1,4))
  with w None show ?thesis by (auto simp: left_def)
next
  case (Some p)
  with walk_create_present [OF Some] show ?thesis by simp
qed

lemma left_simps [simp]:
  "left (set_pte p x st) = left st" "left (vmr_decref e i d v) = left v" "left (v\<lparr>ft := t\<rparr>) = left v" "left (v\<lparr>vmr_tab := y\<rparr>) = left v"
  "left (unmap_page e a v) = left v"
  by (simp_all add: left_def set_pte_def vmr_decref_frame unmap_page_def split: option.splits)

lemma kernel_pages_present:
  assumes "good (\<lambda>_. 0) st" "vmrs st = 0" "\<And>k. k < n \<Longrightarrow> walk (a + 4096 * of_nat k) st \<noteq> None"
  shows "\<exists>st'. map_kernel_pages off prot n a st = Some st' \<and> left st' = left st"
  using assms
proof (induction n arbitrary: a st)
  case (Suc n)
  obtain p where p: "walk a st = Some p" using Suc.prems(3) [of 0] by auto
  let ?s = "set_pte p (pte_create (drop_bit 12 (a + off)) (prot_to_type prot False)) st"
  have g: "good (\<lambda>_. 0) ?s" using Suc.prems(2) by (intro good_set_pte [OF Suc.prems(1) p entry_ok_kernel]) simp
  have "walk (a + 4096 + 4096 * of_nat k) ?s \<noteq> None" if "k < n" for k
    using Suc.prems(3) [of "Suc k"] that set_pte_leaf(2) [OF goodD(1) [OF Suc.prems(1)] p] by (simp add: algebra_simps)
  with Suc.IH [OF g, of "a + 4096"] Suc.prems(2) obtain st' where "map_kernel_pages off prot n (a + 4096) ?s = Some st'" "left st' = left st"
    by (auto simp: set_pte_def left_def)
  with walk_create_present [OF p] show ?case by simp
qed simp

lemma kernel_pages_total:
  assumes g: "good (\<lambda>_. 0) st" and "vmrs st = 0" "2 \<le> left st" and near: "\<And>k. k < Suc n \<Longrightarrow> near a (a + 4096 * of_nat k)"
  shows "\<exists>st'. map_kernel_pages off prot (Suc n) a st = Some st' \<and> left st \<le> left st' + 2"
proof -
  obtain p s where w: "walk_create a st = Some (p, s)" "walk a s = Some p" "left st \<le> left s + 2"
    using walk_create_total [OF goodD(1) [OF g], of a] assms(3) by (auto split: if_splits)
  note W = walk_create_good [OF g w(1)]
  let ?s = "set_pte p (pte_create (drop_bit 12 (a + off)) (prot_to_type prot False)) s"
  have v: "vmrs s = 0" using W(2) assms(2) by (simp add: same_frame_def)
  have g': "good (\<lambda>_. 0) ?s" using v by (intro good_set_pte [OF W(1,6) entry_ok_kernel]) simp
  have "walk (a + 4096 + 4096 * of_nat k) ?s \<noteq> None" if "k < n" for k
    using near_walk [OF near [of "Suc k"], of s] that w(2) set_pte_leaf(2) [OF goodD(1) [OF W(1)] w(2)] by (simp add: algebra_simps)
  from kernel_pages_present [where off = off and prot = prot, OF g' _ this] v obtain st' where
    "map_kernel_pages off prot n (a + 4096) ?s = Some st'" "left st' = left s" by (auto simp: set_pte_def left_def)
  with w show ?thesis by auto
qed

text \<open>Two pages of a mapping in the same table.\<close>

lemma mmap_page_total:
  assumes g: "good owed st" and a: "aligned a" "unat a + 4096 \<le> 2147483648" and w: "walk a st \<noteq> None \<or> 2 \<le> left st"
  shows "\<exists>st'. mmap_page e x a st = Some st' \<and> walk a st' \<noteq> None \<and> left st \<le> left st' + (if walk a st \<noteq> None then 0 else 2)"
proof -
  obtain p s where w: "walk_create a st = Some (p, s)" "walk a s = Some p" "left st \<le> left s + (if walk a st \<noteq> None then 0 else 2)"
    using walk_create_total [OF goodD(1) [OF g] w] by blast
  note W = walk_create_good [OF g w(1)]
  have one: "npages 4096 = Suc 0" by (simp add: npages_def)
  have u: "do_munmap_pages e a 4096 s = Some (unmap_page e a s)"
    unfolding do_munmap_pages_def using a(2) one by (subst for_pages_fold) simp_all
  note U = unmap_page_good [OF W(1), where a = a and e = e]
  define s2 where "s2 = (if ptm s p \<noteq> 0 then unmap_page e a s else s)"
  have s2: "walk a s2 = Some p" "left s2 = left s" "tree s2" using w(2) U(1,4) goodD(1) [OF W(1)] goodD(1) [OF U(1)] by (simp_all add: s2_def)
  have "mmap_page e x a st = Some (set_pte p x s2)" using w(1) u by (simp add: mmap_page_def s2_def)
  with w(3) s2 set_pte_leaf(2) [OF s2(3,1)] show ?thesis by auto
qed

lemma vsnprintf_total: "render (n - 1) (False, False, False) s vl \<noteq> None \<Longrightarrow> vsnprintf out n s vl \<noteq> None"
proof -
  assume r: "render (n - 1) (False, False, False) s vl \<noteq> None"
  let ?st = "\<lparr>vpos = 0, vout = out, vformat = False, vlong = False, vlonglong = False\<rparr>"
  have "delivered n out [] ?st" by (simp add: delivered_def)
  from vsn_loop_outcome [OF this, of s vl] r show ?thesis by (auto simp: flags_def outcome_def vsnprintf_def Let_def)
qed

lemma printk_total: "\<exists>t. printk (kenv echo v) (''%x, %x'' @ [CHR 0x0A]) [VWord x, VWord y] st = Some t"
proof -
  let ?f = "''%x, %x'' @ [CHR 0x0A]" and ?vl = "[VWord x, VWord y]"
  have "render (256 - 1) (False, False, False) ?f ?vl \<noteq> None" by simp
  from vsnprintf_total [OF this] show ?thesis
    by (simp only: printk_def vprintk_def)
      (auto simp: Let_def kenv_def echo_def file_write_def with_populate_def frontend_syscall_def split: bind_splits prod.splits)
qed

lemma page_alloc_total: "1 \<le> left st \<Longrightarrow> \<exists>pg s. page_alloc st = Some (pg, s) \<and> left st \<le> left s + 1"
proof -
  assume l: "1 \<le> left st"
  then have "unat (next_free_page st + 1) = unat (next_free_page st) + 1"
    using unat_less [of "free_pages st"] by (simp add: left_def unat_word_ariths)
  with l show ?thesis by (auto simp: page_alloc_def left_def Let_def)
qed

text \<open>A mapping record is free if no entry points to it; before the first mapping all are.\<close>

definition busy :: "'h vm \<Rightarrow> nat set" where
  "busy st = {i. i < MAX_VMR \<and> vmrs st \<noteq> 0 \<and> (\<exists>n<NPAGES. pmap st n = vmr_ptr st i)}"

lemma vmr_alloc_total:
  assumes g: "good (\<lambda>_. 0) st" and left: "vmrs st \<noteq> 0 \<or> 1 \<le> left st" and b: "card (busy st) < MAX_VMR"
  shows "\<exists>i st'. vmr_alloc echo a len None off c prot st = Some (Some i, st') \<and> left st \<le> left st' + (if vmrs st = 0 then 1 else 0) \<and>
    (vmrs st \<noteq> 0 \<longrightarrow> vmrs st' = vmrs st)"
proof -
  note G = goodD [OF g]
  have room: "room st" using G(1) by (simp add: tree_def)
  obtain s where s: "vmr_page st = Some s" "left st \<le> left s + (if vmrs st = 0 then 1 else 0)" "\<exists>i<MAX_VMR. v_refcnt (vmr_tab s i) = 0"
    "vmrs st \<noteq> 0 \<longrightarrow> vmrs s = vmrs st"
  proof (cases "vmrs st = 0")
    case True
    with left page_alloc_total [of st] obtain pg s where pg: "page_alloc st = Some (pg, s)" "left st \<le> left s + 1" by auto
    let ?s = "s\<lparr>vmrs := pg, vmr_tab := \<lambda>_. \<lparr>v_addr = 0, v_length = 0, v_file = None, v_offset = 0, v_refcnt = 0, v_prot = 0\<rparr>\<rparr>"
    have "vmr_page st = Some ?s" "left ?s = left s" using True pg(1) by (simp_all add: vmr_page_def left_def)
    with that [of ?s] pg(2) True exI [of _ 0] show ?thesis by force
  next
    case False
    have "busy st \<subseteq> {..<MAX_VMR}" by (auto simp: busy_def)
    with b obtain i where i: "i < MAX_VMR" "i \<notin> busy st" by (metis card_lessThan lessThan_iff less_irrefl subset_antisym subsetI)
    then have "occurs (pmap st) (vmr_ptr st i) = 0" using False by (auto simp: busy_def occurs_def)
    then have "v_refcnt (vmr_tab st i) = 0" using G(5) [OF False i(1)] by (simp add: unat_eq_0)
    with False i that [of st] show ?thesis by (auto simp: vmr_page_def)
  qed
  obtain t where t: "printk (kenv echo s) (''%x, %x'' @ [CHR 0x0A]) [VWord (v_addr (vmr_tab s 0)), VWord a] (ft s) = Some t"
    using printk_total by blast
  obtain i where i: "first_from (\<lambda>i. v_refcnt (vmr_tab s i) = 0) 0 MAX_VMR = Some i"
    using s(3) first_from_None [of "\<lambda>i. v_refcnt (vmr_tab s i) = 0" 0 MAX_VMR] by (auto simp del: first_from.simps)
  show ?thesis using s t i by (auto simp: vmr_alloc_def set_vmr_def Let_def left_def)
qed


lemma mmap_pages_total:
  assumes g: "good owed st" and i: "i < MAX_VMR" "vmrs st \<noteq> 0" "owed i = npages len"
    and a: "aligned a" "unat a + 4096 * npages len \<le> 2147483648" and two: "2 \<le> left st"
    and nr: "\<And>k. k < npages len \<Longrightarrow> near a (a + 4096 * of_nat k)"
  shows "\<exists>st'. for_pages (mmap_page e (vmr_ptr st i)) a (a + len) st = Some st' \<and> left st \<le> left st' + 2"
proof -
  have len: "unat len \<le> 4096 * npages len" by (rule npages_le)
  with a(2) have al: "unat a + unat len \<le> 2147483648" by simp
  have fold: "for_pages (mmap_page e (vmr_ptr st i)) a (a + len) st = page_fold (mmap_page e (vmr_ptr st i)) (npages len) a st"
    using al by (intro for_pages_fold) simp
  let ?P = "\<lambda>k s. good (owed(i := npages len - k)) s \<and> same_frame st s \<and> (if k = 0 then left st \<le> left s else walk a s \<noteq> None \<and> left st \<le> left s + 2)"
  have "\<exists>st'. page_fold (mmap_page e (vmr_ptr st i)) (npages len) a st = Some st' \<and> ?P (npages len) st'"
  proof (rule page_fold_total [where P = ?P])
    show "?P 0 st" using g i(3) by (simp add: fun_upd_idem)
    fix k and s :: "'a vm"
    assume k: "k < npages len" and P: "?P k s"
    have f: "same_frame st s" and ptr: "vmr_ptr st i = vmr_ptr s i" "vmrs s \<noteq> 0"
      using P i(2) same_frame_ptr [of st s] by (simp_all add: same_frame_def)
    have al': "aligned (a + 4096 * of_nat k)" "unat (a + 4096 * of_nat k) + 4096 \<le> 2147483648"
      using range_page(1) [OF a(1) al k] a k by auto
    have w: "walk (a + 4096 * of_nat k) s \<noteq> None \<or> 2 \<le> left s"
      using P near_walk [OF nr [OF k], of s] two by (auto split: if_splits)
    obtain s' where s': "mmap_page e (vmr_ptr st i) (a + 4096 * of_nat k) s = Some s'" "walk (a + 4096 * of_nat k) s' \<noteq> None"
      "left s \<le> left s' + (if walk (a + 4096 * of_nat k) s \<noteq> None then 0 else 2)"
      using mmap_page_total [OF conjunct1 [OF P] al' w] by blast
    note M = mmap_page_good [OF conjunct1 [OF P] i(1) ptr(2) _ al' s'(1) [unfolded ptr(1)]]
    have n: "npages len - k - 1 = npages len - Suc k" by simp
    have "walk a s' \<noteq> None" using s'(2) near_walk [OF nr [OF k], of s'] by simp
    moreover have "left st \<le> left s' + 2" using P s'(3) near_walk [OF nr [OF k], of s] by (auto split: if_splits)
    ultimately have "?P (Suc k) s'" using M k same_frame_trans [OF f] n by auto
    with s'(1) show "\<exists>s'. mmap_page e (vmr_ptr st i) (a + 4096 * of_nat k) s = Some s' \<and> ?P (Suc k) s'" by blast
  qed
  then show ?thesis unfolding fold by (auto split: if_splits)
qed

lemma do_mmap_pages_total:
  assumes inv: "core_inv st" and s: "searchable st len fl" and dp: "demand_paging st" "fl AND MAP_POPULATE = 0"
    and x: "(if fl AND MAP_FIXED \<noteq> 0
      then Some (if a AND (PGSIZE - 1) \<noteq> 0 \<or> \<not> valid_user_range st a len then None else Some a)
      else map_option (\<lambda>addr. if addr = 0 then None else Some addr) (vm_alloc st ((len - 1) div PGSIZE + 1))) = Some (Some x)"
    and b: "card (busy st) < MAX_VMR" and l: "3 \<le> left st" and nr: "\<And>k. k < npages len \<Longrightarrow> near x (x + 4096 * of_nat k)"
  shows "\<exists>st'. do_mmap_pages echo a len prot fl None off st = Some (x, st') \<and> left st \<le> left st' + 3 \<and>
    (vmrs st \<noteq> 0 \<longrightarrow> vmrs st' = vmrs st)"
proof -
  have g: "good (\<lambda>_. 0) st" using inv by (simp add: core_inv_def)
  have m: "unat (mmap_max st) \<le> 2147483648" using goodD(2) [OF g] by (simp add: word_le_nat_alt)
  note X = mmap_addr [OF inv s x]
  let ?c = "ucast ((len - 1) div PGSIZE + 1) :: u32"
  have fit: "unat x + 4096 * npages len \<le> 2147483648" using npages_fit [OF X(1)] X(2) m by simp
  have c: "unat ?c = npages len" using fit by (intro npage_count) simp
  obtain i st1 where v: "vmr_alloc echo x len None off ?c prot st = Some (Some i, st1)" "left st \<le> left st1 + 1" "vmrs st \<noteq> 0 \<longrightarrow> vmrs st1 = vmrs st"
    using vmr_alloc_total [OF g _ b, of x len off ?c prot] l by (fastforce split: if_splits)
  have V: "same_bounds st st1" "i < MAX_VMR" "vmrs st1 \<noteq> 0" "good ((\<lambda>_. 0)(i := npages len)) st1"
    using vmr_alloc_good [OF g v(1)] unfolding c by simp_all
  have "2 \<le> left st1" using l v(2) by simp
  from mmap_pages_total [OF V(4,2,3) _ X(1) fit this nr, of echo] obtain st2 where
    st2: "for_pages (mmap_page echo (vmr_ptr st1 i)) x (x + len) st1 = Some st2" "left st1 \<le> left st2 + 2" by auto
  note M = mmap_pages_good [OF V(4,2,3) fun_upd_same X(1) fit st2(1)]
  have "demand_paging st2" using M(2) V(1) dp(1) by (simp add: same_frame_def same_bounds_def)
  then have "do_mmap_pages echo a len prot fl None off st = Some (x, st2)"
    unfolding do_mmap_pages_def Let_def x using v(1) st2(1) dp(2) by simp
  with v(2,3) st2(2) M(2) show ?thesis by (auto simp: same_frame_def)
qed

lemma near_step:
  assumes "unat a mod 2097152 + unat b < 2097152"
  shows "near a (a + b)"
proof -
  have "unat a \<le> 18446744073709551615 - unat b"
  proof (rule ccontr)
    assume "\<not> ?thesis"
    moreover have "unat b < 2097152" using assms by simp
    ultimately have "18446744073709551616 - unat b \<le> unat a" by simp
    then have "18446744073709551616 \<le> unat a + unat b" using unat_less [of b] by simp
    moreover have "unat a + unat b < 2097152 * (unat a div 2097152) + 2097152" using assms mod_mult_div_eq [of "unat a" 2097152] by linarith
    moreover have "unat a div 2097152 \<le> 8796093022207" using unat_less [of a] by (simp add: div_le_mono less_Suc_eq_le [symmetric] div_less_iff_less_mult)
    ultimately show False by linarith
  qed
  then have u: "unat (a + b) = unat a + unat b" using unat_less [of b] by (simp add: unat_word_ariths)
  have "unat (a + b) div 2097152 = unat a div 2097152" unfolding u
    using assms div_add1_eq [of "unat a" "unat b" 2097152] by (simp add: div_less mod_less)
  then have "drop_bit 21 (a + b) = drop_bit 21 a"
    by (simp add: word_unat_eq_iff unat_div_distrib drop_bit_eq_div)
  moreover have "drop_bit 30 x = drop_bit 9 (drop_bit 21 x)" for x :: u64 by simp
  ultimately have "drop_bit 21 (a + b) = drop_bit 21 a" "drop_bit 30 (a + b) = drop_bit 30 a" by metis+
  then show ?thesis by (simp add: near_def pt_idx_def)
qed

definition boot0 :: "nat vm" where
  "boot0 = \<lparr>ptm = \<lambda>_. 0, root_page_table = 0, first_free_page = 0, next_free_page = 0, free_pages = 0, vmrs = 0,
     vmr_tab = \<lambda>_. \<lparr>v_addr = 0, v_length = 0, v_file = None, v_offset = 0, v_refcnt = 0, v_prot = 0\<rparr>, first_free_paddr = 0,
     demand_paging = True, brk_min = 0, brk = 0, brk_max = 0, mmap_max = 0, stack_top = 0, sptbr = 0, ft = start\<rparr>"

lemma sizes:
  "vm_sizes 4096 0x80000001 boot0 = boot0\<lparr>free_pages := 16, first_free_page := 0x80001000, first_free_paddr := 0x80011000\<rparr>"
  by (simp add: vm_sizes_def ROUNDUP_def Let_def max_def)


lemma boot_kernel:
  "\<exists>root s1 s2. page_alloc (vm_sizes 4096 0x80000001 boot0) = Some (root, s1) \<and>
     map_kernel_range DRAM_BASE DRAM_BASE (first_free_paddr s1 - DRAM_BASE) (PROT_READ OR PROT_WRITE OR PROT_EXEC)
       (s1\<lparr>root_page_table := root\<rparr>) = Some s2 \<and>
     good (\<lambda>_. 0) s2 \<and> 13 \<le> left s2 \<and> first_free_paddr s2 = 0x80011000 \<and> demand_paging s2 \<and> zeroed (s2\<lparr>next_free_page := 0\<rparr>)"
proof -
  let ?s = "vm_sizes 4096 0x80000001 boot0"
  have z: "zeroed boot0" and e: "image_end 0x80000001" by (simp_all add: zeroed_def boot0_def image_end_def)
  have m: "0x1000000 \<le> (0x80000000 :: u64)" by simp
  note S = vm_sizes_room [OF z e m, simplified]
  have "left ?s = 16" unfolding sizes by (simp add: left_def boot0_def)
  with page_alloc_total [of ?s] obtain root s1 where pg: "page_alloc ?s = Some (root, s1)" "15 \<le> left s1" by auto
  note F = page_alloc_fresh(6) [OF S(1) pg(1)]
  let ?s1 = "s1\<lparr>root_page_table := root\<rparr>"
  have f: "first_free_paddr s1 = 0x80011000" "demand_paging s1" "zeroed (s1\<lparr>next_free_page := 0\<rparr>)"
    using F unfolding sizes by (auto simp: boot0_def zeroed_def)
  have g1: "good (\<lambda>_. 0) ?s1" using root_good [OF S(1,2) _ _ _ pg(1)] S(3) by (simp add: zeroed_def)
  have v: "vmrs ?s1 = 0" using f(3) by (simp add: zeroed_def)
  have l: "2 \<le> left ?s1" "left ?s1 = left s1" using pg(2) by (simp_all add: left_def)
  have "near 0x80000000 (0x80000000 + 4096 * of_nat k)" if "k < Suc 16" for k
    using that by (intro near_step) (simp add: unat_word_ariths unat_of_nat)
  from kernel_pages_total [where off = 0 and prot = 7 and n = 16, OF g1 v l(1) this] obtain s2 where
    s2: "map_kernel_pages 0 7 (Suc 16) 0x80000000 ?s1 = Some s2" "left s1 \<le> left s2 + 2" using l(2) by (auto simp del: map_kernel_pages.simps)
  note G = map_kernel_pages_good [OF g1 v s2(1)]
  have "map_kernel_range DRAM_BASE DRAM_BASE (first_free_paddr s1 - DRAM_BASE) (PROT_READ OR PROT_WRITE OR PROT_EXEC) ?s1 = Some s2"
    using s2(1) by (simp add: map_kernel_range_def f(1) ROUNDUP_def)
  with pg G f s2(2) show ?thesis by (auto simp: same_frame_def zeroed_def)
qed


lemma busy_grows:
  assumes g: "good (\<lambda>_. 0) st" and v: "aligned (vmrs st')" "vmrs st' \<noteq> 0" "vmrs st \<noteq> 0 \<longrightarrow> vmrs st' = vmrs st"
    and p: "\<And>n. n < NPAGES \<Longrightarrow> pmap st' n = vmr_ptr st' i \<or> pmap st' n = pmap st n" and i: "i < MAX_VMR"
  shows "busy st' \<subseteq> insert i (busy st)"
proof
  fix j assume "j \<in> busy st'"
  then obtain n where j: "j < MAX_VMR" "n < NPAGES" "pmap st' n = vmr_ptr st' j" by (auto simp: busy_def)
  note J = vmr_ptr_facts(2) [OF v(1) j(1)] vmr_ptr_facts(4) [OF v(1) j(1) v(2)]
  from p [OF j(2)] show "j \<in> insert i (busy st)"
  proof
    assume "pmap st' n = vmr_ptr st' i"
    with j(3) have "vmr_ptr st' j = vmr_ptr st' i" by simp
    then show ?thesis unfolding vmr_ptr_inj [OF v(1) j(1) i] by simp
  next
    assume e: "pmap st' n = pmap st n"
    have "vmrs st \<noteq> 0" using goodD(4) [OF g j(2)] J unfolding e [symmetric] j(3) entry_ok_def by blast
    with e j v(3) show ?thesis by (auto simp: busy_def vmr_ptr_def)
  qed
qed

lemma boot_stack:
  assumes g: "good (\<lambda>_. 0) st" and l: "13 \<le> left st" and f: "first_free_paddr st = 0x80011000" "demand_paging st" "zeroed (st\<lparr>next_free_page := 0\<rparr>)"
  shows "\<exists>st' i. init_stack echo 0x1000000 4096 st = Some st' \<and> 10 \<le> left st' \<and> i < MAX_VMR \<and> vmrs st' \<noteq> 0 \<and> busy st' \<subseteq> {i} \<and>
    mmap_max st' = 0xFEF000 \<and> brk st' = 0 \<and> demand_paging st' \<and> first_free_paddr st' = 0x80011000 \<and>
    (\<forall>n. 0xF6F \<le> n \<and> n < 0xFEF \<longrightarrow> pmap st' n = vmr_ptr st' i) \<and> v_file (vmr_tab st' i) = None \<and> v_prot (vmr_tab st' i) = 7"
proof -
  let ?s = "st\<lparr>brk_max := 0xFEF000, mmap_max := 0xFEF000\<rparr>"
  have z: "mmap_max st = 0" "vmrs st = 0" "brk st = 0" using f(3) by (simp_all add: zeroed_def)
  have g1: "good (\<lambda>_. 0) ?s" by (rule good_set_max [OF g z(1,2)]) simp
  have c: "core_inv ?s" using g1 z(3) by (simp add: core_inv_def)
  have s: "searchable ?s 0x80000 0x32" by (simp add: searchable_def)
  have n: "npages 0x80000 = 128" by (simp add: npages_def)
  have r: "valid_user_range ?s 0xF6F000 0x80000" by (simp add: valid_user_range_def)
  have nr: "near 0xF6F000 (0xF6F000 + 4096 * of_nat k)" if "k < npages 0x80000" for k
    using that by (intro near_step) (simp add: n unat_word_ariths unat_of_nat)
  have "busy ?s = {}" using z(2) by (simp add: busy_def)
  with f(2) l r obtain st1 where st1: "do_mmap_pages echo 0xF6F000 0x80000 7 0x32 None 0 ?s = Some (0xF6F000, st1)" "left st \<le> left st1 + 3"
    using do_mmap_pages_total [where a = "0xF6F000" and prot = 7 and off = 0, OF c s _ _ _ _ _ nr] by (auto simp: left_def)
  note M = do_mmap_pages_spec [OF c s st1(1)]
  from M(3) obtain i where i: "i < MAX_VMR" "vmrs st1 \<noteq> 0" "\<And>n. n < NPAGES \<Longrightarrow> \<not> (0xF6F \<le> n \<and> n < 0xFEF) \<Longrightarrow> pmap st1 n = pmap ?s n"
    "\<And>n. 0xF6F \<le> n \<Longrightarrow> n < 0xFEF \<Longrightarrow> pmap st1 n = vmr_ptr st1 i"
    "meta (vmr_tab st1 i) = \<lparr>v_addr = 0xF6F000, v_length = 0x80000, v_file = None, v_offset = 0, v_refcnt = 0, v_prot = 7\<rparr>"
    using f(2) unfolding mmap_outcome_def n by auto
  have v: "v_file (vmr_tab st1 i) = None" "v_prot (vmr_tab st1 i) = 7"
    using i(5) by (metis meta_def vmr_t.select_convs(3,6) vmr_t.update_convs(5) vmr_t.surjective)+
  have a: "aligned (vmrs st1)" using M(1) goodD(3) [of "\<lambda>_. 0" st1] by (simp add: core_inv_def)
  have "pmap st1 n = vmr_ptr st1 i \<or> pmap st1 n = pmap ?s n" if "n < NPAGES" for n using i(3,4) [of n] that by blast
  moreover have "vmrs ?s \<noteq> 0 \<longrightarrow> vmrs st1 = vmrs ?s" using z(2) by simp
  ultimately have "busy st1 \<subseteq> {i}" using busy_grows [OF g1 a i(2) _ _ i(1)] \<open>busy ?s = {}\<close> by metis
  moreover have "init_stack echo 0x1000000 4096 st = Some (st1\<lparr>stack_top := 0xFEF000\<rparr>)"
    using st1(1) f(1) by (simp add: init_stack_def Let_def)
  moreover have "pmap (st1\<lparr>stack_top := 0xFEF000\<rparr>) = pmap st1" by (rule pt_cong) simp_all
  moreover have "left (st1\<lparr>stack_top := 0xFEF000\<rparr>) = left st1" by (simp add: left_def)
  ultimately show ?thesis using st1(2) l i v M(2) z f by (auto simp: busy_def vmr_ptr_def same_bounds_def)
qed


lemma boots:
  "\<exists>r st i. pk_vm_init echo 0x1000000 0x80000001 boot0 = Some (r, st) \<and> 9 \<le> left st \<and> i < MAX_VMR \<and> vmrs st \<noteq> 0 \<and> busy st \<subseteq> {i} \<and>
    mmap_max st = 0xFEF000 \<and> brk st = 0 \<and> demand_paging st \<and> first_free_paddr st = 0x80011000 \<and>
    (\<forall>n. 0xF6F \<le> n \<and> n < 0xFEF \<longrightarrow> pmap st n = vmr_ptr st i) \<and> v_file (vmr_tab st i) = None \<and> v_prot (vmr_tab st i) = 7"
proof -
  from boot_kernel obtain root s1 s2 where k: "page_alloc (vm_sizes 4096 0x80000001 boot0) = Some (root, s1)"
    "map_kernel_range DRAM_BASE DRAM_BASE (first_free_paddr s1 - DRAM_BASE) (PROT_READ OR PROT_WRITE OR PROT_EXEC) (s1\<lparr>root_page_table := root\<rparr>) = Some s2"
    and s2: "good (\<lambda>_. 0) s2" "13 \<le> left s2" "first_free_paddr s2 = 0x80011000" "demand_paging s2" "zeroed (s2\<lparr>next_free_page := 0\<rparr>)" by blast
  from boot_stack [OF s2] obtain s3 i where s3: "init_stack echo 0x1000000 4096 s2 = Some s3" "10 \<le> left s3" "i < MAX_VMR" "vmrs s3 \<noteq> 0" "busy s3 \<subseteq> {i}"
    "mmap_max s3 = 0xFEF000" "brk s3 = 0" "demand_paging s3" "first_free_paddr s3 = 0x80011000"
    "\<forall>n. 0xF6F \<le> n \<and> n < 0xFEF \<longrightarrow> pmap s3 n = vmr_ptr s3 i" "v_file (vmr_tab s3 i) = None" "v_prot (vmr_tab s3 i) = 7" by blast
  let ?s4 = "s3\<lparr>sptbr := drop_bit 12 (root_page_table s3) OR push_bit 60 8\<rparr>"
  have l: "left ?s4 = left s3" by (simp add: left_def)
  with s3(2) page_alloc_total [of ?s4] obtain pg st where st: "page_alloc ?s4 = Some (pg, st)" "left s3 \<le> left st + 1" by auto
  have run: "pk_vm_init echo 0x1000000 0x80000001 boot0 = Some (pg + PGSIZE, st)"
    using k s3(1) st(1) by (simp add: pk_vm_init_def Let_def)
  have "vm_inv s3" using init_stack_inv [OF s2(1,5) s3(1)] s2(3) by simp
  then have "good (\<lambda>_. 0) ?s4" by (simp add: vm_inv_def core_inv_def)
  note K = good_grown [OF this page_alloc_grown(1) [OF goodD(1) [OF this] st(1)]]
  have "pmap ?s4 = pmap s3" by (rule pt_cong) simp_all
  then have "pmap st = pmap s3" using K(5) by simp
  moreover have "vmr_ptr st = vmr_ptr s3" "busy st = busy s3" using K(2) \<open>pmap st = pmap s3\<close> by (simp_all add: same_frame_def vmr_ptr_def busy_def fun_eq_iff)
  ultimately show ?thesis using run st(2) s3 K by (auto simp: same_frame_def)
qed

section \<open>A process on this machine\<close>

lemma booted:
  obtains st i where "vm_reach echo st" "9 \<le> left st" "i < MAX_VMR" "vmrs st \<noteq> 0" "busy st \<subseteq> {i}"
    "mmap_max st = 0xFEF000" "brk st = 0" "demand_paging st" "first_free_paddr st = 0x80011000"
    "\<And>n. 0xF6F \<le> n \<Longrightarrow> n < 0xFEF \<Longrightarrow> pmap st n = vmr_ptr st i" "v_file (vmr_tab st i) = None" "v_prot (vmr_tab st i) = 7"
proof -
  from boots obtain r st i where b: "pk_vm_init echo 0x1000000 0x80000001 boot0 = Some (r, st)" "9 \<le> left st" "i < MAX_VMR" "vmrs st \<noteq> 0"
    "busy st \<subseteq> {i}" "mmap_max st = 0xFEF000" "brk st = 0" "demand_paging st" "first_free_paddr st = 0x80011000"
    "\<forall>n. 0xF6F \<le> n \<and> n < 0xFEF \<longrightarrow> pmap st n = vmr_ptr st i" "v_file (vmr_tab st i) = None" "v_prot (vmr_tab st i) = 7" by blast
  have "vm_reach echo st" by (rule vm_reach.boot [OF _ _ b(1)]) (simp_all add: zeroed_def boot0_def image_end_def)
  with b that [of st i] show thesis by blast
qed

lemma vpn_examples: "vpn_of 0xF6F000 = 0xF6F" "vpn_of 0 = 0" "vpn_of 0x1000 = 1"
  by (subst vpn_of_low; simp)+

theorem vm_alloc_first_fit_witness:
  "\<exists>(st :: nat vm) r. vm_reach echo st \<and> vm_alloc st 3 = Some r \<and> first_fit st 3 (mmap_max st - 0x3000) (brk st) r"
proof -
  from booted obtain st where st: "vm_reach echo st" "mmap_max st = 0xFEF000" by metis
  have n: "npages 0x2800 = 3" by (simp add: npages_def)
  from vm_alloc_first_fit [OF st(1), of "0x2800"] st show ?thesis by (auto simp: n)
qed

theorem mprotect_spreads_witness:
  "\<exists>(st :: nat vm) st'. vm_reach echo st \<and> v_prot (vmr_tab st (vmr_of st (pmap st 0xF70))) = 7 \<and> do_mprotect 0xF6F000 PGSIZE 1 st = Some (0, st') \<and>
     v_prot (vmr_tab st' (vmr_of st' (pmap st' 0xF70))) = 1"
proof -
  from booted obtain st i where st: "vm_reach echo st" "i < MAX_VMR" "vmrs st \<noteq> 0"
    "\<And>n. 0xF6F \<le> n \<Longrightarrow> n < 0xFEF \<Longrightarrow> pmap st n = vmr_ptr st i" "v_prot (vmr_tab st i) = 7" by metis
  note P = vmr_ptr_facts [OF goodD(3) [OF vm_inv_good [OF vm_reach_inv [OF st(1)]]] st(2)]
  have p: "pmap st 0xF6F = vmr_ptr st i" "pmap st 0xF70 = vmr_ptr st i" using st(4) by simp_all
  from mprotect_spreads [OF st(1), of "0xF6F000" "0xF70" 1] p P(2,3) P(4) [OF st(3)] st(1,5) show ?thesis
    by (auto simp: vpn_examples)
qed

lemma do_mmap_total:
  assumes "core_inv st" "searchable st len fl" "demand_paging st" "fl AND MAP_POPULATE = 0"
    and x: "(if fl AND MAP_FIXED \<noteq> 0
      then Some (if a AND (PGSIZE - 1) \<noteq> 0 \<or> \<not> valid_user_range st a len then None else Some a)
      else map_option (\<lambda>addr. if addr = 0 then None else Some addr) (vm_alloc st ((len - 1) div PGSIZE + 1))) = Some (Some x)"
    and "card (busy st) < MAX_VMR" "3 \<le> left st" "\<And>k. k < npages len \<Longrightarrow> near x (x + 4096 * of_nat k)"
    and fl: "fl AND MAP_PRIVATE \<noteq> 0" "fl AND MAP_ANONYMOUS \<noteq> 0" and len: "len \<noteq> 0"
  shows "\<exists>st'. do_mmap echo a len prot fl fd 0 st = Some (x, st') \<and> left st \<le> left st' + 3 \<and> (vmrs st \<noteq> 0 \<longrightarrow> vmrs st' = vmrs st) \<and>
    demand_paging st' \<and> brk st' = brk st \<and> mmap_max st' = mmap_max st"
proof -
  from do_mmap_pages_total [OF assms(1-4) x assms(6-8), of prot 0] obtain s where
    s: "do_mmap_pages echo a len prot fl None 0 st = Some (x, s)" "left st \<le> left s + 3" "vmrs st \<noteq> 0 \<longrightarrow> vmrs s = vmrs st" by auto
  moreover have "same_bounds st s" by (rule do_mmap_pages_spec(2) [OF assms(1,2) s(1)])
  ultimately show ?thesis using fl len assms(3) by (auto simp: do_mmap_def Let_def left_def same_bounds_def)
qed

theorem lazy_page_served_witness:
  "\<exists>(st :: nat vm) st' s t. vm_reach echo st \<and> do_mmap echo 0 PGSIZE 3 0x32 0 0 st = Some (0, st') \<and>
     handle_page_fault echo 0x123 PROT_WRITE st' = Some (0, s) \<and> handle_page_fault echo 0x123 PROT_EXEC st' = Some (-1, t)"
proof -
  from booted obtain st i where st: "vm_reach echo st" "9 \<le> left st" "busy st \<subseteq> {i}" "mmap_max st = 0xFEF000" "demand_paging st" by metis
  have c: "core_inv st" using vm_reach_inv [OF st(1)] by (simp add: vm_inv_def)
  have s: "searchable st PGSIZE 0x32" by (simp add: searchable_def)
  have n: "npages 4096 = 1" by (simp add: npages_def)
  have b: "card (busy st) < MAX_VMR" using card_mono [OF _ st(3)] by simp
  obtain st' where st': "do_mmap echo 0 PGSIZE 3 0x32 0 0 st = Some (0, st')"
    using do_mmap_total [where a = 0 and x = 0, OF c s st(5) _ _ b, of 3 0] st(2,4) by (auto simp: valid_user_range_def n near_def)
  have L: "\<exists>st''. handle_page_fault echo 0x123 acc st' = Some (if 3 AND acc \<noteq> 0 then 0 else -1, st'')" if "acc \<in> {PROT_READ, PROT_WRITE, PROT_EXEC}" for acc
    using lazy_page_served [OF st(1) s _ _ st(5) st', of "0x123" acc] that by auto
  from L [of 2] L [of 4] st(1) st' show ?thesis by auto
qed



lemma busy_shrinks:
  assumes v: "aligned (vmrs st')" "vmrs st' \<noteq> 0" "vmrs st' = vmrs st" and p: "\<And>n. n < NPAGES \<Longrightarrow> pmap st' n = 0 \<or> pmap st' n = pmap st n"
  shows "busy st' \<subseteq> busy st"
proof
  fix j assume "j \<in> busy st'"
  then obtain n where j: "j < MAX_VMR" "n < NPAGES" "pmap st' n = vmr_ptr st' j" by (auto simp: busy_def)
  have "pmap st n = vmr_ptr st j" using p [OF j(2)] j(3) vmr_ptr_facts(4) [OF v(1) j(1) v(2)] v(3) by (auto simp: vmr_ptr_def)
  with j v show "j \<in> busy st" by (auto simp: busy_def)
qed

text \<open>A process that has mapped page 0 and nothing else below its stack: the next free page is page 1.\<close>

lemma one_page_mapped:
  obtains st where "vm_reach echo st" "3 \<le> left st" "card (busy st) < MAX_VMR" "mmap_max st = 0xFEF000" "demand_paging st" "brk st = 0"
    "pmap st 0 \<noteq> 0" "pmap st 1 = 0"
proof -
  from booted obtain s0 i where s0: "vm_reach echo s0" "9 \<le> left s0" "busy s0 \<subseteq> {i}" "mmap_max s0 = 0xFEF000" "demand_paging s0" "brk s0 = 0" "vmrs s0 \<noteq> 0" by metis
  have n: "npages 4096 = 1" by (simp add: npages_def)
  have v0: "valid_user_range s0 0x1000 PGSIZE" using s0(4) by (simp add: valid_user_range_def)
  obtain s1 where s1: "do_munmap echo 0x1000 PGSIZE s0 = Some (0, s1)" "\<forall>n<NPAGES. pmap s1 n = set_range 1 1 0 (pmap s0) n"
    using do_munmap_spec [OF vm_reach_inv [OF s0(1)], of echo "0x1000" PGSIZE] v0 by (auto simp: n)
  have R1: "vm_reach echo s1" by (rule vm_reach.munmap [OF s0(1) s1(1)])
  have "do_munmap_pages echo 0x1000 PGSIZE s0 = Some (unmap_page echo 0x1000 s0)"
    unfolding do_munmap_pages_def using n by (subst for_pages_fold) simp_all
  then have e1: "s1 = unmap_page echo 0x1000 s0" using s1(1) v0 by (simp add: do_munmap_def)
  have F1: "same_frame s0 s1" unfolding e1 by (rule unmap_page_good(2) [OF vm_inv_good [OF vm_reach_inv [OF s0(1)]]])
  have l1: "9 \<le> left s1" using s0(2) by (simp add: e1)
  have P1: "vmr_ptr s1 j = vmr_ptr s0 j" for j using F1 by (simp add: vmr_ptr_def same_frame_def)
  have a1: "aligned (vmrs s1)" using goodD(3) [OF vm_inv_good [OF vm_reach_inv [OF R1]]] .
  have v1: "vmrs s1 \<noteq> 0" using F1 s0(7) by (simp add: same_frame_def)
  have "pmap s1 n = 0 \<or> pmap s1 n = pmap s0 n" if "n < NPAGES" for n using s1(2) that by (simp add: set_range_def)
  from busy_shrinks [OF a1 v1 _ this] F1 have "busy s1 \<subseteq> busy s0" by (simp add: same_frame_def)
  then have b1: "busy s1 \<subseteq> {i}" using s0(3) by blast
  have c1: "core_inv s1" using vm_reach_inv [OF R1] by (simp add: vm_inv_def)
  have s: "searchable s1 PGSIZE 0x32" by (simp add: searchable_def)
  have m1: "mmap_max s1 = 0xFEF000" "demand_paging s1" "brk s1 = 0" using F1 s0 by (simp_all add: same_frame_def)
  have c: "card (busy s1) < MAX_VMR" using card_mono [OF _ b1] by simp
  obtain s2 where s2: "do_mmap echo 0 PGSIZE 3 0x32 0 0 s1 = Some (0, s2)" "left s1 \<le> left s2 + 3" "vmrs s2 = vmrs s1"
    "demand_paging s2" "brk s2 = 0" "mmap_max s2 = 0xFEF000"
    using do_mmap_total [where a = 0 and x = 0, OF c1 s m1(2) _ _ c, of 3 0] l1 m1(1,3) v1 by (auto simp: valid_user_range_def n near_def)
  have R2: "vm_reach echo s2" by (rule vm_reach.mmap [OF R1 s s2(1)])
  have ok: "(0 :: u64) AND (PGSIZE - 1) = 0" by simp
  note M = do_mmap_anonymous [OF vm_reach_inv [OF R1] s _ s2(1) ok]
  obtain k where k: "k < MAX_VMR" "\<And>n. n < NPAGES \<Longrightarrow> n \<noteq> 0 \<Longrightarrow> pmap s2 n = pmap s1 n" "pmap s2 0 = vmr_ptr s2 k"
    using M(4) m1(2) unfolding mmap_outcome_def n by (auto simp: n)
  have a2: "aligned (vmrs s2)" using a1 s2(3) by simp
  have "pmap s2 n = vmr_ptr s2 k \<or> pmap s2 n = pmap s1 n" if "n < NPAGES" for n using k that by (cases "n = 0") simp_all
  then have "busy s2 \<subseteq> {i, k}" using busy_grows [OF vm_inv_good [OF vm_reach_inv [OF R1]] a2 _ _ _ k(1)] s2(3) v1 b1 by fastforce
  then have "card (busy s2) < MAX_VMR" using card_mono [of "{i, k}" "busy s2"] card_insert_le_m1 [of 2 "{k}" i] by simp
  moreover have "pmap s2 0 \<noteq> 0" using vmr_ptr_facts(4) [OF a2 k(1)] s2(3) v1 k(3) by simp
  moreover have "pmap s2 1 = 0" using k(2) [of 1] s1(2) by (simp add: set_range_def)
  ultimately show thesis using that [of s2] R2 s2 l1 by simp
qed

theorem mmap_munmap_roundtrip_witness:
  "\<exists>(st :: nat vm) r st' st''. vm_reach echo st \<and> do_mmap echo 0 PGSIZE 3 0x22 0 0 st = Some (r, st') \<and> do_munmap echo r PGSIZE st' = Some (0, st'') \<and>
     (\<forall>n<NPAGES. pmap st'' n = pmap st n)"
proof -
  from one_page_mapped obtain st where st: "vm_reach echo st" "3 \<le> left st" "card (busy st) < MAX_VMR" "mmap_max st = 0xFEF000" "demand_paging st" "brk st = 0"
    "pmap st 0 \<noteq> 0" "pmap st 1 = 0" by metis
  have c: "core_inv st" using vm_reach_inv [OF st(1)] by (simp add: vm_inv_def)
  have g: "good (\<lambda>_. 0) st" using c by (simp add: core_inv_def)
  have n: "npages 4096 = 1" by (simp add: npages_def)
  have s: "searchable st PGSIZE 0x22" using st(4) by (simp add: searchable_def n)
  obtain r where r: "vm_alloc st ((PGSIZE - 1) div PGSIZE + 1) = Some r" "first_fit st 1 0xFEE000 0 r"
    using vm_alloc_spec(1) [OF goodD(2) [OF g], of PGSIZE] st(4,6) by (auto simp: n)
  have free: "fits st a 1 \<longleftrightarrow> pmap st (vpn_of a) = 0" for a by (simp add: fits_def va_avail_view view_pmap)
  have nz: "r \<noteq> 0"
  proof
    assume "r = 0"
    moreover have "\<not> fits st 0 1" "fits st 0x1000 1" unfolding free vpn_examples using st(7,8) by simp_all
    ultimately show False using r(2) unfolding first_fit_def by (auto dest: spec [of _ 1])
  qed
  then have x: "(if (0x22 :: u32) AND MAP_FIXED \<noteq> 0
      then Some (if (0 :: u64) AND (PGSIZE - 1) \<noteq> 0 \<or> \<not> valid_user_range st 0 PGSIZE then None else Some 0)
      else map_option (\<lambda>addr. if addr = 0 then None else Some addr) (vm_alloc st ((PGSIZE - 1) div PGSIZE + 1))) = Some (Some r)"
    using r(1) by simp
  have "near r (r + 4096 * of_nat k)" if "k < npages PGSIZE" for k using that by (simp add: n near_def)
  from do_mmap_total [OF c s st(5) _ x st(3,2) this, of 3 0] obtain st' where st': "do_mmap echo 0 PGSIZE 3 0x22 0 0 st = Some (r, st')" by auto
  have "r AND (PGSIZE - 1) = 0" using mmap_addr(1) [OF c s x] by (simp add: aligned_iff)
  from mmap_munmap_roundtrip [OF st(1) s _ _ st' this] st(1) st' show ?thesis by auto
qed

end
