(* ===== verification/Handlers.thy ===== *)
theory Handlers
  imports Syscalls Vm_boot
begin

text \<open>
  The kernel's trap handlers (\<open>pk/pk/handlers.c\<close>) with the dispatch of the system calls on memory and the end
  of a process (\<open>sys_exit\<close> of \<open>pk/pk/syscall.c\<close>, \<open>do_panic\<close> of \<open>pk/pk/console.c\<close>, \<open>shutdown\<close> of
  \<open>pk/pk/frontend.c\<close>). A trap returns to the process with its trap frame, or stops the machine with the exit
  code the host was given; \<open>None\<close> stands for a panic inside one of the functions called. \<open>ra\<close> is the return
  address \<open>kassert_fail\<close> prints; \<open>accel\<close> stands for the calls on the accelerators, which have a theory of their own.
\<close>

unbundle bit_operations_syntax

section \<open>Model\<close>

record timers =
  cycle0 :: u64
  time0 :: u64
  instret0 :: u64
  now_time :: u64
  now_cycle :: u64
  now_instret :: u64

record 'h kernel =
  k_vm :: "'h vm"
  k_sip :: u64

datatype 'h trap_end = Resume trapframe_t "'h kernel" | Stopped u64 "'h ftab"

type_synonym 'h accel = "nat \<Rightarrow> u64 list \<Rightarrow> 'h vm \<Rightarrow> (u64 \<times> 'h vm) option"

abbreviation (input) NL :: string where "NL \<equiv> [CHR 0x0A]"

definition shutdown :: "'h env \<Rightarrow> u32 \<Rightarrow> 'h ftab \<Rightarrow> 'h trap_end" where
  "shutdown e code st = Stopped (scast code) (snd (frontend_syscall e 93 [scast code, 0, 0, 0, 0, 0, 0] st))"

definition do_panic :: "'h env \<Rightarrow> string \<Rightarrow> va_arg list \<Rightarrow> 'h ftab \<Rightarrow> 'h trap_end option" where
  "do_panic e s vl st = do { st \<leftarrow> vprintk e s vl st; Some (shutdown e (-1) st) }"

definition kassert_fail :: "'h env \<Rightarrow> u64 \<Rightarrow> string \<Rightarrow> 'h ftab \<Rightarrow> 'h trap_end option" where
  "kassert_fail e ra s = do_panic e (''assertion failed @ %p: %s'' @ NL) [VWord ra, VStr s]"

definition sys_exit :: "'h env \<Rightarrow> timers \<Rightarrow> u32 \<Rightarrow> 'h ftab \<Rightarrow> 'h trap_end option" where
  "sys_exit e tm code st = do {
     st \<leftarrow> (if cycle0 tm \<noteq> 0
       then (let dt = now_time tm - time0 tm; dc = now_cycle tm - cycle0 tm; di = now_instret tm - instret0 tm
         in do {
           st \<leftarrow> printk e (''%lld ticks'' @ NL) [VWord dt] st;
           st \<leftarrow> printk e (''%lld cycles'' @ NL) [VWord dc] st;
           st \<leftarrow> printk e (''%lld instructions'' @ NL) [VWord di] st;
           (if di = 0 then None
            else printk e (''%d.%d%d CPI'' @ NL)
              [VWord (scast (ucast (dc div di) :: u32)), VWord (scast (ucast (10 * dc div di mod 10) :: u32)),
               VWord (scast (ucast ((100 * dc + di div 2) div di mod 10) :: u32))] st)
         })
       else Some st);
     Some (shutdown e code st)
   }"

text \<open>The calls with numbers between 1012 and 1022 use the accelerators or flush the translations.\<close>

definition accel_calls :: "nat set" where "accel_calls = {1012..1022}"

definition vm_syscall :: "'h env \<Rightarrow> timers \<Rightarrow> 'h accel \<Rightarrow> u64 list \<Rightarrow> nat \<Rightarrow> 'h vm \<Rightarrow> (u64 \<times> 'h vm) option" where
  "vm_syscall e tm accel a n st =
     (if n = 214 then sys_brk e (a ! 0) st
      else if n = 222 then sys_mmap e (a ! 0) (a ! 1) (ucast (a ! 2)) (ucast (a ! 3)) (ucast (a ! 4)) (a ! 5) st
      else if n = 215 then sys_munmap e (a ! 0) (a ! 1) st
      else if n = 216 then Some (sys_mremap (a ! 0) (a ! 1) (a ! 2) (ucast (a ! 3)), st)
      else if n = 226 then sys_mprotect (a ! 0) (a ! 1) (ucast (a ! 2)) st
      else if n \<in> accel_calls then accel n a st
      else do {
        (r, t) \<leftarrow> do_syscall (kenv e st) (now_cycle tm) (\<lambda>_ _ _. None) (a ! 0) (a ! 1) (a ! 2) (a ! 3) (a ! 4) (a ! 5) n (ft st);
        Some (r, st\<lparr>ft := t\<rparr>)
      })"

definition handle_syscall :: "'h env \<Rightarrow> timers \<Rightarrow> 'h accel \<Rightarrow> trapframe_t \<Rightarrow> 'h kernel \<Rightarrow> 'h trap_end option" where
  "handle_syscall e tm accel tf k =
     (let n = unat (gpr tf 17); st = k_vm k
      in if n = 93 \<or> n = 94 then sys_exit (kenv e st) tm (ucast (gpr tf 10)) (ft st)
         else do {
           (r, st) \<leftarrow> vm_syscall e tm accel (map (gpr tf) [10..<16]) n st;
           Some (Resume (tf\<lparr>gpr := (gpr tf)(10 := r), epc := epc tf + 4\<rparr>) (k\<lparr>k_vm := st\<rparr>))
         })"

text \<open>The handlers that print the frame and stop.\<close>

definition dump_and_panic :: "'h env \<Rightarrow> string \<Rightarrow> va_arg list \<Rightarrow> trapframe_t \<Rightarrow> 'h kernel \<Rightarrow> 'h trap_end option" where
  "dump_and_panic e s vl tf k =
     (let e = kenv e (k_vm k) in do {
        (tf, st) \<leftarrow> dump_tf e tf (ft (k_vm k));
        do_panic e (s @ NL) vl st
      })"

definition handle_illegal_instruction :: "'h env \<Rightarrow> trapframe_t \<Rightarrow> 'h kernel \<Rightarrow> 'h trap_end option" where
  "handle_illegal_instruction e tf k =
     (let m = user_mem e (host (ft (k_vm k)));
          w = rd m (epc tf) 2;
          tf = tf\<lparr>insn := (if w AND 3 < 3 then w else w OR push_bit 16 (rd m (epc tf + 2) 2))\<rparr>
      in dump_and_panic e ''An illegal instruction was executed!'' [] tf k)"

definition handle_breakpoint :: "'h env \<Rightarrow> trapframe_t \<Rightarrow> 'h kernel \<Rightarrow> 'h trap_end option" where
  "handle_breakpoint e tf k =
     (let st = k_vm k; e = kenv e st in do {
        (tf, t) \<leftarrow> dump_tf e tf (ft st);
        t \<leftarrow> printk e (''Breakpoint!'' @ NL) [] t;
        Some (Resume (tf\<lparr>epc := epc tf + 4\<rparr>) (k\<lparr>k_vm := st\<lparr>ft := t\<rparr>\<rparr>))
      })"

definition segfault :: "'h env \<Rightarrow> trapframe_t \<Rightarrow> u64 \<Rightarrow> string \<Rightarrow> 'h kernel \<Rightarrow> 'h trap_end option" where
  "segfault e tf addr type k =
     dump_and_panic e ''%s %s segfault @ %p''
       [VStr (if status tf AND 0x100 \<noteq> 0 then ''Kernel'' else ''User''), VStr type, VWord addr] tf k"

definition handle_fault :: "'h env \<Rightarrow> u32 \<Rightarrow> string \<Rightarrow> trapframe_t \<Rightarrow> 'h kernel \<Rightarrow> 'h trap_end option" where
  "handle_fault e prot type tf k = do {
     (r, st) \<leftarrow> handle_page_fault e (badvaddr tf) prot (k_vm k);
     (if r \<noteq> 0 then segfault e tf (badvaddr tf) type (k\<lparr>k_vm := st\<rparr>) else Some (Resume tf (k\<lparr>k_vm := st\<rparr>)))
   }"

definition handle_interrupt :: "trapframe_t \<Rightarrow> 'h kernel \<Rightarrow> 'h trap_end" where
  "handle_interrupt tf k = Resume tf (k\<lparr>k_sip := k_sip k AND NOT 0x2\<rparr>)"

definition trap_handlers :: "'h env \<Rightarrow> timers \<Rightarrow> 'h accel \<Rightarrow> nat \<Rightarrow> (trapframe_t \<Rightarrow> 'h kernel \<Rightarrow> 'h trap_end option) option" where
  "trap_handlers e tm accel cause' =
     (if cause' = 0 then Some (dump_and_panic e ''Misaligned instruction access!'' [])
      else if cause' = 1 then Some (dump_and_panic e ''Instruction access fault!'' [])
      else if cause' = 5 then Some (dump_and_panic e ''Load access fault!'' [])
      else if cause' = 7 then Some (dump_and_panic e ''Store/AMO access fault!'' [])
      else if cause' = 12 then Some (handle_fault e PROT_EXEC ''fetch'')
      else if cause' = 2 then Some (handle_illegal_instruction e)
      else if cause' = 8 then Some (handle_syscall e tm accel)
      else if cause' = 3 then Some (handle_breakpoint e)
      else if cause' = 4 then Some (dump_and_panic e ''Misaligned Load!'' [])
      else if cause' = 6 then Some (dump_and_panic e ''Misaligned AMO!'' [])
      else if cause' = 13 then Some (handle_fault e PROT_READ ''load'')
      else if cause' = 15 then Some (handle_fault e PROT_WRITE ''store'')
      else None)"

definition handle_trap :: "'h env \<Rightarrow> u64 \<Rightarrow> timers \<Rightarrow> 'h accel \<Rightarrow> trapframe_t \<Rightarrow> 'h kernel \<Rightarrow> 'h trap_end option" where
  "handle_trap e ra tm accel tf k =
     (if sint (cause tf) < 0 then Some (handle_interrupt tf k)
      else case trap_handlers e tm accel (unat (cause tf)) of
        None \<Rightarrow> kassert_fail (kenv e (k_vm k)) ra ''tf->cause < ARRAY_SIZE(trap_handlers) && trap_handlers[tf->cause]'' (ft (k_vm k))
      | Some h \<Rightarrow> h tf k)"

section \<open>The kernel under traps\<close>

text \<open>
  The kernel from the start of the process on, under any sequence of traps with any registers that keeps to three
  conditions, none of which the code enforces: no call on an accelerator (numbers 1012 to 1022), since these reach all of
  physical memory; no \<open>mmap\<close> request larger than the address space; and no call that stores to an address of the
  kernel because the process gave it as a buffer, for which \<open>handle_trap\<close> has no outcome (see \<open>File_table\<close>).
\<close>

definition contained :: "trapframe_t \<Rightarrow> 'h kernel \<Rightarrow> bool" where
  "contained tf k \<longleftrightarrow> unat (cause tf) = 8 \<longrightarrow>
     unat (gpr tf 17) \<notin> accel_calls \<and> (unat (gpr tf 17) = 222 \<longrightarrow> searchable (k_vm k) (gpr tf 11) (ucast (gpr tf 13)))"

inductive kernel_reach :: "'h env \<Rightarrow> 'h kernel \<Rightarrow> bool" for e where
  start: "vm_reach e st \<Longrightarrow> kernel_reach e \<lparr>k_vm = st, k_sip = s\<rparr>"
| trap: "kernel_reach e k \<Longrightarrow> contained tf k \<Longrightarrow> handle_trap e ra tm accel tf k = Some (Resume tf' k') \<Longrightarrow> kernel_reach e k'"

lemma vm_syscall_reach:
  assumes "vm_reach e st" "n \<notin> accel_calls" "n = 222 \<longrightarrow> searchable st (a ! 1) (ucast (a ! 3))"
    and run: "vm_syscall e tm accel a n st = Some (r, st')"
  shows "vm_reach e st'"
proof (cases "n = 222")
  case True
  then have "searchable (st\<lparr>ft := t\<rparr>) (a ! 1) (ucast (a ! 3))" for t using assms(3) by (simp add: searchable_def)
  with True run show ?thesis
    by (auto simp: vm_syscall_def sys_mmap_def split: bind_splits intro!: vm_reach.mmap [OF vm_reach.files [OF assms(1)]])
next
  case False
  with run assms(1,2) show ?thesis
    unfolding vm_syscall_def sys_brk_def sys_munmap_def sys_mprotect_def
    by (auto split: bind_splits if_split_asm intro: vm_reach.intros)
qed

lemma no_resume [simp]: "do_panic e s vl t \<noteq> Some (Resume tf k)" "sys_exit e tm c t \<noteq> Some (Resume tf k)"
    "dump_and_panic e s vl tf' k' \<noteq> Some (Resume tf k)"
  by (auto simp: do_panic_def sys_exit_def shutdown_def dump_and_panic_def Let_def split: bind_splits)

lemma kernel_reach_vm: "kernel_reach e k \<Longrightarrow> vm_reach e (k_vm k)"
proof (induction rule: kernel_reach.induct)
  case (trap k tf ra tm accel tf' k')
  let ?c = "unat (cause tf)"
  show ?case
  proof (cases "sint (cause tf) < 0")
    case True
    with trap show ?thesis by (auto simp: handle_trap_def handle_interrupt_def)
  next
    case False
    with trap.hyps(3) obtain h where h: "trap_handlers e tm accel ?c = Some h" "h tf k = Some (Resume tf' k')"
      by (auto simp: handle_trap_def kassert_fail_def split: option.splits)
    consider "?c = 8" "h = handle_syscall e tm accel" | "h = handle_breakpoint e" | p s where "h = handle_fault e p s"
      | "h = handle_illegal_instruction e" | s vl where "h = dump_and_panic e s vl"
      using h(1) unfolding trap_handlers_def by (auto split: if_split_asm)
    then show ?thesis
    proof cases
      case 1
      then show ?thesis
        using h(2) trap.hyps(2) trap.IH
        by (auto simp: handle_syscall_def contained_def Let_def upt_rec split: bind_splits if_split_asm elim!: vm_syscall_reach)
    next
      case 2
      then show ?thesis using h(2) trap.IH by (auto simp: handle_breakpoint_def Let_def split: bind_splits) (erule vm_reach.files)
    next
      case 3
      then show ?thesis
        using h(2) trap.IH by (auto simp: handle_fault_def segfault_def split: bind_splits if_split_asm) (erule (1) vm_reach.fault)
    qed (use h(2) in \<open>simp_all add: handle_illegal_instruction_def Let_def\<close>)
  qed
qed simp

text \<open>
  C1. As long as the process passes no kernel address as a buffer to be stored to, calls no accelerator and requests no
  more memory than the address space has (\<open>contained\<close>), a page it can access is mapped to the frame at the same distance
  behind the kernel as the page is from address 0, and lies below the bound of the address space: no other sequence
  of system calls, page faults, breakpoints and interrupts maps the kernel's memory or the page tables for it.
\<close>

theorem user_memory_isolated:
  assumes "kernel_reach e k" "view (k_vm k) va AND PTE_V \<noteq> 0" "view (k_vm k) va AND PTE_U \<noteq> 0"
  shows "4096 * unat (pte_ppn (view (k_vm k) va)) = unat (first_free_paddr (k_vm k)) + 4096 * vpn_of va \<and>
    4096 * vpn_of va < unat (mmap_max (k_vm k))"
  by (rule user_page_frame [OF kernel_reach_vm [OF assms(1)] assms(2,3)])

subsection \<open>Page faults\<close>

definition access_of :: "nat \<Rightarrow> u32" where
  "access_of c = (if c = 12 then PROT_EXEC else if c = 13 then PROT_READ else PROT_WRITE)"

definition allows :: "u64 \<Rightarrow> u32 \<Rightarrow> bool" where
  "allows x prot \<longleftrightarrow> (let perms = pte_create 0 (prot_to_type prot True) in x AND perms = perms)"

lemma handle_fault_decides:
  assumes reach: "vm_reach e (k_vm k)" and run: "handle_fault e prot s tf k = Some r"
  shows "\<exists>st'. (\<forall>n<NPAGES. n \<noteq> vpn_of (badvaddr tf) \<longrightarrow> pmap st' n = pmap (k_vm k) n) \<and>
    (if allows (view st' (badvaddr tf)) prot \<and> valid_user_range st' (push_bit 12 (drop_bit 12 (badvaddr tf))) 1
     then r = Resume tf (k\<lparr>k_vm := st'\<rparr>) else (\<exists>t. r = Stopped (-1) t))"
proof -
  from run obtain res st' where f: "handle_page_fault e (badvaddr tf) prot (k_vm k) = Some (res, st')"
    and r: "(if res \<noteq> 0 then segfault e tf (badvaddr tf) s (k\<lparr>k_vm := st'\<rparr>) else Some (Resume tf (k\<lparr>k_vm := st'\<rparr>))) = Some r"
    by (auto simp: handle_fault_def split: bind_splits)
  note F = fault_good [OF vm_inv_good [OF vm_reach_inv [OF reach]] f]
  let ?va = "badvaddr tf" and ?x = "pmap (k_vm k) (vpn_of (badvaddr tf))"
  have v: "valid_user_range st' a n = valid_user_range (k_vm k) a n" for a n
    using F by (simp add: valid_user_range_def same_frame_def)
  have z: "\<not> allows 0 prot" using ptd_valid(2) [of 0 "prot_to_type prot True"] unfolding allows_def Let_def by (metis and.commute and_zero_eq zero_neq_one)
  have res: "res = (if allows (view st' ?va) prot \<and> valid_user_range st' (push_bit 12 (drop_bit 12 ?va)) 1 then 0 else -1)"
  proof (cases "?x = 0 \<or> \<not> valid_user_range (k_vm k) (push_bit 12 (drop_bit 12 ?va)) 1")
    case True
    then have "res = -1" "st' = k_vm k" using F unfolding fault_outcome_def Let_def by (simp_all only: if_True)
    moreover from this True z have "\<not> (allows (view st' ?va) prot \<and> valid_user_range st' (push_bit 12 (drop_bit 12 ?va)) 1)"
      by (metis view_pmap)
    ultimately show ?thesis by (simp only: if_False)
  next
    case False
    then have "res = (if allows (pmap st' (vpn_of ?va)) prot then 0 else -1)"
      using F unfolding fault_outcome_def Let_def allows_def by (simp only: if_False)
    with False show ?thesis by (simp only: v view_pmap de_Morgan_disj not_not simp_thms)
  qed
  have "\<exists>t. r = Stopped (-1) t" if "res \<noteq> 0"
    using r that by (auto simp: segfault_def dump_and_panic_def do_panic_def shutdown_def Let_def split: bind_splits)
  with r res F show ?thesis by (intro exI [of _ st']) auto
qed

text \<open>
  C11. A page fault of the process either maps the page or ends the process. If the trap returns, the frame is unchanged,
  so that the access is repeated, the entry of the page now allows the access to the user, and no other
  page has changed. Otherwise the entry does not allow the access, and the host is given the exit code -1.
\<close>

theorem fault_trap_decides:
  assumes "kernel_reach e k" "unat (cause tf) \<in> {12, 13, 15}" "handle_trap e ra tm accel tf k = Some r"
  shows "\<exists>st'. (\<forall>n<NPAGES. n \<noteq> vpn_of (badvaddr tf) \<longrightarrow> pmap st' n = pmap (k_vm k) n) \<and>
    (if allows (view st' (badvaddr tf)) (access_of (unat (cause tf))) \<and> valid_user_range st' (push_bit 12 (drop_bit 12 (badvaddr tf))) 1
     then r = Resume tf (k\<lparr>k_vm := st'\<rparr>) else (\<exists>t. r = Stopped (-1) t))"
proof -
  have "\<not> sint (cause tf) < 0"
  proof -
    have "cause tf = of_nat (unat (cause tf))" by simp
    with assms(2) have "cause tf \<in> {12, 13, 15}" by (metis (no_types) insert_iff empty_iff of_nat_numeral)
    then show ?thesis by auto
  qed
  then obtain s where "handle_fault e (access_of (unat (cause tf))) s tf k = Some r"
    using assms(2,3) by (auto simp: handle_trap_def trap_handlers_def access_of_def)
  from handle_fault_decides [OF kernel_reach_vm [OF assms(1)] this] show ?thesis .
qed

section \<open>A process on the machine that boots\<close>

definition no_timers :: timers where
  "no_timers = \<lparr>cycle0 = 0, time0 = 0, instret0 = 0, now_time = 0, now_cycle = 0, now_instret = 0\<rparr>"

definition load_trap :: trapframe_t where
  "load_trap = \<lparr>gpr = (\<lambda>_. 0), status = 0, epc = 0x10000, badvaddr = 0xF6F000, cause = 13, insn = 0\<rparr>"

lemma stack_fault:
  obtains k k' :: "nat kernel" where "kernel_reach echo k" "handle_trap echo ra tm accel load_trap k = Some (Resume load_trap k')"
    "view (k_vm k') 0xF6F000 AND PTE_V \<noteq> 0" "view (k_vm k') 0xF6F000 AND PTE_U \<noteq> 0" "first_free_paddr (k_vm k') = 0x80011000"
proof -
  from booted obtain st i where st: "vm_reach echo st" "i < MAX_VMR" "vmrs st \<noteq> 0" "mmap_max st = 0xFEF000" "first_free_paddr st = 0x80011000"
    "\<And>n. 0xF6F \<le> n \<Longrightarrow> n < 0xFEF \<Longrightarrow> pmap st n = vmr_ptr st i" "v_file (vmr_tab st i) = None" "v_prot (vmr_tab st i) = 7" by metis
  have g: "good (\<lambda>_. 0) st" using vm_inv_good [OF vm_reach_inv [OF st(1)]] .
  have x: "pmap st (vpn_of 0xF6F000) = vmr_ptr st i" using st(6) by (simp add: vpn_examples)
  have r: "valid_user_range st (push_bit 12 (drop_bit 12 0xF6F000)) 1" using st(4) by (simp add: valid_user_range_def)
  obtain st' where f: "handle_page_fault echo 0xF6F000 1 st = Some (0, st')"
    "view st' 0xF6F000 = pte_create (drop_bit 12 0xF6F000 + first_free_paddr st div PGSIZE) (prot_to_type 7 True)"
    using fault_anonymous [OF g x st(2,3,7) r, of 1 echo] st(8) by auto
  have same: "same_frame st st'" using fault_good [OF g f(1)] by blast
  let ?k = "\<lparr>k_vm = st, k_sip = 0\<rparr>"
  have "handle_trap echo ra tm accel load_trap ?k = Some (Resume load_trap (?k\<lparr>k_vm := st'\<rparr>))"
    using f(1) by (simp add: handle_trap_def trap_handlers_def load_trap_def handle_fault_def)
  moreover have "view st' 0xF6F000 AND PTE_V \<noteq> 0" "view st' 0xF6F000 AND PTE_U \<noteq> 0"
    unfolding f(2) st(5) by (simp_all add: pte_create_def prot_to_type_def)
  ultimately show thesis
    using same st(1,5) by (intro that [of ?k "?k\<lparr>k_vm := st'\<rparr>"]) (auto simp: same_frame_def intro: kernel_reach.start)
qed

theorem user_memory_isolated_witness:
  "\<exists>k :: nat kernel. kernel_reach echo k \<and> view (k_vm k) 0xF6F000 AND PTE_V \<noteq> 0 \<and> view (k_vm k) 0xF6F000 AND PTE_U \<noteq> 0 \<and>
     4096 * unat (pte_ppn (view (k_vm k) 0xF6F000)) = 0x80011000 + 0xF6F000"
proof -
  obtain k k' :: "nat kernel" where k: "kernel_reach echo k" "handle_trap echo 0 no_timers (\<lambda>_ _ _. None) load_trap k = Some (Resume load_trap k')"
    "view (k_vm k') 0xF6F000 AND PTE_V \<noteq> 0" "view (k_vm k') 0xF6F000 AND PTE_U \<noteq> 0" "first_free_paddr (k_vm k') = 0x80011000"
    by (rule stack_fault)
  have "kernel_reach echo k'" by (rule kernel_reach.trap [OF k(1) _ k(2)]) (simp add: contained_def load_trap_def)
  from user_memory_isolated [OF this k(3,4)] this k(3-5) show ?thesis by (auto simp: vpn_examples)
qed

theorem fault_trap_decides_witness:
  "\<exists>(k :: nat kernel) st'. kernel_reach echo k \<and> handle_trap echo 0 no_timers (\<lambda>_ _ _. None) load_trap k = Some (Resume load_trap (k\<lparr>k_vm := st'\<rparr>)) \<and>
     allows (view st' 0xF6F000) PROT_READ"
proof -
  obtain k k' :: "nat kernel" where k: "kernel_reach echo k" "handle_trap echo 0 no_timers (\<lambda>_ _ _. None) load_trap k = Some (Resume load_trap k')"
    by (rule stack_fault)
  from fault_trap_decides [OF k(1) _ k(2)] k show ?thesis
    by (auto simp: load_trap_def access_of_def split: if_split_asm)
qed

end
