(* ===== verification/Start.thy ===== *)
theory Start
  imports Handlers Fdt
begin

text \<open>
  The start of a process (\<open>pk/pk/pk.c\<close>): the command line from the host, the options of the kernel, the
  program, and the stack the process finds. Memory is the byte memory of \<open>Cstring\<close>; where the functions work on
  the memory behind the host, \<open>put_back\<close> stores the range they wrote. \<open>args\<close>, \<open>eh\<close> and \<open>phdrs\<close> are the
  addresses of the arrays on the kernel stack. The environment of the process is empty in the source, so its
  loops do nothing and \<open>envc\<close> is 0.
\<close>

unbundle bit_operations_syntax

section \<open>Model\<close>

definition load64 :: "bmem \<Rightarrow> u64 \<Rightarrow> u64" where
  "load64 m p = le_word (map (\<lambda>i. m (unat p + i)) [0..<8])"

definition store64 :: "u64 \<Rightarrow> u64 \<Rightarrow> bmem \<Rightarrow> bmem" where
  "store64 p v = store8 (unat p) v"

definition put_back :: "'h env \<Rightarrow> u64 \<Rightarrow> nat \<Rightarrow> bmem \<Rightarrow> 'h \<Rightarrow> 'h" where
  "put_back e p n m = poke e p (map m [unat p..<unat p + n])"

subsection \<open>The stack of the process\<close>

text \<open>The strings of the arguments go to the stack, their addresses to \<open>argv\<close>.\<close>

fun copy_args :: "u64 \<Rightarrow> nat list \<Rightarrow> u64 \<Rightarrow> bmem \<Rightarrow> (u64 \<times> bmem) option" where
  "copy_args argv [] stk m = Some (stk, m)"
| "copy_args argv (i # is) stk m = do {
     let p = load64 m (argv + 8 * of_nat i);
     n \<leftarrow> strlen m (unat p);
     let stk = stk - of_nat (n + 1);
     let m = memcpy (unat stk) (unat p) (n + 1) m;
     copy_args argv is stk (store64 (argv + 8 * of_nat i) stk m)
   }"

definition PUSH_ARG :: "u64 \<Rightarrow> u64 \<times> bmem \<Rightarrow> u64 \<times> bmem" where
  "PUSH_ARG v = (\<lambda>(sp, m). (sp + 8, store64 sp v m))"

definition aux :: "elf_info \<Rightarrow> u64 \<Rightarrow> u64 list" where
  "aux current stk =
     [9, entry current, 5, scast (phnum current), 4, scast (phent current), 3, phdr current, 6, PGSIZE, 23, 0, 25, stk, 0, 0]"

definition STACK_INIT :: "nat \<Rightarrow> u64 \<Rightarrow> u64 list \<Rightarrow> u64 \<Rightarrow> bmem \<Rightarrow> u64 \<times> bmem" where
  "STACK_INIT argc argv auxv stk m =
     (let stk = (stk - (1 + of_nat argc + 1 + 0 + 1 + of_nat (length auxv)) * 8) AND NOT 15;
          s = PUSH_ARG (of_nat argc) (stk, m);
          s = fold (\<lambda>i s. PUSH_ARG (load64 (snd s) (argv + 8 * of_nat i)) s) [0..<argc] s;
          s = PUSH_ARG 0 s;
          s = PUSH_ARG 0 s;
          s = fold PUSH_ARG auxv s
      in (stk, snd s))"

definition init_tf :: "u64 \<Rightarrow> u64 \<Rightarrow> u64 \<Rightarrow> trapframe_t" where
  "init_tf sstatus pc sp =
     \<lparr>gpr = (\<lambda>_. 0)(2 := sp), status = sstatus AND NOT 0x100 AND NOT 0x2 OR 0x20, epc = pc, badvaddr = 0, cause = 0, insn = 0\<rparr>"

definition process_stack :: "elf_info \<Rightarrow> nat \<Rightarrow> u64 \<Rightarrow> u64 \<Rightarrow> bmem \<Rightarrow> (u64 \<times> elf_info \<times> bmem) option" where
  "process_stack current argc argv stk m = do {
     let stk = stk - phdr_size current;
     let m = memcpy (unat stk) (unat (phdr current)) (unat (phdr_size current)) m;
     let current = current\<lparr>phdr := stk\<rparr>;
     (stk, m) \<leftarrow> copy_args argv [0..<argc] stk m;
     let stk = stk AND NOT 7;
     let (sp, m) = STACK_INIT argc argv (aux current stk) stk m;
     Some (sp, current, m)
   }"

definition start_timers :: "timers \<Rightarrow> timers" where
  "start_timers tm =
     (if cycle0 tm \<noteq> 0 then tm\<lparr>time0 := now_time tm, cycle0 := now_cycle tm, instret0 := now_instret tm\<rparr> else tm)"

text \<open>The process starts with the frame; the supervisor's scratch register gets \<open>kstack_top\<close>.\<close>

definition run_loaded_program :: "'h env \<Rightarrow> u64 \<Rightarrow> timers \<Rightarrow> elf_info \<Rightarrow> nat \<Rightarrow> u64 \<Rightarrow> 'h vm \<Rightarrow> (trapframe_t \<times> timers \<times> 'h vm) option" where
  "run_loaded_program e sstatus tm current argc argv st = do {
     let h = host (ft st);
     (sp, current, m) \<leftarrow> process_stack current argc argv (stack_top st) (user_mem e h);
     let h = put_back e argv (8 * argc) m (put_back e sp (unat (stack_top st) - unat sp) m h);
     Some (init_tf sstatus (entry current) sp, start_timers tm, st\<lparr>ft := (ft st)\<lparr>host := h\<rparr>\<rparr>)
   }"

subsection \<open>Command line\<close>

definition pk_help :: "'h env \<Rightarrow> 'h ftab \<Rightarrow> 'h trap_end option" where
  "pk_help e st = do {
     st \<leftarrow> printk e (''Proxy kernel'' @ NL @ NL) [] st;
     st \<leftarrow> printk e (''usage: pk [pk options] <user program> [program options]'' @ NL) [] st;
     st \<leftarrow> printk e (''Options:'' @ NL) [] st;
     st \<leftarrow> printk e (''  -h, --help            Print this help message'' @ NL) [] st;
     st \<leftarrow> printk e (''  -p                    Disable on-demand program paging'' @ NL) [] st;
     st \<leftarrow> printk e (''  -s                    Print cycles upon termination'' @ NL) [] st;
     Some (shutdown e 0 st)
   }"

definition c_string :: "bmem \<Rightarrow> nat \<Rightarrow> string option" where
  "c_string m p = map_option (\<lambda>n. map (\<lambda>i. char_of (unat (m (p + i)))) [0..<n]) (strlen m p)"

definition handle_option :: "'h env \<Rightarrow> u64 \<Rightarrow> timers \<times> 'h vm \<Rightarrow> ('h trap_end + timers \<times> 'h vm) option" where
  "handle_option e arg = (\<lambda>(tm, st).
     (let m = user_mem e (host (ft st)); e = kenv e st
      in if str_is m (unat arg) ''-h'' \<or> str_is m (unat arg) ''--help'' then map_option Inl (pk_help e (ft st))
         else if str_is m (unat arg) ''-s'' then Some (Inr (tm\<lparr>cycle0 := 1\<rparr>, st))
         else if str_is m (unat arg) ''-p'' then Some (Inr (tm, st\<lparr>demand_paging := False\<rparr>))
         else do {
           s \<leftarrow> c_string m (unat arg);
           map_option Inl (do_panic e (''unrecognized option: '' @ [CHR 0x60] @ ''%s'' @ [CHR 0x27] @ NL) [VStr s] (ft st))
         }))"

function handle_options :: "'h env \<Rightarrow> u64 \<Rightarrow> nat \<Rightarrow> nat \<Rightarrow> timers \<times> 'h vm \<Rightarrow> ('h trap_end + nat \<times> timers \<times> 'h vm) option" where
  "handle_options e args pk_argc arg s =
     (let m = user_mem e (host (ft (snd s)));
          p = load64 m (args + 8 * of_nat (1 + arg))
      in if arg < pk_argc \<and> m (unat p) = 45
         then do {
           r \<leftarrow> handle_option e p s;
           (case r of Inl t \<Rightarrow> Some (Inl t) | Inr s \<Rightarrow> handle_options e args pk_argc (arg + 1) s)
         }
         else Some (Inr (arg, s)))"
  by pat_completeness auto
termination by (relation "measure (\<lambda>(_, _, pk_argc, arg, _). pk_argc - arg)") auto

text \<open>The arguments move to the front of the array they are in.\<close>

definition shift_args :: "u64 \<Rightarrow> nat \<Rightarrow> nat \<Rightarrow> bmem \<Rightarrow> bmem" where
  "shift_args args arg n m = fold (\<lambda>i m. store64 (args + 8 * of_nat i) (load64 m (args + 8 * of_nat (1 + arg + i))) m) [0..<n] m"

definition parse_args :: "'h env \<Rightarrow> u64 \<Rightarrow> timers \<times> 'h vm \<Rightarrow> ('h trap_end + nat \<times> timers \<times> 'h vm) option" where
  "parse_args e args = (\<lambda>(tm, st).
     (let (r, t) = frontend_syscall (kenv e st) 2011 [va2pa (kenv e st) args, 2048, 0, 0, 0, 0, 0] (ft st)
      in if r \<noteq> 0 then map_option Inl (do_panic (kenv e st) (''args must not exceed %d bytes'' @ NL) [VWord 2048] t)
         else do {
           let pk_argc = unat (load64 (user_mem e (host t)) args);
           res \<leftarrow> handle_options e args pk_argc 1 (tm, st\<lparr>ft := t\<rparr>);
           (case res of Inl t \<Rightarrow> Some (Inl t)
            | Inr (arg, tm, st) \<Rightarrow>
                let n = pk_argc - arg;
                    m = shift_args args arg n (user_mem e (host (ft st)));
                    h = put_back e args (8 * n) m (host (ft st))
                in Some (Inr (n, tm, st\<lparr>ft := (ft st)\<lparr>host := h\<rparr>\<rparr>)))
         }))"

definition rest_of_boot_loader :: "'h env \<Rightarrow> u64 \<Rightarrow> u64 \<Rightarrow> u64 \<Rightarrow> u64 \<Rightarrow> timers \<times> 'h vm \<Rightarrow> ('h trap_end + trapframe_t \<times> timers \<times> 'h vm) option" where
  "rest_of_boot_loader e sstatus args eh phdrs s = do {
     res \<leftarrow> parse_args e args s;
     (case res of Inl t \<Rightarrow> Some (Inl t)
      | Inr (argc, tm, st) \<Rightarrow>
          if argc = 0 then map_option Inl (do_panic (kenv e st) (''tell me what ELF to load!'' @ NL) [] (ft st))
          else do {
            let info = \<lparr>phent = 0, phnum = 0, phdr = phdrs, phdr_size = 1024, entry = 0\<rparr>;
            (info, st) \<leftarrow> load_elf e eh (load64 (user_mem e (host (ft st))) args) info st;
            map_option Inr (run_loaded_program e sstatus tm info argc args st)
          })
   }"

text \<open>
  \<open>boot_loader\<close> runs in machine mode before the first process: it opens the three standard files and sets up
  the virtual memory. The supervisor's status register then allows it the memory of the user
  and the use of the floating-point and vector units.
\<close>

definition boot_loader :: "'h env \<Rightarrow> u64 \<Rightarrow> u64 \<Rightarrow> u64 \<Rightarrow> u64 \<Rightarrow> u64 \<Rightarrow> u64 \<Rightarrow> timers \<Rightarrow> 'h vm \<Rightarrow> ('h trap_end + trapframe_t \<times> timers \<times> 'h vm) option" where
  "boot_loader e mem_size end' sstatus args eh phdrs tm st = do {
     t \<leftarrow> file_init (ft st);
     (kstack_top, st) \<leftarrow> pk_vm_init e mem_size end' (st\<lparr>ft := t\<rparr>);
     rest_of_boot_loader e (sstatus OR 0x40000 OR 0x6000 OR 0x1800000) args eh phdrs (tm, st)
   }"

section \<open>Words in memory\<close>

lemma load64_cong: "(\<And>i. i < 8 \<Longrightarrow> m' (unat p + i) = m (unat p + i)) \<Longrightarrow> load64 m' p = load64 m p"
  unfolding load64_def by (intro arg_cong [where f = le_word] map_cong) auto

lemma store64_other: "a < unat p \<or> unat p + 8 \<le> a \<Longrightarrow> store64 p v m a = m a"
  by (auto simp: store64_def store8_def)

lemma load_store_same [simp]: "load64 (store64 p v m) p = v"
proof -
  have "map (\<lambda>i. store64 p v m (unat p + i)) [0..<8] = le_bytes 8 v"
    by (rule nth_equalityI) (simp_all add: store64_def store8_def nth_le_bytes)
  then show ?thesis unfolding load64_def by (simp add: le_word_le_bytes take_bit_word_eq_self)
qed

lemma load_store_other: "unat q + 8 \<le> unat p \<or> unat p + 8 \<le> unat q \<Longrightarrow> load64 (store64 p v m) q = load64 m q"
  by (rule load64_cong) (auto intro: store64_other)

lemma unat_slot: "unat p + 8 * n < 18446744073709551616 \<Longrightarrow> i \<le> n \<Longrightarrow> unat (p + 8 * of_nat i :: u64) = unat p + 8 * i"
  by (simp add: unat_word_ariths unat_of_nat)

lemma unat_clear_low:
  "unat (x AND NOT 7 :: u64) = 8 * (unat x div 8)" "unat (x AND NOT 15 :: u64) = 16 * (unat x div 16)"
proof -
  have "x AND NOT (mask n) = push_bit n (drop_bit n x)" for n by (rule bit_word_eqI) (auto simp: bit_simps)
  then have *: "unat (x AND NOT (mask n)) = take_bit 64 (push_bit n (drop_bit n (unat x)))" for n
    by (simp add: unsigned_push_bit_eq unsigned_drop_bit_eq)
  have "take_bit 64 (push_bit n (drop_bit n (unat x))) = 2 ^ n * (unat x div 2 ^ n)" for n
  proof -
    have "2 ^ n * (unat x div 2 ^ n) \<le> unat x" by simp
    also have "\<dots> < 2 ^ 64" using unsigned_less [of x] by simp
    finally show ?thesis by (simp add: push_bit_eq_mult drop_bit_eq_div ac_simps take_bit_nat_eq_self)
  qed
  with * [of 3] * [of 4] show "unat (x AND NOT 7) = 8 * (unat x div 8)" "unat (x AND NOT 15) = 16 * (unat x div 16)"
    by (simp_all add: mask_eq_exp_minus_1)
qed

section \<open>Pushing\<close>

lemma push_all:
  assumes "unat sp + 8 * length vs < 18446744073709551616"
  shows "\<exists>m'. fold PUSH_ARG vs (sp, m) = (sp + 8 * of_nat (length vs), m') \<and>
    (\<forall>i<length vs. load64 m' (sp + 8 * of_nat i) = vs ! i) \<and> (\<forall>a. a < unat sp \<or> unat sp + 8 * length vs \<le> a \<longrightarrow> m' a = m a)"
  using assms
proof (induction vs rule: rev_induct)
  case (snoc v vs)
  then obtain m' where IH: "fold PUSH_ARG vs (sp, m) = (sp + 8 * of_nat (length vs), m')"
    "\<And>i. i < length vs \<Longrightarrow> load64 m' (sp + 8 * of_nat i) = vs ! i" "\<And>a. a < unat sp \<or> unat sp + 8 * length vs \<le> a \<Longrightarrow> m' a = m a"
    by auto
  note U = unat_slot [of sp "length (vs @ [v])"] 
  let ?p = "sp + 8 * of_nat (length vs)" 
  have p: "unat ?p = unat sp + 8 * length vs" using U snoc.prems by simp
  have "load64 (store64 ?p v m') (sp + 8 * of_nat i) = (vs @ [v]) ! i" if "i < length (vs @ [v])" for i
  proof (cases "i = length vs")
    case False
    with that have "i < length vs" by simp
    moreover have "unat (sp + 8 * of_nat i) = unat sp + 8 * i" using U that snoc.prems by simp
    ultimately show ?thesis using IH(2) p by (subst load_store_other) (auto simp: nth_append)
  qed simp
  moreover have "store64 ?p v m' a = m a" if "a < unat sp \<or> unat sp + 8 * length (vs @ [v]) \<le> a" for a
    using that p IH(3) by (subst store64_other) auto
  moreover have "fold PUSH_ARG (vs @ [v]) (sp, m) = (sp + 8 * of_nat (length (vs @ [v])), store64 ?p v m')"
    using IH(1) by (simp add: PUSH_ARG_def [of v] algebra_simps)
  ultimately show ?case by blast
qed simp

lemma push_argv:
  assumes "unat sp + 8 * n < 18446744073709551616" "unat argv + 8 * n < 18446744073709551616"
    "unat argv + 8 * n \<le> unat sp \<or> unat sp + 8 * n \<le> unat argv"
  shows "fold (\<lambda>i s. PUSH_ARG (load64 (snd s) (argv + 8 * of_nat i)) s) [0..<n] (sp, m) =
    fold PUSH_ARG (map (\<lambda>i. load64 m (argv + 8 * of_nat i)) [0..<n]) (sp, m)"
  using assms
proof (induction n)
  case (Suc n)
  let ?vs = "map (\<lambda>i. load64 m (argv + 8 * of_nat i)) [0..<n]"
  obtain m' where m': "fold PUSH_ARG ?vs (sp, m) = (sp + 8 * of_nat n, m')"
      "\<And>a. a < unat sp \<or> unat sp + 8 * n \<le> a \<Longrightarrow> m' a = m a"
    using push_all [of sp ?vs m] Suc.prems by auto
  have "load64 m' (argv + 8 * of_nat n) = load64 m (argv + 8 * of_nat n)"
    using Suc.prems unat_slot [of argv "Suc n" n] by (intro load64_cong m'(2)) auto
  with Suc.IH Suc.prems m'(1) show ?case by auto
qed simp

text \<open>The words the process finds at its stack pointer.\<close>

definition stack_words :: "nat \<Rightarrow> u64 \<Rightarrow> u64 list \<Rightarrow> bmem \<Rightarrow> u64 list" where
  "stack_words argc argv auxv m = of_nat argc # map (\<lambda>i. load64 m (argv + 8 * of_nat i)) [0..<argc] @ [0, 0] @ auxv"

lemma stack_pointer:
  fixes stk :: u64
  assumes "8 * (argc + 3 + n) \<le> unat stk" "sp = (stk - (1 + of_nat argc + 1 + 0 + 1 + of_nat n) * 8) AND NOT 15"
  shows "unat sp mod 16 = 0" "unat stk \<le> unat sp + 8 * (argc + 3 + n) + 15" "unat sp + 8 * (argc + 3 + n) \<le> unat stk"
proof -
  define k where "k = 8 * (argc + 3 + n)"
  have t: "(1 + of_nat argc + 1 + 0 + 1 + of_nat n) * 8 = (of_nat k :: u64)" by (simp add: k_def algebra_simps)
  have k: "k \<le> unat stk" using assms(1) by (simp only: k_def)
  then have "unat (of_nat k :: u64) = k" using unat_less [of stk] by (simp add: unat_of_nat)
  then have "unat (stk - of_nat k) = unat stk - k" using k by (simp add: unat_sub word_le_nat_alt)
  then have "unat sp = 16 * ((unat stk - k) div 16)" unfolding assms(2) t unat_clear_low by simp
  with k show "unat sp mod 16 = 0" "unat stk \<le> unat sp + 8 * (argc + 3 + n) + 15" "unat sp + 8 * (argc + 3 + n) \<le> unat stk"
    unfolding k_def [symmetric] by auto
qed

lemma STACK_INIT_pushes:
  defines "n argc auxv \<equiv> 8 * (argc + 3 + length (auxv :: u64 list))"
  assumes sp: "sp = (stk - (1 + of_nat argc + 1 + 0 + 1 + of_nat (length auxv)) * 8) AND NOT 15"
    and room: "n argc auxv \<le> unat stk" and argv: "unat argv + 8 * argc < 18446744073709551616"
    and apart: "unat argv + 8 * argc \<le> unat sp \<or> unat stk \<le> unat argv"
  shows "\<exists>m'. STACK_INIT argc argv auxv stk m = (sp, m') \<and>
    (\<forall>i<argc + 3 + length auxv. load64 m' (sp + 8 * of_nat i) = stack_words argc argv auxv m ! i) \<and>
    (\<forall>a. a < unat sp \<or> unat stk \<le> a \<longrightarrow> m' a = m a)"
proof -
  have le: "unat sp + n argc auxv \<le> unat stk" using stack_pointer(3) [OF _ sp] room unfolding n_def by blast
  let ?ws = "stack_words argc argv auxv m"
  have len: "length ?ws = argc + 3 + length auxv" by (simp add: stack_words_def)
  have lim: "unat sp + 8 * length ?ws < 18446744073709551616" using le unat_less [of stk] unfolding len n_def by simp
  let ?m1 = "store64 sp (of_nat argc) m"
  have s8: "unat (sp + 8) = unat sp + 8" using unat_slot [OF lim, of 1] len by simp
  have "load64 ?m1 (argv + 8 * of_nat i) = load64 m (argv + 8 * of_nat i)" if "i < argc" for i
    using unat_slot [OF argv, of i] that apart le by (intro load_store_other) (auto simp: n_def)
  then have vs: "map (\<lambda>i. load64 ?m1 (argv + 8 * of_nat i)) [0..<argc] = map (\<lambda>i. load64 m (argv + 8 * of_nat i)) [0..<argc]" by simp
  have "fold (\<lambda>i s. PUSH_ARG (load64 (snd s) (argv + 8 * of_nat i)) s) [0..<argc] (sp + 8, ?m1) =
      fold PUSH_ARG (map (\<lambda>i. load64 m (argv + 8 * of_nat i)) [0..<argc]) (sp + 8, ?m1)"
    unfolding vs [symmetric] using lim len s8 argv apart le by (intro push_argv) (auto simp: n_def)
  then have "STACK_INIT argc argv auxv stk m = (sp, snd (fold PUSH_ARG ?ws (sp, m)))"
    unfolding STACK_INIT_def sp [symmetric] Let_def stack_words_def by (simp add: PUSH_ARG_def [of "of_nat argc"])
  with push_all [OF lim, of m] le show ?thesis unfolding len n_def by auto
qed

section \<open>Copying the arguments\<close>

definition clear :: "nat \<Rightarrow> nat \<Rightarrow> nat \<Rightarrow> nat \<Rightarrow> bool" where
  "clear p n lo hi \<longleftrightarrow> p + n \<le> lo \<or> hi \<le> p"

text \<open>
  An argument whose string is stored where the kernel's array says, neither on the stack between \<open>lo\<close>
  and \<open>hi\<close> nor in the array itself.
\<close>

definition arg_at :: "u64 \<Rightarrow> nat \<Rightarrow> nat \<Rightarrow> nat \<Rightarrow> bmem \<Rightarrow> nat \<Rightarrow> u8 list \<Rightarrow> bool" where
  "arg_at argv argc lo hi m i s \<longleftrightarrow>
     (let p = unat (load64 m (argv + 8 * of_nat i))
      in cstr m p s \<and> clear p (length s + 1) lo hi \<and> clear p (length s + 1) (unat argv) (unat argv + 8 * argc))"

definition total :: "(nat \<Rightarrow> u8 list) \<Rightarrow> nat list \<Rightarrow> nat" where
  "total s is = (\<Sum>i\<leftarrow>is. length (s i) + 1)"

lemma total_simps [simp]: "total s [] = 0" "total s (i # is) = length (s i) + 1 + total s is"
  by (simp_all add: total_def)

text \<open>One argument: its string is copied below the stack, and its entry is set to the copy.\<close>

lemma copy_one:
  assumes i: "i < argc" and argv: "unat argv + 8 * argc < 18446744073709551616" "clear (unat argv) (8 * argc) lo hi"
    and at: "arg_at argv argc lo hi m i xs" and room: "lo + length xs + 1 \<le> unat stk" "unat stk \<le> hi"
  defines "stk' \<equiv> stk - of_nat (length xs + 1)"
  defines "m' \<equiv> store64 (argv + 8 * of_nat i) stk' (memcpy (unat stk') (unat (load64 m (argv + 8 * of_nat i))) (length xs + 1) m)"
  shows "unat stk = unat stk' + (length xs + 1)" "load64 m' (argv + 8 * of_nat i) = stk'" "cstr m' (unat stk') xs"
    "\<And>j. j < argc \<Longrightarrow> j \<noteq> i \<Longrightarrow> load64 m' (argv + 8 * of_nat j) = load64 m (argv + 8 * of_nat j)"
    "\<And>a. a < unat stk' \<or> unat stk \<le> a \<Longrightarrow> a < unat argv \<or> unat argv + 8 * argc \<le> a \<Longrightarrow> m' a = m a"
proof -
  let ?p = "load64 m (argv + 8 * of_nat i)"
  have "unat (of_nat k :: u64) = k" if "k < 18446744073709551616" for k using that by (simp add: unat_of_nat)
  from this [of "length xs + 1"] have "unat (of_nat (length xs + 1) :: u64) = length xs + 1" using room unat_less [of stk] by linarith
  then show u: "unat stk = unat stk' + (length xs + 1)"
    using room unfolding stk'_def by (subst unat_sub) (simp_all add: word_le_nat_alt)
  have d: "disjoint_ranges (unat stk') (unat ?p) (length xs + 1)"
    using at room u by (auto simp: arg_at_def clear_def disjoint_ranges_def Let_def)
  let ?c = "copied (unat stk') (unat ?p) (length xs + 1) m"
  have m': "m' = store64 (argv + 8 * of_nat i) stk' ?c" unfolding m'_def memcpy_copied [OF d] ..
  note slot = unat_slot [OF argv(1)]
  have off: "a < unat argv \<or> unat argv + 8 * argc \<le> a \<Longrightarrow> m' a = ?c a" for a
    unfolding m' using slot [of i] i by (intro store64_other) auto
  show "load64 m' (argv + 8 * of_nat i) = stk'" unfolding m' by simp
  have "m' (unat stk' + k) = m (unat ?p + k)" if "k \<le> length xs" for k
  proof -
    have "unat stk' + k < unat argv \<or> unat argv + 8 * argc \<le> unat stk' + k" using that argv(2) room u by (auto simp: clear_def)
    from off [OF this] that show ?thesis by (simp add: copied_def)
  qed
  with at show "cstr m' (unat stk') xs" by (auto simp: arg_at_def cstr_def Let_def)
  show "load64 m' (argv + 8 * of_nat j) = load64 m (argv + 8 * of_nat j)" if "j < argc" "j \<noteq> i" for j
  proof -
    have "load64 m' (argv + 8 * of_nat j) = load64 ?c (argv + 8 * of_nat j)"
      unfolding m' using that i slot [of i] slot [of j] by (intro load_store_other) auto
    also have "\<dots> = load64 m (argv + 8 * of_nat j)"
      using that slot [of j] argv(2) room u by (intro load64_cong) (auto simp: copied_def clear_def)
    finally show ?thesis .
  qed
  show "m' a = m a" if "a < unat stk' \<or> unat stk \<le> a" "a < unat argv \<or> unat argv + 8 * argc \<le> a" for a
    using off [OF that(2)] that(1) u room by (auto simp: copied_def)
qed

lemma copy_args_copies:
  assumes argv: "unat argv + 8 * argc < 18446744073709551616" "clear (unat argv) (8 * argc) lo hi"
    and "distinct is" "set is \<subseteq> {..<argc}" "\<And>i. i \<in> set is \<Longrightarrow> arg_at argv argc lo hi m i (s i)"
    and "lo + total s is \<le> unat stk" "unat stk \<le> hi"
  shows "\<exists>stk' m'. copy_args argv is stk m = Some (stk', m') \<and> unat stk = unat stk' + total s is \<and>
    (\<forall>i\<in>set is. cstr m' (unat (load64 m' (argv + 8 * of_nat i))) (s i) \<and> unat stk' \<le> unat (load64 m' (argv + 8 * of_nat i)) \<and>
       unat (load64 m' (argv + 8 * of_nat i)) + length (s i) < unat stk) \<and>
    (\<forall>i<argc. i \<notin> set is \<longrightarrow> load64 m' (argv + 8 * of_nat i) = load64 m (argv + 8 * of_nat i)) \<and>
    (\<forall>a. (a < unat stk' \<or> unat stk \<le> a) \<and> (a < unat argv \<or> unat argv + 8 * argc \<le> a) \<longrightarrow> m' a = m a)"
  using assms(3-)
proof (induction "is" arbitrary: stk m)
  case (Cons i "is")
  let ?p = "load64 m (argv + 8 * of_nat i)" and ?n = "length (s i)"
  let ?stk = "stk - of_nat (?n + 1)"
  let ?m = "store64 (argv + 8 * of_nat i) ?stk (memcpy (unat ?stk) (unat ?p) (?n + 1) m)"
  have i: "i < argc" "i \<notin> set is" "arg_at argv argc lo hi m i (s i)" using Cons.prems by auto
  have "lo + ?n + 1 \<le> unat stk" using Cons.prems(4) by simp
  note one = copy_one [OF i(1) argv i(3) this Cons.prems(5)]
  have at: "arg_at argv argc lo hi ?m j (s j)" if "j \<in> set is" for j
  proof -
    have j: "j < argc" "j \<noteq> i" "arg_at argv argc lo hi m j (s j)" using that Cons.prems i(2) by auto
    have "?m (unat (load64 m (argv + 8 * of_nat j)) + k) = m (unat (load64 m (argv + 8 * of_nat j)) + k)" if "k \<le> length (s j)" for k
      using that j(3) one(1) Cons.prems(4,5) by (intro one(5)) (auto simp: arg_at_def clear_def Let_def)
    with j one(4) [OF j(1,2)] show ?thesis by (auto simp: arg_at_def Let_def intro: cstr_frame)
  qed
  have pre: "distinct is" "set is \<subseteq> {..<argc}" "lo + total s is \<le> unat ?stk" "unat ?stk \<le> hi" using Cons.prems one(1) by auto
  from Cons.IH [OF pre(1,2) at pre(3,4)] obtain stk' m' where IH: "copy_args argv is ?stk ?m = Some (stk', m')" "unat ?stk = unat stk' + total s is"
    "\<And>j. j \<in> set is \<Longrightarrow> cstr m' (unat (load64 m' (argv + 8 * of_nat j))) (s j) \<and> unat stk' \<le> unat (load64 m' (argv + 8 * of_nat j)) \<and>
       unat (load64 m' (argv + 8 * of_nat j)) + length (s j) < unat ?stk"
    "\<And>j. j < argc \<Longrightarrow> j \<notin> set is \<Longrightarrow> load64 m' (argv + 8 * of_nat j) = load64 ?m (argv + 8 * of_nat j)"
    "\<And>a. a < unat stk' \<or> unat ?stk \<le> a \<Longrightarrow> a < unat argv \<or> unat argv + 8 * argc \<le> a \<Longrightarrow> m' a = ?m a" by blast
  have "strlen m (unat ?p) = Some ?n" using i(3) strlen_loop_cstr by (auto simp: strlen_def arg_at_def Let_def)
  then have run: "copy_args argv (i # is) stk m = Some (stk', m')" using IH(1) by (simp add: Let_def)
  have here: "load64 m' (argv + 8 * of_nat i) = ?stk" using IH(4) [OF i(1,2)] one(2) by simp
  have "cstr m' (unat ?stk) (s i)"
    using one(1) argv(2) Cons.prems(4,5) by (intro cstr_frame [OF one(3)] IH(5)) (auto simp: clear_def)
  then have C: "cstr m' (unat (load64 m' (argv + 8 * of_nat j))) (s j) \<and> unat stk' \<le> unat (load64 m' (argv + 8 * of_nat j)) \<and>
      unat (load64 m' (argv + 8 * of_nat j)) + length (s j) < unat stk" if "j \<in> set (i # is)" for j
    using that IH(3) [of j] here IH(2) one(1) Cons.prems(4) by (cases "j = i") auto
  have K: "load64 m' (argv + 8 * of_nat j) = load64 m (argv + 8 * of_nat j)" if "j < argc" "j \<notin> set (i # is)" for j
    using that IH(4) [of j] one(4) [of j] by simp
  have M: "m' a = m a" if "a < unat stk' \<or> unat stk \<le> a" "a < unat argv \<or> unat argv + 8 * argc \<le> a" for a
  proof -
    have "a < unat stk' \<or> unat ?stk \<le> a" "a < unat ?stk \<or> unat stk \<le> a" using that(1) IH(2) one(1) by linarith+
    with IH(5) one(5) that(2) show ?thesis by metis
  qed
  show ?case using run IH(2) one(1) C K M by (intro exI [of _ stk'] exI [of _ m']) simp
qed auto

section \<open>What the process finds\<close>

lemma unat_below: "unat n \<le> unat stk \<Longrightarrow> unat (stk - n :: u64) = unat stk - unat n"
  by (simp add: unat_sub word_le_nat_alt)

text \<open>
  C12. The process finds the stack its start-up code expects: the stack pointer is a multiple of 16 and
  above the lower end of the stack; there lie the number of arguments, the addresses of their strings, a null
  pointer, the empty environment and the vector that describes the program, with the address of a copy of its
  program headers at the top of the stack. The strings are copies on the stack: each lies whole between these words and the
  program headers. Nothing but the stack and the kernel's array of addresses is written.
\<close>

theorem process_stack_laid_out:
  assumes argv: "unat argv + 8 * argc < 18446744073709551616" "clear (unat argv) (8 * argc) lo (unat stk)"
    and args: "\<And>i. i < argc \<Longrightarrow> arg_at argv argc lo (unat stk) m i (s i)"
    and hdr: "clear (unat (phdr cur)) (unat (phdr_size cur)) lo (unat stk)"
    and room: "lo + unat (phdr_size cur) + total s [0..<argc] + 8 * argc + 174 \<le> unat stk"
  shows "\<exists>sp r m'. let cur' = cur\<lparr>phdr := stk - phdr_size cur\<rparr> in
    process_stack cur argc argv stk m = Some (sp, cur', m') \<and> unat sp mod 16 = 0 \<and> lo \<le> unat sp \<and>
    load64 m' sp = of_nat argc \<and>
    (\<forall>i<argc. let p = unat (load64 m' (sp + 8 * of_nat (1 + i)))
       in cstr m' p (s i) \<and> unat sp + 8 * (argc + 19) \<le> p \<and> p + length (s i) < unat (phdr cur')) \<and>
    load64 m' (sp + 8 * of_nat (argc + 1)) = 0 \<and> load64 m' (sp + 8 * of_nat (argc + 2)) = 0 \<and>
    (\<forall>j<16. load64 m' (sp + 8 * of_nat (argc + 3 + j)) = aux cur' r ! j) \<and>
    unat sp + 8 * (argc + 19) \<le> unat r \<and> unat r \<le> unat (phdr cur') \<and>
    (\<forall>k<unat (phdr_size cur). m' (unat (phdr cur') + k) = m (unat (phdr cur) + k)) \<and>
    (\<forall>a. (a < lo \<or> unat stk \<le> a) \<and> (a < unat argv \<or> unat argv + 8 * argc \<le> a) \<longrightarrow> m' a = m a)"
proof -
  let ?n = "unat (phdr_size cur)" and ?t = "stk - phdr_size cur"
  let ?cur = "cur\<lparr>phdr := ?t\<rparr>"
  have t: "unat stk = unat ?t + ?n" using room by (subst unat_below) simp_all
  have d: "disjoint_ranges (unat ?t) (unat (phdr cur)) ?n" using hdr t room by (auto simp: clear_def disjoint_ranges_def)
  let ?m1 = "copied (unat ?t) (unat (phdr cur)) ?n m"
  have m1: "?m1 a = m a" if "a < lo \<or> unat stk \<le> a" for a using that t room by (auto simp: copied_def)
  have at: "arg_at argv argc lo (unat ?t) ?m1 i (s i)" if "i < argc" for i
  proof -
    have l: "load64 ?m1 (argv + 8 * of_nat i) = load64 m (argv + 8 * of_nat i)"
      using unat_slot [OF argv(1), of i] argv(2) that by (intro load64_cong m1) (auto simp: clear_def)
    have "?m1 (unat (load64 m (argv + 8 * of_nat i)) + k) = m (unat (load64 m (argv + 8 * of_nat i)) + k)" if "k \<le> length (s i)" for k
      using that args [OF \<open>i < argc\<close>] by (intro m1) (auto simp: arg_at_def clear_def Let_def)
    with args [OF that] t show ?thesis unfolding arg_at_def l Let_def clear_def by (auto intro: cstr_frame)
  qed
  have k: "clear (unat argv) (8 * argc) lo (unat ?t)" "lo + total s [0..<argc] \<le> unat ?t" "set [0..<argc] \<subseteq> {..<argc}"
    using argv(2) t room by (auto simp: clear_def)
  have at': "arg_at argv argc lo (unat ?t) ?m1 i (s i)" if "i \<in> set [0..<argc]" for i using at that by simp
  from copy_args_copies [OF argv(1) k(1) distinct_upt k(3) at' k(2) order_refl] obtain q m2 where
    q: "copy_args argv [0..<argc] ?t ?m1 = Some (q, m2)" "unat ?t = unat q + total s [0..<argc]"
    and c': "\<forall>i\<in>set [0..<argc]. cstr m2 (unat (load64 m2 (argv + 8 * of_nat i))) (s i) \<and> unat q \<le> unat (load64 m2 (argv + 8 * of_nat i)) \<and>
       unat (load64 m2 (argv + 8 * of_nat i)) + length (s i) < unat ?t"
    and m2: "\<And>a. a < unat q \<or> unat ?t \<le> a \<Longrightarrow> a < unat argv \<or> unat argv + 8 * argc \<le> a \<Longrightarrow> m2 a = ?m1 a" by blast
  have c: "cstr m2 (unat (load64 m2 (argv + 8 * of_nat i))) (s i)" "unat q \<le> unat (load64 m2 (argv + 8 * of_nat i))"
    "unat (load64 m2 (argv + 8 * of_nat i)) + length (s i) < unat ?t" if "i < argc" for i
    using c' that by simp_all
  let ?r = "q AND NOT 7"
  have r: "unat ?r \<le> unat q" "unat q \<le> unat ?r + 7" unfolding unat_clear_low by simp_all
  define sp where "sp = (?r - (1 + of_nat argc + 1 + 0 + 1 + of_nat (length (aux ?cur ?r))) * 8) AND NOT 15"
  have len: "length (aux ?cur ?r) = 16" by (simp add: aux_def)
  have fit: "8 * (argc + 3 + length (aux ?cur ?r)) \<le> unat ?r" unfolding len using room r q(2) t by simp
  note S = stack_pointer [OF fit sp_def]
  have lo: "lo \<le> unat sp" using S(2) [unfolded len] room r q(2) t by simp
  have "unat argv + 8 * argc \<le> unat sp \<or> unat ?r \<le> unat argv" using r q(2) t argv(2) lo by (auto simp: clear_def)
  from STACK_INIT_pushes [OF sp_def fit argv(1) this, of m2] obtain m' where
    m': "STACK_INIT argc argv (aux ?cur ?r) ?r m2 = (sp, m')"
    and w: "\<And>i. i < argc + 3 + 16 \<Longrightarrow> load64 m' (sp + 8 * of_nat i) = stack_words argc argv (aux ?cur ?r) m2 ! i"
    and f: "\<And>a. a < unat sp \<or> unat ?r \<le> a \<Longrightarrow> m' a = m2 a" unfolding len by blast
  have run: "process_stack cur argc argv stk m = Some (sp, ?cur, m')"
    unfolding process_stack_def Let_def memcpy_copied [OF d] q(1) using m' by simp
  have a: "let p = unat (load64 m' (sp + 8 * of_nat (1 + i)))
      in cstr m' p (s i) \<and> unat sp + 8 * (argc + 19) \<le> p \<and> p + length (s i) < unat ?t" if "i < argc" for i
  proof -
    have "load64 m' (sp + 8 * of_nat (1 + i)) = load64 m2 (argv + 8 * of_nat i)"
      using w [of "1 + i"] that by (simp add: stack_words_def nth_append)
    moreover have "m' (unat (load64 m2 (argv + 8 * of_nat i)) + k) = m2 (unat (load64 m2 (argv + 8 * of_nat i)) + k)" for k
      using c [OF that] r by (intro f) simp
    moreover have "unat sp + 8 * (argc + 19) \<le> unat q" using S(3) [unfolded len] r by simp
    ultimately show ?thesis using c [OF that] unfolding Let_def by (auto intro: cstr_frame)
  qed
  have x: "load64 m' (sp + 8 * of_nat (argc + 3 + j)) = aux ?cur ?r ! j" if "j < 16" for j
    using w [of "argc + 3 + j"] that by (simp add: stack_words_def nth_append)
  have y: "unat sp + 8 * (argc + 19) \<le> unat ?r" "unat ?r \<le> unat ?t" using S(3) [unfolded len] r q(2) by simp_all
  have h: "m' (unat ?t + k) = m (unat (phdr cur) + k)" if "k < ?n" for k
    using that t f [of "unat ?t + k"] m2 [of "unat ?t + k"] r q(2) argv(2) room by (auto simp: clear_def copied_def)
  have o: "m' a = m a" if "(a < lo \<or> unat stk \<le> a) \<and> (a < unat argv \<or> unat argv + 8 * argc \<le> a)" for a
    using that f [of a] m2 [of a] m1 [of a] t q(2) r lo room by auto
  show ?thesis
    unfolding Let_def
    by (rule exI [of _ sp], rule exI [of _ ?r], rule exI [of _ m'])
      (use run S(1) lo w [of 0] w [of "argc + 1"] w [of "argc + 2"] a [unfolded Let_def] x y h o in
        \<open>simp add: stack_words_def nth_append\<close>)
qed

definition one_arg :: bmem where
  "one_arg a = (if a = 0x201 then 1 else if a = 0x100 then 97 else 0)"

definition one_elf :: elf_info where
  "one_elf = \<lparr>phent = 56, phnum = 1, phdr = 0x300, phdr_size = 64, entry = 0x10000\<rparr>"

theorem process_stack_laid_out_witness:
  "\<exists>sp m'. process_stack one_elf 1 0x200 0x2000 one_arg = Some (sp, one_elf\<lparr>phdr := 0x1FC0\<rparr>, m') \<and> unat sp mod 16 = 0 \<and>
     load64 m' sp = 1 \<and> cstr m' (unat (load64 m' (sp + 8))) [97] \<and> unat (load64 m' (sp + 8)) + 1 < 0x1FC0"
proof -
  have "load64 one_arg 0x200 = 0x100" by (simp add: load64_def one_arg_def upt_rec)
  then have "arg_at 0x200 1 0x1000 (unat (0x2000 :: u64)) one_arg i [97]" if "i < 1" for i
    using that by (simp add: arg_at_def cstr_def clear_def one_arg_def)
  from process_stack_laid_out [where s = "\<lambda>_. [97]", OF _ _ this, of one_elf] show ?thesis
    by (auto simp: clear_def one_elf_def total_def Let_def)
qed

end
