(* ===== verification/Ipi.thy ===== *)
theory Ipi
  imports Prelude "HOL-Library.Countable"
begin

text \<open>
  Interrupts between harts (\<open>send_ipi\<close> and \<open>send_ipi_many\<close> of \<open>pk/machine/mtrap.c\<close>) with all harts running
  at once. Every access to a register or word that harts share is one step; the steps of different harts
  interleave in any order. The handler of the interrupt is the code at the label \<open>1\<close> of \<open>mentry.S\<close>: it
  clears the hart's interrupt register and then takes its pending events.
\<close>

unbundle bit_operations_syntax

section \<open>Model\<close>

text \<open>
  Where a hart is. \<open>Below\<close>: it runs below machine mode. \<open>Post\<close> and \<open>Ring\<close>: in the first loop of \<open>send_ipi_many\<close>,
  before the atomic update of the pending events and before the write of the interrupt register. \<open>Poll\<close> and
  \<open>Swap\<close>: in the second loop, before the read of the other hart's register and before the atomic swap of
  its own. \<open>Handle\<close>: in the handler, between the two accesses. The arguments are the local variables.
\<close>

datatype phase =
    Below
  | Post u32 u64 nat u64
  | Ring u32 u64 nat u64
  | Poll nat u64 u32
  | Swap nat u64 u32
  | Handle
  | Halted

record harts =
  msip :: "nat \<Rightarrow> u32"
  pending :: "nat \<Rightarrow> u32"
  phase :: "nat \<Rightarrow> phase"

abbreviation (input) IPI_SOFT :: u32 where "IPI_SOFT \<equiv> 0x1"
abbreviation (input) IPI_FENCE_I :: u32 where "IPI_FENCE_I \<equiv> 0x2"
abbreviation (input) IPI_SFENCE_VMA :: u32 where "IPI_SFENCE_VMA \<equiv> 0x4"
abbreviation (input) IPI_HALT :: u32 where "IPI_HALT \<equiv> 0x8"

definition goto :: "nat \<Rightarrow> phase \<Rightarrow> harts \<Rightarrow> harts" where
  "goto h p s = s\<lparr>phase := (phase s)(h := p)\<rparr>"

text \<open>
  \<open>E\<close> are the events that are sent. The mask of a call is the mask of existing harts, restricted by a word
  of the caller or not at all, which is the word \<open>-1\<close>.
\<close>

inductive ipi_step :: "u32 set \<Rightarrow> u64 \<Rightarrow> u64 \<Rightarrow> harts \<Rightarrow> harts \<Rightarrow> bool" for E hart_mask disabled_hart_mask where
  call: "phase s h = Below \<Longrightarrow> event \<in> E \<Longrightarrow> targets = hart_mask AND w \<Longrightarrow>
    ipi_step E hart_mask disabled_hart_mask s (goto h (Post event targets 0 targets) s)"
| skip: "phase s h = Post event targets i m \<Longrightarrow> m \<noteq> 0 \<Longrightarrow> m AND 1 = 0 \<or> drop_bit i disabled_hart_mask AND 1 \<noteq> 0 \<Longrightarrow>
    ipi_step E hart_mask disabled_hart_mask s (goto h (Post event targets (i + 1) (drop_bit 1 m)) s)"
| post: "phase s h = Post event targets i m \<Longrightarrow> m AND 1 \<noteq> 0 \<Longrightarrow> drop_bit i disabled_hart_mask AND 1 = 0 \<Longrightarrow>
    ipi_step E hart_mask disabled_hart_mask s
      (goto h (Ring event targets i m) (s\<lparr>pending := (pending s)(i := pending s i OR event)\<rparr>))"
| ring: "phase s h = Ring event targets i m \<Longrightarrow>
    ipi_step E hart_mask disabled_hart_mask s (goto h (Post event targets (i + 1) (drop_bit 1 m)) (s\<lparr>msip := (msip s)(i := 1)\<rparr>))"
| posted: "phase s h = Post event targets i 0 \<Longrightarrow>
    ipi_step E hart_mask disabled_hart_mask s (goto h (if event = IPI_SOFT then Below else Poll 0 targets 0) s)"
| pass: "phase s h = Poll i m incoming_ipi \<Longrightarrow> m \<noteq> 0 \<Longrightarrow> m AND 1 = 0 \<or> msip s i = 0 \<Longrightarrow>
    ipi_step E hart_mask disabled_hart_mask s (goto h (Poll (i + 1) (drop_bit 1 m) incoming_ipi) s)"
| busy: "phase s h = Poll i m incoming_ipi \<Longrightarrow> m AND 1 \<noteq> 0 \<Longrightarrow> msip s i \<noteq> 0 \<Longrightarrow>
    ipi_step E hart_mask disabled_hart_mask s (goto h (Swap i m incoming_ipi) s)"
| swap: "phase s h = Swap i m incoming_ipi \<Longrightarrow>
    ipi_step E hart_mask disabled_hart_mask s
      (goto h (Poll i m (incoming_ipi OR msip s h)) (s\<lparr>msip := (msip s)(h := 0)\<rparr>))"
| return: "phase s h = Poll i 0 incoming_ipi \<Longrightarrow>
    ipi_step E hart_mask disabled_hart_mask s
      (goto h Below (if incoming_ipi \<noteq> 0 then s\<lparr>msip := (msip s)(h := incoming_ipi)\<rparr> else s))"
| enter: "phase s h = Below \<Longrightarrow> msip s h \<noteq> 0 \<Longrightarrow>
    ipi_step E hart_mask disabled_hart_mask s (goto h Handle (s\<lparr>msip := (msip s)(h := 0)\<rparr>))"
| handle: "phase s h = Handle \<Longrightarrow>
    ipi_step E hart_mask disabled_hart_mask s
      (goto h (if pending s h AND IPI_HALT \<noteq> 0 then Halted else Below) (s\<lparr>pending := (pending s)(h := 0)\<rparr>))"

definition quiet :: harts where
  "quiet = \<lparr>msip = \<lambda>_. 0, pending = \<lambda>_. 0, phase = \<lambda>_. Below\<rparr>"

abbreviation ipi_reach :: "u32 set \<Rightarrow> u64 \<Rightarrow> u64 \<Rightarrow> harts \<Rightarrow> bool" where
  "ipi_reach E hart_mask disabled_hart_mask \<equiv> (ipi_step E hart_mask disabled_hart_mask)\<^sup>*\<^sup>* quiet"

lemma goto_simps [simp]:
  "msip (goto h p s) = msip s" "pending (goto h p s) = pending s" "phase (goto h p s) = (phase s)(h := p)"
  by (simp_all add: goto_def)

section \<open>No event is lost\<close>

fun saved :: "phase \<Rightarrow> u32" where
  "saved (Poll i m incoming_ipi) = incoming_ipi"
| "saved (Swap i m incoming_ipi) = incoming_ipi"
| "saved _ = 0"

definition ringing :: "(nat \<Rightarrow> phase) \<Rightarrow> nat \<Rightarrow> bool" where
  "ringing f j \<longleftrightarrow> (\<exists>h event targets m. f h = Ring event targets j m)"

lemma ringing_upd: "ringing f j \<Longrightarrow> (\<And>event targets m. f h \<noteq> Ring event targets j m) \<Longrightarrow> ringing (f(h := p)) j"
  unfolding ringing_def by (metis fun_upd_other)

lemma ringing_self [simp]: "ringing (f(h := Ring event targets j m)) j"
  unfolding ringing_def by (metis fun_upd_same)

text \<open>Where the interrupt that announces the events of a hart may be.\<close>

definition announced :: "harts \<Rightarrow> nat \<Rightarrow> bool" where
  "announced s j \<longleftrightarrow> msip s j \<noteq> 0 \<or> phase s j = Handle \<or> saved (phase s j) \<noteq> 0 \<or> ringing (phase s) j"

lemma announced_step:
  assumes "ipi_step E hm dm s s'" "\<And>j. pending s j \<noteq> 0 \<Longrightarrow> announced s j" "pending s' j \<noteq> 0"
  shows "announced s' j"
  using assms(1)
proof cases
  case (ring h event targets i m)
  then show ?thesis using assms(2) [of j] assms(3) ringing_upd [of "phase s" j h]
    by (cases "i = j") (auto simp: announced_def)
qed (use assms(2) [of j] assms(3) ringing_upd [of "phase s" j] in \<open>auto simp: announced_def or_eq_0_iff split: if_splits\<close>)

lemma reach_announced:
  assumes "ipi_reach E hm dm s" "pending s j \<noteq> 0"
  shows "announced s j"
  using assms
proof (induction arbitrary: j rule: rtranclp_induct)
  case base
  then show ?case by (simp add: quiet_def)
next
  case (step s s')
  show ?case by (rule announced_step [OF step.hyps(2) step.IH step.prems])
qed

text \<open>
  C16. An event that was sent to a hart is never lost, whatever the harts do at the same time: as long as a hart has
  pending events, its interrupt is raised, or it is about to take the events, or it has put the
  interrupt aside and will raise it again, or a sender is about to raise it.
\<close>

theorem ipi_never_lost:
  assumes "ipi_reach E hart_mask disabled_hart_mask s" "pending s j \<noteq> 0"
  shows "msip s j \<noteq> 0 \<or> phase s j = Handle \<or> saved (phase s j) \<noteq> 0 \<or> (\<exists>h event targets m. phase s h = Ring event targets j m)"
  using reach_announced [OF assms] unfolding announced_def ringing_def .

section \<open>The sender does not wait for the handler\<close>

text \<open>What a hart does next, except for the decision to send.\<close>

definition advance :: "u64 \<Rightarrow> nat \<Rightarrow> harts \<Rightarrow> harts" where
  "advance disabled_hart_mask h s =
     (case phase s h of
        Below \<Rightarrow> if msip s h \<noteq> 0 then goto h Handle (s\<lparr>msip := (msip s)(h := 0)\<rparr>) else s
      | Post event targets i m \<Rightarrow>
          if m = 0 then goto h (if event = IPI_SOFT then Below else Poll 0 targets 0) s
          else if m AND 1 = 0 \<or> drop_bit i disabled_hart_mask AND 1 \<noteq> 0 then goto h (Post event targets (i + 1) (drop_bit 1 m)) s
          else goto h (Ring event targets i m) (s\<lparr>pending := (pending s)(i := pending s i OR event)\<rparr>)
      | Ring event targets i m \<Rightarrow> goto h (Post event targets (i + 1) (drop_bit 1 m)) (s\<lparr>msip := (msip s)(i := 1)\<rparr>)
      | Poll i m incoming_ipi \<Rightarrow>
          if m = 0 then goto h Below (if incoming_ipi \<noteq> 0 then s\<lparr>msip := (msip s)(h := incoming_ipi)\<rparr> else s)
          else if m AND 1 = 0 \<or> msip s i = 0 then goto h (Poll (i + 1) (drop_bit 1 m) incoming_ipi) s
          else goto h (Swap i m incoming_ipi) s
      | Swap i m incoming_ipi \<Rightarrow> goto h (Poll i m (incoming_ipi OR msip s h)) (s\<lparr>msip := (msip s)(h := 0)\<rparr>)
      | Handle \<Rightarrow> goto h (if pending s h AND IPI_HALT \<noteq> 0 then Halted else Below) (s\<lparr>pending := (pending s)(h := 0)\<rparr>)
      | Halted \<Rightarrow> s)"

lemma advance_step: "advance dm h s = s \<or> ipi_step E hm dm s (advance dm h s)"
proof (cases "phase s h")
  case Below
  then show ?thesis by (simp add: advance_def ipi_step.enter)
next
  case (Post event targets i m)
  consider "m = 0" | "m \<noteq> 0" "m AND 1 = 0 \<or> drop_bit i dm AND 1 \<noteq> 0" | "m AND 1 \<noteq> 0" "drop_bit i dm AND 1 = 0" by auto
  then show ?thesis
  proof cases
    case 1
    with ipi_step.posted [OF Post [unfolded 1], of E hm dm] Post show ?thesis by (simp add: advance_def)
  next
    case 2
    with ipi_step.skip [OF Post 2] Post show ?thesis by (simp add: advance_def)
  next
    case 3
    with ipi_step.post [OF Post 3] Post show ?thesis by (auto simp: advance_def)
  qed
next
  case (Ring event targets i m)
  with ipi_step.ring [OF Ring] show ?thesis by (simp add: advance_def)
next
  case (Poll i m incoming_ipi)
  consider "m = 0" | "m \<noteq> 0" "m AND 1 = 0 \<or> msip s i = 0" | "m AND 1 \<noteq> 0" "msip s i \<noteq> 0" by auto
  then show ?thesis
  proof cases
    case 1
    with ipi_step.return [OF Poll [unfolded 1], of E hm dm] Poll show ?thesis by (simp add: advance_def)
  next
    case 2
    with ipi_step.pass [OF Poll 2] Poll show ?thesis by (simp add: advance_def)
  next
    case 3
    with ipi_step.busy [OF Poll 3] Poll show ?thesis by (auto simp: advance_def)
  qed
next
  case (Swap i m incoming_ipi)
  with ipi_step.swap [OF Swap] show ?thesis by (simp add: advance_def)
next
  case Handle
  with ipi_step.handle [OF Handle] show ?thesis by (simp add: advance_def)
next
  case Halted
  then show ?thesis by (simp add: advance_def)
qed

lemma advance_run: "(ipi_step E hm dm)\<^sup>*\<^sup>* s (fold (advance dm) hs s)"
proof (induction hs arbitrary: s)
  case (Cons h hs)
  with advance_step [of dm h s E hm] show ?case by (auto intro: converse_rtranclp_into_rtranclp)
qed simp

text \<open>
  Two harts that send to each other: hart 0 asks hart 1 for a fence of the address translation while hart 1
  waits for an answer of hart 0 to an earlier request.
\<close>

definition crossing :: harts where
  "crossing = goto 0 (Post IPI_SFENCE_VMA 2 0 2) (fold (advance 0) [1, 1, 1] (goto 1 (Post IPI_FENCE_I 1 0 1) quiet))"

lemma crossing_reach:
  assumes "IPI_FENCE_I \<in> E" "IPI_SFENCE_VMA \<in> E"
  shows "ipi_reach E 3 0 crossing"
proof -
  let ?s = "fold (advance 0) [1, 1, 1] (goto 1 (Post IPI_FENCE_I 1 0 1) quiet)"
  have "ipi_step E 3 0 quiet (goto 1 (Post IPI_FENCE_I 1 0 1) quiet)"
    using assms(1) by (intro ipi_step.call [where w = 1]) (simp_all add: quiet_def)
  moreover have "ipi_step E 3 0 ?s crossing"
    unfolding crossing_def using assms(2) by (intro ipi_step.call [where w = 2]) (simp_all add: quiet_def advance_def)
  ultimately show ?thesis
    using advance_run [of E 3 0 "goto 1 (Post IPI_FENCE_I 1 0 1) quiet" "[1, 1, 1]"]
    by (meson converse_rtranclp_into_rtranclp rtranclp.rtrancl_into_rtrancl)
qed

definition posted :: harts where
  "posted = advance 0 1 (goto 1 (Post IPI_FENCE_I 1 0 1) quiet)"

lemma posted_reach: "ipi_reach {IPI_FENCE_I} 3 0 posted"
proof -
  have "ipi_step {IPI_FENCE_I} 3 0 quiet (goto 1 (Post IPI_FENCE_I 1 0 1) quiet)"
    by (intro ipi_step.call [where w = 1]) (simp_all add: quiet_def)
  with advance_run [of "{IPI_FENCE_I}" 3 0 "goto 1 (Post IPI_FENCE_I 1 0 1) quiet" "[1]"] show ?thesis
    unfolding posted_def by (simp add: converse_rtranclp_into_rtranclp)
qed

theorem ipi_never_lost_witness:
  "pending posted 0 = IPI_FENCE_I \<and> msip posted 0 = 0 \<and> (\<exists>h event targets m. phase posted h = Ring event targets 0 m)"
proof -
  have p: "pending posted 0 = IPI_FENCE_I" "msip posted 0 = 0" "phase posted 0 = Below" by (simp_all add: posted_def quiet_def advance_def)
  from ipi_never_lost [OF posted_reach, of 0] p show ?thesis by simp
qed

text \<open>
  C35. The wait at the end of \<open>send_ipi_many\<close> does not ensure that the events have been handled: hart 0 can return
  from its request for a fence while hart 1, which has put its interrupt aside during its own wait,
  still has the request pending.
\<close>

theorem ipi_acknowledged_early:
  "\<exists>s t. ipi_reach {IPI_FENCE_I, IPI_SFENCE_VMA} 3 0 s \<and> phase s 0 = Post IPI_SFENCE_VMA 2 0 2 \<and> pending s 1 = 0 \<and>
     (ipi_step {IPI_FENCE_I, IPI_SFENCE_VMA} 3 0)\<^sup>*\<^sup>* s t \<and> phase t 0 = Below \<and> pending t 1 = IPI_SFENCE_VMA \<and> msip t 1 = 0"
proof (intro exI conjI)
  let ?t = "fold (advance 0) [0, 0, 0, 0, 1, 1, 0, 0, 0] crossing"
  show "ipi_reach {IPI_FENCE_I, IPI_SFENCE_VMA} 3 0 crossing" by (rule crossing_reach) simp_all
  show "(ipi_step {IPI_FENCE_I, IPI_SFENCE_VMA} 3 0)\<^sup>*\<^sup>* crossing ?t" by (rule advance_run)
  show "phase crossing 0 = Post IPI_SFENCE_VMA 2 0 2" "pending crossing 1 = 0" by (simp_all add: crossing_def quiet_def advance_def)
  show "phase ?t 0 = Below" "pending ?t 1 = IPI_SFENCE_VMA" "msip ?t 1 = 0"
    by (simp_all add: crossing_def quiet_def advance_def)
qed


section \<open>Every schedule comes to rest\<close>

text \<open>
  The work a hart has left in its loops. Spinning in the second loop does not change it; every other step
  reduces the sum of the work and of twice the number of raised interrupts.
\<close>

fun work :: "phase \<Rightarrow> nat" where
  "work (Post event targets i m) = 4 * unat targets + 4 * unat m + 7"
| "work (Ring event targets i m) = 4 * unat targets + 4 * unat m + 6"
| "work (Poll i m incoming_ipi) = 4 * unat m + 3"
| "work (Swap i m incoming_ipi) = 4 * unat m + 3"
| "work Handle = 1"
| "work _ = 0"

definition total :: "harts \<Rightarrow> nat" where
  "total s = (\<Sum>h\<in>{h. phase s h \<noteq> Below}. work (phase s h))"

definition effort :: "harts \<Rightarrow> nat" where
  "effort s = total s + 2 * card {h. msip s h \<noteq> 0}"

text \<open>Nobody halts: no such event is on its way.\<close>

fun event_of :: "phase \<Rightarrow> u32" where
  "event_of (Post event targets i m) = event"
| "event_of (Ring event targets i m) = event"
| "event_of _ = 0"

definition running :: "nat set \<Rightarrow> harts \<Rightarrow> bool" where
  "running A s \<longleftrightarrow> finite A \<and> {h. phase s h \<noteq> Below} \<subseteq> A \<and> {h. msip s h \<noteq> 0} \<subseteq> A \<and>
     (\<forall>h. (\<forall>event targets i. phase s h \<noteq> Ring event targets i 0) \<and> phase s h \<noteq> Halted \<and> event_of (phase s h) AND IPI_HALT = 0 \<and> pending s h AND IPI_HALT = 0)"

lemma drop_bit_less: "m \<noteq> 0 \<Longrightarrow> unat (drop_bit 1 m) < unat m" for m :: u64
proof -
  assume "m \<noteq> 0"
  then have "0 < unat m" by (simp add: unat_gt_0)
  then show ?thesis by (simp add: drop_bit_eq_div unat_div_distrib)
qed

lemma drop_bit_half: "unat (drop_bit (Suc 0) m) = unat m div 2" for m :: u64
  by (simp add: drop_bit_eq_div unat_div_distrib)

lemma and_or_0: "a AND c = 0 \<Longrightarrow> b AND c = 0 \<Longrightarrow> (a OR b) AND c = 0" for a b c :: u32
  by (simp add: bit.conj_disj_distrib2)

lemma running_step:
  assumes "ipi_step E hm dm s s'" "\<forall>event\<in>E. event AND IPI_HALT = 0" "running A s"
  shows "\<exists>A'. running A' s'"
  using assms(1)
proof cases
  case (call h event targets w)
  with assms(2,3) show ?thesis by (intro exI [of _ "insert h A"]) (auto simp: running_def)
next
  case (post h event targets i m)
  have "event AND 8 = 0" using assms(3) post(2) unfolding running_def by (metis event_of.simps(1))
  with post assms(3) show ?thesis by (intro exI [of _ "insert h A"]) (auto simp: running_def and_or_0)
next
  case (ring h event targets i m)
  have "event AND 8 = 0" using assms(3) ring(2) unfolding running_def by (metis event_of.simps(2))
  with ring assms(3) show ?thesis by (intro exI [of _ "insert h (insert i A)"]) (auto simp: running_def)
next
  case (skip h event targets i m)
  have "event AND 8 = 0" using assms(3) skip(2) unfolding running_def by (metis event_of.simps(1))
  with skip assms(3) show ?thesis by (intro exI [of _ "insert h A"]) (auto simp: running_def)
next
  case (return h i incoming_ipi)
  with assms(3) show ?thesis by (intro exI [of _ "insert h A"]) (auto simp: running_def)
next
  case (handle h)
  with assms(3) show ?thesis by (intro exI [of _ "insert h A"]) (auto simp: running_def)
next
  case (swap h i m incoming_ipi)
  with assms(3) show ?thesis by (intro exI [of _ "insert h A"]) (auto simp: running_def)
next
  case (enter h)
  with assms(3) show ?thesis by (intro exI [of _ "insert h A"]) (auto simp: running_def)
next
  case (posted h event targets i)
  with assms(3) show ?thesis by (intro exI [of _ "insert h A"]) (auto simp: running_def)
next
  case (pass h i m incoming_ipi)
  with assms(3) show ?thesis by (intro exI [of _ "insert h A"]) (auto simp: running_def)
next
  case (busy h i m incoming_ipi)
  with assms(3) show ?thesis by (intro exI [of _ "insert h A"]) (auto simp: running_def)
qed


lemma running_run:
  assumes "(ipi_step E hm dm)\<^sup>*\<^sup>* s s'" "\<forall>event\<in>E. event AND IPI_HALT = 0" "running A s"
  shows "\<exists>A'. running A' s'"
  using assms(1)
proof induction
  case base
  then show ?case using assms(3) by blast
next
  case (step t t')
  with running_step [OF _ assms(2)] show ?case by blast
qed


lemma total_eq: "finite A \<Longrightarrow> {h. phase s h \<noteq> Below} \<subseteq> A \<Longrightarrow> total s = (\<Sum>h\<in>A. work (phase s h))"
  unfolding total_def by (intro sum.mono_neutral_left) auto

lemma total_upd:
  assumes "running A s" "phase s' = (phase s)(h := p)"
  shows "total s' + work (phase s h) = total s + work p"
proof -
  let ?A = "insert h A"
  have A: "finite ?A" "{h. phase s h \<noteq> Below} \<subseteq> ?A" "{h. phase s' h \<noteq> Below} \<subseteq> ?A" using assms by (auto simp: running_def)
  have "(\<Sum>k\<in>?A - {h}. work (phase s' k)) = (\<Sum>k\<in>?A - {h}. work (phase s k))" by (rule sum.cong) (auto simp: assms(2))
  then show ?thesis
    unfolding total_eq [OF A(1,2)] total_eq [OF A(1,3)] using A(1) assms(2) by (simp add: sum.remove [of ?A h])
qed

lemma raised:
  assumes "running A s"
  shows "card {k. ((msip s)(i := x)) k \<noteq> 0} \<le> Suc (card {k. msip s k \<noteq> 0})"
    "msip s h \<noteq> 0 \<Longrightarrow> card {k. msip s k \<noteq> 0} = Suc (card {k. ((msip s)(h := 0)) k \<noteq> 0})"
proof -
  have fin: "finite {k. msip s k \<noteq> 0}" using assms by (auto simp: running_def intro: finite_subset)
  have "{k. ((msip s)(i := x)) k \<noteq> 0} \<subseteq> insert i {k. msip s k \<noteq> 0}" by auto
  then have "card {k. ((msip s)(i := x)) k \<noteq> 0} \<le> card (insert i {k. msip s k \<noteq> 0})" using fin by (intro card_mono) simp_all
  also have "\<dots> \<le> Suc (card {k. msip s k \<noteq> 0})" using fin by (simp add: card_insert_if)
  finally show "card {k. ((msip s)(i := x)) k \<noteq> 0} \<le> Suc (card {k. msip s k \<noteq> 0})" .
  assume "msip s h \<noteq> 0"
  moreover have "{k. ((msip s)(h := 0)) k \<noteq> 0} = {k. msip s k \<noteq> 0} - {h}" by auto
  ultimately show "card {k. msip s k \<noteq> 0} = Suc (card {k. ((msip s)(h := 0)) k \<noteq> 0})"
    using card_Suc_Diff1 [OF fin, of h] by (simp only: mem_Collect_eq not_False_eq_True)
qed

text \<open>Steps that change nothing but the place of a hart that spins.\<close>

definition idles :: "nat \<Rightarrow> harts \<Rightarrow> harts \<Rightarrow> bool" where
  "idles h s s' \<longleftrightarrow> msip s' = msip s \<and> effort s' = effort s \<and> (\<forall>k. k \<noteq> h \<longrightarrow> phase s' k = phase s k) \<and>
     (phase s h = Below \<and> msip s h = 0 \<and> phase s' h = Below \<or>
      (\<exists>i m inc. phase s h = Poll i m inc \<and> msip s i \<noteq> 0 \<and> phase s' h = Swap i m inc) \<or>
      (\<exists>i m inc. phase s h = Swap i m inc \<and> msip s h = 0 \<and> phase s' h = Poll i m inc))"

lemma half_work: "m \<noteq> 0 \<Longrightarrow> 4 * unat (drop_bit (Suc 0) m) + 4 \<le> 4 * unat m" for m :: u64
  using drop_bit_less [of m] by simp

lemma advance_effort:
  assumes r: "running A s"
  shows "effort (advance dm h s) < effort s \<or> idles h s (advance dm h s)"
proof (cases "phase s h")
  case Below
  show ?thesis
  proof (cases "msip s h = 0")
    case False
    with Below total_upd [OF r, of "advance dm h s" h Handle] raised(2) [OF r False] show ?thesis
      by (simp add: advance_def effort_def)
  qed (use Below in \<open>simp add: advance_def idles_def\<close>)
next
  case (Post event targets i m)
  define p where "p = phase (advance dm h s) h"
  have "phase (advance dm h s) = (phase s)(h := p)" "msip (advance dm h s) = msip s" "work p < work (phase s h)"
    using Post half_work [of m] by (auto simp: advance_def p_def)
  with total_upd [OF r, of "advance dm h s" h p] show ?thesis by (simp add: effort_def)
next
  case (Ring event targets i m)
  then have "m \<noteq> 0" using r by (auto simp: running_def)
  with Ring total_upd [OF r, of "advance dm h s" h "Post event targets (i + 1) (drop_bit 1 m)"] raised(1) [OF r, of i 1] half_work [of m]
  show ?thesis by (simp add: advance_def effort_def)
next
  case (Poll i m inc)
  consider "m = 0" | "m \<noteq> 0" "m AND 1 = 0 \<or> msip s i = 0" | "m AND 1 \<noteq> 0" "msip s i \<noteq> 0" by auto
  then show ?thesis
  proof cases
    case 1
    with Poll total_upd [OF r, of "advance dm h s" h Below] raised(1) [OF r, of h inc] show ?thesis
      by (cases "inc = 0") (simp_all add: advance_def effort_def)
  next
    case 2
    with Poll total_upd [OF r, of "advance dm h s" h "Poll (i + 1) (drop_bit 1 m) inc"] half_work [of m] show ?thesis
      by (simp add: advance_def effort_def)
  next
    case 3
    then have a: "phase (advance dm h s) = (phase s)(h := Swap i m inc)" "msip (advance dm h s) = msip s" using Poll by (auto simp: advance_def)
    from total_upd [OF r a(1)] Poll a 3 show ?thesis by (simp add: effort_def idles_def)
  qed
next
  case (Swap i m inc)
  let ?p = "Poll i m (inc OR msip s h)"
  have a: "phase (advance dm h s) = (phase s)(h := ?p)" "msip (advance dm h s) = (msip s)(h := 0)" using Swap by (auto simp: advance_def)
  show ?thesis
  proof (cases "msip s h = 0")
    case True
    then have "msip (advance dm h s) = msip s" using a(2) by (simp add: fun_upd_idem)
    with total_upd [OF r a(1)] Swap a(1) True show ?thesis by (simp add: effort_def idles_def)
  next
    case False
    with total_upd [OF r a(1)] Swap a raised(2) [OF r False] show ?thesis by (simp add: effort_def)
  qed
next
  case Handle
  have "phase (advance dm h s) = (phase s)(h := Below)" "msip (advance dm h s) = msip s"
    using Handle r by (auto simp: advance_def running_def)
  with total_upd [OF r, of "advance dm h s" h Below] Handle show ?thesis by (simp add: effort_def)
next
  case Halted
  with r show ?thesis by (simp add: running_def)
qed

text \<open>The harts run in the order of a schedule and make no further requests.\<close>

primrec ipi_run :: "u64 \<Rightarrow> (nat \<Rightarrow> nat) \<Rightarrow> nat \<Rightarrow> harts \<Rightarrow> harts" where
  "ipi_run dm schedule 0 s = s"
| "ipi_run dm schedule (Suc n) s = advance dm (schedule n) (ipi_run dm schedule n s)"

definition fair :: "(nat \<Rightarrow> nat) \<Rightarrow> bool" where
  "fair schedule \<longleftrightarrow> (\<forall>h n. \<exists>k\<ge>n. schedule k = h)"

lemma ipi_run_steps: "(ipi_step E hm dm)\<^sup>*\<^sup>* s (ipi_run dm schedule n s)"
proof (induction n)
  case (Suc n)
  with advance_step [of dm "schedule n" "ipi_run dm schedule n s" E hm] show ?case by (auto intro: rtranclp.rtrancl_into_rtrancl)
qed simp

text \<open>A sequence of numbers that never grows is constant in the end.\<close>

lemma settles:
  fixes f :: "nat \<Rightarrow> nat"
  assumes "\<And>n. f (Suc n) \<le> f n"
  shows "\<exists>N. \<forall>n\<ge>N. f n = f N"
proof -
  define v where "v = (LEAST v. \<exists>n. f n = v)"
  have "\<exists>n. f n = v" unfolding v_def by (rule LeastI_ex) blast
  then obtain N where N: "f N = v" by blast
  have "f n \<le> f N" if "n \<ge> N" for n using that by (induction rule: dec_induct) (auto intro: order_trans [OF assms])
  moreover have "v \<le> f n" for n unfolding v_def by (rule Least_le) blast
  ultimately show ?thesis using N by (intro exI [of _ N]) (auto intro: antisym)
qed

lemma fair_rests:
  assumes r: "\<And>n. \<exists>A. running A (ipi_run dm schedule n s)" and fair: "fair schedule"
  shows "\<exists>n. \<forall>h. phase (ipi_run dm schedule n s) h = Below \<and> msip (ipi_run dm schedule n s) h = 0"
proof -
  define x where "x n = ipi_run dm schedule n s" for n
  have step: "effort (x (Suc n)) < effort (x n) \<or> idles (schedule n) (x n) (x (Suc n))" for n
    using r [of n] advance_effort [of _ "x n" dm "schedule n"] by (auto simp: x_def)
  then have "effort (x (Suc n)) \<le> effort (x n)" for n by (metis idles_def less_imp_le order_refl)
  from settles [where f = "\<lambda>n. effort (x n)", OF this] obtain N where N: "\<And>n. n \<ge> N \<Longrightarrow> effort (x n) = effort (x N)" by blast
  have idle: "idles (schedule n) (x n) (x (Suc n))" if "n \<ge> N" for n
    using step [of n] N [of n] N [of "Suc n"] that by auto
  have msip: "msip (x n) = msip (x N)" if "n \<ge> N" for n
    using that by (induction rule: dec_induct) (auto dest: idle simp: idles_def)
  have stays: "phase (x n) h = phase (x k) h" if "N \<le> k" "k \<le> n" "\<And>j. k \<le> j \<Longrightarrow> j < n \<Longrightarrow> schedule j \<noteq> h" for h k n
    using that(2,3)
  proof (induction rule: dec_induct)
    case (step n)
    have "schedule n \<noteq> h" using step.prems [of n] step.hyps by simp
    moreover have "idles (schedule n) (x n) (x (Suc n))" using idle step.hyps that(1) by simp
    then have "k \<noteq> schedule n \<Longrightarrow> phase (x (Suc n)) k = phase (x n) k" for k unfolding idles_def by blast
    ultimately have "phase (x (Suc n)) h = phase (x n) h" by metis
    also have "\<dots> = phase (x k) h" using step.IH step.prems by simp
    finally show ?case .
  qed simp
  have turn: "\<exists>n\<ge>k. schedule n = h \<and> phase (x n) h = phase (x k) h" if "k \<ge> N" for h k
  proof -
    define n where "n = (LEAST n. n \<ge> k \<and> schedule n = h)"
    have "\<exists>n. n \<ge> k \<and> schedule n = h" using fair unfolding fair_def by blast
    then have n: "n \<ge> k \<and> schedule n = h" unfolding n_def by (rule LeastI_ex)
    have "schedule j \<noteq> h" if "k \<le> j" "j < n" for j using that not_less_Least [of j "\<lambda>n. n \<ge> k \<and> schedule n = h"] unfolding n_def by blast
    with n stays [OF that, of n h] show ?thesis by blast
  qed
  have zero: "msip (x N) h = 0" for h
  proof (rule ccontr)
    assume h: "msip (x N) h \<noteq> 0"
    obtain n where n: "n \<ge> N" "schedule n = h" using turn [of N h] by auto
    then have "\<exists>i m inc. phase (x (Suc n)) h = Swap i m inc" using idle [of n] msip [of n] h by (auto simp: idles_def)
    moreover obtain n' where n': "n' \<ge> Suc n" "schedule n' = h" "phase (x n') h = phase (x (Suc n)) h" using turn [of "Suc n" h] n(1) by auto
    ultimately show False using idle [of n'] msip [of n'] h n(1) by (auto simp: idles_def)
  qed
  have "phase (x N) h = Below" for h
  proof (rule ccontr)
    assume h: "phase (x N) h \<noteq> Below"
    obtain n where n: "n \<ge> N" "schedule n = h" "phase (x n) h = phase (x N) h" using turn [of N h] by auto
    then have "\<exists>i m inc. phase (x (Suc n)) h = Poll i m inc" using idle [of n] msip [of n] h zero by (auto simp: idles_def)
    moreover obtain n' where n': "n' \<ge> Suc n" "schedule n' = h" "phase (x n') h = phase (x (Suc n)) h" using turn [of "Suc n" h] n(1) by auto
    ultimately show False using idle [of n'] msip [of n'] zero n(1) by (auto simp: idles_def)
  qed
  with zero show ?thesis unfolding x_def by blast
qed

text \<open>
  C17. Harts that have sent to each other do not wait for ever: from every state they can reach, and in whatever
  order they then run, as long as each of them gets its turn again and again and no further
  requests are made, a moment comes when all of them have returned and every event has been handled. (A hart that was
  told to halt never answers, so that event is left out.)
\<close>

theorem ipi_quiesces:
  assumes "ipi_reach {IPI_SOFT, IPI_FENCE_I, IPI_SFENCE_VMA} hart_mask disabled_hart_mask s" "fair schedule"
  shows "\<exists>n. \<forall>h. phase (ipi_run disabled_hart_mask schedule n s) h = Below \<and> msip (ipi_run disabled_hart_mask schedule n s) h = 0 \<and>
    pending (ipi_run disabled_hart_mask schedule n s) h = 0"
proof -
  let ?E = "{IPI_SOFT, IPI_FENCE_I, IPI_SFENCE_VMA}"
  have E: "\<forall>event\<in>?E. event AND IPI_HALT = 0" by simp
  have q: "running {} quiet" by (simp add: running_def quiet_def)
  have reach: "ipi_reach ?E hart_mask disabled_hart_mask (ipi_run disabled_hart_mask schedule n s)" for n
    using assms(1) ipi_run_steps [of ?E hart_mask disabled_hart_mask s schedule n] by simp
  from fair_rests [OF running_run [OF reach E q] assms(2)] obtain n where
    n: "\<forall>h. phase (ipi_run disabled_hart_mask schedule n s) h = Below \<and> msip (ipi_run disabled_hart_mask schedule n s) h = 0" by blast
  then have "pending (ipi_run disabled_hart_mask schedule n s) h = 0" for h
    using reach_announced [OF reach, of n h] by (auto simp: announced_def ringing_def)
  with n show ?thesis by blast
qed

lemma fair_example: "fair (\<lambda>n. snd (prod_decode n))"
  unfolding fair_def
proof (intro allI)
  fix h n
  have "n \<le> prod_encode (n, h)" by (rule le_prod_encode_1)
  then show "\<exists>k\<ge>n. snd (prod_decode k) = h" by (intro exI [of _ "prod_encode (n, h)"]) simp
qed

theorem ipi_quiesces_witness:
  "\<exists>n. phase (ipi_run 0 (\<lambda>n. snd (prod_decode n)) n crossing) 0 = Below \<and> pending (ipi_run 0 (\<lambda>n. snd (prod_decode n)) n crossing) 1 = 0"
  using ipi_quiesces [OF crossing_reach fair_example] by auto

end
