(* ===== verification/Mcall.thy ===== *)
theory Mcall
  imports Devices Machine Snprintf Ipi
begin

text \<open>
  The calls of the supervisor to machine mode (\<open>pk/machine/mtrap.c\<close>): the console, interrupts between harts,
  the timer, and the crypto engines. The state is that of the firmware on one hart. The devices, the
  host and what the other harts do to the interrupt registers are arguments.
\<close>

unbundle bit_operations_syntax

section \<open>Model\<close>

text \<open>
  \<open>b_peers\<close> is what the other harts do to the interrupt registers before each access of this hart to one.
  \<open>b_dma\<close> is what the DMA engine has done to memory. \<open>b_stack\<close> and \<open>b_words\<close> are what buffers and words on the stack hold before they are written.
\<close>

record 'w board =
  b_bus :: "'w bus"
  b_bus8 :: "'w bus8"
  b_amoor :: "u64 \<Rightarrow> u32 \<Rightarrow> 'w \<Rightarrow> u32 \<times> 'w"
  b_host :: "htif_t \<Rightarrow> htif_t"
  b_peers :: "(nat \<Rightarrow> u32) \<Rightarrow> (nat \<Rightarrow> u32)"
  b_dma :: "'w \<Rightarrow> bmem \<Rightarrow> bmem"
  b_stack :: "nat \<Rightarrow> char"
  b_words :: "nat \<Rightarrow> u32"

record 'w fw =
  f_hart :: hart
  f_uart :: u64
  f_uart16550 :: u16550
  f_htif :: u64
  f_htif_regs :: htif_t
  f_aes :: u64
  f_sha256 :: u64
  f_hmac :: u64
  f_dma :: u64
  f_finisher :: u64
  f_hart_mask :: u64
  f_disabled_hart_mask :: u64
  f_ipi :: "nat \<Rightarrow> u32"
  f_mipi_pending :: "nat \<Rightarrow> u32"
  f_timecmp :: "nat \<Rightarrow> u64"
  f_ram :: bmem
  f_world :: 'w

text \<open>A call returns, is redirected to the supervisor as a trap, or turns the machine off.\<close>

datatype 'w call = Return u64 "'w fw" | Redirect "'w fw" | Off "'w fw"

abbreviation (input) MIP_SSIP :: u64 where "MIP_SSIP \<equiv> 0x2"
abbreviation (input) MIP_STIP :: u64 where "MIP_STIP \<equiv> 0x20"
abbreviation (input) MIP_MTIP :: u64 where "MIP_MTIP \<equiv> 0x80"

definition this_hart :: "'w fw \<Rightarrow> nat" where
  "this_hart st = unat (read_csr Mhartid (f_hart st))"

subsection \<open>Console\<close>

definition mcall_console_putchar :: "'w board \<Rightarrow> u8 \<Rightarrow> 'w fw \<Rightarrow> (u64 \<times> 'w fw) option" where
  "mcall_console_putchar bd ch st = do {
     st \<leftarrow> (if f_uart st \<noteq> 0
            then map_option (\<lambda>w. st\<lparr>f_world := w\<rparr>) (uart_putchar (b_amoor bd) (f_uart st) ch (f_world st))
            else if u_ptr (f_uart16550 st) \<noteq> 0
            then map_option (\<lambda>w. st\<lparr>f_world := w\<rparr>) (uart16550_putchar (b_bus8 bd) (f_uart16550 st) ch (f_world st))
            else if f_htif st \<noteq> 0
            then map_option (\<lambda>h. st\<lparr>f_htif_regs := h\<rparr>) (htif_console_putchar (b_host bd) ch (f_htif_regs st))
            else Some st);
     Some (0, st)
   }"

fun putstring :: "'w board \<Rightarrow> char list \<Rightarrow> 'w fw \<Rightarrow> 'w fw option" where
  "putstring bd [] st = Some st"
| "putstring bd (c # s) st = do { (_, st) \<leftarrow> mcall_console_putchar bd (of_nat (of_char c)) st; putstring bd s st }"

definition vprintm :: "'w board \<Rightarrow> string \<Rightarrow> va_arg list \<Rightarrow> 'w fw \<Rightarrow> 'w fw option" where
  "vprintm bd s vl st = do {
     (buf, _) \<leftarrow> vsnprintf (b_stack bd) 256 s vl;
     putstring bd (takeWhile (\<lambda>c. c \<noteq> char_of (0 :: nat)) (map buf [0..<256])) st
   }"

definition printm :: "'w board \<Rightarrow> string \<Rightarrow> va_arg list \<Rightarrow> 'w fw \<Rightarrow> 'w fw option" where
  "printm bd s vl = vprintm bd s vl"

definition mcall_console_getchar :: "'w board \<Rightarrow> 'w fw \<Rightarrow> (u64 \<times> 'w fw) option" where
  "mcall_console_getchar bd st =
     (if f_uart st \<noteq> 0
      then let (c, w) = uart_getchar (b_bus bd) (f_uart st) (f_world st) in Some (of_int c, st\<lparr>f_world := w\<rparr>)
      else if u_ptr (f_uart16550 st) \<noteq> 0
      then let (c, w) = uart16550_getchar (b_bus8 bd) (f_uart16550 st) (f_world st) in Some (of_int c, st\<lparr>f_world := w\<rparr>)
      else if f_htif st \<noteq> 0
      then map_option (\<lambda>(c, h). (of_int c, st\<lparr>f_htif_regs := h\<rparr>)) (htif_console_getchar (b_host bd) (f_htif_regs st))
      else Some (0, st))"

subsection \<open>Interrupts between harts, timer\<close>

definition send_ipi :: "nat \<Rightarrow> u32 \<Rightarrow> 'w fw \<Rightarrow> 'w fw" where
  "send_ipi recipient event st =
     (if drop_bit recipient (f_disabled_hart_mask st) AND 1 \<noteq> 0 then st
      else st\<lparr>f_mipi_pending := (f_mipi_pending st)(recipient := f_mipi_pending st recipient OR event),
              f_ipi := (f_ipi st)(recipient := 1)\<rparr>)"

function send_all :: "nat \<Rightarrow> u64 \<Rightarrow> u32 \<Rightarrow> 'w fw \<Rightarrow> 'w fw" where
  "send_all i m event st =
     (if m = 0 then st else send_all (i + 1) (drop_bit 1 m) event (if m AND 1 \<noteq> 0 then send_ipi i event st else st))"
  by pat_completeness auto
termination by (relation "measure (\<lambda>(i, m, event, st). unat m)") (use drop_bit_less in auto)

declare send_all.simps [simp del]

text \<open>\<open>while (*OTHER_HLS(i)->ipi) incoming_ipi |= atomic_swap(HLS()->ipi, 0);\<close>\<close>

partial_function (option) wait_hart :: "((nat \<Rightarrow> u32) \<Rightarrow> (nat \<Rightarrow> u32)) \<Rightarrow> nat \<Rightarrow> nat \<Rightarrow> u32 \<Rightarrow> (nat \<Rightarrow> u32) \<Rightarrow> (u32 \<times> (nat \<Rightarrow> u32)) option" where
  "wait_hart peers self i incoming_ipi r =
     (let r = peers r
      in if r i \<noteq> 0
         then let r = peers r in wait_hart peers self i (incoming_ipi OR r self) (r(self := 0))
         else Some (incoming_ipi, r))"

partial_function (option) wait_all :: "((nat \<Rightarrow> u32) \<Rightarrow> (nat \<Rightarrow> u32)) \<Rightarrow> nat \<Rightarrow> nat \<Rightarrow> u64 \<Rightarrow> u32 \<Rightarrow> (nat \<Rightarrow> u32) \<Rightarrow> (u32 \<times> (nat \<Rightarrow> u32)) option" where
  "wait_all peers self i m incoming_ipi r =
     (if m = 0 then Some (incoming_ipi, r)
      else do {
        (incoming_ipi, r) \<leftarrow> (if m AND 1 \<noteq> 0 then wait_hart peers self i incoming_ipi r else Some (incoming_ipi, r));
        wait_all peers self (i + 1) (drop_bit 1 m) incoming_ipi r
      })"

definition send_masked :: "'w board \<Rightarrow> u64 \<Rightarrow> u32 \<Rightarrow> 'w fw \<Rightarrow> 'w fw option" where
  "send_masked bd targets event st =
     (let st = send_all 0 targets event st
      in if event = IPI_SOFT then Some st
         else do {
           (incoming_ipi, r) \<leftarrow> wait_all (b_peers bd) (this_hart st) 0 targets 0 (f_ipi st);
           Some (st\<lparr>f_ipi := (if incoming_ipi \<noteq> 0 then r(this_hart st := incoming_ipi) else r)\<rparr>)
         })"

definition send_ipi_many :: "'w board \<Rightarrow> u64 \<Rightarrow> u32 \<Rightarrow> 'w fw \<Rightarrow> 'w call option" where
  "send_ipi_many bd pmask event st =
     (if pmask = 0 then map_option (Return 0) (send_masked bd (f_hart_mask st) event st)
      else case load_uint64_t pmask (read_csr Mepc (f_hart st)) (f_hart st) of
             Done v s \<Rightarrow> map_option (Return 0) (send_masked bd (f_hart_mask st AND v) event (st\<lparr>f_hart := s\<rparr>))
           | Redirected s \<Rightarrow> Some (Redirect (st\<lparr>f_hart := s\<rparr>))
           | Died s \<Rightarrow> Some (Off (st\<lparr>f_hart := s\<rparr>)))"

definition mcall_clear_ipi :: "'w fw \<Rightarrow> u64 \<times> 'w fw" where
  "mcall_clear_ipi st =
     (let mip = read_csr Mip (f_hart st)
      in (mip AND MIP_SSIP, st\<lparr>f_hart := write_csr Mip (mip AND NOT MIP_SSIP) (f_hart st)\<rparr>))"

definition mcall_set_timer :: "u64 \<Rightarrow> 'w fw \<Rightarrow> u64 \<times> 'w fw" where
  "mcall_set_timer when st =
     (let st = st\<lparr>f_timecmp := (f_timecmp st)(this_hart st := when)\<rparr>;
          s = f_hart st;
          s = write_csr Mip (read_csr Mip s AND NOT MIP_STIP) s;
          s = write_csr Mie (read_csr Mie s OR MIP_MTIP) s
      in (0, st\<lparr>f_hart := s\<rparr>))"

text \<open>The power is off once the finisher or the host was told, or all harts were asked to halt.\<close>

definition poweroff :: "'w board \<Rightarrow> u16 \<Rightarrow> 'w fw \<Rightarrow> 'w call option" where
  "poweroff bd code st = do {
     st \<leftarrow> printm bd (''Power off'' @ [CHR 0x0D, CHR 0x0A]) [] st;
     let st = st\<lparr>f_world := finisher_exit (b_bus bd) (f_finisher st) code (f_world st)\<rparr>;
     (if f_htif st \<noteq> 0 then Some (Off (st\<lparr>f_htif_regs := (f_htif_regs st)\<lparr>fromhost := 0, tohost := 1\<rparr>\<rparr>))
      else do { r \<leftarrow> send_ipi_many bd 0 IPI_HALT st; Some (case r of Return _ st \<Rightarrow> Off st | r \<Rightarrow> r) })
   }"

definition mcall_shutdown :: "'w board \<Rightarrow> 'w fw \<Rightarrow> 'w call option" where
  "mcall_shutdown bd = poweroff bd 0"

subsection \<open>Crypto engines\<close>

text \<open>Arrays of words and strings in memory.\<close>

definition get_words :: "bmem \<Rightarrow> u64 \<Rightarrow> nat \<Rightarrow> u32" where
  "get_words m p i = le_word (map (\<lambda>k. m (unat p + 4 * i + k)) [0..<4])"

definition put_word :: "u64 \<Rightarrow> nat \<Rightarrow> u32 \<Rightarrow> bmem \<Rightarrow> bmem" where
  "put_word p i v m = (\<lambda>a. if unat p + 4 * i \<le> a \<and> a < unat p + 4 * i + 4 then le_bytes 4 v ! (a - (unat p + 4 * i)) else m a)"

definition put_words :: "u64 \<Rightarrow> nat \<Rightarrow> (nat \<Rightarrow> u32) \<Rightarrow> bmem \<Rightarrow> bmem" where
  "put_words p n f m = fold (\<lambda>i. put_word p i (f i)) [0..<n] m"

definition get_string :: "bmem \<Rightarrow> u64 \<Rightarrow> u8 list option" where
  "get_string m p = map_option (\<lambda>n. map m [unat p..<unat p + n]) (strlen m (unat p))"

definition mcall_aes_start_encrypt :: "'w board \<Rightarrow> u64 \<Rightarrow> u64 \<Rightarrow> u64 \<Rightarrow> 'w fw \<Rightarrow> (u64 \<times> 'w fw) option" where
  "mcall_aes_start_encrypt bd arg0 arg1 arg2 st =
     map_option (\<lambda>w. (0, st\<lparr>f_world := w\<rparr>))
       (aes_start_encrypt (b_bus bd) (f_aes st) (get_words (f_ram st) arg0) (get_words (f_ram st) arg1) (ucast arg2) (f_world st))"

definition mcall_aes_wait :: "'w board \<Rightarrow> 'w fw \<Rightarrow> (u64 \<times> 'w fw) option" where
  "mcall_aes_wait bd st = map_option (\<lambda>w. (0, st\<lparr>f_world := w\<rparr>)) (aes_wait (b_bus bd) (f_aes st) (f_world st))"

definition mcall_aes_data_out :: "'w board \<Rightarrow> u64 \<Rightarrow> 'w fw \<Rightarrow> (u64 \<times> 'w fw) option" where
  "mcall_aes_data_out bd arg0 st =
     (let (ct, w) = aes_data_out (b_bus bd) (f_aes st) (get_words (f_ram st) arg0) (f_world st)
      in Some (0, st\<lparr>f_world := w, f_ram := put_words arg0 4 ct (f_ram st)\<rparr>))"

definition mcall_dma_copy :: "'w board \<Rightarrow> u64 \<Rightarrow> u64 \<Rightarrow> u64 \<Rightarrow> u64 \<Rightarrow> 'w fw \<Rightarrow> (u64 \<times> 'w fw) option" where
  "mcall_dma_copy bd arg0 arg1 arg2 arg3 st =
     map_option (\<lambda>w. (0, st\<lparr>f_world := w, f_ram := b_dma bd w (f_ram st)\<rparr>))
       (dma_transfer (b_bus bd) (f_dma st) (ucast arg0) (ucast arg1) (ucast arg2) (ucast arg3) (f_world st))"

definition mcall_sha256_hash :: "'w board \<Rightarrow> u64 \<Rightarrow> u64 \<Rightarrow> 'w fw \<Rightarrow> (u64 \<times> 'w fw) option" where
  "mcall_sha256_hash bd arg0 arg1 st = do {
     pString \<leftarrow> get_string (f_ram st) arg0;
     (hash, w) \<leftarrow> sha256_hashString (b_bus bd) (f_sha256 st) pString (get_words (f_ram st) arg1) (f_world st);
     Some (0, st\<lparr>f_world := w, f_ram := put_words arg1 8 hash (f_ram st)\<rparr>)
   }"

definition mcall_hmac_hash :: "'w board \<Rightarrow> u64 \<Rightarrow> u64 \<Rightarrow> u64 \<Rightarrow> 'w fw \<Rightarrow> (u64 \<times> 'w fw) option" where
  "mcall_hmac_hash bd arg0 arg1 arg2 st = do {
     pString \<leftarrow> get_string (f_ram st) arg0;
     (hash, w) \<leftarrow> hmac_hashString (b_bus bd) (f_hmac st) pString (get_words (f_ram st) arg1) (get_words (f_ram st) arg2) (f_world st);
     Some (0, st\<lparr>f_world := w, f_ram := put_words arg1 8 hash (f_ram st)\<rparr>)
   }"

text \<open>
  \<open>t2\<close> is a single word: a comparison of more words reads what lies behind it on the stack. The unsigned length becomes the
  \<open>int\<close> parameter of \<open>verifyMulti\<close>.
\<close>

definition mcall_cmp :: "'w board \<Rightarrow> u64 \<Rightarrow> u64 \<Rightarrow> u64 \<Rightarrow> u64 \<Rightarrow> u64 \<Rightarrow> 'w fw \<Rightarrow> u64 \<times> 'w fw" where
  "mcall_cmp bd arg0 arg1 arg2 arg3 arg4 st =
     (let t2 = (ucast arg1 :: u32); length' = (ucast arg3 :: u32);
          equal = verifyMulti (get_words (f_ram st) arg0) (\<lambda>i. if i = 0 then t2 else b_words bd i) (sint length')
      in (0, st\<lparr>f_ram := put_word arg4 0 (of_nat equal) (f_ram st)\<rparr>))"

subsection \<open>Dispatch\<close>

definition dispatch :: "'w board \<Rightarrow> 'w fw \<Rightarrow> 'w call option" where
  "dispatch bd st =
     (let regs = gpr (f_hart st);
          n = regs 17; arg0 = regs 10; arg1 = regs 11; arg2 = regs 12; arg3 = regs 13; arg4 = regs 14;
          ret = map_option (\<lambda>(retval, st). Return retval st)
      in if n = 1 then ret (mcall_console_putchar bd (ucast arg0) st)
         else if n = 2 then ret (mcall_console_getchar bd st)
         else if n = 4 then send_ipi_many bd arg0 IPI_SOFT st
         else if n = 6 \<or> n = 7 then send_ipi_many bd arg0 IPI_SFENCE_VMA st
         else if n = 5 then send_ipi_many bd arg0 IPI_FENCE_I st
         else if n = 3 then ret (Some (mcall_clear_ipi st))
         else if n = 8 then mcall_shutdown bd st
         else if n = 0 then ret (Some (mcall_set_timer arg0 st))
         else if n = 20 then ret (mcall_aes_start_encrypt bd arg0 arg1 arg2 st)
         else if n = 21 then ret (mcall_aes_wait bd st)
         else if n = 22 then ret (mcall_aes_data_out bd arg0 st)
         else if n = 23 then ret (mcall_sha256_hash bd arg0 arg1 st)
         else if n = 25 then ret (mcall_dma_copy bd arg0 arg1 arg2 arg3 st)
         else if n = 24 then ret (mcall_hmac_hash bd arg0 arg1 arg2 st)
         else if n = 26 then ret (Some (mcall_cmp bd arg0 arg1 arg2 arg3 arg4 st))
         else ret (Some (- 38, st)))"

definition mcall_trap :: "'w board \<Rightarrow> u64 \<Rightarrow> 'w fw \<Rightarrow> 'w call option" where
  "mcall_trap bd mepc st = do {
     r \<leftarrow> dispatch bd (st\<lparr>f_hart := write_csr Mepc (mepc + 4) (f_hart st)\<rparr>);
     Some (case r of Return retval st \<Rightarrow> Return retval (st\<lparr>f_hart := (f_hart st)\<lparr>gpr := (gpr (f_hart st))(10 := retval)\<rparr>\<rparr>) | r \<Rightarrow> r)
   }"

section \<open>Interrupts reach the harts that were asked for\<close>

lemma bit_drop_and: "drop_bit i m AND 1 \<noteq> 0 \<longleftrightarrow> bit m i" for m :: u64
  by (simp add: and_one_eq bit_iff_odd_drop_bit mod_2_eq_odd)

definition targeted :: "nat \<Rightarrow> u64 \<Rightarrow> 'w fw \<Rightarrow> nat \<Rightarrow> bool" where
  "targeted i m st j \<longleftrightarrow> i \<le> j \<and> bit m (j - i) \<and> \<not> bit (f_disabled_hart_mask st) j"

lemma send_all_eq:
  "send_all i m event st = st\<lparr>f_mipi_pending := (\<lambda>j. if targeted i m st j then f_mipi_pending st j OR event else f_mipi_pending st j),
     f_ipi := (\<lambda>j. if targeted i m st j then 1 else f_ipi st j)\<rparr>"
proof (induction i m event st rule: send_all.induct)
  case (1 i m event st)
  show ?case
  proof (cases "m = 0")
    case True
    then show ?thesis by (subst send_all.simps) (simp add: targeted_def)
  next
    case False
    let ?s = "if m AND 1 \<noteq> 0 then send_ipi i event st else st"
    have d: "f_disabled_hart_mask ?s = f_disabled_hart_mask st" by (simp add: send_ipi_def)
    have t: "targeted (i + 1) (drop_bit 1 m) ?s j \<longleftrightarrow> j \<noteq> i \<and> targeted i m st j" for j
      unfolding targeted_def d by (cases "j = i") (auto simp: bit_drop_bit_eq Suc_diff_Suc)
    have i: "targeted i m st i \<longleftrightarrow> m AND 1 \<noteq> 0 \<and> drop_bit i (f_disabled_hart_mask st) AND 1 = 0"
      using bit_drop_and [of 0 m] bit_drop_and [of i "f_disabled_hart_mask st"] by (auto simp: targeted_def)
    have "send_all i m event st = send_all (i + 1) (drop_bit 1 m) event ?s" using False by (subst send_all.simps) simp
    also note 1 [OF False]
    finally show ?thesis unfolding t using i by (cases "targeted i m st i") (auto simp: send_ipi_def fun_eq_iff)
  qed
qed


lemma load_uint64_mapped: "mem_bytes 8 a (mem s) = Some bs \<Longrightarrow> load_uint64_t a mepc s = Done (le_word bs) s"
  by (simp add: load_uint64_t_def uload_def)

text \<open>
  C37. The call that sends software interrupts to other harts, with a mask in mapped memory, posts the event to exactly the existing, enabled harts of the
  caller's mask, raises their interrupts, returns 0 behind the call instruction, and changes nothing else.
\<close>

theorem ipi_call_delivers:
  assumes "gpr (f_hart st) 17 = 4" "gpr (f_hart st) 10 \<noteq> 0" "mem_bytes 8 (gpr (f_hart st) 10) (mem (f_hart st)) = Some bs"
  shows "mcall_trap bd mepc st = Some (Return 0 (st\<lparr>
    f_hart := (write_csr Mepc (mepc + 4) (f_hart st))\<lparr>gpr := (gpr (f_hart st))(10 := 0)\<rparr>,
    f_mipi_pending := (\<lambda>j. if bit (f_hart_mask st AND le_word bs) j \<and> \<not> bit (f_disabled_hart_mask st) j
      then f_mipi_pending st j OR IPI_SOFT else f_mipi_pending st j),
    f_ipi := (\<lambda>j. if bit (f_hart_mask st AND le_word bs) j \<and> \<not> bit (f_disabled_hart_mask st) j then 1 else f_ipi st j)\<rparr>))"
proof -
  let ?s = "st\<lparr>f_hart := write_csr Mepc (mepc + 4) (f_hart st)\<rparr>"
  have l: "load_uint64_t (gpr (f_hart st) 10) e (f_hart ?s) = Done (le_word bs) (f_hart ?s)" for e
    using assms(3) by (intro load_uint64_mapped) simp
  have "dispatch bd ?s = send_ipi_many bd (gpr (f_hart st) 10) IPI_SOFT ?s"
    using assms(1) by (simp add: dispatch_def Let_def)
  also have "\<dots> = Some (Return 0 (send_all 0 (f_hart_mask st AND le_word bs) IPI_SOFT ?s))"
    using assms(2) l by (simp add: send_ipi_many_def send_masked_def Let_def)
  finally show ?thesis
    unfolding send_all_eq targeted_def by (simp add: mcall_trap_def cong: if_cong)
qed

text \<open>
  C38. If the mask lies in memory that is not mapped, the call is redirected as a page fault of the instruction
  behind the call: the program counter has already been advanced. When the supervisor has mapped the page and
  resumes there, the call is never repeated and no interrupt is sent.
\<close>

theorem ipi_mask_fault_skips_call:
  assumes "gpr (f_hart st) 17 \<in> {4, 5, 6, 7}" "gpr (f_hart st) 10 \<noteq> 0" "mem_bytes 8 (gpr (f_hart st) 10) (mem (f_hart st)) = None"
  shows "\<exists>s. mcall_trap bd mepc st = Some (Redirect (st\<lparr>f_hart := s\<rparr>)) \<and> gpr s = gpr (f_hart st) \<and>
    csrs s Sepc = mepc + 4 \<and> csrs s Scause = CAUSE_LOAD_PAGE_FAULT \<and> csrs s Sbadaddr = gpr (f_hart st) 10 \<and>
    csrs s Mepc = csrs (f_hart st) Stvec"
proof -
  let ?s = "st\<lparr>f_hart := write_csr Mepc (mepc + 4) (f_hart st)\<rparr>"
  obtain s where s: "load_uint64_t (gpr (f_hart st) 10) (mepc + 4) (f_hart ?s) = Redirected s" "gpr s = gpr (f_hart st)"
    "csrs s Sepc = mepc + 4" "csrs s Scause = CAUSE_LOAD_PAGE_FAULT" "csrs s Sbadaddr = gpr (f_hart st) 10" "csrs s Mepc = csrs (f_hart st) Stvec"
    using assms(3) by (simp add: load_uint64_t_def uload_def nested_fault_data redirect_trap_csrs)
  have "\<exists>event. dispatch bd ?s = send_ipi_many bd (gpr (f_hart st) 10) event ?s"
    using assms(1) by (auto simp: dispatch_def Let_def)
  then obtain event where "dispatch bd ?s = send_ipi_many bd (gpr (f_hart st) 10) event ?s" ..
  also have "\<dots> = Some (Redirect (st\<lparr>f_hart := s\<rparr>))" using assms(2) s(1) by (simp add: send_ipi_many_def)
  finally show ?thesis using s by (intro exI [of _ s]) (simp add: mcall_trap_def)
qed


text \<open>A firmware with three harts, the last one disabled, and a caller whose mask asks for the last two.\<close>

definition calm :: "unit fw" where
  "calm = \<lparr>f_hart = \<lparr>gpr = (\<lambda>_. 0)(17 := 4, 10 := 0x1000), fpr = \<lambda>_. 0, csrs = (\<lambda>_. 0)(Stvec := 0x80000000), mtime = 0,
       mem = \<lambda>a. if 0x1000 \<le> a \<and> a < 0x1008 then Some (if a = 0x1000 then 6 else 0) else None\<rparr>,
     f_uart = 0, f_uart16550 = \<lparr>u_ptr = 0, u_reg_shift = 0, u_clock = 0\<rparr>, f_htif = 0,
     f_htif_regs = \<lparr>tohost = 0, fromhost = 0, console_buf = 0\<rparr>, f_aes = 0, f_sha256 = 0, f_hmac = 0, f_dma = 0, f_finisher = 0,
     f_hart_mask = 7, f_disabled_hart_mask = 4, f_ipi = \<lambda>_. 0, f_mipi_pending = \<lambda>_. 0, f_timecmp = \<lambda>_. 0, f_ram = \<lambda>_. 0, f_world = ()\<rparr>"

lemma calm_regs: "gpr (f_hart calm) 17 = 4" "gpr (f_hart calm) 10 = 0x1000"
  by (simp_all add: calm_def)

lemma calm_mask: "mem_bytes 8 0x1000 (mem (f_hart calm)) = Some [6, 0, 0, 0, 0, 0, 0, 0]"
  by (simp add: mem_bytes_def calm_def upt_rec)

theorem ipi_call_delivers_witness:
  "\<forall>bd :: unit board. \<exists>st'. mcall_trap bd 0x2000 calm = Some (Return 0 st') \<and> f_mipi_pending st' 1 = IPI_SOFT \<and> f_ipi st' 1 = 1 \<and>
     f_mipi_pending st' 0 = 0 \<and> f_mipi_pending st' 2 = 0 \<and> csrs (f_hart st') Mepc = 0x2004"
proof
  fix bd :: "unit board"
  have w: "le_word [6, 0, 0, 0, 0, 0, 0, 0 :: u8] = (6 :: u64)" by simp
  have m: "f_hart_mask calm AND 6 = 6" "f_disabled_hart_mask calm = 4" "f_mipi_pending calm = (\<lambda>_. 0)" by (simp_all add: calm_def)
  from ipi_call_delivers [OF calm_regs(1), of "[6, 0, 0, 0, 0, 0, 0, 0]" bd "0x2000"] calm_regs(2) calm_mask
  show "\<exists>st'. mcall_trap bd 0x2000 calm = Some (Return 0 st') \<and> f_mipi_pending st' 1 = IPI_SOFT \<and> f_ipi st' 1 = 1 \<and>
     f_mipi_pending st' 0 = 0 \<and> f_mipi_pending st' 2 = 0 \<and> csrs (f_hart st') Mepc = 0x2004"
    by (simp add: w m bit_numeral_rec)
qed

theorem ipi_mask_fault_skips_call_witness:
  "\<forall>bd :: unit board. \<exists>s. mcall_trap bd 0x2000 (calm\<lparr>f_hart := (f_hart calm)\<lparr>mem := \<lambda>_. None\<rparr>\<rparr>) =
     Some (Redirect (calm\<lparr>f_hart := s\<rparr>)) \<and> csrs s Sepc = 0x2004 \<and> csrs s Sbadaddr = 0x1000"
proof
  fix bd :: "unit board"
  have "mem_bytes 8 0x1000 (\<lambda>_. None) = None" by (simp add: mem_bytes_def upt_rec)
  with ipi_mask_fault_skips_call [of "calm\<lparr>f_hart := (f_hart calm)\<lparr>mem := \<lambda>_. None\<rparr>\<rparr>" bd "0x2000"] calm_regs
  show "\<exists>s. mcall_trap bd 0x2000 (calm\<lparr>f_hart := (f_hart calm)\<lparr>mem := \<lambda>_. None\<rparr>\<rparr>) =
     Some (Redirect (calm\<lparr>f_hart := s\<rparr>)) \<and> csrs s Sepc = 0x2004 \<and> csrs s Sbadaddr = 0x1000" by auto
qed

end
