(* ===== verification/Crypto_calls.thy ===== *)
theory Crypto_calls
  imports Mcall
begin

text \<open>
  The system calls of the proxy kernel on the crypto engines (\<open>pk/pk/syscall.c\<close>). Each copies its arguments
  to the kernel's stack, executes an environment call, which machine mode serves (\<open>Mcall\<close>), and copies
  the results back. The addresses of the buffers on the kernel's stack are arguments.
\<close>

unbundle bit_operations_syntax

section \<open>Model\<close>

text \<open>
  The kernel runs with its own memory mapped to itself, and the pages of the user to the frames behind it,
  so a pointer denotes the physical address that \<open>va2pa\<close> computes. \<open>fp\<close> is \<open>first_free_paddr\<close>.
\<close>

definition pa :: "u64 \<Rightarrow> u64 \<Rightarrow> u64" where
  "pa fp p = (if p \<ge> 0x80000000 then p else p + fp)"

definition user_word :: "u64 \<Rightarrow> bmem \<Rightarrow> u64 \<Rightarrow> nat \<Rightarrow> u32" where
  "user_word fp m p i = get_words m (pa fp (p + 4 * of_nat i)) 0"

definition set_user_word :: "u64 \<Rightarrow> u64 \<Rightarrow> nat \<Rightarrow> u32 \<Rightarrow> bmem \<Rightarrow> bmem" where
  "set_user_word fp p i v m = put_word (pa fp (p + 4 * of_nat i)) 0 v m"

text \<open>\<open>for (i = 0; i < n; i++) p[i] = buf[i];\<close> with a buffer in the kernel.\<close>

definition copy_out :: "u64 \<Rightarrow> u64 \<Rightarrow> u64 \<Rightarrow> nat \<Rightarrow> bmem \<Rightarrow> bmem" where
  "copy_out fp p buf n m = fold (\<lambda>i m. set_user_word fp p i (get_words m buf i) m) [0..<n] m"

definition copy_in :: "u64 \<Rightarrow> u64 \<Rightarrow> u64 \<Rightarrow> nat \<Rightarrow> bmem \<Rightarrow> bmem" where
  "copy_in fp buf p n m = fold (\<lambda>i m. put_word buf i (user_word fp m p i) m) [0..<n] m"

text \<open>Registers that the call does not name keep their values.\<close>

definition ecall :: "'w board \<Rightarrow> u64 \<Rightarrow> (nat \<times> u64) list \<Rightarrow> 'w fw \<Rightarrow> 'w fw option" where
  "ecall bd mepc regs st = do {
     r \<leftarrow> mcall_trap bd mepc (st\<lparr>f_hart := (f_hart st)\<lparr>gpr := fold (\<lambda>(k, v) g. g(k := v)) regs (gpr (f_hart st))\<rparr>\<rparr>);
     (case r of Return _ st \<Rightarrow> Some st | _ \<Rightarrow> None)
   }"

definition upd_ram :: "(bmem \<Rightarrow> bmem) \<Rightarrow> 'w fw \<Rightarrow> 'w fw" where
  "upd_ram f st = st\<lparr>f_ram := f (f_ram st)\<rparr>"

definition sys_aes_start_encry :: "'w board \<Rightarrow> u64 \<Rightarrow> u64 \<Rightarrow> u64 \<Rightarrow> u64 \<Rightarrow> u64 \<Rightarrow> u64 \<Rightarrow> u32 \<Rightarrow> 'w fw \<Rightarrow> (int \<times> 'w fw) option" where
  "sys_aes_start_encry bd fp mepc spt sst pt st' key_sel st = do {
     let st = upd_ram (copy_in fp sst st' 4) (upd_ram (copy_in fp spt pt 4) st);
     st \<leftarrow> ecall bd mepc [(10, spt), (11, sst), (12, ucast key_sel), (17, 20)] st;
     Some (0, st)
   }"

text \<open>The same body, with the same call number.\<close>

definition sys_aes_start_decry :: "'w board \<Rightarrow> u64 \<Rightarrow> u64 \<Rightarrow> u64 \<Rightarrow> u64 \<Rightarrow> u64 \<Rightarrow> u64 \<Rightarrow> u32 \<Rightarrow> 'w fw \<Rightarrow> (int \<times> 'w fw) option" where
  "sys_aes_start_decry bd fp mepc spt sst ct st' key_sel st = do {
     let st = upd_ram (copy_in fp sst st' 4) (upd_ram (copy_in fp spt ct 4) st);
     st \<leftarrow> ecall bd mepc [(10, spt), (11, sst), (12, ucast key_sel), (17, 20)] st;
     Some (0, st)
   }"

definition sys_aes_wait :: "'w board \<Rightarrow> u64 \<Rightarrow> 'w fw \<Rightarrow> (int \<times> 'w fw) option" where
  "sys_aes_wait bd mepc st = do { st \<leftarrow> ecall bd mepc [(17, 21)] st; Some (0, st) }"

definition sys_aes_data_out :: "'w board \<Rightarrow> u64 \<Rightarrow> u64 \<Rightarrow> u64 \<Rightarrow> u64 \<Rightarrow> 'w fw \<Rightarrow> (int \<times> 'w fw) option" where
  "sys_aes_data_out bd fp mepc sct t st = do {
     st \<leftarrow> ecall bd mepc [(10, sct), (17, 22)] (upd_ram (put_words sct 4 (\<lambda>_. 0)) st);
     Some (0, upd_ram (copy_out fp t sct 4) st)
   }"

text \<open>A string of 500 bytes or more overruns the buffer on the stack, hence \<open>None\<close>.\<close>

definition copy_string :: "u64 \<Rightarrow> u64 \<Rightarrow> u64 \<Rightarrow> bmem \<Rightarrow> bmem option" where
  "copy_string fp buf p m = do {
     n \<leftarrow> strlen m (unat (pa fp p));
     (if n + 1 > 500 then None else Some (memcpy (unat buf) (unat (pa fp p)) (n + 1) m))
   }"

definition sys_sha256_hash :: "'w board \<Rightarrow> u64 \<Rightarrow> u64 \<Rightarrow> u64 \<Rightarrow> u64 \<Rightarrow> u64 \<Rightarrow> u64 \<Rightarrow> 'w fw \<Rightarrow> (int \<times> 'w fw) option" where
  "sys_sha256_hash bd fp mepc spString shash pString hash st = do {
     m \<leftarrow> copy_string fp spString pString (f_ram st);
     st \<leftarrow> ecall bd mepc [(10, spString), (11, shash), (17, 23)] (st\<lparr>f_ram := m\<rparr>);
     Some (0, upd_ram (copy_out fp hash shash 8) st)
   }"

definition sys_hmac_hash :: "'w board \<Rightarrow> u64 \<Rightarrow> u64 \<Rightarrow> u64 \<Rightarrow> u64 \<Rightarrow> u64 \<Rightarrow> u64 \<Rightarrow> u64 \<Rightarrow> u64 \<Rightarrow> 'w fw \<Rightarrow> (int \<times> 'w fw) option" where
  "sys_hmac_hash bd fp mepc spString shash skey pString hash key st = do {
     m \<leftarrow> copy_string fp spString pString (copy_in fp skey key 8 (f_ram st));
     st \<leftarrow> ecall bd mepc [(10, spString), (11, shash), (12, skey), (17, 24)] (st\<lparr>f_ram := m\<rparr>);
     Some (0, upd_ram (copy_out fp hash shash 8) st)
   }"

definition sys_dma_copy :: "'w board \<Rightarrow> u64 \<Rightarrow> u32 \<Rightarrow> u32 \<Rightarrow> u32 \<Rightarrow> u32 \<Rightarrow> 'w fw \<Rightarrow> (int \<times> 'w fw) option" where
  "sys_dma_copy bd mepc sAddr dAddr length' wait st = do {
     st \<leftarrow> ecall bd mepc [(10, ucast sAddr), (11, ucast dAddr), (12, ucast length'), (13, ucast wait), (17, 25)] st;
     Some (0, st)
   }"

definition sys_dma_copy_to_perif :: "'w board \<Rightarrow> u64 \<Rightarrow> u64 \<Rightarrow> u64 \<Rightarrow> u64 \<Rightarrow> u32 \<Rightarrow> u32 \<Rightarrow> u32 \<Rightarrow> 'w fw \<Rightarrow> (int \<times> 'w fw) option" where
  "sys_dma_copy_to_perif bd fp mepc ssAddr sAddr dAddr length' wait st =
     (if length' > 32 then Some (0, st)
      else do {
        st \<leftarrow> ecall bd mepc [(10, ssAddr), (11, ucast dAddr), (12, ucast length'), (13, ucast wait), (17, 25)]
          (upd_ram (copy_in fp ssAddr sAddr (2 * unat length')) st);
        Some (0, st)
      })"

definition sys_dma_copy_from_perif :: "'w board \<Rightarrow> u64 \<Rightarrow> u64 \<Rightarrow> u64 \<Rightarrow> u32 \<Rightarrow> u64 \<Rightarrow> u32 \<Rightarrow> u32 \<Rightarrow> 'w fw \<Rightarrow> (int \<times> 'w fw) option" where
  "sys_dma_copy_from_perif bd fp mepc sdAddr sAddr dAddr length' wait st =
     (if length' > 32 then Some (0, st)
      else do {
        st \<leftarrow> ecall bd mepc [(10, ucast sAddr), (11, sdAddr), (12, ucast length'), (13, ucast wait), (17, 25)]
          (upd_ram (put_words sdAddr 64 (\<lambda>_. 0)) st);
        Some (0, upd_ram (copy_out fp dAddr sdAddr (2 * unat length')) st)
      })"

definition sys_cmp :: "'w board \<Rightarrow> u64 \<Rightarrow> u64 \<Rightarrow> u64 \<Rightarrow> u64 \<Rightarrow> u64 \<Rightarrow> u32 \<Rightarrow> u32 \<Rightarrow> u64 \<Rightarrow> 'w fw \<Rightarrow> (int \<times> 'w fw) option" where
  "sys_cmp bd fp mepc spt sequality expectedData receivedData block_size equality st =
     (if block_size > 32 then Some (0, st)
      else do {
        st \<leftarrow> ecall bd mepc [(10, spt), (11, ucast receivedData), (12, ucast block_size), (13, sequality), (17, 26)]
          (upd_ram (copy_in fp spt expectedData (unat block_size)) st);
        Some (0, upd_ram (\<lambda>m. set_user_word fp equality 0 (get_words m sequality 0) m) st)
      })"

section \<open>Words in memory\<close>

lemma put_word_other: "a < unat p + 4 * i \<or> unat p + 4 * i + 4 \<le> a \<Longrightarrow> put_word p i v m a = m a"
  by (auto simp: put_word_def)

lemma get_put_word: "get_words (put_word p i v m) p i = v"
proof -
  have "map (\<lambda>k. put_word p i v m (unat p + 4 * i + k)) [0..<4] = le_bytes 4 v"
    by (rule nth_equalityI) (simp_all add: put_word_def)
  then show ?thesis unfolding get_words_def by (simp add: le_word_le_bytes take_bit_word_eq_self)
qed

lemma get_put_word_other:
  assumes "unat q + 4 * j + 4 \<le> unat p + 4 * i \<or> unat p + 4 * i + 4 \<le> unat q + 4 * j"
  shows "get_words (put_word p i v m) q j = get_words m q j"
  unfolding get_words_def using assms by (intro arg_cong [where f = le_word] map_cong) (auto simp: put_word_def)

lemma put_words_other: "a < unat p \<or> unat p + 4 * n \<le> a \<Longrightarrow> put_words p n f m a = m a"
  unfolding put_words_def by (induction n) (auto simp: put_word_other)

lemma get_put_words: "i < n \<Longrightarrow> get_words (put_words p n f m) p i = f i"
  unfolding put_words_def
proof (induction n)
  case (Suc n)
  then show ?case by (cases "i = n") (simp_all add: get_put_word get_put_word_other)
qed simp

text \<open>A range of words of the user behind the kernel.\<close>

definition user_range :: "u64 \<Rightarrow> u64 \<Rightarrow> nat \<Rightarrow> bool" where
  "user_range fp p n \<longleftrightarrow> unat p + n \<le> 2147483648 \<and> unat fp \<le> 17179869184"

lemma unat_pa:
  assumes "user_range fp p n" "i < n"
  shows "unat (pa fp (p + of_nat i)) = unat fp + unat p + i"
proof -
  have i: "unat (p + of_nat i) = unat p + i" using assms by (simp add: user_range_def unat_word_ariths unat_of_nat)
  then have "\<not> 0x80000000 \<le> p + of_nat i" using assms by (simp add: user_range_def word_le_nat_alt)
  then show ?thesis unfolding pa_def using i assms by (simp add: user_range_def unat_word_ariths)
qed

lemma copy_out_spec:
  assumes r: "user_range fp p (4 * n)" and k: "unat buf + 4 * n \<le> unat fp"
  shows "(\<forall>i<n. user_word fp (copy_out fp p buf n m) p i = get_words m buf i) \<and> (\<forall>a<unat fp. copy_out fp p buf n m a = m a)"
  using assms
proof (induction n)
  case 0
  then show ?case by (simp add: copy_out_def)
next
  case (Suc n)
  let ?m = "copy_out fp p buf n m"
  have r: "user_range fp p (4 * n)" using Suc.prems(1) by (simp add: user_range_def)
  note IH = Suc.IH [OF r] Suc.prems(2)
  have e: "copy_out fp p buf (Suc n) m = put_word (pa fp (p + of_nat (4 * n))) 0 (get_words ?m buf n) ?m"
    by (simp add: copy_out_def set_user_word_def)
  have u: "unat (pa fp (p + of_nat (4 * i))) = unat fp + unat p + 4 * i" if "i \<le> n" for i
    using unat_pa [OF Suc.prems(1), of "4 * i"] that by simp
  have w: "user_word fp m' p i = get_words m' (pa fp (p + of_nat (4 * i))) 0" for m' i by (simp add: user_word_def)
  have low: "?m a = m a" if "a < unat fp" for a using IH that by simp
  have b: "get_words ?m buf n = get_words m buf n" unfolding get_words_def
    by (intro arg_cong [where f = le_word] map_cong) (use low Suc.prems(2) in auto)
  show ?case
  proof (intro conjI allI impI)
    fix i assume "i < Suc n"
    then show "user_word fp (copy_out fp p buf (Suc n) m) p i = get_words m buf i"
      using IH u [of i] u [of n] b unfolding e w by (cases "i = n") (simp_all add: get_put_word get_put_word_other)
  next
    fix a assume "a < unat fp"
    then show "copy_out fp p buf (Suc n) m a = m a" unfolding e using u [of n] low by (simp add: put_word_other)
  qed
qed


section \<open>Hashing end to end\<close>

lemma copy_string_copies:
  assumes s: "cstr m (unat (pa fp p)) s" and r: "user_range fp p (length s + 1)" and n: "length s < 500" and k: "unat buf + 500 \<le> unat fp"
  shows "\<exists>m'. copy_string fp buf p m = Some m' \<and> cstr m' (unat buf) s"
proof -
  have u: "unat (pa fp p) = unat fp + unat p" using unat_pa [OF r, of 0] by simp
  have d: "disjoint_ranges (unat buf) (unat (pa fp p)) (length s + 1)" using n k u by (simp add: disjoint_ranges_def)
  have l: "strlen m (unat (pa fp p)) = Some (length s)" using strlen_loop_cstr [OF s] by (simp add: strlen_def)
  have "cstr (copied (unat buf) (unat (pa fp p)) (length s + 1) m) (unat buf) s" using s by (auto simp: cstr_def copied_def)
  with l n memcpy_copied [OF d, of m] show ?thesis by (simp add: copy_string_def)
qed

lemma get_string_cstr:
  assumes "cstr m (unat p) s"
  shows "get_string m p = Some s"
proof -
  have "map m [unat p..<unat p + length s] = s" using assms by (intro nth_equalityI) (auto simp: cstr_def)
  with strlen_loop_cstr [OF assms] show ?thesis by (simp add: get_string_def strlen_def)
qed

lemma ecall_sha:
  assumes "mcall_sha256_hash bd a b (st\<lparr>f_hart := h\<rparr>) = Some (v, st')"
    "h = (write_csr Mepc (mepc + 4) (f_hart st))\<lparr>gpr := (gpr (f_hart st))(10 := a, 11 := b, 17 := 23)\<rparr>"
  shows "\<exists>h'. ecall bd mepc [(10, a), (11, b), (17, 23)] st = Some (st'\<lparr>f_hart := h'\<rparr>)"
proof -
  let ?s = "st\<lparr>f_hart := (f_hart st)\<lparr>gpr := (gpr (f_hart st))(10 := a, 11 := b, 17 := 23)\<rparr>\<rparr>"
  have h: "write_csr Mepc (mepc + 4) ((f_hart st)\<lparr>gpr := (gpr (f_hart st))(10 := a, 11 := b, 17 := 23)\<rparr>) = h"
    unfolding assms(2) by (simp add: write_csr_def)
  have g: "gpr h 17 = 23" "gpr h 10 = a" "gpr h 11 = b" unfolding assms(2) by simp_all
  have "dispatch bd (st\<lparr>f_hart := h\<rparr>) = Some (Return v st')" using g assms(1) by (simp add: dispatch_def Let_def)
  then have "mcall_trap bd mepc ?s = Some (Return v (st'\<lparr>f_hart := (f_hart st')\<lparr>gpr := (gpr (f_hart st'))(10 := v)\<rparr>\<rparr>))"
    by (simp add: mcall_trap_def h)
  then show ?thesis by (auto simp: ecall_def)
qed

text \<open>
  C15. The system call for SHA-256 delivers the digest: for a string of the user of fewer than 500 bytes that leaves
  fewer than 56 in its last block, the call copies the string, machine mode feeds the engine exactly the
  blocks of its standard padding, and the eight words at the user's pointer become the engine's digest.
\<close>

theorem sys_sha256_hash_digest:
  assumes "b_bus bd = sha_bus ini nxt digest lat" "f_sha256 st = sha_base" "sha_ok (f_world st)"
    and "cstr (f_ram st) (unat (pa fp pString)) s" "user_range fp pString (length s + 1)" "length s < 500" "length s mod 64 < 56"
    and "unat spString + 500 \<le> unat fp" "unat shash + 32 \<le> unat fp" "user_range fp hash 32"
  shows "\<exists>st'. sys_sha256_hash bd fp mepc spString shash pString hash st = Some (0, st') \<and>
    (\<forall>i<8. user_word fp (f_ram st') hash i = digest (engine_hash ini nxt (blocks (s @ sha_pad (length s)))) (7 - i)) \<and> sha_ok (f_world st')"
proof -
  obtain m where m: "copy_string fp spString pString (f_ram st) = Some m" "cstr m (unat spString) s"
    using copy_string_copies [OF assms(4,5,6,8)] by blast
  let ?g = "digest (engine_hash ini nxt (blocks (s @ sha_pad (length s))))"
  define h where "h = (write_csr Mepc (mepc + 4) (f_hart st))\<lparr>gpr := (gpr (f_hart st))(10 := spString, 11 := shash, 17 := 23)\<rparr>"
  have "8 * length s < 2 ^ 64" using assms(6) by simp
  from sha256_hashString_standard [OF assms(3) this assms(7)] obtain d' where
    d: "sha256_hashString (sha_bus ini nxt digest lat) sha_base s (get_words m shash) (f_world st) =
      Some (\<lambda>j. if j < 8 then ?g (7 - j) else get_words m shash j, d')" "sha_ok d'" by blast
  let ?f = "\<lambda>j. if j < 8 then ?g (7 - j) else get_words m shash j"
  let ?st = "st\<lparr>f_ram := m\<rparr>" and ?m = "put_words shash 8 ?f m"
  have "mcall_sha256_hash bd spString shash (?st\<lparr>f_hart := h\<rparr>) = Some (0, ?st\<lparr>f_hart := h, f_world := d', f_ram := ?m\<rparr>)"
    using get_string_cstr [OF m(2)] assms(1,2) d(1) by (simp add: mcall_sha256_hash_def)
  from ecall_sha [OF this, of mepc] obtain h' where e:
    "ecall bd mepc [(10, spString), (11, shash), (17, 23)] ?st = Some (?st\<lparr>f_hart := h, f_world := d', f_ram := ?m\<rparr>\<lparr>f_hart := h'\<rparr>)"
    by (auto simp: h_def)
  let ?st' = "upd_ram (copy_out fp hash shash 8) (?st\<lparr>f_hart := h, f_world := d', f_ram := ?m\<rparr>\<lparr>f_hart := h'\<rparr>)"
  have run: "sys_sha256_hash bd fp mepc spString shash pString hash st = Some (0, ?st')" using m(1) e by (simp add: sys_sha256_hash_def)
  have "user_word fp (copy_out fp hash shash 8 ?m) hash i = ?g (7 - i)" if "i < 8" for i
    using copy_out_spec [of fp hash 8 shash ?m] assms(9,10) that get_put_words [of i 8 shash ?f m] by simp
  with run d(2) show ?thesis by (intro exI [of _ ?st']) (simp add: upd_ram_def)
qed

section \<open>The comparison call\<close>

lemma copy_in_other: "a < unat buf \<or> unat buf + 4 * n \<le> a \<Longrightarrow> copy_in fp buf p n m a = m a"
  unfolding copy_in_def by (induction n) (auto simp: put_word_other)

lemma get_words_cong: "(\<And>k. k < 4 \<Longrightarrow> m (unat p + 4 * i + k) = m' (unat p + 4 * i + k)) \<Longrightarrow> get_words m p i = get_words m' p i"
  unfolding get_words_def by (intro arg_cong [where f = le_word] map_cong) simp_all

definition apart :: "u64 \<Rightarrow> nat \<Rightarrow> u64 \<Rightarrow> nat \<Rightarrow> bool" where
  "apart p n q k \<longleftrightarrow> unat p + n \<le> unat q \<or> unat q + k \<le> unat p"

text \<open>
  C39. The system call for comparison does not return its result. The kernel passes the block size and the address
  of the result in the third and fourth register, machine mode reads them from the fourth and fifth: it takes
  the low word of the address of the result for the number of words, as an \<open>int\<close>, and writes the result to whatever
  address the fifth register holds; an address of the kernel is a negative number of words, so that the result is then 1
  whatever is compared. The user gets what was on the kernel's stack before.
\<close>

theorem cmp_result_misplaced:
  assumes "block_size \<le> 32" and "a4 = gpr (f_hart st) 14"
    and "apart spt 128 sequality 4" "apart a4 4 sequality 4" "apart a4 4 (pa fp equality) 4"
  shows "\<exists>st'. sys_cmp bd fp mepc spt sequality expectedData receivedData block_size equality st = Some (0, st') \<and>
    user_word fp (f_ram st') equality 0 = get_words (f_ram st) sequality 0 \<and>
    get_words (f_ram st') a4 0 = of_nat (verifyMulti (get_words (copy_in fp spt expectedData (unat block_size) (f_ram st)) spt)
      (\<lambda>i. if i = 0 then receivedData else b_words bd i) (sint (ucast sequality :: u32))) \<and>
    (sint (ucast sequality :: u32) < 0 \<longrightarrow> get_words (f_ram st') a4 0 = 1)"
proof -
  have "unat block_size \<le> 32" using assms(1) by (simp add: word_le_nat_alt)
  then have c: "copy_in fp spt expectedData (unat block_size) (f_ram st) (unat sequality + k) = f_ram st (unat sequality + k)" if "k < 4" for k
    using assms(3) that by (intro copy_in_other) (auto simp: apart_def)
  let ?m = "copy_in fp spt expectedData (unat block_size) (f_ram st)"
  let ?n = "verifyMulti (get_words ?m spt) (\<lambda>i. if i = 0 then receivedData else b_words bd i) (sint (ucast sequality :: u32))"
  let ?h = "(f_hart st)\<lparr>gpr := (gpr (f_hart st))(10 := spt, 11 := ucast receivedData, 12 := ucast block_size, 13 := sequality, 17 := 26)\<rparr>"
  let ?st = "st\<lparr>f_ram := ?m, f_hart := write_csr Mepc (mepc + 4) ?h\<rparr>"
  have r: "ucast (ucast receivedData :: u64) = receivedData" by (rule bit_word_eqI) (auto simp: bit_simps dest: bit_imp_le_length)
  have "dispatch bd ?st = Some (Return 0 (?st\<lparr>f_ram := put_word a4 0 (of_nat ?n) ?m\<rparr>))"
    using assms(2) r by (simp add: dispatch_def Let_def mcall_cmp_def)
  then obtain h where "ecall bd mepc [(10, spt), (11, ucast receivedData), (12, ucast block_size), (13, sequality), (17, 26)]
      (upd_ram (copy_in fp spt expectedData (unat block_size)) st) = Some (st\<lparr>f_ram := put_word a4 0 (of_nat ?n) ?m, f_hart := h\<rparr>)"
    by (simp add: ecall_def mcall_trap_def upd_ram_def)
  then have run: "sys_cmp bd fp mepc spt sequality expectedData receivedData block_size equality st =
      Some (0, upd_ram (\<lambda>m. set_user_word fp equality 0 (get_words m sequality 0) m) (st\<lparr>f_ram := put_word a4 0 (of_nat ?n) ?m, f_hart := h\<rparr>))"
    using assms(1) by (simp add: sys_cmp_def)
  let ?m2 = "put_word a4 0 (of_nat ?n) ?m"
  have "get_words ?m2 sequality 0 = get_words ?m sequality 0"
    using assms(4) by (intro get_put_word_other) (auto simp: apart_def)
  also have "\<dots> = get_words (f_ram st) sequality 0" using c by (intro get_words_cong) simp
  finally have g: "get_words ?m2 sequality 0 = get_words (f_ram st) sequality 0" .
  have "get_words (put_word (pa fp equality) 0 x ?m2) a4 0 = of_nat ?n" for x
    using assms(5) by (subst get_put_word_other) (auto simp: apart_def get_put_word)
  with run g obtain st' where "sys_cmp bd fp mepc spt sequality expectedData receivedData block_size equality st = Some (0, st')"
    "user_word fp (f_ram st') equality 0 = get_words (f_ram st) sequality 0" "get_words (f_ram st') a4 0 = of_nat ?n"
    by (simp add: upd_ram_def set_user_word_def user_word_def get_put_word)
  moreover have "of_nat ?n = (1 :: u32)" if "sint (ucast sequality :: u32) < 0" using that by (simp add: verifyMulti_def)
  ultimately show ?thesis by (intro exI [of _ st']) simp
qed


text \<open>The kernel's stack holds 7 where the result should go.\<close>

theorem cmp_result_misplaced_witness:
  "\<forall>bd :: unit board. \<exists>st'. sys_cmp bd 0x80011000 0 0x80001000 0x80002000 0x4000 1 1 0x3000 (calm\<lparr>f_ram := (\<lambda>_. 0)(0x80002000 := 7)\<rparr>) = Some (0, st') \<and>
     user_word 0x80011000 (f_ram st') 0x3000 0 = 7 \<and> get_words (f_ram st') 0 0 = 1"
proof
  fix bd :: "unit board"
  let ?st = "calm\<lparr>f_ram := (\<lambda>_. 0)(0x80002000 := 7)\<rparr>"
  have g: "gpr (f_hart ?st) 14 = 0" by (simp add: calm_def)
  have w: "get_words (f_ram ?st) 0x80002000 0 = 7" by (simp add: get_words_def upt_rec)
  have a: "apart 0x80001000 128 0x80002000 4" "apart 0 4 0x80002000 4" "apart 0 4 (pa 0x80011000 0x3000) 4" by (simp_all add: apart_def pa_def)
  from cmp_result_misplaced [OF _ g [symmetric] a, of 1 bd 0 "0x4000" 1] w
  show "\<exists>st'. sys_cmp bd 0x80011000 0 0x80001000 0x80002000 0x4000 1 1 0x3000 ?st = Some (0, st') \<and> user_word 0x80011000 (f_ram st') 0x3000 0 = 7 \<and> get_words (f_ram st') 0 0 = 1"
    by auto
qed

section \<open>A hash that is computed\<close>

definition sha_board :: "nat sha_dev board" where
  "sha_board = \<lparr>b_bus = sha_bus sum_words (\<lambda>a blk. a + sum_words blk) (\<lambda>a i. of_nat (a + i)) 66,
     b_bus8 = \<lparr>b8read = \<lambda>_ w. (0, w), b8write = \<lambda>_ _ w. w\<rparr>, b_amoor = \<lambda>_ _ w. (0, w), b_host = \<lambda>h. h, b_peers = \<lambda>r. r, b_dma = \<lambda>_ m. m,
     b_stack = \<lambda>_. CHR 0x00, b_words = \<lambda>_. 0\<rparr>"

definition sha_fw :: "nat sha_dev fw" where
  "sha_fw = \<lparr>f_hart = f_hart calm, f_uart = 0, f_uart16550 = f_uart16550 calm, f_htif = 0, f_htif_regs = f_htif_regs calm, f_aes = 0, f_sha256 = sha_base,
     f_hmac = 0, f_dma = 0, f_finisher = 0, f_hart_mask = 1, f_disabled_hart_mask = 0, f_ipi = \<lambda>_. 0, f_mipi_pending = \<lambda>_. 0, f_timecmp = \<lambda>_. 0,
     f_ram = (\<lambda>_. 0)(0x80012000 := 97, 0x80012001 := 98, 0x80012002 := 99), f_world = idle_sha\<rparr>"

theorem sys_sha256_hash_digest_witness:
  "\<exists>st'. sys_sha256_hash sha_board 0x80011000 0 0x80001000 0x80002000 0x1000 0x2000 sha_fw = Some (0, st') \<and>
     user_word 0x80011000 (f_ram st') 0x2000 7 = of_nat (engine_hash sum_words (\<lambda>a blk. a + sum_words blk) (blocks ([97, 98, 99] @ sha_pad 3)))"
proof -
  have s: "sha_ok (f_world sha_fw)" by (simp add: sha_fw_def sha_ok_def idle_sha_def)
  have b: "b_bus sha_board = sha_bus sum_words (\<lambda>a blk. a + sum_words blk) (\<lambda>a i. of_nat (a + i)) 66" by (simp add: sha_board_def)
  have f: "f_sha256 sha_fw = sha_base" by (simp add: sha_fw_def)
  have c: "cstr (f_ram sha_fw) (unat (pa 0x80011000 0x1000)) [97, 98, 99]"
    by (simp add: cstr_def pa_def sha_fw_def less_Suc_eq numeral_3_eq_3)
  have r: "user_range 0x80011000 0x1000 (length [97, 98, 99 :: u8] + 1)" "user_range 0x80011000 0x2000 32" by (simp_all add: user_range_def)
  have l: "length [97, 98, 99 :: u8] < 500" "length [97, 98, 99 :: u8] mod 64 < 56" by simp_all
  have k: "unat (0x80001000 :: u64) + 500 \<le> unat (0x80011000 :: u64)" "unat (0x80002000 :: u64) + 32 \<le> unat (0x80011000 :: u64)" by simp_all
  let ?e = "engine_hash sum_words (\<lambda>a blk. a + sum_words blk) (blocks ([97, 98, 99] @ sha_pad (length [97, 98, 99 :: u8])))"
  obtain st' where st': "sys_sha256_hash sha_board 0x80011000 0 0x80001000 0x80002000 0x1000 0x2000 sha_fw = Some (0, st')"
    "\<forall>i<8. user_word 0x80011000 (f_ram st') 0x2000 i = of_nat (?e + (7 - i))"
    using sys_sha256_hash_digest [OF b f s c r(1) l k r(2), of 0] by blast
  have "user_word 0x80011000 (f_ram st') 0x2000 7 = of_nat (?e + (7 - 7))" using st'(2) by (rule allE [of _ 7]) simp
  moreover have "length [97, 98, 99 :: u8] = 3" by simp
  ultimately show ?thesis using st'(1) by (simp only: diff_self_eq_0 add_0_right) blast
qed

end
