(* ===== verification/Spinlock.thy ===== *)
theory Spinlock
  imports Prelude
begin

text \<open>
  The spin locks of \<open>pk/machine/atomic.h\<close> with any number of harts. Every access to the lock word is one step.
  That at most one hart is between \<open>spinlock_lock\<close> and \<open>spinlock_unlock\<close> is what lets the rest of the
  development treat a call under a lock as one step.
\<close>

section \<open>Model\<close>

text \<open>
  \<open>Outside\<close>: not interested or past \<open>spinlock_unlock\<close>. \<open>Reading\<close>: in the inner loop of \<open>spinlock_lock\<close>.
  \<open>Trying\<close>: before the swap of \<open>spinlock_trylock\<close>. \<open>Inside\<close>: it holds the lock.
\<close>

datatype lock_phase = Outside | Reading | Trying | Inside

record lock_state =
  lock :: u32
  at_lock :: "nat \<Rightarrow> lock_phase"

inductive lock_step :: "lock_state \<Rightarrow> lock_state \<Rightarrow> bool" where
  start: "at_lock s h = Outside \<Longrightarrow> lock_step s (s\<lparr>at_lock := (at_lock s)(h := Reading)\<rparr>)"
| read: "at_lock s h = Reading \<Longrightarrow> lock_step s (s\<lparr>at_lock := (at_lock s)(h := if lock s \<noteq> 0 then Reading else Trying)\<rparr>)"
| trylock: "at_lock s h = Trying \<Longrightarrow>
    lock_step s \<lparr>lock = -1, at_lock = (at_lock s)(h := if lock s \<noteq> 0 then Reading else Inside)\<rparr>"
| unlock: "at_lock s h = Inside \<Longrightarrow> lock_step s \<lparr>lock = 0, at_lock = (at_lock s)(h := Outside)\<rparr>"

definition unlocked :: lock_state where
  "unlocked = \<lparr>lock = 0, at_lock = \<lambda>_. Outside\<rparr>"

section \<open>Mutual exclusion\<close>

definition lock_inv :: "lock_state \<Rightarrow> bool" where
  "lock_inv s \<longleftrightarrow> (if lock s = 0 then \<forall>h. at_lock s h \<noteq> Inside else \<exists>!h. at_lock s h = Inside)"

lemma lock_inv_step: "lock_step s s' \<Longrightarrow> lock_inv s \<Longrightarrow> lock_inv s'"
proof (induction rule: lock_step.induct)
  case (trylock s h)
  then show ?case by (cases "lock s = 0") (auto simp: lock_inv_def, metis lock_phase.distinct(11))
next
  case (unlock s h)
  then show ?case by (auto simp: lock_inv_def split: if_splits)
next
  case (start s h)
  then show ?case by (auto simp: lock_inv_def) (metis lock_phase.distinct(5))+
next
  case (read s h)
  then show ?case by (auto simp: lock_inv_def) (metis lock_phase.distinct(9))+
qed

lemma reach_lock_inv: "lock_step\<^sup>*\<^sup>* unlocked s \<Longrightarrow> lock_inv s"
  by (induction rule: rtranclp_induct) (simp_all add: lock_inv_step, simp add: lock_inv_def unlocked_def)

text \<open>
  C36. At most one hart holds a spin lock, and while one does the lock word is not zero, in whatever order the harts
  take their steps.
\<close>

theorem spinlock_exclusive:
  assumes "lock_step\<^sup>*\<^sup>* unlocked s" "at_lock s h = Inside"
  shows "lock s \<noteq> 0 \<and> (\<forall>k. at_lock s k = Inside \<longrightarrow> k = h)"
  using reach_lock_inv [OF assms(1)] assms(2) by (auto simp: lock_inv_def split: if_splits)

theorem spinlock_exclusive_witness:
  "\<exists>s. lock_step\<^sup>*\<^sup>* unlocked s \<and> at_lock s 3 = Inside \<and> lock s \<noteq> 0 \<and> (\<forall>k. at_lock s k = Inside \<longrightarrow> k = 3)"
proof -
  let ?s1 = "unlocked\<lparr>at_lock := (at_lock unlocked)(3 := Reading)\<rparr>"
  let ?s2 = "?s1\<lparr>at_lock := (at_lock ?s1)(3 := Trying)\<rparr>"
  let ?s3 = "\<lparr>lock = -1, at_lock = (at_lock ?s2)(3 := Inside)\<rparr>"
  have "lock_step unlocked ?s1" by (rule start) (simp add: unlocked_def)
  moreover have "lock_step ?s1 ?s2" using read [of ?s1 3] by (simp add: unlocked_def)
  moreover have "lock_step ?s2 ?s3" using trylock [of ?s2 3] by (simp add: unlocked_def)
  ultimately have r: "lock_step\<^sup>*\<^sup>* unlocked ?s3" by (meson converse_rtranclp_into_rtranclp rtranclp.rtrancl_refl)
  have i: "at_lock ?s3 3 = Inside" by simp
  from spinlock_exclusive [OF r i] r i show ?thesis by blast
qed

end
