(* ===== verification/Boot.thy ===== *)
theory Boot
  imports Mcall
begin

text \<open>
  The start of the machine (\<open>pk/machine/minit.c\<close>) and of an operating system behind it (\<open>pk/bbl/bbl.c\<close>), built
  without floating-point hardware as the emulation is. \<open>legal\<close> is what a control register makes of a value written
  to it, \<open>scans\<close> what the structures of the device-tree queries on the stack hold before they are written. A
  failed assertion stops the machine and is \<open>None\<close>. Physical memory protection is kept apart from the other
  registers: \<open>entries\<close> is the number of its entries the hart implements, and an access to one
  that is missing traps to the end of the assembly block.
\<close>

unbundle bit_operations_syntax

section \<open>Model of \<open>minit.c\<close>\<close>

record pmp =
  entries :: nat
  pmpaddr :: "nat \<Rightarrow> u64"
  pmpcfg0 :: u64

record plic_regs =
  priority :: "nat \<Rightarrow> u32"
  m_thresh :: "nat \<Rightarrow> u32"
  s_thresh :: "nat \<Rightarrow> u32"
  s_ie :: "nat \<Rightarrow> nat \<Rightarrow> u64"

record 'w boot =
  bt_fw :: "'w fw"
  bt_globals :: globals
  bt_plic :: plic_regs
  bt_pkt :: u64
  bt_reglk :: u64
  bt_pmp :: pmp

definition on_hart :: "(hart \<Rightarrow> hart) \<Rightarrow> 'w boot \<Rightarrow> 'w boot" where
  "on_hart f st = st\<lparr>bt_fw := (bt_fw st)\<lparr>f_hart := f (f_hart (bt_fw st))\<rparr>\<rparr>"

definition supports_extension :: "char \<Rightarrow> hart \<Rightarrow> bool" where
  "supports_extension ext h \<longleftrightarrow> read_csr Misa h AND push_bit (of_char ext - of_char (CHR ''A'')) 1 \<noteq> 0"

definition write_legal :: "(csr \<Rightarrow> u64 \<Rightarrow> u64) \<Rightarrow> csr \<Rightarrow> u64 \<Rightarrow> hart \<Rightarrow> hart" where
  "write_legal legal r v = write_csr r (legal r v)"

definition mstatus_init :: "(csr \<Rightarrow> u64 \<Rightarrow> u64) \<Rightarrow> hart \<Rightarrow> hart" where
  "mstatus_init legal h =
     (let mstatus = (if supports_extension (CHR ''F'') h then MSTATUS_FS else 0) OR
            (if supports_extension (CHR ''V'') h then 0x1800000 else 0);
          S = supports_extension (CHR ''S'') h;
          h = write_legal legal Mstatus mstatus h;
          h = (if S then write_legal legal Scounteren (-1) h else h);
          h = (if supports_extension (CHR ''U'') h then write_legal legal Mcounteren (-1) h else h);
          h = write_legal legal Mie 0x8 h
      in if S then write_legal legal Sptbr 0 h else h)"

definition delegate_traps :: "(csr \<Rightarrow> u64 \<Rightarrow> u64) \<Rightarrow> hart \<Rightarrow> hart option" where
  "delegate_traps legal h =
     (if \<not> supports_extension (CHR ''S'') h then Some h
      else (let interrupts = 0x2 OR 0x20 OR 0x200;
                exceptions = push_bit 0 1 OR push_bit 12 1 OR push_bit 3 1 OR push_bit 13 1 OR push_bit 15 1 OR push_bit 8 1;
                h = write_legal legal Medeleg exceptions (write_legal legal Mideleg interrupts h)
            in if read_csr Mideleg h = interrupts \<and> read_csr Medeleg h = exceptions then Some h else None))"

definition fp_init :: "(csr \<Rightarrow> u64 \<Rightarrow> u64) \<Rightarrow> hart \<Rightarrow> hart option" where
  "fp_init legal h =
     (if \<not> supports_extension (CHR ''F'') h then Some h
      else if read_csr Mstatus h AND MSTATUS_FS = 0 then None
      else (let fd_mask = push_bit 5 1 OR push_bit 3 1;
                h = write_legal legal Misa (read_csr Misa h AND NOT fd_mask) h
            in if read_csr Misa h AND fd_mask = 0 then Some h else None))"

definition memory_init :: "globals \<Rightarrow> globals" where
  "memory_init g = g\<lparr>mem_size := mem_size g div 0x200000 * 0x200000\<rparr>"

text \<open>An address register holds 54 bits.\<close>

definition pmp_mask :: u64 where "pmp_mask = mask 54"

definition setup_pmp :: "pmp \<Rightarrow> pmp" where
  "setup_pmp p =
     (if entries p = 0 then p
      else p\<lparr>pmpaddr := (pmpaddr p)(0 := -1 AND pmp_mask), pmpcfg0 := 0x18 OR 0x1 OR 0x2 OR 0x4\<rparr>)"

definition hart_init :: "(csr \<Rightarrow> u64 \<Rightarrow> u64) \<Rightarrow> 'w boot \<Rightarrow> 'w boot option" where
  "hart_init legal st = do {
     h \<leftarrow> fp_init legal (mstatus_init legal (f_hart (bt_fw st)));
     h \<leftarrow> delegate_traps legal h;
     Some (on_hart (\<lambda>_. h) st\<lparr>bt_pmp := setup_pmp (bt_pmp st)\<rparr>)
   }"

definition plic_init :: "'w boot \<Rightarrow> 'w boot" where
  "plic_init st =
     (let r = bt_plic st; n = unat (plic_ndevs (bt_globals st))
      in st\<lparr>bt_plic := r\<lparr>priority := (\<lambda>i. if 1 \<le> i \<and> i \<le> n then 1 else priority r i)\<rparr>\<rparr>)"

definition hart_plic_init :: "'w boot \<Rightarrow> 'w boot option" where
  "hart_plic_init st =
     (let f = bt_fw st; i = this_hart f; hls = hls_of (bt_globals st) i; n = plic_ndevs (bt_globals st); r = bt_plic st;
          f = f\<lparr>f_ipi := (f_ipi f)(i := 0), f_timecmp := (f_timecmp f)(i := -1), f_hart := write_csr Mip 0 (f_hart f)\<rparr>;
          st = st\<lparr>bt_fw := f\<rparr>
      in if ipi hls = 0 \<or> timecmp hls = 0 then None
         else if n = 0 then Some st
         else let ie_words = unat ((n + 64 - 1) div 64);
                  r = (if plic_s_ie hls \<noteq> 0 then r\<lparr>s_ie := (s_ie r)(i := (\<lambda>k. if k < ie_words then -1 else s_ie r i k))\<rparr> else r)
              in if plic_m_thresh hls = 0 then None
                 else let r = r\<lparr>m_thresh := (m_thresh r)(i := 1)\<rparr>;
                          r = (if plic_s_thresh hls \<noteq> 0 then r\<lparr>s_thresh := (s_thresh r)(i := 0)\<rparr> else r)
                      in Some (st\<lparr>bt_plic := r\<rparr>))"

definition wake_harts :: "'w fw \<Rightarrow> 'w fw" where
  "wake_harts f =
     fold (\<lambda>h f. if drop_bit h (NOT (f_disabled_hart_mask f) AND f_hart_mask f) AND 1 \<noteq> 0 then f\<lparr>f_ipi := (f_ipi f)(h := 1)\<rparr> else f)
       [0..<MAX_HARTS] f"

record scans =
  s_dev :: dev_scan
  s_16550 :: u16550_scan
  s_htif :: bool
  s_mem :: mem_scan
  s_clint :: clint_scan
  s_plic :: plic_scan

definition query_ptr :: "(dev_scan \<Rightarrow> nat \<Rightarrow> bmem \<times> u64 \<Rightarrow> (bmem \<times> u64) option) \<Rightarrow> scans \<Rightarrow> nat \<Rightarrow> u64 \<times> bmem \<Rightarrow> (u64 \<times> bmem) option" where
  "query_ptr q sc dtb = (\<lambda>(p, m). map_option (\<lambda>(m, p). (p, m)) (q (s_dev sc) dtb (m, p)))"

text \<open>The console is found first, then the rest; \<open>self\<close> is the address of the firmware's own memory.\<close>

definition find_console :: "'w board \<Rightarrow> scans \<Rightarrow> nat \<Rightarrow> 'w fw \<Rightarrow> 'w fw option" where
  "find_console bd sc dtb f = do {
     (m, uart, w) \<leftarrow> query_uart (b_bus bd) (s_dev sc) dtb (f_ram f, f_uart f, f_world f);
     (m, u, w) \<leftarrow> query_uart16550 (b_bus8 bd) (s_16550 sc) dtb (m, f_uart16550 f, w);
     (m, htif) \<leftarrow> query_htif (s_htif sc) dtb (m, f_htif f);
     printm bd (''bbl loader'' @ [CHR 0x0D, CHR 0x0A]) [] (f\<lparr>f_uart := uart, f_uart16550 := u, f_htif := htif, f_ram := m, f_world := w\<rparr>)
   }"

definition find_machine :: "u64 \<Rightarrow> scans \<Rightarrow> nat \<Rightarrow> 'w boot \<Rightarrow> 'w boot option" where
  "find_machine self sc dtb st = do {
     let f = bt_fw st;
     (finisher, m) \<leftarrow> query_ptr query_finisher sc dtb (f_finisher f, f_ram f);
     (m, g) \<leftarrow> query_mem self (s_mem sc) dtb (m, bt_globals st);
     (m, g) \<leftarrow> query_harts (this_hart f) dtb (m, g);
     (m, g) \<leftarrow> query_clint (s_clint sc) dtb (m, g);
     (m, g) \<leftarrow> query_plic (s_plic sc) dtb (m, g);
     (m, g) \<leftarrow> query_chosen dtb (m, g);
     (aes, m) \<leftarrow> query_ptr query_aes sc dtb (f_aes f, m);
     (sha256, m) \<leftarrow> query_ptr query_sha256 sc dtb (f_sha256 f, m);
     (pkt, m) \<leftarrow> query_ptr query_pkt sc dtb (bt_pkt st, m);
     (dma, m) \<leftarrow> query_ptr query_dma sc dtb (f_dma f, m);
     (reglk, m) \<leftarrow> query_ptr query_reglk sc dtb (bt_reglk st, m);
     (hmac, m) \<leftarrow> query_ptr query_hmac sc dtb (f_hmac f, m);
     Some (st\<lparr>bt_fw := f\<lparr>f_finisher := finisher, f_ram := m, f_aes := aes, f_sha256 := sha256, f_dma := dma, f_hmac := hmac,
                f_hart_mask := hart_mask g\<rparr>, bt_globals := g, bt_pkt := pkt, bt_reglk := reglk\<rparr>)
   }"

text \<open>Up to the call of the boot loader. Both engines are declared working without a test.\<close>

definition init_first_hart :: "'w board \<Rightarrow> (csr \<Rightarrow> u64 \<Rightarrow> u64) \<Rightarrow> u64 \<Rightarrow> scans \<Rightarrow> nat \<Rightarrow> 'w boot \<Rightarrow> 'w boot option" where
  "init_first_hart bd legal self sc dtb st = do {
     f \<leftarrow> find_console bd sc dtb (bt_fw st);
     st \<leftarrow> hart_init legal (st\<lparr>bt_fw := f\<rparr>);
     let st = st\<lparr>bt_globals := hls_init 0 (bt_globals st)\<rparr>;
     st \<leftarrow> find_machine self sc dtb st;
     let st = st\<lparr>bt_fw := wake_harts (bt_fw st)\<rparr>;
     let st = plic_init st;
     st \<leftarrow> hart_plic_init st;
     let st = st\<lparr>bt_globals := memory_init (bt_globals st)\<rparr>;
     let f = bt_fw st;
     Some (st\<lparr>bt_fw := f\<lparr>f_world := pkt_copy_fuse_data (b_bus bd) (bt_pkt st) (bt_reglk st) True True (f_world f)\<rparr>\<rparr>)
   }"

definition INSERT_FIELD :: "u64 \<Rightarrow> u64 \<Rightarrow> u64 \<Rightarrow> u64" where
  "INSERT_FIELD val which fieldval = val AND NOT which OR fieldval * (which AND NOT (which - 1))"

text \<open>
  \<open>frame\<close> is the address of the trap frame at the top of the hart's stack. The return from the trap
  starts the function in the mode of \<open>MPP\<close>; the saved rounding state is cleared.
\<close>

definition enter_supervisor_mode :: "u64 \<Rightarrow> u64 \<Rightarrow> u64 \<Rightarrow> u64 \<Rightarrow> hart \<Rightarrow> hart" where
  "enter_supervisor_mode frame fn arg0 arg1 h =
     (let mstatus = INSERT_FIELD (INSERT_FIELD (read_csr Mstatus h) MSTATUS_MPP 1) 0x80 0;
          h = write_csr Mscratch frame (write_csr Mstatus mstatus h);
          h = write_csr Mepc fn (write_csr Fcsr 0 h)
      in h\<lparr>gpr := (gpr h)(10 := arg0, 11 := arg1)\<rparr>)"

section \<open>Model of \<open>bbl.c\<close>\<close>

definition dtb_output :: "u64 \<Rightarrow> globals \<Rightarrow> u64" where
  "dtb_output payload_end g =
     (let e = (if kernel_end g \<noteq> 0 then kernel_end g else payload_end) in (e + 0x200000 - 1) div 0x200000 * 0x200000)"

definition filter_dtb :: "u64 \<Rightarrow> hart_filter \<Rightarrow> plic_scan \<Rightarrow> nat \<Rightarrow> bmem \<times> globals \<Rightarrow> (bmem \<times> globals \<times> u64) option" where
  "filter_dtb payload_end hf ps source = (\<lambda>(m, g). do {
     let dest = unat (dtb_output payload_end g);
     let m = memcpy dest source (unat (fdt_size m source)) m;
     (m, disabled) \<leftarrow> filter_harts hf dest m;
     (m, g) \<leftarrow> filter_plic ps dest (m, g);
     m \<leftarrow> filter_compat dest ''riscv,clint0'' m;
     m \<leftarrow> filter_compat dest ''riscv,debug-013'' m;
     Some (m, g, disabled)
   })"

text \<open>The first block reads back what all ones become in four address registers, as far as they exist.\<close>

definition pmp_probe :: "pmp \<Rightarrow> pmp" where
  "pmp_probe p = p\<lparr>pmpaddr := (\<lambda>i. if i < entries p \<and> i < 4 then -1 AND pmp_mask else pmpaddr p i)\<rparr>"

definition protect_memory :: "u64 \<Rightarrow> u64 \<Rightarrow> pmp \<Rightarrow> pmp" where
  "protect_memory ftext end' p =
     (let p = pmp_probe p;
          a = (\<lambda>i. if i < entries p then pmpaddr p i else 0)
      in if a 0 AND a 1 AND a 2 AND a 3 = 0 then setup_pmp p
         else p\<lparr>pmpaddr := (pmpaddr p)(0 := drop_bit 2 ftext AND pmp_mask, 1 := drop_bit 2 end' AND pmp_mask,
                              2 := -1 AND pmp_mask, 3 := 0),
                pmpcfg0 := push_bit 8 0x8 OR push_bit 16 (0x18 OR 0x1 OR 0x2 OR 0x4)\<rparr>)"

text \<open>
  What a hart does once \<open>entry_point\<close> is set: a disabled hart waits for ever (\<open>None\<close>), the others protect the
  firmware and enter the payload. \<open>(1 << hartid)\<close> is an \<open>int\<close>, and there are at most eight harts.
\<close>

definition boot_other_hart :: "u64 \<Rightarrow> u64 \<Rightarrow> u64 \<Rightarrow> u64 \<Rightarrow> u64 \<Rightarrow> 'w boot \<Rightarrow> 'w boot option" where
  "boot_other_hart ftext end' payload_end entry' frame st =
     (let h = f_hart (bt_fw st); hartid = read_csr Mhartid h
      in if push_bit (unat hartid) 1 AND f_disabled_hart_mask (bt_fw st) \<noteq> 0 then None
         else Some (on_hart (enter_supervisor_mode frame entry' hartid (dtb_output payload_end (bt_globals st)))
                (st\<lparr>bt_pmp := protect_memory ftext end' (bt_pmp st)\<rparr>)))"

definition bbl_loader :: "u64 \<Rightarrow> u64 \<Rightarrow> u64 \<Rightarrow> u64 \<Rightarrow> u64 \<Rightarrow> hart_filter \<Rightarrow> plic_scan \<Rightarrow> nat \<Rightarrow> 'w boot \<Rightarrow> 'w boot option" where
  "bbl_loader ftext end' payload_start payload_end frame hf ps dtb st = do {
     (m, g, disabled) \<leftarrow> filter_dtb payload_end hf ps dtb (f_ram (bt_fw st), bt_globals st);
     let st = st\<lparr>bt_fw := (bt_fw st)\<lparr>f_ram := m, f_disabled_hart_mask := disabled\<rparr>, bt_globals := g\<rparr>;
     boot_other_hart ftext end' payload_end (if kernel_start g \<noteq> 0 then kernel_start g else payload_start) frame st
   }"

text \<open>The other harts, which the first one has woken.\<close>

definition init_other_hart :: "(csr \<Rightarrow> u64 \<Rightarrow> u64) \<Rightarrow> u64 \<Rightarrow> u64 \<Rightarrow> u64 \<Rightarrow> u64 \<Rightarrow> u64 \<Rightarrow> 'w boot \<Rightarrow> 'w boot option" where
  "init_other_hart legal ftext end' payload_end entry' frame st = do {
     st \<leftarrow> hart_init legal st;
     st \<leftarrow> hart_plic_init st;
     boot_other_hart ftext end' payload_end entry' frame st
   }"

section \<open>What the payload can reach\<close>

text \<open>
  The check of an access below machine mode by the first four entries, as the privileged architecture defines
  it: the first entry that matches the address decides. An entry is off, or matches from the address of the
  previous entry up to its own, or four bytes, or a naturally aligned power of two whose size is
  coded by the trailing ones of its address.
\<close>

fun trailing_ones :: "nat \<Rightarrow> nat \<Rightarrow> nat" where
  "trailing_ones 0 x = 0"
| "trailing_ones (Suc n) x = (if odd x then Suc (trailing_ones n (x div 2)) else 0)"

definition pmp_cfg :: "pmp \<Rightarrow> nat \<Rightarrow> u64" where
  "pmp_cfg p i = drop_bit (8 * i) (pmpcfg0 p) AND 0xFF"

definition pmp_match :: "pmp \<Rightarrow> nat \<Rightarrow> nat \<Rightarrow> bool" where
  "pmp_match p i a \<longleftrightarrow>
     (let mode = pmp_cfg p i AND 0x18; x = unat (pmpaddr p i)
      in if mode = 0x8 then (if i = 0 then 0 else 4 * unat (pmpaddr p (i - 1))) \<le> a \<and> a < 4 * x
         else if mode = 0x10 then a div 4 = x
         else if mode = 0x18 then (let k = trailing_ones 54 x + 3 in a div 2 ^ k = 4 * x div 2 ^ k)
         else False)"

definition pmp_allows :: "pmp \<Rightarrow> u64 \<Rightarrow> nat \<Rightarrow> bool" where
  "pmp_allows p acc a \<longleftrightarrow>
     (if entries p = 0 then True
      else case find (\<lambda>i. pmp_match p i a) [0..<min 4 (entries p)] of
        None \<Rightarrow> False
      | Some i \<Rightarrow> pmp_cfg p i AND acc \<noteq> 0)"

lemma trailing_ones_mask: "trailing_ones n (2 ^ n - 1) = n"
proof (induction n)
  case (Suc n)
  have "(2 ^ Suc n - 1) div 2 = (2 ^ n - 1 :: nat)" by (simp add: div_mult2_eq)
  with Suc show ?case by simp
qed simp

lemma napot_all:
  assumes "pmp_cfg p i AND 0x18 = 0x18" "unat (pmpaddr p i) = 2 ^ 54 - 1" "a < 2 ^ 56"
  shows "pmp_match p i a"
proof -
  have "trailing_ones 54 (unat (pmpaddr p i)) = 54" unfolding assms(2) by (rule trailing_ones_mask)
  with assms show ?thesis by (simp add: pmp_match_def Let_def)
qed

lemma pmp_mask_all: "unat (-1 AND pmp_mask) = 2 ^ 54 - 1"
  by (simp add: pmp_mask_def mask_eq_exp_minus_1)

lemma unat_pmp_addr: "unat a < 2 ^ 56 \<Longrightarrow> unat (drop_bit 2 a AND pmp_mask) = unat a div 4" for a :: u64
proof -
  assume "unat a < 2 ^ 56"
  then have "unat a div 4 < 2 ^ 54" by simp
  then have "take_bit 54 (unat a div 4) = unat a div 4" by (rule take_bit_nat_eq_self)
  then show ?thesis unfolding pmp_mask_def take_bit_eq_mask [symmetric] by (simp add: unsigned_take_bit_eq unsigned_drop_bit_eq drop_bit_eq_div unat_div_distrib)
qed

text \<open>
  C13. The payload cannot reach the firmware: where a hart has four entries of memory protection, an access of any kind
  below machine mode is allowed exactly outside the firmware's memory, in units of four bytes; the hart enters the
  payload in supervisor mode with interrupts off, with its number and the address of the
  filtered device tree in the argument registers.
\<close>

theorem payload_confined:
  assumes "boot_other_hart ftext end' payload_end entry' frame st = Some st'" "4 \<le> entries (bt_pmp st)"
    and "unat ftext < 2 ^ 56" "unat end' < 2 ^ 56" "a < 2 ^ 56" "acc \<in> {1, 2, 4}"
  shows "(pmp_allows (bt_pmp st') acc a \<longleftrightarrow> \<not> (unat ftext div 4 \<le> a div 4 \<and> a div 4 < unat end' div 4)) \<and>
    (let h = f_hart (bt_fw st') in read_csr Mepc h = entry' \<and> read_csr Mstatus h AND MSTATUS_MPP = 0x800 \<and> read_csr Mstatus h AND 0x80 = 0 \<and>
       gpr h 10 = read_csr Mhartid (f_hart (bt_fw st)) \<and> gpr h 11 = dtb_output payload_end (bt_globals st))"
proof -
  define p where "p = protect_memory ftext end' (bt_pmp st)"
  have p: "p = (bt_pmp st)\<lparr>pmpaddr := (pmpaddr (pmp_probe (bt_pmp st)))(0 := drop_bit 2 ftext AND pmp_mask, 1 := drop_bit 2 end' AND pmp_mask,
      2 := -1 AND pmp_mask, 3 := 0), pmpcfg0 := 0x1F0800\<rparr>"
    using assms(2) by (simp add: p_def protect_memory_def pmp_probe_def Let_def pmp_mask_def mask_eq_exp_minus_1)
  have st': "bt_pmp st' = p" "f_hart (bt_fw st') = enter_supervisor_mode frame entry' (read_csr Mhartid (f_hart (bt_fw st)))
      (dtb_output payload_end (bt_globals st)) (f_hart (bt_fw st))"
    using assms(1) by (auto simp: boot_other_hart_def Let_def on_hart_def p_def split: if_split_asm)
  have cfg: "pmp_cfg p 0 = 0" "pmp_cfg p 1 = 0x8" "pmp_cfg p 2 = 0x1F" by (simp_all add: p pmp_cfg_def)
  have x: "unat (pmpaddr p 0) = unat ftext div 4" "unat (pmpaddr p 1) = unat end' div 4" "unat (pmpaddr p 2) = 2 ^ 54 - 1"
    using unat_pmp_addr [OF assms(3)] unat_pmp_addr [OF assms(4)] pmp_mask_all by (simp_all add: p)
  have m: "\<not> pmp_match p 0 a" "pmp_match p 1 a \<longleftrightarrow> unat ftext div 4 \<le> a div 4 \<and> a div 4 < unat end' div 4" "pmp_match p 2 a"
  proof -
    show "\<not> pmp_match p 0 a" using cfg(1) by (simp add: pmp_match_def)
    show "pmp_match p 1 a \<longleftrightarrow> unat ftext div 4 \<le> a div 4 \<and> a div 4 < unat end' div 4"
      using cfg(2) x by (simp add: pmp_match_def) linarith
    show "pmp_match p 2 a" using cfg(3) x(3) assms(5) by (intro napot_all) simp_all
  qed
  have e: "entries p \<noteq> 0" "min 4 (entries p) = 4" using assms(2) by (simp_all add: p)
  have "pmp_allows p acc a \<longleftrightarrow> \<not> pmp_match p 1 a"
  proof -
    have "[0..<4] = [0, 1, 2, 3 :: nat]" by (simp add: upt_rec)
    with e(1) m(1,3) cfg assms(6) show ?thesis unfolding pmp_allows_def e(2) by auto
  qed
  then show ?thesis unfolding st' m(2)
    by (simp add: enter_supervisor_mode_def INSERT_FIELD_def Let_def bit.conj_disj_distrib2 and.assoc)
qed
definition bare :: "unit boot" where
  "bare = \<lparr>bt_fw = calm,
     bt_globals = \<lparr>mem_size = 0, hart_phandles = \<lambda>_. 0, hart_mask = 3, hls_of = \<lambda>_. hls_zero, mtime = 0, plic_priorities = 0, plic_ndevs = 0,
       kernel_start = 0, kernel_end = 0, messages = []\<rparr>,
     bt_plic = \<lparr>priority = \<lambda>_. 0, m_thresh = \<lambda>_. 0, s_thresh = \<lambda>_. 0, s_ie = \<lambda>_ _. 0\<rparr>, bt_pkt = 0, bt_reglk = 0,
     bt_pmp = \<lparr>entries = 16, pmpaddr = \<lambda>_. 0, pmpcfg0 = 0\<rparr>\<rparr>"

theorem payload_confined_witness:
  "\<exists>st'. boot_other_hart 0x80000000 0x80010000 0x80400000 0x80200000 0x8000FF00 bare = Some st' \<and>
     \<not> pmp_allows (bt_pmp st') 2 0x80000010 \<and> pmp_allows (bt_pmp st') 2 0x80200000"
proof -
  obtain st' where st': "boot_other_hart 0x80000000 0x80010000 0x80400000 0x80200000 0x8000FF00 bare = Some st'"
    by (simp add: boot_other_hart_def bare_def calm_def Let_def)
  have n: "4 \<le> entries (bt_pmp bare)" by (simp add: bare_def)
  from payload_confined [OF st' n, where a = "0x80000010" and acc = 2] payload_confined [OF st' n, where a = "0x80200000" and acc = 2] st' show ?thesis by simp
qed

end
