(* ===== verification/Bootrom.thy ===== *)
theory Bootrom
  imports Cstring "HOL-Library.Monad_Syntax"
begin

text \<open>
  The boot ROM of the FPGA system (\<open>fpga/src/bootrom/src\<close>): a console on a 16550, an SD card behind an SPI
  controller, and the loader that copies the first partition of the card to memory. The registers of the
  devices are an argument; a loop that waits for a device is a partial function, so that waiting for ever
  is \<open>None\<close>. The delays of no-operations are left out.
\<close>

unbundle bit_operations_syntax

section \<open>Console (\<open>uart.c\<close>)\<close>

record 'w rom =
  r32 :: "u64 \<Rightarrow> 'w \<Rightarrow> u32 \<times> 'w"
  w32 :: "u64 \<Rightarrow> u32 \<Rightarrow> 'w \<Rightarrow> 'w"
  r8 :: "u64 \<Rightarrow> 'w \<Rightarrow> u8 \<times> 'w"
  w8 :: "u64 \<Rightarrow> u8 \<Rightarrow> 'w \<Rightarrow> 'w"

definition is_transmit_empty :: "'w rom \<Rightarrow> 'w \<Rightarrow> u8 \<times> 'w" where
  "is_transmit_empty b w = (let (s, w) = r8 b 0x10000014 w in (s AND 0x20, w))"

partial_function (option) write_serial :: "'w rom \<Rightarrow> u8 \<Rightarrow> 'w \<Rightarrow> 'w option" where
  "write_serial b a w =
     (let (e, w) = is_transmit_empty b w
      in if e = 0 then write_serial b a w else Some (w8 b 0x10000000 a w))"

definition init_uart :: "'w rom \<Rightarrow> u32 \<Rightarrow> u32 \<Rightarrow> 'w \<Rightarrow> 'w" where
  "init_uart b freq baud w =
     (let divisor = freq div push_bit 4 baud;
          w = w8 b 0x10000004 0x00 w;
          w = w8 b 0x1000000C 0x80 w;
          w = w8 b 0x10000000 (ucast divisor) w;
          w = w8 b 0x10000004 (ucast (drop_bit 8 divisor AND 0xFF)) w;
          w = w8 b 0x1000000C 0x03 w;
          w = w8 b 0x10000008 0xC7 w
      in w8 b 0x10000010 0x20 w)"

fun write_all :: "'w rom \<Rightarrow> u8 list \<Rightarrow> 'w \<Rightarrow> 'w option" where
  "write_all b [] w = Some w"
| "write_all b (c # cs) w = do { w \<leftarrow> write_serial b c w; write_all b cs w }"

definition print_uart :: "'w rom \<Rightarrow> string \<Rightarrow> 'w \<Rightarrow> 'w option" where
  "print_uart b str = write_all b (map (\<lambda>c. of_nat (of_char c)) str)"

definition bin_to_hex :: "u8 \<Rightarrow> u8 list" where
  "bin_to_hex inp =
     (let digit = (\<lambda>d :: u8. if d < 10 then 48 + d else 55 + d)
      in [digit (drop_bit 4 inp AND 0xf), digit (inp AND 0xf)])"

definition print_uart_byte :: "'w rom \<Rightarrow> u8 \<Rightarrow> 'w \<Rightarrow> 'w option" where
  "print_uart_byte b byte = write_all b (bin_to_hex byte)"

definition print_uart_int :: "'w rom \<Rightarrow> u32 \<Rightarrow> 'w \<Rightarrow> 'w option" where
  "print_uart_int b addr = write_all b (concat (map (\<lambda>i. bin_to_hex (ucast (drop_bit (i * 8) addr AND 0xff))) [3, 2, 1, 0]))"

definition print_uart_addr :: "'w rom \<Rightarrow> u64 \<Rightarrow> 'w \<Rightarrow> 'w option" where
  "print_uart_addr b addr =
     write_all b (concat (map (\<lambda>i. bin_to_hex (ucast (drop_bit (i * 8) addr AND 0xff))) [7, 6, 5, 4, 3, 2, 1, 0]))"

abbreviation (input) CRLF :: string where "CRLF \<equiv> [CHR 0x0D, CHR 0x0A]"
abbreviation (input) TAB :: string where "TAB \<equiv> [CHR 0x09]"

section \<open>SPI controller (\<open>spi.c\<close>)\<close>

abbreviation (input) SPI_RESET_REG :: u64 where "SPI_RESET_REG \<equiv> 0x20000040"
abbreviation (input) SPI_CONTROL_REG :: u64 where "SPI_CONTROL_REG \<equiv> 0x20000060"
abbreviation (input) SPI_STATUS_REG :: u64 where "SPI_STATUS_REG \<equiv> 0x20000064"
abbreviation (input) SPI_TRANSMIT_REG :: u64 where "SPI_TRANSMIT_REG \<equiv> 0x20000068"
abbreviation (input) SPI_RECEIVE_REG :: u64 where "SPI_RECEIVE_REG \<equiv> 0x2000006C"
abbreviation (input) SPI_SLAVE_SELECT_REG :: u64 where "SPI_SLAVE_SELECT_REG \<equiv> 0x20000070"

definition spi_status :: "'w rom \<Rightarrow> 'w \<Rightarrow> 'w option" where
  "spi_status b w = do {
     let (status, w) = r32 b SPI_STATUS_REG w;
     w \<leftarrow> print_uart b ''status: 0x'' w;
     w \<leftarrow> print_uart_addr b (ucast status) w;
     print_uart b CRLF w
   }"

definition spi_init :: "'w rom \<Rightarrow> 'w \<Rightarrow> 'w option" where
  "spi_init b w = do {
     w \<leftarrow> print_uart b (''init SPI'' @ CRLF) w;
     let w = w32 b SPI_RESET_REG 0x0a w;
     let w = w32 b SPI_CONTROL_REG 0x104 w;
     w \<leftarrow> spi_status b w;
     let w = w32 b SPI_CONTROL_REG 0x166 w;
     w \<leftarrow> spi_status b w;
     let w = w32 b SPI_CONTROL_REG 0x06 w;
     print_uart b (''SPI initialized!'' @ CRLF) w
   }"

text \<open>Bit 0 of the status says that nothing has been received.\<close>

partial_function (option) wait_received :: "'w rom \<Rightarrow> 'w \<Rightarrow> 'w option" where
  "wait_received b w = (let (s, w) = r32 b SPI_STATUS_REG w in if s AND 1 = 1 then wait_received b w else Some w)"

definition spi_txrx :: "'w rom \<Rightarrow> u8 \<Rightarrow> 'w \<Rightarrow> (u8 \<times> 'w) option" where
  "spi_txrx b byte w = do {
     let w = w32 b SPI_SLAVE_SELECT_REG 0xfffffffe w;
     let w = w32 b SPI_TRANSMIT_REG (ucast byte) w;
     let w = w32 b SPI_CONTROL_REG 0x106 w;
     w \<leftarrow> wait_received b w;
     let (result, w) = r32 b SPI_RECEIVE_REG w;
     let (s, w) = r32 b SPI_STATUS_REG w;
     w \<leftarrow> (if s AND 1 \<noteq> 1
       then do {
         w \<leftarrow> print_uart b ''rx fifo not empty?? '' w;
         let (s, w) = r32 b SPI_STATUS_REG w;
         w \<leftarrow> print_uart_addr b (ucast s) w;
         print_uart b CRLF w
       }
       else Some w);
     let w = w32 b SPI_SLAVE_SELECT_REG 0xffffffff w;
     let w = w32 b SPI_CONTROL_REG 0x06 w;
     Some (ucast result, w)
   }"

text \<open>The second loop of \<open>spi_write_bytes\<close>: \<open>n\<close> bytes are left.\<close>

partial_function (option) receive :: "'w rom \<Rightarrow> nat \<Rightarrow> nat \<Rightarrow> bmem \<Rightarrow> 'w \<Rightarrow> (bmem \<times> 'w) option" where
  "receive b n p m w =
     (if n = 0 then Some (m, w)
      else let (s, w) = r32 b SPI_STATUS_REG w
           in if s AND 1 \<noteq> 1
              then let (x, w) = r32 b SPI_RECEIVE_REG w in receive b (n - 1) (p + 1) (m(p := ucast x)) w
              else receive b n p m w)"

definition spi_write_bytes :: "'w rom \<Rightarrow> u8 list \<Rightarrow> nat \<Rightarrow> bmem \<Rightarrow> 'w \<Rightarrow> (int \<times> bmem \<times> 'w) option" where
  "spi_write_bytes b bytes ret m w =
     (if length bytes > 256 then Some (-1, m, w)
      else do {
        let w = w32 b SPI_SLAVE_SELECT_REG 0xfffffffe w;
        let w = fold (\<lambda>x. w32 b SPI_TRANSMIT_REG (ucast x AND 0xff)) bytes w;
        let w = w32 b SPI_CONTROL_REG 0x106 w;
        w \<leftarrow> wait_received b w;
        (m, w) \<leftarrow> receive b (length bytes) ret m w;
        let w = w32 b SPI_SLAVE_SELECT_REG 0xffffffff w;
        let w = w32 b SPI_CONTROL_REG 0x06 w;
        Some (0, m, w)
      })"

section \<open>SD card (\<open>sd.c\<close>)\<close>

definition sd_dummy :: "'w rom \<Rightarrow> 'w \<Rightarrow> (u8 \<times> 'w) option" where
  "sd_dummy b = spi_txrx b 0xFF"

fun send_bytes :: "'w rom \<Rightarrow> u8 list \<Rightarrow> 'w \<Rightarrow> 'w option" where
  "send_bytes b [] w = Some w"
| "send_bytes b (x # xs) w = do { (_, w) \<leftarrow> spi_txrx b x w; send_bytes b xs w }"

text \<open>The loop for the response, with \<open>Suc n\<close> attempts left.\<close>

fun sd_response :: "'w rom \<Rightarrow> nat \<Rightarrow> 'w \<Rightarrow> (u8 \<times> 'w) option" where
  "sd_response b n w = do {
     (r, w) \<leftarrow> sd_dummy b w;
     (if r AND 0x80 = 0 then Some (r, w) else case n of 0 \<Rightarrow> Some (r, w) | Suc n \<Rightarrow> sd_response b n w)
   }"

definition sd_cmd :: "'w rom \<Rightarrow> u8 \<Rightarrow> u32 \<Rightarrow> u8 \<Rightarrow> 'w \<Rightarrow> (u8 \<times> 'w) option" where
  "sd_cmd b cmd arg crc w = do {
     w \<leftarrow> send_bytes b [0xFF, 0x40 OR cmd, ucast (drop_bit 24 arg), ucast (drop_bit 16 arg), ucast (drop_bit 8 arg), ucast arg, crc] w;
     sd_response b 99 w
   }"

definition print_status :: "'w rom \<Rightarrow> string \<Rightarrow> u8 \<Rightarrow> 'w \<Rightarrow> 'w option" where
  "print_status b cmd response w = do {
     w \<leftarrow> print_uart b ''SD command '' w;
     w \<leftarrow> print_uart b cmd w;
     w \<leftarrow> print_uart b ('' '' @ TAB @ ''response : '') w;
     w \<leftarrow> print_uart_byte b response w;
     print_uart b CRLF w
   }"

fun sd_cmd0 :: "'w rom \<Rightarrow> nat \<Rightarrow> 'w \<Rightarrow> (bool \<times> 'w) option" where
  "sd_cmd0 b counter w = do {
     (r, w) \<leftarrow> sd_cmd b 0 0 0x95 w;
     (_, w) \<leftarrow> sd_dummy b w;
     (case counter of 0 \<Rightarrow> Some (False, w)
      | Suc n \<Rightarrow> if n = 0 then Some (False, w)
                else if r \<noteq> 0x1 then sd_cmd0 b n w
                else do { w \<leftarrow> print_status b ''cmd0'' r w; Some (True, w) })
   }"

definition sd_cmd8 :: "'w rom \<Rightarrow> 'w \<Rightarrow> (bool \<times> 'w) option" where
  "sd_cmd8 b w = do {
     (r1, w) \<leftarrow> sd_cmd b 8 0x1aa 0x87 w;
     (_, w) \<leftarrow> sd_dummy b w;
     (_, w) \<leftarrow> sd_dummy b w;
     (r4, w) \<leftarrow> sd_dummy b w;
     (r5, w) \<leftarrow> sd_dummy b w;
     (_, w) \<leftarrow> sd_dummy b w;
     (_, w) \<leftarrow> sd_dummy b w;
     Some (r1 = 0x1 \<and> r4 AND 0xf = 0x1 \<and> r5 = 0xaa, w)
   }"

definition sd_cmd55 :: "'w rom \<Rightarrow> 'w \<Rightarrow> (bool \<times> 'w) option" where
  "sd_cmd55 b w = do {
     (r, w) \<leftarrow> sd_cmd b 55 0 0x65 w;
     (_, w) \<leftarrow> sd_dummy b w;
     w \<leftarrow> print_status b ''cmd55'' r w;
     Some (r = 0x1, w)
   }"

partial_function (option) sd_acmd41 :: "'w rom \<Rightarrow> 'w \<Rightarrow> (bool \<times> 'w) option" where
  "sd_acmd41 b w = do {
     (_, w) \<leftarrow> sd_cmd55 b w;
     (r, w) \<leftarrow> sd_cmd b 41 0x40000000 0x77 w;
     w \<leftarrow> print_status b ''cmd41'' r w;
     (_, w) \<leftarrow> sd_dummy b w;
     (if r = 0x1 then sd_acmd41 b w else Some (r = 0, w))
   }"

definition init_sd :: "'w rom \<Rightarrow> 'w \<Rightarrow> (int \<times> 'w) option" where
  "init_sd b w = do {
     w \<leftarrow> spi_init b w;
     w \<leftarrow> print_uart b (''initializing SD... '' @ CRLF) w;
     w \<leftarrow> send_bytes b (replicate 10 0xFF) w;
     (ok, w) \<leftarrow> sd_cmd0 b 10000 w;
     (if \<not> ok then Some (-1, w)
      else do {
        (ok, w) \<leftarrow> sd_cmd8 b w;
        (if \<not> ok then Some (-2, w)
         else do {
           (ok, w) \<leftarrow> sd_acmd41 b w;
           Some (if \<not> ok then -3 else 0, w)
         })
      })
   }"

definition crc7 :: "u8 \<Rightarrow> u8 \<Rightarrow> u8" where
  "crc7 prev inp =
     (let remainder = prev AND inp;
          remainder = remainder XOR (drop_bit 4 remainder XOR drop_bit 7 remainder);
          remainder = remainder XOR push_bit 4 remainder
      in remainder AND 0x7f)"

definition crc16 :: "u16 \<Rightarrow> u8 \<Rightarrow> u16" where
  "crc16 crc data =
     (let crc = ucast (ucast (drop_bit 8 crc) :: u8) OR push_bit 8 crc;
          crc = crc XOR ucast data;
          crc = crc XOR ucast ((ucast (drop_bit 4 crc) :: u8) AND 0xf);
          crc = crc XOR push_bit 12 crc
      in crc XOR push_bit 5 (crc AND 0xff))"

partial_function (option) wait_token :: "'w rom \<Rightarrow> 'w \<Rightarrow> 'w option" where
  "wait_token b w = do { (r, w) \<leftarrow> sd_dummy b w; (if r \<noteq> 0xfe then wait_token b w else Some w) }"

text \<open>The inner loop: \<open>k\<close> transfers of 64 bytes are left, the checksum so far is \<open>crc\<close>.\<close>

fun copy_chunks :: "'w rom \<Rightarrow> nat \<Rightarrow> nat \<Rightarrow> u16 \<Rightarrow> bmem \<Rightarrow> 'w \<Rightarrow> (u16 \<times> bmem \<times> 'w) option" where
  "copy_chunks b 0 p crc m w = Some (crc, m, w)"
| "copy_chunks b (Suc k) p crc m w = do {
     (_, m, w) \<leftarrow> spi_write_bytes b (replicate 64 0xff) p m w;
     copy_chunks b k (p + 64) (foldl crc16 crc (map (\<lambda>i. m (p + i)) [0..<64])) m w
   }"

text \<open>One block, with the result whether its checksum is right.\<close>

definition copy_block :: "'w rom \<Rightarrow> nat \<Rightarrow> bmem \<Rightarrow> 'w \<Rightarrow> (bool \<times> bmem \<times> 'w) option" where
  "copy_block b p m w = do {
     w \<leftarrow> wait_token b w;
     (crc, m, w) \<leftarrow> copy_chunks b 8 p 0 m w;
     (hi, w) \<leftarrow> sd_dummy b w;
     (lo, w) \<leftarrow> sd_dummy b w;
     Some (crc = (push_bit 8 (ucast hi) OR ucast lo), m, w)
   }"

text \<open>The outer loop; the first pass is made for any counter.\<close>

function copy_blocks :: "'w rom \<Rightarrow> int \<Rightarrow> nat \<Rightarrow> bmem \<Rightarrow> 'w \<Rightarrow> (int \<times> bmem \<times> 'w) option" where
  "copy_blocks b i p m w = do {
     (ok, m, w) \<leftarrow> copy_block b p m w;
     (if \<not> ok then Some (-2, m, w)
      else do {
        w \<leftarrow> (if c_mod i 1000 = 0 then print_uart b ''.'' w else Some w);
        (if i - 1 > 0 then copy_blocks b (i - 1) (p + 512) m w else Some (0, m, w))
      })
   }"
  by pat_completeness auto
termination by (relation "measure (\<lambda>(b, i, p, m, w). nat i)") auto

definition read_crc :: "u32 \<Rightarrow> u8" where
  "read_crc src_lba =
     (let crc = crc7 0 (0x40 OR 18);
          crc = crc7 crc (ucast (drop_bit 24 src_lba AND 0xff));
          crc = crc7 crc (ucast (drop_bit 16 src_lba AND 0xff));
          crc = crc7 crc (ucast (drop_bit 8 src_lba AND 0xff));
          crc = crc7 crc (ucast (src_lba AND 0xff))
      in push_bit 1 crc OR 1)"

definition sd_copy :: "'w rom \<Rightarrow> nat \<Rightarrow> u32 \<Rightarrow> u32 \<Rightarrow> bmem \<Rightarrow> 'w \<Rightarrow> (int \<times> bmem \<times> 'w) option" where
  "sd_copy b dst src_lba size' m w = do {
     (r, w) \<leftarrow> sd_cmd b 18 src_lba (read_crc src_lba) w;
     (if r \<noteq> 0
      then do {
        w \<leftarrow> send_bytes b (replicate 8 0xFF) w;
        w \<leftarrow> print_uart b (''could not read SD block'' @ CRLF) w;
        Some (-1, m, w)
      }
      else do {
        (rc, m, w) \<leftarrow> copy_blocks b (uint size') dst m w;
        (_, w) \<leftarrow> sd_cmd b 12 0 0x01 w;
        (_, w) \<leftarrow> sd_dummy b w;
        Some (rc, m, w)
      })
   }"

section \<open>Partition table (\<open>gpt.c\<close>) and \<open>main\<close>\<close>

definition le64 :: "bmem \<Rightarrow> nat \<Rightarrow> u64" where "le64 m p = le_word (map m [p..<p + 8])"
definition le32 :: "bmem \<Rightarrow> nat \<Rightarrow> u32" where "le32 m p = le_word (map m [p..<p + 4])"

definition card_failed :: "'w rom \<Rightarrow> int \<Rightarrow> 'w \<Rightarrow> 'w option" where
  "card_failed b res w = do {
     w \<leftarrow> print_uart b (''SD card failed!'' @ CRLF) w;
     w \<leftarrow> print_uart b ''sd copy return value: '' w;
     w \<leftarrow> print_uart_addr b (of_int res) w;
     print_uart b CRLF w
   }"

definition print_header :: "'w rom \<Rightarrow> bmem \<Rightarrow> nat \<Rightarrow> 'w \<Rightarrow> 'w option" where
  "print_header b m h w = do {
     w \<leftarrow> print_uart b ''gpt partition table header:'' w;
     w \<leftarrow> print_uart b (CRLF @ TAB @ ''signature:'' @ TAB) w;
     w \<leftarrow> print_uart_addr b (le64 m h) w;
     w \<leftarrow> print_uart b (CRLF @ TAB @ ''revision:'' @ TAB) w;
     w \<leftarrow> print_uart_int b (le32 m (h + 8)) w;
     w \<leftarrow> print_uart b (CRLF @ TAB @ ''size:'' @ TAB @ TAB) w;
     w \<leftarrow> print_uart_int b (le32 m (h + 12)) w;
     w \<leftarrow> print_uart b (CRLF @ TAB @ ''crc_header:'' @ TAB) w;
     w \<leftarrow> print_uart_int b (le32 m (h + 16)) w;
     w \<leftarrow> print_uart b (CRLF @ TAB @ ''reserved:'' @ TAB) w;
     w \<leftarrow> print_uart_int b (le32 m (h + 20)) w;
     w \<leftarrow> print_uart b (CRLF @ TAB @ ''current lba:'' @ TAB) w;
     w \<leftarrow> print_uart_addr b (le64 m (h + 24)) w;
     w \<leftarrow> print_uart b (CRLF @ TAB @ ''backup lda:'' @ TAB) w;
     w \<leftarrow> print_uart_addr b (le64 m (h + 32)) w;
     w \<leftarrow> print_uart b (CRLF @ TAB @ ''partition entries lba:   '' @ TAB) w;
     w \<leftarrow> print_uart_addr b (le64 m (h + 72)) w;
     w \<leftarrow> print_uart b (CRLF @ TAB @ ''number partition entries:'' @ TAB) w;
     w \<leftarrow> print_uart_int b (le32 m (h + 80)) w;
     w \<leftarrow> print_uart b (CRLF @ TAB @ ''size partition entries:  '' @ TAB) w;
     w \<leftarrow> print_uart_int b (le32 m (h + 84)) w;
     print_uart b CRLF w
   }"

fun print_bytes :: "'w rom \<Rightarrow> u8 list \<Rightarrow> 'w \<Rightarrow> 'w option" where
  "print_bytes b [] w = Some w"
| "print_bytes b (x # xs) w = do { w \<leftarrow> print_uart_byte b x w; print_bytes b xs w }"

definition print_entry :: "'w rom \<Rightarrow> bmem \<Rightarrow> nat \<Rightarrow> nat \<Rightarrow> 'w \<Rightarrow> 'w option" where
  "print_entry b m buf i w = do {
     let p = buf + i * 128;
     w \<leftarrow> print_uart b ''gpt partition entry '' w;
     w \<leftarrow> print_uart_byte b (of_nat i) w;
     w \<leftarrow> print_uart b (CRLF @ TAB @ ''partition type guid:'' @ TAB) w;
     w \<leftarrow> print_bytes b (map m [p..<p + 16]) w;
     w \<leftarrow> print_uart b (CRLF @ TAB @ ''partition guid:     '' @ TAB) w;
     w \<leftarrow> print_bytes b (map m [p + 16..<p + 32]) w;
     w \<leftarrow> print_uart b (CRLF @ TAB @ ''first lba:'' @ TAB) w;
     w \<leftarrow> print_uart_addr b (le64 m (p + 32)) w;
     w \<leftarrow> print_uart b (CRLF @ TAB @ ''last lba:'' @ TAB) w;
     w \<leftarrow> print_uart_addr b (le64 m (p + 40)) w;
     w \<leftarrow> print_uart b (CRLF @ TAB @ ''attributes:'' @ TAB) w;
     w \<leftarrow> print_uart_addr b (le64 m (p + 48)) w;
     w \<leftarrow> print_uart b (CRLF @ TAB @ ''name:'' @ TAB) w;
     w \<leftarrow> print_bytes b (map m [p + 56..<p + 128]) w;
     print_uart b CRLF w
   }"

fun print_entries :: "'w rom \<Rightarrow> bmem \<Rightarrow> nat \<Rightarrow> nat list \<Rightarrow> 'w \<Rightarrow> 'w option" where
  "print_entries b m buf [] w = Some w"
| "print_entries b m buf (i # is) w = do { w \<leftarrow> print_entry b m buf i w; print_entries b m buf is w }"

text \<open>\<open>lba1_buf\<close> and \<open>lba2_buf\<close> are the addresses of the two blocks on the stack.\<close>

definition gpt_find_boot_partition :: "'w rom \<Rightarrow> nat \<Rightarrow> nat \<Rightarrow> nat \<Rightarrow> u32 \<Rightarrow> bmem \<Rightarrow> 'w \<Rightarrow> (int \<times> bmem \<times> 'w) option" where
  "gpt_find_boot_partition b lba1_buf lba2_buf dest size' m w = do {
     (ret, w) \<leftarrow> init_sd b w;
     (if ret \<noteq> 0
      then do { w \<leftarrow> print_uart b (''could not initialize sd... exiting'' @ CRLF) w; Some (-1, m, w) }
      else do {
        w \<leftarrow> print_uart b (''sd initialized!'' @ CRLF) w;
        (res, m, w) \<leftarrow> sd_copy b lba1_buf 1 1 m w;
        (if res \<noteq> 0 then do { w \<leftarrow> card_failed b res w; Some (-2, m, w) }
         else do {
           w \<leftarrow> print_header b m lba1_buf w;
           (res, m, w) \<leftarrow> sd_copy b lba2_buf (ucast (le64 m (lba1_buf + 72))) 1 m w;
           (if res \<noteq> 0 then do { w \<leftarrow> card_failed b res w; Some (-2, m, w) }
            else do {
              w \<leftarrow> print_entries b m lba2_buf [0, 1, 2, 3] w;
              w \<leftarrow> print_uart b ''copying boot image '' w;
              (res, m, w) \<leftarrow> sd_copy b dest (ucast (le64 m (lba2_buf + 32))) size' m w;
              (if res \<noteq> 0 then do { w \<leftarrow> card_failed b res w; Some (-2, m, w) }
               else do { w \<leftarrow> print_uart b ('' done!'' @ CRLF) w; Some (0, m, w) })
            })
         })
      })
   }"

text \<open>The ROM jumps to the image, or stays in an endless loop (\<open>None\<close>).\<close>

definition rom_main :: "'w rom \<Rightarrow> nat \<Rightarrow> nat \<Rightarrow> bmem \<Rightarrow> 'w \<Rightarrow> (u64 \<times> bmem \<times> 'w) option" where
  "rom_main b lba1_buf lba2_buf m w = do {
     let w = init_uart b 50000000 115200 w;
     w \<leftarrow> print_uart b (''Hello World!'' @ CRLF) w;
     (res, m, w) \<leftarrow> gpt_find_boot_partition b lba1_buf lba2_buf 0x80000000 (2 * 16384) m w;
     (if res = 0 then Some (0x80000000, m, w) else None)
   }"

declare sd_response.simps [simp del] sd_cmd0.simps [simp del] copy_blocks.simps [simp del]

end
