(* ===== verification/Bootrom_spec.thy ===== *)
theory Bootrom_spec
  imports Bootrom
begin

text \<open>
  The checksum of a block: the routine of the boot ROM, which works on nibbles, computes the checksum that the
  standard defines bit by bit.
\<close>

unbundle bit_operations_syntax

section \<open>Checksums\<close>

text \<open>The checksum the card uses: the byte is added at the top, then eight times the register is divided by the polynomial.\<close>

definition crc_shift :: "u16 \<Rightarrow> u16" where
  "crc_shift c = push_bit 1 c XOR (if bit c 15 then 0x1021 else 0)"

definition crc_ccitt :: "u16 \<Rightarrow> u8 \<Rightarrow> u16" where
  "crc_ccitt crc data = (crc_shift ^^ 8) (crc XOR push_bit 8 (ucast data))"

lemma crc_shift_xor: "crc_shift (x XOR y) = crc_shift x XOR crc_shift y"
  by (simp add: crc_shift_def bit_xor_iff push_bit_xor ac_simps)

lemma crc_shifts_xor: "(crc_shift ^^ k) (x XOR y) = (crc_shift ^^ k) x XOR (crc_shift ^^ k) y"
  by (induction k) (simp_all add: crc_shift_xor)

lemma crc_shifts_low: "k \<le> 8 \<Longrightarrow> (crc_shift ^^ k) (take_bit 8 l) = push_bit k (take_bit 8 l)"
proof (induction k)
  case (Suc k)
  then have "\<not> bit (push_bit k (take_bit 8 l)) 15" by (auto simp: bit_simps)
  then have "crc_shift (push_bit k (take_bit 8 l)) = push_bit 1 (push_bit k (take_bit 8 l))" by (simp add: crc_shift_def)
  with Suc.IH [OF Suc_leD [OF Suc.prems]] show ?case by (simp only: funpow.simps o_apply push_bit_push_bit plus_1_eq_Suc)
qed simp

text \<open>Functions on bytes that respect exclusive or agree if they agree on single bits.\<close>

lemma linear_eq:
  fixes f g :: "u8 \<Rightarrow> u16"
  assumes "\<And>x y. f (x XOR y) = f x XOR f y" "\<And>x y. g (x XOR y) = g x XOR g y" "\<And>i. i < 8 \<Longrightarrow> f (push_bit i 1) = g (push_bit i 1)"
  shows "f h = g h"
proof -
  have z: "f 0 = 0" "g 0 = 0" using assms(1) [of 0 0] assms(2) [of 0 0] by simp_all
  have "f (take_bit n h) = g (take_bit n h)" if "n \<le> 8" for n
    using that
  proof (induction n)
    case (Suc n)
    have "take_bit (Suc n) h = take_bit n h XOR (if bit h n then push_bit n 1 else 0)"
      by (rule bit_word_eqI) (auto simp: bit_simps less_Suc_eq)
    with Suc assms z show ?case by simp
  qed (simp add: z)
  from this [of 8] show ?thesis by (simp add: take_bit_word_eq_self)
qed

lemma pow8: "(f ^^ 8) x = f (f (f (f (f (f (f (f x)))))))"
  by (simp add: numeral_eq_Suc)

definition crc_table :: "u8 \<Rightarrow> u16" where
  "crc_table h = (let x = ucast (h XOR drop_bit 4 h) in x XOR push_bit 12 x XOR push_bit 5 x)"

lemma crc_table_shift: "crc_table h = (crc_shift ^^ 8) (push_bit 8 (ucast h))"
proof (rule linear_eq)
  show "crc_table (x XOR y) = crc_table x XOR crc_table y" for x y
    by (simp add: crc_table_def Let_def drop_bit_xor push_bit_xor unsigned_xor_eq ac_simps)
  show "(crc_shift ^^ 8) (push_bit 8 (ucast (x XOR y))) = (crc_shift ^^ 8) (push_bit 8 (ucast x)) XOR (crc_shift ^^ 8) (push_bit 8 (ucast y))" for x y :: u8
    by (simp add: push_bit_xor unsigned_xor_eq crc_shifts_xor)
  fix i :: nat
  assume "i < 8"
  then consider "i = 0" | "i = 1" | "i = 2" | "i = 3" | "i = 4" | "i = 5" | "i = 6" | "i = 7" by linarith
  then show "crc_table (push_bit i 1) = (crc_shift ^^ 8) (push_bit 8 (ucast (push_bit i (1 :: u8))))"
    by cases (simp_all add: crc_table_def crc_shift_def pow8)
qed

lemma crc16_table: "crc16 crc data = push_bit 8 crc XOR crc_table (ucast (drop_bit 8 crc) XOR data)"
proof -
  define h where "h = ucast (drop_bit 8 crc) XOR data"
  define x :: u16 where "x = ucast (h XOR drop_bit 4 h)"
  have 1: "(ucast (ucast (drop_bit 8 crc) :: u8) OR push_bit 8 crc) XOR ucast data = push_bit 8 crc XOR ucast h"
    unfolding h_def by (rule bit_word_eqI) (auto simp: bit_simps)
  have 2: "ucast ((ucast (drop_bit 4 (push_bit 8 crc XOR ucast h)) :: u8) AND 0xf) = (ucast (drop_bit 4 h) :: u16)"
  proof -
    have f: "y AND 0xf = take_bit 4 y" for y :: u8 by (simp add: take_bit_eq_mask mask_eq_exp_minus_1)
    show ?thesis unfolding f by (rule bit_word_eqI) (auto simp: bit_simps dest: bit_imp_le_length)
  qed
  have 3: "(push_bit 8 crc XOR ucast h) XOR ucast (drop_bit 4 h) = push_bit 8 crc XOR x" by (simp add: x_def unsigned_xor_eq ac_simps)
  have 4: "push_bit 12 (push_bit 8 crc XOR x) = push_bit 12 x" by (rule bit_word_eqI) (auto simp: bit_simps)
  have 5: "((push_bit 8 crc XOR x) XOR push_bit 12 x) AND 0xff = x"
  proof -
    have f: "y AND 0xff = take_bit 8 y" for y :: u16 by (simp add: take_bit_eq_mask mask_eq_exp_minus_1)
    show ?thesis unfolding f x_def by (rule bit_word_eqI) (auto simp: bit_simps dest: bit_imp_le_length)
  qed
  show ?thesis
    unfolding crc16_def Let_def 1 2 3 4 5 crc_table_def h_def [symmetric] x_def [symmetric] by (simp only: xor.assoc)
qed

lemma crc16_ccitt: "crc16 crc data = crc_ccitt crc data"
proof -
  let ?h = "ucast (drop_bit 8 crc) XOR data"
  have "crc XOR push_bit 8 (ucast data) = push_bit 8 (ucast ?h) XOR take_bit 8 crc"
    by (rule bit_word_eqI) (auto simp: bit_simps)
  then have "crc_ccitt crc data = (crc_shift ^^ 8) (push_bit 8 (ucast ?h)) XOR push_bit 8 (take_bit 8 crc)"
    unfolding crc_ccitt_def by (simp only: crc_shifts_xor crc_shifts_low)
  moreover have "push_bit 8 (take_bit 8 crc) = push_bit 8 crc"
    by (rule bit_word_eqI) (auto simp: bit_simps)
  ultimately show ?thesis by (simp add: crc16_table crc_table_shift ac_simps)
qed

text \<open>
  The shifts by nibbles in the routine for the checksum of a block compute the checksum of the standard: the
  remainder of the division by the polynomial, one bit after the other.
\<close>

theorem crc16_standard: "crc16 = crc_ccitt"
  by (intro ext) (rule crc16_ccitt)

end
