(* ===== verification/Bootrom_card.thy ===== *)
theory Bootrom_card
  imports Bootrom_spec
begin

text \<open>
  The boot ROM with its devices. A card in SPI mode is a state that answers byte by byte; \<open>spi_link\<close> says what the code
  for the card relies on, and in it the whole way of the ROM is followed once: reset, start, reading of blocks, the partition
  table and the image. The last sections give a board (controller, console and card), interpret the contract on it and state
  that the ROM loads the image.
\<close>

unbundle bit_operations_syntax

section \<open>Cards\<close>

text \<open>
  A card in SPI mode. It collects the six bytes of a command in \<open>cin\<close> while the bytes it answers wait in \<open>cout\<close>;
  a response follows after \<open>lat\<close> bytes. While it is \<open>reading\<close> it sends one block after the other: \<open>gap\<close> idle bytes, the
  start token, the bytes and their checksum. \<open>tries\<close> counts how often it says that it is still starting.
\<close>

record card =
  blocks :: "nat \<Rightarrow> u8 list"
  gap :: "nat \<Rightarrow> nat"
  lat :: nat
  tries :: nat
  cin :: "u8 list"
  cout :: "u8 list"
  reading :: "nat option"

definition crc_bytes :: "u8 list \<Rightarrow> u8 list" where
  "crc_bytes xs = (let x = foldl crc_ccitt 0 xs in [ucast (drop_bit 8 x), ucast x])"

definition packet :: "card \<Rightarrow> nat \<Rightarrow> u8 list" where
  "packet c k = replicate (gap c k) 0xFF @ 0xFE # blocks c k @ crc_bytes (blocks c k)"

definition argument :: "u8 list \<Rightarrow> u32" where
  "argument f = le_word (rev (take 4 (drop 1 f)))"

definition respond :: "u8 list \<Rightarrow> card \<Rightarrow> card" where
  "respond ys c = c\<lparr>cout := replicate (lat c) 0xFF @ ys\<rparr>"

text \<open>
  The card answers any command at any time and does not look at the checksum byte of a command: in SPI mode checksums are off
  unless the host turns them on, and the ROM sends a wrong one.
\<close>

definition execute :: "u8 list \<Rightarrow> card \<Rightarrow> card" where
  "execute f c =
     (let cmd = hd f AND 0x3F
      in if cmd = 0 then respond [1] (c\<lparr>reading := None\<rparr>)
         else if cmd = 8 then respond [1, 0, 0, 1, 0xAA] c
         else if cmd = 55 then respond [1] c
         else if cmd = 41 then (if tries c = 0 then respond [0] c else respond [1] (c\<lparr>tries := tries c - 1\<rparr>))
         else if cmd = 18 then respond [0] (c\<lparr>reading := Some (unat (argument f))\<rparr>)
         else if cmd = 12 then respond [0] (c\<lparr>reading := None\<rparr>)
         else respond [4] c)"

definition pop :: "card \<Rightarrow> u8 \<times> card" where
  "pop c = (case cout c of y # ys \<Rightarrow> (y, c\<lparr>cout := ys\<rparr>)
     | [] \<Rightarrow> (case reading c of None \<Rightarrow> (0xFF, c) | Some k \<Rightarrow> (hd (packet c k), c\<lparr>cout := tl (packet c k), reading := Some (k + 1)\<rparr>)))"

definition push :: "u8 \<Rightarrow> card \<Rightarrow> card" where
  "push x c =
     (if cin c = [] then (if x AND 0xC0 = 0x40 then c\<lparr>cin := [x]\<rparr> else c)
      else if length (cin c) = 5 then execute (cin c @ [x]) (c\<lparr>cin := []\<rparr>)
      else c\<lparr>cin := cin c @ [x]\<rparr>)"

definition xfer :: "u8 \<Rightarrow> card \<Rightarrow> u8 \<times> card" where
  "xfer x c = (let (y, c) = pop c in (y, push x c))"

fun xfers :: "u8 list \<Rightarrow> card \<Rightarrow> u8 list \<times> card" where
  "xfers [] c = ([], c)"
| "xfers (x # xs) c = (let (y, c) = xfer x c; (ys, c) = xfers xs c in (y # ys, c))"

definition idle :: "card \<Rightarrow> bool" where
  "idle c \<longleftrightarrow> cin c = [] \<and> cout c = [] \<and> reading c = None"

text \<open>Idle bytes only take what the card has to say.\<close>

lemma xfer_idle [simp]: "cin c = [] \<Longrightarrow> xfer 0xFF c = pop c"
  by (simp add: xfer_def push_def pop_def split: list.split option.split)

lemma pop_cout: "cout c = y # ys \<Longrightarrow> pop c = (y, c\<lparr>cout := ys\<rparr>)"
  by (simp add: pop_def)

lemma xfers_idle: "cin c = [] \<Longrightarrow> cout c = ys @ zs \<Longrightarrow> xfers (replicate (length ys) 0xFF) c = (ys, c\<lparr>cout := zs\<rparr>)"
  by (induction ys arbitrary: c) (auto simp: pop_cout)

lemma argument_bytes: "argument [x, ucast (drop_bit 24 a), ucast (drop_bit 16 a), ucast (drop_bit 8 a), ucast a, y] = a" for a :: u32
proof -
  have "[ucast a, ucast (drop_bit 8 a), ucast (drop_bit 16 a), ucast (drop_bit 24 a)] = le_bytes 4 a" by (simp add: le_bytes_def upt_rec)
  then show ?thesis by (simp add: argument_def le_word_le_bytes take_bit_word_eq_self)
qed

text \<open>A command and the idle byte before it: the card executes it, whatever it was sending.\<close>

definition frame_of :: "u8 \<Rightarrow> u32 \<Rightarrow> u8 \<Rightarrow> u8 list" where
  "frame_of cmd arg crc = [0x40 OR cmd, ucast (drop_bit 24 arg), ucast (drop_bit 16 arg), ucast (drop_bit 8 arg), ucast arg, crc]"

text \<open>\<open>c'\<close> is \<open>c\<close> but for what it has said meanwhile, and has collected \<open>f\<close>.\<close>

definition told :: "card \<Rightarrow> u8 list \<Rightarrow> card \<Rightarrow> bool" where
  "told c f c' \<longleftrightarrow> blocks c' = blocks c \<and> gap c' = gap c \<and> lat c' = lat c \<and> tries c' = tries c \<and> cin c' = f \<and>
     (reading c = None \<longrightarrow> reading c' = None)"

lemma told_pop: "told c f c' \<Longrightarrow> told c f (snd (pop c'))"
  by (auto simp: told_def pop_def split: list.split option.split)

lemma snd_xfer: "snd (xfer x c) = push x (snd (pop c))"
  by (simp add: xfer_def split: prod.split)

lemma told_idle: "told c [] c' \<Longrightarrow> told c [] (snd (xfer 0xFF c'))"
  using told_pop [of c "[]" c'] by (auto simp: snd_xfer push_def told_def)

lemma told_byte:
  assumes "told c f c'" "f = [] \<longrightarrow> x AND 0xC0 = 0x40" "length f < 5"
  shows "told c (f @ [x]) (snd (xfer x c'))"
  using told_pop [OF assms(1)] assms(2,3) by (auto simp: snd_xfer push_def told_def)

lemma told_last:
  assumes "told c f c'" "length f = 5"
  shows "\<exists>c''. snd (xfer x c') = execute (f @ [x]) c'' \<and> told c [] c''"
  using told_pop [OF assms(1)] assms(2)
  by (intro exI [of _ "snd (pop c')\<lparr>cin := []\<rparr>"]) (auto simp: snd_xfer push_def told_def)

lemma length_xfers: "length (fst (xfers xs c)) = length xs"
  by (induction xs arbitrary: c) (simp_all add: split_def Let_def)

lemma snd_xfers: "snd (xfers (x # xs) c) = snd (xfers xs (snd (xfer x c)))"
  by (simp split: prod.split)

lemma xfers_command:
  assumes "cin c = []" "cmd AND 0xC0 = 0"
  shows "\<exists>c'. snd (xfers (0xFF # frame_of cmd arg crc) c) = execute (frame_of cmd arg crc) c' \<and> told c [] c'"
proof -
  have start: "(0x40 OR cmd) AND 0xC0 = 0x40" using assms(2) by (simp add: bit.conj_disj_distrib2)
  let ?go = "\<lambda>x c. snd (xfer x c)"
  have "told c [] c" using assms(1) by (simp add: told_def)
  then have 0: "told c [] (?go 0xFF c)" by (rule told_idle)
  note 1 = told_byte [OF 0, of "0x40 OR cmd", simplified, OF start]
  note 2 = told_byte [OF 1, of "ucast (drop_bit 24 arg)", simplified]
  note 3 = told_byte [OF 2, of "ucast (drop_bit 16 arg)", simplified]
  note 4 = told_byte [OF 3, of "ucast (drop_bit 8 arg)", simplified]
  note 5 = told_byte [OF 4, of "ucast arg", simplified]
  from told_last [OF 5, of crc] show ?thesis unfolding frame_of_def snd_xfers by simp
qed

lemma hd_frame: "cmd AND 0xC0 = 0 \<Longrightarrow> hd (frame_of cmd arg crc) AND 0x3F = cmd"
proof -
  assume a: "cmd AND 0xC0 = 0"
  have "(0xC0 OR 0x3F :: u8) = -1" by simp
  then have "cmd = cmd AND (0xC0 OR 0x3F)" by (simp only: bit.conj_one_right)
  also have "\<dots> = cmd AND 0x3F" unfolding bit.conj_disj_distrib a by simp
  finally have "cmd AND 0x3F = cmd" ..
  then show ?thesis by (simp add: frame_of_def bit.conj_disj_distrib2)
qed

text \<open>What the commands leave behind.\<close>

lemma told_idle_card: "idle c \<Longrightarrow> told c [] c' \<Longrightarrow> c'\<lparr>cout := []\<rparr> = c"
  by (simp add: told_def idle_def)

definition fresh :: "card \<Rightarrow> card" where
  "fresh c = c\<lparr>cout := [], reading := None\<rparr>"

lemma fresh_idle: "cin c = [] \<Longrightarrow> idle (fresh c)"
  by (simp add: fresh_def idle_def)

lemma fresh_told: "told c [] c' \<Longrightarrow> cin c = [] \<Longrightarrow> fresh c' = fresh c"
  by (simp add: told_def fresh_def)

lemma told_idles: "told c [] c' \<Longrightarrow> told c [] (snd (xfers (replicate n 0xFF) c'))"
  by (induction n arbitrary: c') (simp, simp only: replicate_Suc snd_xfers told_idle)

lemma respond_told: "told c [] c' \<Longrightarrow> cin c = [] \<Longrightarrow> reading c = None \<Longrightarrow> respond ys c' = respond ys c"
  by (simp add: told_def respond_def)

lemma execute_told:
  assumes "told c [] c'" "cin c = []"
  shows "hd f AND 0x3F = 18 \<Longrightarrow> execute f c' = respond [0] (c\<lparr>reading := Some (unat (argument f))\<rparr>)"
    "hd f AND 0x3F = 12 \<Longrightarrow> execute f c' = respond [0] (c\<lparr>reading := None\<rparr>)"
    "reading c = None \<Longrightarrow> execute f c' = execute f c"
  using assms by (simp_all add: execute_def told_def respond_def Let_def)

text \<open>
  The partition table of a card: block 1 says at byte 72 where the entries are, and the first entry says at byte 32
  where the partition begins. The loader keeps the low 32 bits of both.
\<close>

definition entries_lba :: "card \<Rightarrow> nat" where
  "entries_lba c = unat (ucast (le_word (take 8 (drop 72 (blocks c 1))) :: u64) :: u32)"

definition boot_lba :: "card \<Rightarrow> nat" where
  "boot_lba c = unat (ucast (le_word (take 8 (drop 32 (blocks c (entries_lba c)))) :: u64) :: u32)"

definition boot_image :: "card \<Rightarrow> nat \<Rightarrow> u8 list" where
  "boot_image c n = concat (map (blocks c) [boot_lba c..<boot_lba c + n])"

section \<open>The contract with the SPI controller\<close>

text \<open>Bytes that were received, in memory.\<close>

definition put :: "nat \<Rightarrow> u8 list \<Rightarrow> bmem \<Rightarrow> bmem" where
  "put p ys m = (\<lambda>a. if p \<le> a \<and> a < p + length ys then ys ! (a - p) else m a)"

lemma put_append: "put (p + length xs) ys (put p xs m) = put p (xs @ ys) m"
  by (auto simp: put_def nth_append fun_eq_iff)

lemma put_Nil [simp]: "put p [] m = m"
  by (auto simp: put_def fun_eq_iff)

lemma put_map: "map (\<lambda>i. put p ys m (p + i)) [0..<length ys] = ys"
  by (rule nth_equalityI) (simp_all add: put_def)

lemma map_put: "i + n \<le> length ys \<Longrightarrow> map (put p ys m) [p + i..<p + i + n] = take n (drop i ys)"
  by (rule nth_equalityI) (simp_all add: put_def)

lemma le64_put: "i + 8 \<le> length ys \<Longrightarrow> le64 (put p ys m) (p + i) = le_word (take 8 (drop i ys))"
  by (simp only: le64_def map_put)

text \<open>\<open>silent\<close>: the operation returns and the card does not notice it.\<close>

definition silent :: "('w \<Rightarrow> bool) \<Rightarrow> ('w \<Rightarrow> card) \<Rightarrow> ('w \<Rightarrow> 'w option) \<Rightarrow> bool" where
  "silent ready sd f \<longleftrightarrow> (\<forall>w. ready w \<longrightarrow> (\<exists>w'. f w = Some w' \<and> ready w' \<and> sd w' = sd w))"

lemma silentD: "silent ready sd f \<Longrightarrow> ready w \<Longrightarrow> \<exists>w'. f w = Some w' \<and> ready w' \<and> sd w' = sd w"
  by (simp add: silent_def)

lemma silent_bind: "silent ready sd f \<Longrightarrow> silent ready sd g \<Longrightarrow> silent ready sd (\<lambda>w. f w \<bind> g)"
  unfolding silent_def by (metis bind.bind_lunit)

text \<open>
  What the code for the card relies on: one byte is exchanged by \<open>spi_txrx\<close>, many by \<open>spi_write_bytes\<close>, the console
  does not disturb the card, and \<open>spi_init\<close> makes the controller ready.
\<close>

locale spi_link =
  fixes b :: "'w rom" and ready :: "'w \<Rightarrow> bool" and sd :: "'w \<Rightarrow> card"
  assumes txrx: "ready w \<Longrightarrow> \<exists>w'. spi_txrx b x w = Some (fst (xfer x (sd w)), w') \<and> ready w' \<and> sd w' = snd (xfer x (sd w))"
    and burst: "ready w \<Longrightarrow> xs \<noteq> [] \<Longrightarrow> length xs \<le> 256 \<Longrightarrow>
      \<exists>w'. spi_write_bytes b xs p m w = Some (0, put p (fst (xfers xs (sd w))) m, w') \<and> ready w' \<and> sd w' = snd (xfers xs (sd w))"
    and console: "\<exists>w'. write_all b cs w = Some w' \<and> sd w' = sd w \<and> (ready w \<longrightarrow> ready w')" "sd (init_uart b f r w) = sd w"
    and start: "\<exists>w'. spi_init b w = Some w' \<and> ready w' \<and> sd w' = sd w"
begin

lemma say: "silent ready sd (write_all b cs)"
  unfolding silent_def using console(1) by metis

lemma silent_prints:
  "silent ready sd (print_uart b s)" "silent ready sd (print_uart_byte b x)" "silent ready sd (print_uart_int b y)" "silent ready sd (print_uart_addr b z)"
  unfolding print_uart_def print_uart_byte_def print_uart_int_def print_uart_addr_def by (rule say)+

lemma silent_some: "silent ready sd Some"
  by (simp add: silent_def)

lemma silent_status: "silent ready sd (print_status b s x)"
  unfolding print_status_def by (intro silent_bind silent_prints)

lemma send: "ready w \<Longrightarrow> \<exists>w'. send_bytes b xs w = Some w' \<and> ready w' \<and> sd w' = snd (xfers xs (sd w))"
proof (induction xs arbitrary: w)
  case (Cons x xs)
  obtain w1 where w1: "spi_txrx b x w = Some (fst (xfer x (sd w)), w1)" "ready w1" "sd w1 = snd (xfer x (sd w))"
    using txrx [OF Cons.prems] by blast
  from Cons.IH [OF w1(2)] w1 show ?case unfolding snd_xfers by simp
qed simp

lemma dummy:
  assumes "ready w" "cin (sd w) = []"
  shows "\<exists>w'. sd_dummy b w = Some (fst (pop (sd w)), w') \<and> ready w' \<and> sd w' = snd (pop (sd w))"
  using txrx [OF assms(1), where x = "0xFF"] assms(2) by (simp add: sd_dummy_def)

lemma dummy_cout:
  assumes "ready w" "cin (sd w) = []" "cout (sd w) = y # ys"
  shows "\<exists>w'. sd_dummy b w = Some (y, w') \<and> ready w' \<and> sd w' = (sd w)\<lparr>cout := ys\<rparr>"
  using dummy [OF assms(1,2)] by (simp add: pop_cout [OF assms(3)])

lemma dummy_quiet:
  assumes "ready w" "idle (sd w)"
  shows "\<exists>r w'. sd_dummy b w = Some (r, w') \<and> ready w' \<and> sd w' = sd w"
  using dummy [of w] assms by (auto simp: pop_def idle_def)

lemma response:
  assumes "ready w" "cin (sd w) = []" "cout (sd w) = replicate n 0xFF @ r # ys" "r AND 0x80 = 0" "n \<le> k"
  shows "\<exists>w'. sd_response b k w = Some (r, w') \<and> ready w' \<and> sd w' = (sd w)\<lparr>cout := ys\<rparr>"
  using assms
proof (induction n arbitrary: k w)
  case 0
  then have "cout (sd w) = r # ys" by simp
  with dummy_cout [OF 0(1,2)] 0(4) show ?case by (subst sd_response.simps) auto
next
  case (Suc n)
  then obtain k' where k: "k = Suc k'" "n \<le> k'" by (cases k) auto
  from Suc.prems(3) have "cout (sd w) = 0xFF # replicate n 0xFF @ r # ys" by simp
  from dummy_cout [OF Suc.prems(1,2) this] obtain w1 where
    w1: "sd_dummy b w = Some (0xFF, w1)" "ready w1" "sd w1 = (sd w)\<lparr>cout := replicate n 0xFF @ r # ys\<rparr>" by blast
  with Suc.IH [OF w1(2) _ _ Suc.prems(4) k(2)] Suc.prems(2) show ?case by (subst sd_response.simps) (simp add: k(1))
qed

text \<open>A command whose execution leaves the response \<open>r # ys\<close> and otherwise the card \<open>c\<close>.\<close>

lemma command:
  assumes "ready w" "cin (sd w) = []" "cmd AND 0xC0 = 0" "lat (sd w) \<le> 99"
    and "\<And>c'. told (sd w) [] c' \<Longrightarrow> execute (frame_of cmd arg crc) c' = respond (r # ys) c"
    and "cin c = []" "lat c = lat (sd w)" "r AND 0x80 = 0"
  shows "\<exists>w'. sd_cmd b cmd arg crc w = Some (r, w') \<and> ready w' \<and> sd w' = c\<lparr>cout := ys\<rparr>"
proof -
  obtain w1 where w1: "send_bytes b (0xFF # frame_of cmd arg crc) w = Some w1" "ready w1" "sd w1 = snd (xfers (0xFF # frame_of cmd arg crc) (sd w))"
    using send [OF assms(1)] by blast
  obtain c' where "sd w1 = execute (frame_of cmd arg crc) c'" "told (sd w) [] c'"
    using xfers_command [OF assms(2,3)] w1(3) by metis
  then have s: "sd w1 = respond (r # ys) c" using assms(5) by simp
  have "cin (sd w1) = []" "cout (sd w1) = replicate (lat c) 0xFF @ r # ys" using s assms(6) by (simp_all add: respond_def)
  from response [OF w1(2) this assms(8), of 99] assms(4,7) w1(1) s show ?thesis
    by (simp add: sd_cmd_def frame_of_def respond_def)
qed

text \<open>The response is one byte.\<close>

lemma command_r1:
  assumes "ready w" "cin (sd w) = []" "cmd AND 0xC0 = 0" "lat (sd w) \<le> 99"
    and "\<And>c'. told (sd w) [] c' \<Longrightarrow> execute (frame_of cmd arg crc) c' = respond [r] c"
    and "cin c = []" "cout c = []" "lat c = lat (sd w)" "r AND 0x80 = 0"
  shows "\<exists>w'. sd_cmd b cmd arg crc w = Some (r, w') \<and> ready w' \<and> sd w' = c"
proof -
  have "c\<lparr>cout := []\<rparr> = c" using assms(7) by simp
  with command [OF assms(1-6,8,9)] show ?thesis by metis
qed

lemma wait_token_cout:
  assumes "ready w" "cin (sd w) = []" "cout (sd w) = replicate n 0xFF @ 0xFE # ys"
  shows "\<exists>w'. wait_token b w = Some w' \<and> ready w' \<and> sd w' = (sd w)\<lparr>cout := ys\<rparr>"
  using assms
proof (induction n arbitrary: w)
  case 0
  then have "cout (sd w) = 0xFE # ys" by simp
  with dummy_cout [OF 0(1,2)] show ?case by (subst wait_token.simps) auto
next
  case (Suc n)
  from Suc.prems(3) have "cout (sd w) = 0xFF # replicate n 0xFF @ 0xFE # ys" by simp
  from dummy_cout [OF Suc.prems(1,2) this] obtain w1 where
    w1: "sd_dummy b w = Some (0xFF, w1)" "ready w1" "sd w1 = (sd w)\<lparr>cout := replicate n 0xFF @ 0xFE # ys\<rparr>" by blast
  with Suc.IH [OF w1(2)] Suc.prems(2) show ?case by (subst wait_token.simps) simp
qed

text \<open>A card that is about to send block \<open>k\<close>.\<close>

lemma wait_token_packet:
  assumes "ready w" "cin (sd w) = []" "cout (sd w) = []" "reading (sd w) = Some k"
  shows "\<exists>w'. wait_token b w = Some w' \<and> ready w' \<and>
    sd w' = (sd w)\<lparr>cout := blocks (sd w) k @ crc_bytes (blocks (sd w) k), reading := Some (k + 1)\<rparr>"
proof -
  let ?c = "(sd w)\<lparr>cout := tl (packet (sd w) k), reading := Some (k + 1)\<rparr>"
  have "pop (sd w) = (hd (packet (sd w) k), ?c)" using assms(3,4) by (simp add: pop_def)
  with dummy [OF assms(1,2)] obtain w1 where w1: "sd_dummy b w = Some (hd (packet (sd w) k), w1)" "ready w1" "sd w1 = ?c" by auto
  show ?thesis
  proof (cases "gap (sd w) k")
    case 0
    with w1 show ?thesis by (subst wait_token.simps) (simp add: packet_def)
  next
    case (Suc n)
    then have "cout (sd w1) = replicate n 0xFF @ 0xFE # blocks (sd w) k @ crc_bytes (blocks (sd w) k)" using w1(3) by (simp add: packet_def)
    moreover have "cin (sd w1) = []" using w1(3) assms(2) by simp
    ultimately obtain w2 where "wait_token b w1 = Some w2" "ready w2" "sd w2 = (sd w1)\<lparr>cout := blocks (sd w) k @ crc_bytes (blocks (sd w) k)\<rparr>"
      using wait_token_cout [OF w1(2)] by blast
    with w1 Suc show ?thesis by (subst wait_token.simps) (auto simp: packet_def intro!: card.equality)
  qed
qed

lemma copy_chunks_cout:
  assumes "ready w" "cin (sd w) = []" "cout (sd w) = ys @ zs" "length ys = 64 * k"
  shows "\<exists>w'. copy_chunks b k p crc m w = Some (foldl crc16 crc ys, put p ys m, w') \<and> ready w' \<and> sd w' = (sd w)\<lparr>cout := zs\<rparr>"
  using assms
proof (induction k arbitrary: p crc m w ys)
  case (Suc k)
  define xs where "xs = take 64 ys"
  have xs: "length xs = 64" "ys = xs @ drop 64 ys" "length (drop 64 ys) = 64 * k" using Suc.prems(4) by (simp_all add: xs_def)
  have "xfers (replicate 64 0xFF) (sd w) = (xs, (sd w)\<lparr>cout := drop 64 ys @ zs\<rparr>)"
    using xfers_idle [OF Suc.prems(2), of xs "drop 64 ys @ zs"] Suc.prems(3) xs by (metis append.assoc)
  with burst [OF Suc.prems(1), of "replicate 64 0xFF" p m] obtain w1 where
    w1: "spi_write_bytes b (replicate 64 0xFF) p m w = Some (0, put p xs m, w1)" "ready w1" "sd w1 = (sd w)\<lparr>cout := drop 64 ys @ zs\<rparr>" by auto
  have crc: "map (\<lambda>i. put p xs m (p + i)) [0..<64] = xs" using put_map [of p xs m] xs(1) by simp
  have "cin (sd w1) = []" "cout (sd w1) = drop 64 ys @ zs" using w1(3) Suc.prems(2) by simp_all
  from Suc.IH [OF w1(2) this xs(3)] obtain w2 where
    "copy_chunks b k (p + 64) (foldl crc16 crc xs) (put p xs m) w1 = Some (foldl crc16 (foldl crc16 crc xs) (drop 64 ys), put (p + 64) (drop 64 ys) (put p xs m), w2)"
    "ready w2" "sd w2 = (sd w1)\<lparr>cout := zs\<rparr>" by blast
  moreover have "foldl crc16 (foldl crc16 crc xs) (drop 64 ys) = foldl crc16 crc ys" using xs(2) by (metis foldl_append)
  moreover have "put (p + 64) (drop 64 ys) (put p xs m) = put p ys m" using put_append [of p xs "drop 64 ys" m] xs by metis
  ultimately show ?case using w1 crc by simp
qed simp

lemma crc_join: "push_bit 8 (ucast (ucast (drop_bit 8 x) :: u8)) OR ucast (ucast x :: u8) = x" for x :: u16
  by (rule bit_word_eqI) (auto simp: bit_simps)

lemma copy_block_reads:
  assumes "ready w" "cin (sd w) = []" "cout (sd w) = []" "reading (sd w) = Some k" "length (blocks (sd w) k) = 512"
  shows "\<exists>w'. copy_block b p m w = Some (True, put p (blocks (sd w) k) m, w') \<and> ready w' \<and> sd w' = (sd w)\<lparr>reading := Some (k + 1)\<rparr>"
proof -
  let ?d = "blocks (sd w) k"
  obtain w1 where w1: "wait_token b w = Some w1" "ready w1" "sd w1 = (sd w)\<lparr>cout := ?d @ crc_bytes ?d, reading := Some (k + 1)\<rparr>"
    using wait_token_packet [OF assms(1-4)] by blast
  have "cin (sd w1) = []" "cout (sd w1) = ?d @ crc_bytes ?d" using w1(3) assms(2) by simp_all
  from copy_chunks_cout [OF w1(2) this, of 8 p 0 m] assms(5) obtain w2 where
    w2: "copy_chunks b 8 p 0 m w1 = Some (foldl crc16 0 ?d, put p ?d m, w2)" "ready w2" "sd w2 = (sd w1)\<lparr>cout := crc_bytes ?d\<rparr>" by auto
  let ?x = "foldl crc_ccitt 0 ?d"
  have "foldl crc16 0 ?d = ?x" using crc16_ccitt by (metis foldl_cong)
  moreover have "cout (sd w2) = [ucast (drop_bit 8 ?x), ucast ?x]" "cin (sd w2) = []" using w2(3) w1(3) assms(2) by (simp_all add: crc_bytes_def Let_def)
  from dummy_cout [OF w2(2) this(2,1)] obtain w3 where
    w3: "sd_dummy b w2 = Some (ucast (drop_bit 8 ?x), w3)" "ready w3" "sd w3 = (sd w2)\<lparr>cout := [ucast ?x]\<rparr>" by blast
  then have "cin (sd w3) = []" "cout (sd w3) = [ucast ?x]" using w2(3) w1(3) assms(2) by simp_all
  from dummy_cout [OF w3(2) this] obtain w4 where w4: "sd_dummy b w3 = Some (ucast ?x, w4)" "ready w4" "sd w4 = (sd w3)\<lparr>cout := []\<rparr>" by blast
  moreover have "sd w4 = (sd w)\<lparr>reading := Some (k + 1)\<rparr>" using w4(3) w3(3) w2(3) w1(3) assms(3) by simp
  ultimately show ?thesis using w1(1) w2(1) w3(1) crc_join [of ?x] by (simp add: copy_block_def)
qed

lemma copy_blocks_read:
  assumes "ready w" "cin (sd w) = []" "cout (sd w) = []" "reading (sd w) = Some k" "\<And>k. length (blocks (sd w) k) = 512"
  shows "\<exists>w'. copy_blocks b i p m w = Some (0, put p (concat (map (blocks (sd w)) [k..<k + nat (max 1 i)])) m, w') \<and> ready w' \<and>
    sd w' = (sd w)\<lparr>reading := Some (k + nat (max 1 i))\<rparr>"
  using assms
proof (induction "nat i" arbitrary: i k p m w rule: less_induct)
  case less
  obtain w1 where w1: "copy_block b p m w = Some (True, put p (blocks (sd w) k) m, w1)" "ready w1" "sd w1 = (sd w)\<lparr>reading := Some (k + 1)\<rparr>"
    using copy_block_reads [OF less.prems(1-4) less.prems(5)] by blast
  obtain w2 where w2: "(if c_mod i 1000 = 0 then print_uart b ''.'' w1 else Some w1) = Some w2" "ready w2" "sd w2 = sd w1"
    using silentD [OF silent_prints(1) w1(2)] w1(2) by (metis (full_types))
  note step = w1(1) w2(1)
  show ?case
  proof (cases "i - 1 > 0")
    case True
    then have n: "nat (max 1 i) = Suc (nat (max 1 (i - 1)))" "nat (i - 1) < nat i" by (simp_all add: max_def)
    have "cin (sd w2) = []" "cout (sd w2) = []" "reading (sd w2) = Some (k + 1)" "length (blocks (sd w2) j) = 512" for j
      using w2(3) w1(3) less.prems by simp_all
    from less.hyps [OF n(2) w2(2) this, of "p + 512" "put p (blocks (sd w) k) m"] obtain w3 where
      w3: "copy_blocks b (i - 1) (p + 512) (put p (blocks (sd w) k) m) w2 =
        Some (0, put (p + 512) (concat (map (blocks (sd w2)) [k + 1..<k + 1 + nat (max 1 (i - 1))])) (put p (blocks (sd w) k) m), w3)"
      "ready w3" "sd w3 = (sd w2)\<lparr>reading := Some (k + 1 + nat (max 1 (i - 1)))\<rparr>" by blast
    have "[k..<k + nat (max 1 i)] = k # [k + 1..<k + 1 + nat (max 1 (i - 1))]" unfolding n(1) by (subst upt_conv_Cons) simp_all
    with put_append [of p "blocks (sd w) k"] less.prems(5) [of k] w3 step True w2(3) w1(3) n(1) show ?thesis
      by (subst copy_blocks.simps) simp
  next
    case False
    then have n: "nat (max 1 i) = 1" by (simp add: max_def)
    with step w2(2,3) w1(3) False show ?thesis unfolding n by (subst copy_blocks.simps) (simp add: upt_rec)
  qed
qed

lemma sd_copy_reads:
  assumes "ready w" "idle (sd w)" "\<And>k. length (blocks (sd w) k) = 512" "lat (sd w) \<le> 99"
  shows "\<exists>w'. sd_copy b dst lba n m w = Some (0, put dst (concat (map (blocks (sd w)) [unat lba..<unat lba + max 1 (unat n)])) m, w') \<and>
    ready w' \<and> sd w' = sd w"
proof -
  have idle: "cin (sd w) = []" "cout (sd w) = []" "reading (sd w) = None" using assms(2) by (simp_all add: idle_def)
  let ?f = "frame_of 18 lba (read_crc lba)" and ?c = "(sd w)\<lparr>reading := Some (unat lba)\<rparr>"
  have arg: "argument ?f = lba" unfolding frame_of_def by (rule argument_bytes)
  have e: "execute ?f c' = respond [0] ?c" if "told (sd w) [] c'" for c'
    using execute_told(1) [OF that idle(1), of ?f] hd_frame [of 18] arg by simp
  have "\<exists>w'. sd_cmd b 18 lba (read_crc lba) w = Some (0, w') \<and> ready w' \<and> sd w' = ?c"
    by (rule command_r1 [OF assms(1) idle(1) _ assms(4) e]) (simp_all add: idle)
  then obtain w1 where w1: "sd_cmd b 18 lba (read_crc lba) w = Some (0, w1)" "ready w1" "sd w1 = ?c" by blast
  let ?n = "max 1 (unat n)"
  have N: "nat (max 1 (uint n)) = ?n" by (simp add: max_def nat_le_eq_zle flip: unat_eq_nat_uint) (use unat_eq_nat_uint [of n] in linarith)
  have "cin (sd w1) = []" "cout (sd w1) = []" "reading (sd w1) = Some (unat lba)" "length (blocks (sd w1) j) = 512" for j
    using w1(3) idle assms(3) by simp_all
  from copy_blocks_read [OF w1(2) this, of "uint n" dst m, unfolded N] obtain w2 where
    w2: "copy_blocks b (uint n) dst m w1 = Some (0, put dst (concat (map (blocks (sd w)) [unat lba..<unat lba + ?n])) m, w2)" "ready w2"
      "sd w2 = (sd w)\<lparr>reading := Some (unat lba + ?n)\<rparr>" using w1(3) by auto
  have s: "(sd w2)\<lparr>reading := None\<rparr> = sd w" "cin (sd w2) = []" "lat (sd w2) = lat (sd w)" using w2(3) idle by simp_all
  have e: "execute (frame_of 12 0 1) c' = respond [0] (sd w)" if "told (sd w2) [] c'" for c'
    using execute_told(2) [OF that s(2), of "frame_of 12 0 1"] hd_frame [of 12] s(1) by simp
  have "\<exists>w'. sd_cmd b 12 0 1 w2 = Some (0, w') \<and> ready w' \<and> sd w' = sd w"
    by (rule command_r1 [OF w2(2) s(2) _ _ e]) (simp_all add: s(3) assms(4) idle)
  then obtain w3 where w3: "sd_cmd b 12 0 1 w2 = Some (0, w3)" "ready w3" "sd w3 = sd w" by blast
  obtain r w4 where "sd_dummy b w3 = Some (r, w4)" "ready w4" "sd w4 = sd w" using dummy_quiet [OF w3(2)] w3(3) assms(2) by auto
  with w1(1) w2(1) w3(1) show ?thesis by (simp add: sd_copy_def)
qed

text \<open>\<open>init_sd\<close>: whatever the card was sending, it is reset and started.\<close>

lemma resets:
  assumes "ready w" "cin (sd w) = []" "lat (sd w) \<le> 99"
  shows "\<exists>w'. sd_cmd0 b (Suc (Suc n)) w = Some (True, w') \<and> ready w' \<and> sd w' = fresh (sd w)"
proof -
  have e: "execute (frame_of 0 0 0x95) c' = respond [1] (fresh (sd w))" if "told (sd w) [] c'" for c'
    using that hd_frame [of 0] assms(2) by (simp add: execute_def told_def respond_def fresh_def)
  have "\<exists>w'. sd_cmd b 0 0 0x95 w = Some (1, w') \<and> ready w' \<and> sd w' = fresh (sd w)"
    by (rule command_r1 [OF assms(1,2) _ assms(3) e]) (simp_all add: assms fresh_def)
  then obtain w1 where w1: "sd_cmd b 0 0 0x95 w = Some (1, w1)" "ready w1" "sd w1 = fresh (sd w)" by blast
  obtain r w2 where w2: "sd_dummy b w1 = Some (r, w2)" "ready w2" "sd w2 = sd w1"
    using dummy_quiet [OF w1(2)] w1(3) fresh_idle [OF assms(2)] by metis
  from silentD [OF silent_status w2(2)] obtain w3 where "print_status b ''cmd0'' 1 w2 = Some w3" "ready w3" "sd w3 = sd w2" by metis
  with w1 w2 show ?thesis by (subst sd_cmd0.simps) simp
qed

lemma checks:
  assumes "ready w" "idle (sd w)" "lat (sd w) \<le> 99"
  shows "\<exists>w'. sd_cmd8 b w = Some (True, w') \<and> ready w' \<and> sd w' = sd w"
proof -
  have idle: "cin (sd w) = []" "cout (sd w) = []" "reading (sd w) = None" using assms(2) by (simp_all add: idle_def)
  have e: "execute (frame_of 8 0x1aa 0x87) c' = respond [1, 0, 0, 1, 0xAA] (sd w)" if "told (sd w) [] c'" for c'
    using that hd_frame [of 8] by (simp add: execute_def respond_told idle)
  have "\<exists>w'. sd_cmd b 8 0x1aa 0x87 w = Some (1, w') \<and> ready w' \<and> sd w' = (sd w)\<lparr>cout := [0, 0, 1, 0xAA]\<rparr>"
    by (rule command [OF assms(1) idle(1) _ assms(3) e]) (simp_all add: idle)
  then obtain w1 where w1: "sd_cmd b 8 0x1aa 0x87 w = Some (1, w1)" "ready w1" "sd w1 = (sd w)\<lparr>cout := [0, 0, 1, 0xAA]\<rparr>" by blast
  have pops: "\<exists>v'. sd_dummy b v = Some (y, v') \<and> ready v' \<and> sd v' = (sd w)\<lparr>cout := ys\<rparr>" if "ready v" "sd v = (sd w)\<lparr>cout := y # ys\<rparr>" for v y ys
    using dummy_cout [OF that(1), of y ys] that(2) idle(1) by simp
  obtain w2 where w2: "sd_dummy b w1 = Some (0, w2)" "ready w2" "sd w2 = (sd w)\<lparr>cout := [0, 1, 0xAA]\<rparr>" using pops w1 by blast
  obtain w3 where w3: "sd_dummy b w2 = Some (0, w3)" "ready w3" "sd w3 = (sd w)\<lparr>cout := [1, 0xAA]\<rparr>" using pops w2 by blast
  obtain w4 where w4: "sd_dummy b w3 = Some (1, w4)" "ready w4" "sd w4 = (sd w)\<lparr>cout := [0xAA]\<rparr>" using pops w3 by blast
  obtain w5 where w5: "sd_dummy b w4 = Some (0xAA, w5)" "ready w5" "sd w5 = (sd w)\<lparr>cout := []\<rparr>" using pops w4 by blast
  then have s: "sd w5 = sd w" using idle(2) by simp
  obtain x w6 where w6: "sd_dummy b w5 = Some (x, w6)" "ready w6" "sd w6 = sd w" using dummy_quiet [OF w5(2)] s assms(2) by metis
  obtain y w7 where "sd_dummy b w6 = Some (y, w7)" "ready w7" "sd w7 = sd w" using dummy_quiet [OF w6(2)] w6(3) assms(2) by metis
  with w1(1) w2(1) w3(1) w4(1) w5(1) w6(1) show ?thesis by (simp add: sd_cmd8_def)
qed

text \<open>A command that an idle card answers with one byte, the dummy byte that follows and the message on the console.\<close>

lemma asks:
  assumes "ready w" "idle (sd w)" "cmd AND 0xC0 = 0" "lat (sd w) \<le> 99"
    and "execute (frame_of cmd arg crc) (sd w) = respond [r] c" "idle c" "lat c = lat (sd w)" "r AND 0x80 = 0"
  shows "\<exists>w'. sd_cmd b cmd arg crc w = Some (r, w') \<and> ready w' \<and> sd w' = c"
proof (rule command_r1 [OF assms(1) _ assms(3,4)])
  show "execute (frame_of cmd arg crc) c' = respond [r] c" if "told (sd w) [] c'" for c'
    using execute_told(3) [OF that] assms(2,5) by (simp add: idle_def)
qed (use assms in \<open>simp_all add: idle_def\<close>)

lemma announces:
  assumes "ready w" "idle (sd w)" "lat (sd w) \<le> 99"
  shows "\<exists>w'. sd_cmd55 b w = Some (True, w') \<and> ready w' \<and> sd w' = sd w"
proof -
  have "execute (frame_of 55 0 0x65) (sd w) = respond [1] (sd w)" using hd_frame [of 55] by (simp add: execute_def)
  from asks [OF assms(1,2) _ assms(3) this assms(2)] obtain w1 where
    w1: "sd_cmd b 55 0 0x65 w = Some (1, w1)" "ready w1" "sd w1 = sd w" by auto
  obtain x w2 where w2: "sd_dummy b w1 = Some (x, w2)" "ready w2" "sd w2 = sd w" using dummy_quiet [OF w1(2)] w1(3) assms(2) by metis
  from silentD [OF silent_status w2(2)] obtain w3 where "print_status b ''cmd55'' 1 w2 = Some w3" "ready w3" "sd w3 = sd w2" by metis
  with w1 w2 show ?thesis by (simp add: sd_cmd55_def)
qed

lemma starts:
  assumes "ready w" "idle (sd w)" "lat (sd w) \<le> 99"
  shows "\<exists>w'. sd_acmd41 b w = Some (True, w') \<and> ready w' \<and> sd w' = (sd w)\<lparr>tries := 0\<rparr>"
  using assms
proof (induction "tries (sd w)" arbitrary: w)
  case 0
  obtain w1 where w1: "sd_cmd55 b w = Some (True, w1)" "ready w1" "sd w1 = sd w" using announces 0(2-) by blast
  have e: "execute (frame_of 41 0x40000000 0x77) (sd w1) = respond [0] (sd w)" using hd_frame [of 41] 0(1) w1(3) by (simp add: execute_def)
  have "\<exists>w'. sd_cmd b 41 0x40000000 0x77 w1 = Some (0, w') \<and> ready w' \<and> sd w' = sd w"
    by (rule asks [OF w1(2) _ _ _ e]) (simp_all add: w1(3) 0)
  then obtain w2 where w2: "sd_cmd b 41 0x40000000 0x77 w1 = Some (0, w2)" "ready w2" "sd w2 = sd w" by blast
  from silentD [OF silent_status w2(2)] obtain w3 where w3: "print_status b ''cmd41'' 0 w2 = Some w3" "ready w3" "sd w3 = sd w" using w2(3) by metis
  obtain x w4 where "sd_dummy b w3 = Some (x, w4)" "ready w4" "sd w4 = sd w" using dummy_quiet [OF w3(2)] w3(3) 0(3) by metis
  with w1 w2 w3 0(1) show ?case by (subst sd_acmd41.simps) simp
next
  case (Suc n)
  let ?c = "(sd w)\<lparr>tries := n\<rparr>"
  obtain w1 where w1: "sd_cmd55 b w = Some (True, w1)" "ready w1" "sd w1 = sd w" using announces Suc.prems by blast
  have c: "idle ?c" "lat ?c \<le> 99" using Suc.prems by (simp_all add: idle_def)
  have e: "execute (frame_of 41 0x40000000 0x77) (sd w1) = respond [1] ?c"
    using hd_frame [of 41] w1(3) by (simp add: execute_def flip: Suc.hyps(2))
  have "\<exists>w'. sd_cmd b 41 0x40000000 0x77 w1 = Some (1, w') \<and> ready w' \<and> sd w' = ?c"
    by (rule asks [OF w1(2) _ _ _ e]) (simp_all add: w1(3) c Suc.prems)
  then obtain w2 where w2: "sd_cmd b 41 0x40000000 0x77 w1 = Some (1, w2)" "ready w2" "sd w2 = ?c" by blast
  from silentD [OF silent_status w2(2)] obtain w3 where w3: "print_status b ''cmd41'' 1 w2 = Some w3" "ready w3" "sd w3 = ?c" using w2(3) by metis
  obtain x w4 where w4: "sd_dummy b w3 = Some (x, w4)" "ready w4" "sd w4 = ?c" using dummy_quiet [OF w3(2)] w3(3) c(1) by metis
  have "\<exists>w'. sd_acmd41 b w4 = Some (True, w') \<and> ready w' \<and> sd w' = (sd w4)\<lparr>tries := 0\<rparr>"
    by (rule Suc.hyps(1)) (use w4 c in simp_all)
  with w1 w2 w3 w4 show ?case by (subst sd_acmd41.simps) simp
qed

lemma init_sd_works:
  assumes "cin (sd w) = []" "lat (sd w) \<le> 99"
  shows "\<exists>w'. init_sd b w = Some (0, w') \<and> ready w' \<and> sd w' = (fresh (sd w))\<lparr>tries := 0\<rparr>"
proof -
  obtain w1 where w1: "spi_init b w = Some w1" "ready w1" "sd w1 = sd w" using start by blast
  obtain w2 where w2: "print_uart b (''initializing SD... '' @ CRLF) w1 = Some w2" "ready w2" "sd w2 = sd w"
    using silentD [OF silent_prints(1) w1(2)] w1(3) by metis
  obtain w3 where w3: "send_bytes b (replicate 10 0xFF) w2 = Some w3" "ready w3" "sd w3 = snd (xfers (replicate 10 0xFF) (sd w))"
    using send [OF w2(2)] w2(3) by metis
  have "told (sd w) [] (sd w)" using assms(1) by (simp add: told_def)
  then have t: "told (sd w) [] (sd w3)" unfolding w3(3) by (rule told_idles)
  then have s: "cin (sd w3) = []" "lat (sd w3) \<le> 99" "fresh (sd w3) = fresh (sd w)" "lat (fresh (sd w)) \<le> 99"
    using fresh_told [OF t assms(1)] assms(2) by (simp_all add: told_def fresh_def)
  obtain w4 where w4: "sd_cmd0 b 10000 w3 = Some (True, w4)" "ready w4" "sd w4 = fresh (sd w)"
    using resets [OF w3(2) s(1,2), of 9998] s(3) by auto
  obtain w5 where w5: "sd_cmd8 b w4 = Some (True, w5)" "ready w5" "sd w5 = fresh (sd w)"
    using checks [OF w4(2)] w4(3) fresh_idle [OF assms(1)] s(4) by metis
  obtain w6 where "sd_acmd41 b w5 = Some (True, w6)" "ready w6" "sd w6 = (fresh (sd w))\<lparr>tries := 0\<rparr>"
    using starts [OF w5(2)] w5(3) fresh_idle [OF assms(1)] s(4) by metis
  with w1(1) w2(1) w3(1) w4(1) w5(1) show ?thesis by (simp add: init_sd_def)
qed

lemma silent_bytes: "silent ready sd (print_bytes b xs)"
proof (induction xs)
  case (Cons x xs)
  have "print_bytes b (x # xs) = (\<lambda>w. print_uart_byte b x w \<bind> print_bytes b xs)" by (simp add: fun_eq_iff)
  with silent_bind [OF silent_prints(2) Cons.IH] show ?case by simp
qed (simp add: silent_def)

lemma silent_header: "silent ready sd (print_header b m h)"
  unfolding print_header_def by (intro silent_bind silent_prints)

lemma silent_entry: "silent ready sd (print_entry b m p i)"
  unfolding print_entry_def Let_def by (intro silent_bind silent_prints silent_bytes)

lemma silent_entries: "silent ready sd (print_entries b m p is)"
proof (induction "is")
  case (Cons i "is")
  have "print_entries b m p (i # is) = (\<lambda>w. print_entry b m p i w \<bind> print_entries b m p is)" by (simp add: fun_eq_iff)
  with silent_bind [OF silent_entry Cons.IH] show ?case by simp
qed (simp add: silent_def)

lemma finds_partition:
  assumes "cin (sd w) = []" "lat (sd w) \<le> 99" "\<And>k. length (blocks (sd w) k) = 512"
  shows "\<exists>w'. gpt_find_boot_partition b l1 l2 dest n m w = Some (0, put dest (boot_image (sd w) (max 1 (unat n)))
    (put l2 (blocks (sd w) (entries_lba (sd w))) (put l1 (blocks (sd w) 1) m)), w') \<and> ready w' \<and> sd w' = (fresh (sd w))\<lparr>tries := 0\<rparr>"
proof -
  let ?c = "(fresh (sd w))\<lparr>tries := 0\<rparr>"
  have c: "idle ?c" "length (blocks ?c k) = 512" "lat ?c \<le> 99" "blocks ?c = blocks (sd w)" for k
    using assms by (simp_all add: idle_def fresh_def)
  have go: "\<exists>v'. sd_copy b p lba k m v = Some (0, put p (concat (map (blocks (sd w)) [unat lba..<unat lba + max 1 (unat k)])) m, v') \<and> ready v' \<and> sd v' = ?c"
    if "ready v" "sd v = ?c" for p lba k m v
    using sd_copy_reads [OF that(1)] that(2) c by metis
  have say: "\<exists>v'. f v = Some v' \<and> ready v' \<and> sd v' = ?c" if "silent ready sd f" "ready v" "sd v = ?c" for f v
    using silentD [OF that(1,2)] that(3) by metis
  define m1 where "m1 = put l1 (blocks (sd w) 1) m"
  define m2 where "m2 = put l2 (blocks (sd w) (entries_lba (sd w))) m1"
  define e f :: u32 where "e = ucast (le64 m1 (l1 + 72))" and "f = ucast (le64 m2 (l2 + 32))"
  have e: "unat e = entries_lba (sd w)" "unat f = boot_lba (sd w)"
    by (simp_all add: e_def f_def m1_def m2_def le64_put assms(3) entries_lba_def boot_lba_def)
  obtain w0 where w0: "init_sd b w = Some (0, w0)" "ready w0" "sd w0 = ?c" using init_sd_works [OF assms(1,2)] by blast
  obtain w1 where w1: "print_uart b (''sd initialized!'' @ CRLF) w0 = Some w1" "ready w1" "sd w1 = ?c" using say [OF silent_prints(1) w0(2,3)] by blast
  obtain w2 where w2: "sd_copy b l1 1 1 m w1 = Some (0, m1, w2)" "ready w2" "sd w2 = ?c" using go [OF w1(2,3), of l1 1 1 m] by (auto simp: m1_def)
  obtain w3 where w3: "print_header b m1 l1 w2 = Some w3" "ready w3" "sd w3 = ?c" using say [OF silent_header w2(2,3)] by blast
  obtain w4 where w4: "sd_copy b l2 e 1 m1 w3 = Some (0, m2, w4)" "ready w4" "sd w4 = ?c"
    using go [OF w3(2,3), of l2 e 1 m1] e(1) by (auto simp: m2_def)
  obtain w5 where w5: "print_entries b m2 l2 [0, 1, 2, 3] w4 = Some w5" "ready w5" "sd w5 = ?c" using say [OF silent_entries w4(2,3)] by blast
  obtain w6 where w6: "print_uart b ''copying boot image '' w5 = Some w6" "ready w6" "sd w6 = ?c" using say [OF silent_prints(1) w5(2,3)] by blast
  obtain w7 where w7: "sd_copy b dest f n m2 w6 = Some (0, put dest (boot_image (sd w) (max 1 (unat n))) m2, w7)" "ready w7" "sd w7 = ?c"
    using go [OF w6(2,3), of dest f n m2] e(2) by (auto simp: boot_image_def)
  obtain w8 where "print_uart b ('' done!'' @ CRLF) w7 = Some w8" "ready w8" "sd w8 = ?c" using say [OF silent_prints(1) w7(2,3)] by blast
  with w0(1) w1(1) w2(1) w3(1) w4(1) w5(1) w6(1) w7(1) have "gpt_find_boot_partition b l1 l2 dest n m w = Some (0, put dest (boot_image (sd w) (max 1 (unat n))) m2, w8)"
    by (simp add: gpt_find_boot_partition_def del: print_entries.simps flip: e_def f_def)
  with \<open>ready w8\<close> \<open>sd w8 = ?c\<close> show ?thesis unfolding m2_def m1_def by blast
qed

lemma rom_boots:
  assumes "cin (sd w) = []" "lat (sd w) \<le> 99" "\<And>k. length (blocks (sd w) k) = 512"
  shows "\<exists>w'. rom_main b l1 l2 m w = Some (0x80000000, put 0x80000000 (boot_image (sd w) 32768)
    (put l2 (blocks (sd w) (entries_lba (sd w))) (put l1 (blocks (sd w) 1) m)), w')"
proof -
  obtain w1 where w1: "print_uart b (''Hello World!'' @ CRLF) (init_uart b 50000000 115200 w) = Some w1" "sd w1 = sd w"
    unfolding print_uart_def using console by metis
  from finds_partition [of w1 l1 l2 "0x80000000" "2 * 16384" m] assms w1(2) obtain w2 where
    "gpt_find_boot_partition b l1 l2 0x80000000 (2 * 16384) m w1 = Some (0, put 0x80000000 (boot_image (sd w) 32768)
      (put l2 (blocks (sd w) (entries_lba (sd w))) (put l1 (blocks (sd w) 1) m)), w2)" by auto
  with w1(1) show ?thesis by (simp add: rom_main_def)
qed

end

section \<open>A board with a card\<close>

text \<open>
  The devices of the board: the SPI controller (its control and slave-select registers, two queues of 256 bytes, and how
  many more polls a byte takes to show up), the console (its line control register and how many polls it stays busy), and
  the card in its slot. The controller sends its queue whenever it is enabled (bit 1) and not inhibited (bit 8).
\<close>

record board =
  ctl :: u32
  sel :: u32
  txq :: "u8 list"
  rxq :: "u8 list"
  lag :: nat
  pace :: nat
  lcr :: u8
  busy :: nat
  baud :: nat
  line :: "u8 list"
  slot :: card

definition drain :: "board \<Rightarrow> board" where
  "drain w =
     (if ctl w AND 0x102 = 2
      then (if sel w AND 1 = 0
            then w\<lparr>txq := [], rxq := rxq w @ fst (xfers (txq w) (slot w)), slot := snd (xfers (txq w) (slot w))\<rparr>
            else w\<lparr>txq := [], rxq := rxq w @ map (\<lambda>_. 0xFF) (txq w)\<rparr>)
      else w)"

definition board_w32 :: "u64 \<Rightarrow> u32 \<Rightarrow> board \<Rightarrow> board" where
  "board_w32 a v w =
     (if a = SPI_RESET_REG then (if v = 0x0A then w\<lparr>ctl := 0x180, sel := 0xFFFFFFFF, txq := [], rxq := [], lag := pace w\<rparr> else w)
      else if a = SPI_CONTROL_REG
      then drain (w\<lparr>ctl := v AND 0x39F, txq := (if v AND 0x20 = 0 then txq w else []), rxq := (if v AND 0x40 = 0 then rxq w else [])\<rparr>)
      else if a = SPI_TRANSMIT_REG then (if length (txq w) < 256 then drain (w\<lparr>txq := txq w @ [ucast v]\<rparr>) else w)
      else if a = SPI_SLAVE_SELECT_REG then w\<lparr>sel := v\<rparr>
      else w)"

definition board_r32 :: "u64 \<Rightarrow> board \<Rightarrow> u32 \<times> board" where
  "board_r32 a w =
     (if a = SPI_STATUS_REG
      then ((if rxq w = [] \<or> lag w \<noteq> 0 then 1 else 0) OR (if txq w = [] then 4 else 0), w\<lparr>lag := lag w - 1\<rparr>)
      else if a = SPI_RECEIVE_REG then (case rxq w of [] \<Rightarrow> (0, w) | y # ys \<Rightarrow> (ucast y, w\<lparr>rxq := ys, lag := pace w\<rparr>))
      else (0, w))"

definition board_w8 :: "u64 \<Rightarrow> u8 \<Rightarrow> board \<Rightarrow> board" where
  "board_w8 a v w =
     (if a = 0x1000000C then w\<lparr>lcr := v\<rparr>
      else if a = 0x10000000 \<and> lcr w AND 0x80 = 0 then w\<lparr>line := line w @ [v], busy := baud w\<rparr>
      else w)"

definition board_r8 :: "u64 \<Rightarrow> board \<Rightarrow> u8 \<times> board" where
  "board_r8 a w = (if a = 0x10000014 then (if busy w = 0 then 0x60 else 0, w\<lparr>busy := busy w - 1\<rparr>) else (0, w))"

definition board_bus :: "board rom" where
  "board_bus = \<lparr>r32 = board_r32, w32 = board_w32, r8 = board_r8, w8 = board_w8\<rparr>"

lemma board_bus_sel [simp]: "r32 board_bus = board_r32" "w32 board_bus = board_w32" "r8 board_bus = board_r8" "w8 board_bus = board_w8"
  by (simp_all add: board_bus_def)

definition spi_ready :: "board \<Rightarrow> bool" where
  "spi_ready w \<longleftrightarrow> ctl w = 6 \<and> txq w = [] \<and> rxq w = []"

text \<open>\<open>aside\<close>: everything but the console is untouched.\<close>

definition aside :: "board \<Rightarrow> board \<Rightarrow> bool" where
  "aside w w' \<longleftrightarrow> ctl w' = ctl w \<and> sel w' = sel w \<and> txq w' = txq w \<and> rxq w' = rxq w \<and> lag w' = lag w \<and> pace w' = pace w \<and> slot w' = slot w"

lemma aside_trans: "aside w w' \<Longrightarrow> aside w' w'' \<Longrightarrow> aside w w''"
  by (simp add: aside_def)

lemma aside_refl [simp]: "aside w w"
  by (simp add: aside_def)

lemma aside_keeps: "aside w w' \<Longrightarrow> slot w' = slot w \<and> (spi_ready w \<longrightarrow> spi_ready w')"
  by (simp add: aside_def spi_ready_def)

lemma aside_w8: "aside w (board_w8 a v w)"
  by (simp add: aside_def board_w8_def)

lemma aside_serial: "\<exists>w'. write_serial board_bus x w = Some w' \<and> aside w w'"
proof (induction "busy w" arbitrary: w)
  case 0
  have "aside w (w\<lparr>busy := 0\<rparr>)" by (simp add: aside_def)
  with 0 aside_trans [OF _ aside_w8] show ?case
    by (subst write_serial.simps) (auto simp: is_transmit_empty_def board_r8_def)
next
  case (Suc n)
  have "aside w (w\<lparr>busy := n\<rparr>)" by (simp add: aside_def)
  moreover obtain w' where "write_serial board_bus x (w\<lparr>busy := n\<rparr>) = Some w'" "aside (w\<lparr>busy := n\<rparr>) w'"
    using Suc.hyps(1) [of "w\<lparr>busy := n\<rparr>"] by auto
  ultimately show ?case using aside_trans
    by (subst write_serial.simps) (auto simp: is_transmit_empty_def board_r8_def simp flip: Suc.hyps(2))
qed

lemma aside_write: "\<exists>w'. write_all board_bus cs w = Some w' \<and> aside w w'"
proof (induction cs arbitrary: w)
  case (Cons c cs)
  obtain w1 where w1: "write_serial board_bus c w = Some w1" "aside w w1" using aside_serial by blast
  obtain w2 where "write_all board_bus cs w1 = Some w2" "aside w1 w2" using Cons.IH by blast
  with w1 aside_trans show ?case by auto
qed simp

lemma aside_init: "aside w (init_uart board_bus f r w)"
  unfolding init_uart_def Let_def board_bus_sel by (intro aside_trans [OF _ aside_w8] aside_refl)

lemma wait_received_lag:
  assumes "rxq w \<noteq> []"
  shows "wait_received board_bus w = Some (w\<lparr>lag := 0\<rparr>)"
  using assms
proof (induction "lag w" arbitrary: w)
  case 0
  then show ?case by (subst wait_received.simps) (simp add: board_r32_def)
next
  case (Suc n)
  have "(1 OR 4 :: u32) AND 1 = 1" by simp
  with Suc.hyps(1) [of "w\<lparr>lag := n\<rparr>"] Suc.prems show ?case
    by (subst wait_received.simps) (simp add: board_r32_def flip: Suc.hyps(2))
qed

lemma receive_lag:
  assumes "rxq w \<noteq> []" "n > 0"
  shows "receive board_bus n p m w = receive board_bus n p m (w\<lparr>lag := 0\<rparr>)"
  using assms
proof (induction "lag w" arbitrary: w)
  case 0
  then have "w\<lparr>lag := 0\<rparr> = w" by simp
  then show ?case by (simp only:)
next
  case (Suc k)
  from Suc.hyps(1) [of "w\<lparr>lag := k\<rparr>"] Suc.prems show ?case
    by (subst receive.simps) (simp add: board_r32_def flip: Suc.hyps(2))
qed

lemma byte_register: "ucast (ucast x :: u32) = x" "ucast (ucast x AND 0xff :: u32) = x" for x :: u8
proof -
  show "ucast (ucast x :: u32) = x" by (rule bit_word_eqI) (auto simp: bit_simps)
  have "ucast x AND 0xff = take_bit 8 (ucast x :: u32)" by (simp add: take_bit_eq_mask mask_eq_exp_minus_1)
  then show "ucast (ucast x AND 0xff :: u32) = x" by (simp only:) (rule bit_word_eqI, auto simp: bit_simps)
qed

lemma receive_all:
  "receive board_bus (length (rxq w)) p m w = Some (put p (rxq w) m, w\<lparr>rxq := [], lag := if rxq w = [] then lag w else pace w\<rparr>)"
proof (induction "rxq w" arbitrary: p m w)
  case Nil
  from Nil [symmetric] show ?case by (subst receive.simps) (simp add: Nil [symmetric])
next
  case (Cons y ys)
  let ?w = "w\<lparr>rxq := ys, lag := pace w\<rparr>"
  have "receive board_bus (length (rxq w)) p m w = receive board_bus (length (rxq w)) p m (w\<lparr>lag := 0\<rparr>)"
    by (rule receive_lag) (simp_all flip: Cons.hyps(2))
  also have "\<dots> = receive board_bus (length ys) (p + 1) (m(p := y)) ?w"
    by (subst receive.simps) (simp add: board_r32_def byte_register flip: Cons.hyps(2))
  also have "\<dots> = Some (put (p + 1) ys (m(p := y)), w\<lparr>rxq := [], lag := pace w\<rparr>)"
    using Cons.hyps(1) [of ?w "p + 1" "m(p := y)"] by simp
  also have "put (p + 1) ys (m(p := y)) = put p (y # ys) m"
    by (auto simp: put_def fun_eq_iff nth_Cons' split: if_splits)
  finally show ?case by (simp flip: Cons.hyps(2))
qed

lemma transmit_all:
  assumes "ctl w = 6" "sel w AND 1 = 0" "txq w = []"
  shows "fold (\<lambda>x. board_w32 SPI_TRANSMIT_REG (ucast x AND 0xff)) xs w =
    w\<lparr>rxq := rxq w @ fst (xfers xs (slot w)), slot := snd (xfers xs (slot w))\<rparr>"
  using assms
proof (induction xs arbitrary: w)
  case (Cons x xs)
  have "board_w32 SPI_TRANSMIT_REG (ucast x AND 0xff) w = w\<lparr>rxq := rxq w @ [fst (xfer x (slot w))], slot := snd (xfer x (slot w))\<rparr>"
    using Cons.prems by (simp add: board_w32_def drain_def byte_register split: prod.split)
  with Cons.IH [of "w\<lparr>rxq := rxq w @ [fst (xfer x (slot w))], slot := snd (xfer x (slot w))\<rparr>"] Cons.prems show ?case
    by (simp split: prod.split)
qed simp

lemma board_txrx:
  assumes "spi_ready w"
  shows "\<exists>w'. spi_txrx board_bus x w = Some (fst (xfer x (slot w)), w') \<and> spi_ready w' \<and> slot w' = snd (xfer x (slot w))"
proof -
  let ?w = "w\<lparr>sel := 0xfffffffe, ctl := 0x106, rxq := [fst (xfer x (slot w))], slot := snd (xfer x (slot w))\<rparr>"
  have sent: "board_w32 SPI_CONTROL_REG 0x106 (board_w32 SPI_TRANSMIT_REG (ucast x) (board_w32 SPI_SLAVE_SELECT_REG 0xfffffffe w)) = ?w"
    using assms by (simp add: board_w32_def drain_def spi_ready_def byte_register split: prod.split)
  have "wait_received board_bus ?w = Some (?w\<lparr>lag := 0\<rparr>)" by (rule wait_received_lag) simp
  with assms show ?thesis unfolding spi_txrx_def Let_def board_bus_sel sent
    by (simp add: board_r32_def board_w32_def drain_def spi_ready_def byte_register)
qed

lemma board_burst:
  assumes "spi_ready w" "xs \<noteq> []" "length xs \<le> 256"
  shows "\<exists>w'. spi_write_bytes board_bus xs p m w = Some (0, put p (fst (xfers xs (slot w))) m, w') \<and> spi_ready w' \<and> slot w' = snd (xfers xs (slot w))"
proof -
  let ?ys = "fst (xfers xs (slot w))"
  let ?w = "w\<lparr>sel := 0xfffffffe, ctl := 0x106, rxq := ?ys, slot := snd (xfers xs (slot w))\<rparr>"
  have ys: "length ?ys = length xs" by (rule length_xfers)
  have sent: "board_w32 SPI_CONTROL_REG 0x106 (fold (\<lambda>x. board_w32 SPI_TRANSMIT_REG (ucast x AND 0xff)) xs (board_w32 SPI_SLAVE_SELECT_REG 0xfffffffe w)) = ?w"
    using assms(1) transmit_all [of "w\<lparr>sel := 0xfffffffe\<rparr>" xs] by (simp add: board_w32_def drain_def spi_ready_def)
  have "wait_received board_bus ?w = Some (?w\<lparr>lag := 0\<rparr>)"
    by (rule wait_received_lag) (use ys assms(2) in auto)
  moreover have "receive board_bus (length xs) p m (?w\<lparr>lag := 0\<rparr>) = Some (put p ?ys m, ?w\<lparr>rxq := [], lag := pace w\<rparr>)"
    using receive_all [of "?w\<lparr>lag := 0\<rparr>" p m] ys assms(2) by auto
  ultimately show ?thesis using assms unfolding spi_write_bytes_def Let_def board_bus_sel sent
    by (simp add: board_w32_def drain_def spi_ready_def)
qed

lemma board_start: "\<exists>w'. spi_init board_bus w = Some w' \<and> spi_ready w' \<and> slot w' = slot w"
proof -
  have say: "\<exists>w'. print_uart board_bus s w = Some w' \<and> aside w w'" for s w
    unfolding print_uart_def by (rule aside_write)
  have status: "\<exists>w'. spi_status board_bus w = Some w' \<and> slot w' = slot w \<and> ctl w' = ctl w \<and> txq w' = txq w \<and> rxq w' = rxq w" for w
  proof -
    let ?w = "snd (board_r32 SPI_STATUS_REG w)"
    obtain w1 where w1: "print_uart board_bus ''status: 0x'' ?w = Some w1" "aside ?w w1" using say by blast
    obtain w2 where w2: "print_uart_addr board_bus (ucast (fst (board_r32 SPI_STATUS_REG w))) w1 = Some w2" "aside w1 w2"
      unfolding print_uart_addr_def using aside_write by blast
    obtain w3 where "print_uart board_bus CRLF w2 = Some w3" "aside w2 w3" using say by blast
    with w1 w2 show ?thesis by (simp add: spi_status_def aside_def board_r32_def)
  qed
  obtain w1 where w1: "print_uart board_bus (''init SPI'' @ CRLF) w = Some w1" "aside w w1" using say by blast
  let ?w1 = "board_w32 SPI_CONTROL_REG 0x104 (board_w32 SPI_RESET_REG 0x0a w1)"
  obtain w2 where w2: "spi_status board_bus ?w1 = Some w2" "slot w2 = slot ?w1" "ctl w2 = ctl ?w1" "txq w2 = txq ?w1" "rxq w2 = rxq ?w1"
    using status by blast
  let ?w2 = "board_w32 SPI_CONTROL_REG 0x166 w2"
  obtain w3 where w3: "spi_status board_bus ?w2 = Some w3" "slot w3 = slot ?w2" "ctl w3 = ctl ?w2" "txq w3 = txq ?w2" "rxq w3 = rxq ?w2"
    using status by blast
  let ?w3 = "board_w32 SPI_CONTROL_REG 0x06 w3"
  have "spi_ready ?w3" "slot ?w3 = slot w" using w1(2) w2 w3 by (auto simp: spi_ready_def aside_def board_w32_def drain_def)
  moreover obtain w4 where "print_uart board_bus (''SPI initialized!'' @ CRLF) ?w3 = Some w4" "aside ?w3 w4" using say by blast
  ultimately show ?thesis using w1(1) w2(1) w3(1) aside_keeps by (simp add: spi_init_def)
qed

interpretation rom_card: spi_link board_bus spi_ready slot
proof unfold_locales
  show "\<exists>w'. write_all board_bus cs w = Some w' \<and> slot w' = slot w \<and> (spi_ready w \<longrightarrow> spi_ready w')" for cs w
    using aside_write aside_keeps by metis
  show "slot (init_uart board_bus f r w) = slot w" for f r w using aside_keeps [OF aside_init] by metis
qed (simp_all add: board_txrx board_burst board_start)

text \<open>
  C14. The boot ROM on a board with a card: however long the console stays busy, however many polls a byte takes, whatever
  the card was sending, however long (up to 99 bytes) it takes to answer, however many idle bytes precede a block and however
  often the card says that it is still starting, the ROM returns and jumps to \<open>0x80000000\<close>, where it has put the
  16 MB (32768 blocks) from the beginning of the first partition that the partition table of the card names; besides them, only the
  two buffers for the table have changed.
\<close>

theorem rom_loads_partition:
  assumes "cin (slot w) = []" "lat (slot w) \<le> 99" "\<And>k. length (blocks (slot w) k) = 512"
  shows "\<exists>w'. rom_main board_bus l1 l2 m w = Some (0x80000000, put 0x80000000 (boot_image (slot w) 32768)
    (put l2 (blocks (slot w) (entries_lba (slot w))) (put l1 (blocks (slot w) 1) m)), w')"
  using assms by (rule rom_card.rom_boots)

definition demo_blocks :: "nat \<Rightarrow> u8 list" where
  "demo_blocks k =
     (if k = 1 then replicate 72 0 @ [2, 0, 0, 0, 0, 0, 0, 0] @ replicate 432 0
      else if k = 2 then replicate 32 0 @ [0, 8, 0, 0, 0, 0, 0, 0] @ replicate 472 0
      else replicate 512 (of_nat k))"

definition demo_board :: board where
  "demo_board = \<lparr>ctl = 0x180, sel = 0xFFFFFFFF, txq = [], rxq = [7], lag = 2, pace = 3, lcr = 0, busy = 5, baud = 9, line = [],
     slot = \<lparr>blocks = demo_blocks, gap = (\<lambda>k. k mod 7), lat = 4, tries = 20, cin = [], cout = [0xFE], reading = Some 9\<rparr>\<rparr>"

lemma demo_lba: "entries_lba (slot demo_board) = 2" "boot_lba (slot demo_board) = 2048"
proof -
  show e: "entries_lba (slot demo_board) = 2"
    by (simp add: entries_lba_def demo_board_def demo_blocks_def le_word_def)
  show "boot_lba (slot demo_board) = 2048" unfolding boot_lba_def e
    by (simp add: demo_board_def demo_blocks_def le_word_def)
qed

theorem rom_loads_partition_witness:
  "\<exists>w'. rom_main board_bus 0x7000 0x7200 (\<lambda>_. 0) demo_board = Some (0x80000000, put 0x80000000 (concat (map demo_blocks [2048..<2048 + 32768]))
    (put 0x7200 (demo_blocks 2) (put 0x7000 (demo_blocks 1) (\<lambda>_. 0))), w')"
proof -
  have d: "blocks (slot demo_board) = demo_blocks" by (simp add: demo_board_def)
  have "length (demo_blocks k) = 512" for k by (simp add: demo_blocks_def)
  then have "length (blocks (slot demo_board) k) = 512" for k unfolding d .
  moreover have "cin (slot demo_board) = []" "lat (slot demo_board) \<le> 99" by (simp_all add: demo_board_def)
  ultimately show ?thesis using rom_loads_partition [of demo_board "0x7000" "0x7200" "\<lambda>_. 0"]
    by (simp only: boot_image_def demo_lba d)
qed

end
