(* ===== verification/Piton_rom.thy ===== *)
theory Piton_rom
  imports Bootrom_card Snprintf
begin

text \<open>
  The boot ROM for OpenPiton (\<open>openpiton/bootrom/linux/src\<close>): a console at other addresses, which counts what it prints, and a card
  that is a window of memory. The sector copies, the progress messages and the partition table are modelled; the contract
  with the console is the locale \<open>console_link\<close>, in which the ROM is proved to load the image, interpreted on a 16550.
\<close>

unbundle bit_operations_syntax

section \<open>Console (\<open>uart.c\<close>)\<close>

definition piton_is_transmit_empty :: "'w rom \<Rightarrow> 'w \<Rightarrow> u8 \<times> 'w" where
  "piton_is_transmit_empty b w = (let (s, w) = r8 b 0xFFF0C2C005 w in (s AND 0x20, w))"

partial_function (option) piton_write_serial :: "'w rom \<Rightarrow> u8 \<Rightarrow> 'w \<Rightarrow> 'w option" where
  "piton_write_serial b a w =
     (let (e, w) = piton_is_transmit_empty b w
      in if e = 0 then piton_write_serial b a w else Some (w8 b 0xFFF0C2C000 a w))"

definition piton_init_uart :: "'w rom \<Rightarrow> u32 \<Rightarrow> u32 \<Rightarrow> 'w \<Rightarrow> 'w" where
  "piton_init_uart b freq rate w =
     (let divisor = freq div push_bit 4 rate;
          w = w8 b 0xFFF0C2C001 0x00 w;
          w = w8 b 0xFFF0C2C003 0x80 w;
          w = w8 b 0xFFF0C2C000 (ucast divisor) w;
          w = w8 b 0xFFF0C2C001 (ucast (drop_bit 8 divisor AND 0xFF)) w;
          w = w8 b 0xFFF0C2C003 0x03 w
      in w8 b 0xFFF0C2C004 0x20 w)"

fun piton_write_all :: "'w rom \<Rightarrow> u8 list \<Rightarrow> 'w \<Rightarrow> 'w option" where
  "piton_write_all b [] w = Some w"
| "piton_write_all b (c # cs) w = do { w \<leftarrow> piton_write_serial b c w; piton_write_all b cs w }"

text \<open>The printing functions return how many characters they have written.\<close>

definition piton_write_count :: "'w rom \<Rightarrow> u8 list \<Rightarrow> 'w \<Rightarrow> (u32 \<times> 'w) option" where
  "piton_write_count b cs w = do { w \<leftarrow> piton_write_all b cs w; Some (of_nat (length cs), w) }"

definition uart_bytes :: "string \<Rightarrow> u8 list" where
  "uart_bytes str = map (\<lambda>c. of_nat (of_char c)) str"

definition piton_print_uart :: "'w rom \<Rightarrow> string \<Rightarrow> 'w \<Rightarrow> (u32 \<times> 'w) option" where
  "piton_print_uart b str = piton_write_count b (uart_bytes str)"

definition bin_to_hex_table :: "u32 \<Rightarrow> u8" where
  "bin_to_hex_table d = (if d < 10 then 48 + ucast d else 55 + ucast d)"

text \<open>The loop of \<open>print_uart_dec\<close>, with \<open>i = n - 1\<close>.\<close>

fun piton_dec_loop :: "nat \<Rightarrow> u32 \<Rightarrow> u32 \<Rightarrow> u32 \<Rightarrow> u8 list" where
  "piton_dec_loop 0 val k digits = []"
| "piton_dec_loop (Suc i) val k digits =
     (let cur = val div k; val = val - cur * k; k = k div 10
      in if cur \<noteq> 0 \<or> of_nat i < digits
         then bin_to_hex_table (cur AND 0xf) # piton_dec_loop i val k (of_nat i)
         else piton_dec_loop i val k digits)"

definition piton_print_uart_dec :: "'w rom \<Rightarrow> u32 \<Rightarrow> u32 \<Rightarrow> 'w \<Rightarrow> (u32 \<times> 'w) option" where
  "piton_print_uart_dec b val digits = piton_write_count b (piton_dec_loop 10 val 1000000000 digits)"

definition hex_bytes :: "nat \<Rightarrow> u64 \<Rightarrow> u8 list" where
  "hex_bytes n addr = concat (map (\<lambda>i. bin_to_hex (ucast (drop_bit (i * 8) addr AND 0xff))) (rev [0..<n]))"

definition piton_print_uart_int :: "'w rom \<Rightarrow> u32 \<Rightarrow> 'w \<Rightarrow> (u32 \<times> 'w) option" where
  "piton_print_uart_int b addr = piton_write_count b (hex_bytes 4 (ucast addr))"

definition piton_print_uart_addr :: "'w rom \<Rightarrow> u64 \<Rightarrow> 'w \<Rightarrow> (u32 \<times> 'w) option" where
  "piton_print_uart_addr b addr = piton_write_count b (hex_bytes 8 addr)"

definition piton_print_uart_byte :: "'w rom \<Rightarrow> u8 \<Rightarrow> 'w \<Rightarrow> (u32 \<times> 'w) option" where
  "piton_print_uart_byte b byte = piton_write_count b (bin_to_hex byte)"

section \<open>Card (\<open>sd.c\<close>)\<close>

text \<open>The card is memory from \<open>PITON_SD_BASE_ADDR\<close> on.\<close>

abbreviation (input) PITON_SD_BASE_ADDR :: nat where "PITON_SD_BASE_ADDR \<equiv> 0xf000000000"

definition piton_init_sd :: "'w rom \<Rightarrow> 'w \<Rightarrow> (int \<times> 'w) option" where
  "piton_init_sd b w = do { (_, w) \<leftarrow> piton_print_uart b (''initializing SD... '' @ CRLF) w; Some (0, w) }"

definition copy_u64 :: "nat \<Rightarrow> nat \<Rightarrow> bmem \<Rightarrow> bmem" where
  "copy_u64 p addr m = (\<lambda>x. if p \<le> x \<and> x < p + 8 then m (addr + (x - p)) else m x)"

fun piton_copy_words :: "nat \<Rightarrow> nat \<Rightarrow> nat \<Rightarrow> bmem \<Rightarrow> bmem" where
  "piton_copy_words 0 p addr m = m"
| "piton_copy_words (Suc n) p addr m = piton_copy_words n (p + 8) (addr + 8) (copy_u64 p addr m)"

fun piton_backspaces :: "'w rom \<Rightarrow> nat \<Rightarrow> 'w \<Rightarrow> 'w option" where
  "piton_backspaces b 0 w = Some w"
| "piton_backspaces b (Suc k) w = do { (_, w) \<leftarrow> piton_print_uart b [CHR 0x08] w; piton_backspaces b k w }"

definition piton_progress :: "'w rom \<Rightarrow> u32 \<Rightarrow> u32 \<Rightarrow> u32 \<Rightarrow> 'w \<Rightarrow> (u32 \<times> 'w) option" where
  "piton_progress b num_chars blk size' w = do {
     w \<leftarrow> piton_backspaces b (unat num_chars) w;
     (n1, w) \<leftarrow> piton_print_uart b ''copying block '' w;
     (n2, w) \<leftarrow> piton_print_uart_dec b blk 1 w;
     (n3, w) \<leftarrow> piton_print_uart b '' of '' w;
     (n4, w) \<leftarrow> piton_print_uart_dec b size' 1 w;
     (n5, w) \<leftarrow> piton_print_uart b '' blocks ('' w;
     (n6, w) \<leftarrow> piton_print_uart_dec b ((blk * 100) div size') 1 w;
     (n7, w) \<leftarrow> piton_print_uart b '' %)'' w;
     Some (n1 + n2 + n3 + n4 + n5 + n6 + n7, w)
   }"

text \<open>The loop over the blocks, with \<open>n = size - blk\<close> of them left.\<close>

fun piton_copy_loop :: "'w rom \<Rightarrow> nat \<Rightarrow> u32 \<Rightarrow> u32 \<Rightarrow> nat \<Rightarrow> nat \<Rightarrow> u32 \<Rightarrow> bmem \<Rightarrow> 'w \<Rightarrow> (bmem \<times> 'w) option" where
  "piton_copy_loop b 0 blk size' p addr num_chars m w = Some (m, w)"
| "piton_copy_loop b (Suc n) blk size' p addr num_chars m w = do {
     (num_chars, w) \<leftarrow> (if blk mod 100 = 0 then piton_progress b num_chars blk size' w else Some (num_chars, w));
     piton_copy_loop b n (blk + 1) size' (p + 512) (addr + 512) num_chars (piton_copy_words 64 p addr m) w
   }"

definition piton_sd_copy :: "'w rom \<Rightarrow> nat \<Rightarrow> u32 \<Rightarrow> u32 \<Rightarrow> bmem \<Rightarrow> 'w \<Rightarrow> (int \<times> bmem \<times> 'w) option" where
  "piton_sd_copy b dst src_lba size' m w = do {
     let raw_addr = PITON_SD_BASE_ADDR + unat (push_bit 9 (ucast src_lba :: u64));
     (m, w) \<leftarrow> piton_copy_loop b (unat size') 0 size' dst raw_addr 0 m w;
     (_, w) \<leftarrow> piton_print_uart b CRLF w;
     Some (0, m, w)
   }"

section \<open>Partition table (\<open>gpt.c\<close>) and \<open>main\<close>\<close>

text \<open>The texts are what the calls to the console in a row write.\<close>

definition piton_header :: "bmem \<Rightarrow> nat \<Rightarrow> u8 list" where
  "piton_header m h =
     uart_bytes (''gpt partition table header:'' @ CRLF @ TAB @ ''signature:'' @ TAB) @ hex_bytes 8 (le64 m h) @
     uart_bytes (CRLF @ TAB @ ''revision:'' @ TAB) @ hex_bytes 4 (ucast (le32 m (h + 8))) @
     uart_bytes (CRLF @ TAB @ ''size:'' @ TAB @ TAB) @ hex_bytes 4 (ucast (le32 m (h + 12))) @
     uart_bytes (CRLF @ TAB @ ''crc_header:'' @ TAB) @ hex_bytes 4 (ucast (le32 m (h + 16))) @
     uart_bytes (CRLF @ TAB @ ''reserved:'' @ TAB) @ hex_bytes 4 (ucast (le32 m (h + 20))) @
     uart_bytes (CRLF @ TAB @ ''current lba:'' @ TAB) @ hex_bytes 8 (le64 m (h + 24)) @
     uart_bytes (CRLF @ TAB @ ''backup lda:'' @ TAB) @ hex_bytes 8 (le64 m (h + 32)) @
     uart_bytes (CRLF @ TAB @ ''partition entries lba:   '' @ TAB) @ hex_bytes 8 (le64 m (h + 72)) @
     uart_bytes (CRLF @ TAB @ ''number partition entries:'' @ TAB) @ hex_bytes 4 (ucast (le32 m (h + 80))) @
     uart_bytes (CRLF @ TAB @ ''size partition entries:  '' @ TAB) @ hex_bytes 4 (ucast (le32 m (h + 84))) @
     uart_bytes CRLF"

definition piton_entry :: "bmem \<Rightarrow> nat \<Rightarrow> nat \<Rightarrow> u8 list" where
  "piton_entry m buf i =
     (let p = buf + i * 128; guid = (\<lambda>a n. concat (map (\<lambda>x. bin_to_hex (m x)) [a..<a + n]))
      in uart_bytes ''gpt partition entry '' @ bin_to_hex (of_nat i) @
         uart_bytes (CRLF @ TAB @ ''partition type guid:'' @ TAB) @ guid p 16 @
         uart_bytes (CRLF @ TAB @ ''partition guid:     '' @ TAB) @ guid (p + 16) 16 @
         uart_bytes (CRLF @ TAB @ ''first lba:'' @ TAB) @ hex_bytes 8 (le64 m (p + 32)) @
         uart_bytes (CRLF @ TAB @ ''last lba:'' @ TAB) @ hex_bytes 8 (le64 m (p + 40)) @
         uart_bytes (CRLF @ TAB @ ''attributes:'' @ TAB) @ hex_bytes 8 (le64 m (p + 48)) @
         uart_bytes (CRLF @ TAB @ ''name:'' @ TAB) @ guid (p + 56) 72 @ uart_bytes CRLF)"

definition piton_card_failed :: "'w rom \<Rightarrow> int \<Rightarrow> 'w \<Rightarrow> 'w option" where
  "piton_card_failed b res =
     piton_write_all b (uart_bytes (''SD card failed!'' @ CRLF @ ''sd copy return value: '') @ hex_bytes 8 (of_int res) @ uart_bytes CRLF)"

definition piton_find_boot_partition :: "'w rom \<Rightarrow> nat \<Rightarrow> nat \<Rightarrow> nat \<Rightarrow> u32 \<Rightarrow> bmem \<Rightarrow> 'w \<Rightarrow> (int \<times> bmem \<times> 'w) option" where
  "piton_find_boot_partition b lba1_buf lba2_buf dest size' m w = do {
     (ret, w) \<leftarrow> piton_init_sd b w;
     (if ret \<noteq> 0
      then do { (_, w) \<leftarrow> piton_print_uart b (''could not initialize sd... exiting'' @ CRLF) w; Some (-1, m, w) }
      else do {
        (_, w) \<leftarrow> piton_print_uart b (''sd initialized!'' @ CRLF) w;
        (res, m, w) \<leftarrow> piton_sd_copy b lba1_buf 1 1 m w;
        (if res \<noteq> 0 then do { w \<leftarrow> piton_card_failed b res w; Some (-2, m, w) }
         else do {
           w \<leftarrow> piton_write_all b (piton_header m lba1_buf) w;
           (res, m, w) \<leftarrow> piton_sd_copy b lba2_buf (ucast (le64 m (lba1_buf + 72))) 1 m w;
           (if res \<noteq> 0 then do { w \<leftarrow> piton_card_failed b res w; Some (-2, m, w) }
            else do {
              w \<leftarrow> piton_write_all b (concat (map (piton_entry m lba2_buf) [0, 1, 2, 3])) w;
              (_, w) \<leftarrow> piton_print_uart b (''copying boot image '' @ CRLF) w;
              (res, m, w) \<leftarrow> piton_sd_copy b dest (ucast (le64 m (lba2_buf + 32))) size' m w;
              (if res \<noteq> 0 then do { w \<leftarrow> piton_card_failed b res w; Some (-2, m, w) }
               else do { (_, w) \<leftarrow> piton_print_uart b ('' done!'' @ CRLF) w; Some (0, m, w) })
            })
         })
      })
   }"

text \<open>\<open>UART_FREQ\<close> and \<open>info\<close> are given by the build. \<open>main\<close> ignores the result and returns to the code that jumps to the image.\<close>

definition piton_main :: "'w rom \<Rightarrow> u32 \<Rightarrow> string \<Rightarrow> nat \<Rightarrow> nat \<Rightarrow> bmem \<Rightarrow> 'w \<Rightarrow> (int \<times> bmem \<times> 'w) option" where
  "piton_main b UART_FREQ info lba1_buf lba2_buf m w = do {
     let w = piton_init_uart b UART_FREQ 115200 w;
     (_, w) \<leftarrow> piton_print_uart b info w;
     (_, w) \<leftarrow> piton_print_uart b (''sd initialized!'' @ CRLF) w;
     (res, m, w) \<leftarrow> piton_find_boot_partition b lba1_buf lba2_buf 0x80000000 (2 * 16384) m w;
     Some (0, m, w)
   }"

section \<open>Decimal numbers\<close>

lemma bin_to_hex_digit: "d < 10 \<Longrightarrow> bin_to_hex_table (of_nat d AND 0xf) = of_nat (of_char (dec_digit d))"
proof -
  assume "d < 10"
  then have "d \<in> {0, 1, 2, 3, 4, 5, 6, 7, 8, 9}" by auto
  then show ?thesis by (auto simp: bin_to_hex_table_def dec_digit_def)
qed

text \<open>A number with exactly \<open>n\<close> digits, leading zeros included.\<close>

fun padded :: "nat \<Rightarrow> nat \<Rightarrow> string" where
  "padded 0 v = []"
| "padded (Suc i) v = dec_digit (v div 10 ^ i) # padded i (v mod 10 ^ i)"

lemma padded_snoc: "v < 10 ^ Suc n \<Longrightarrow> padded (Suc n) v = padded n (v div 10) @ [dec_digit (v mod 10)]"
proof (induction n arbitrary: v)
  case (Suc n)
  have "v mod 10 ^ Suc n < 10 ^ Suc n" by simp
  then have "padded (Suc n) (v mod 10 ^ Suc n) = padded n (v mod 10 ^ Suc n div 10) @ [dec_digit (v mod 10 ^ Suc n mod 10)]" by (rule Suc.IH)
  moreover have "v mod 10 ^ Suc n mod 10 = v mod 10" by (simp add: mod_mod_cancel)
  moreover have "v mod 10 ^ Suc n div 10 = v div 10 mod 10 ^ n"
    by (simp add: mod_mult2_eq)
  moreover have "v div 10 ^ Suc n = v div 10 div 10 ^ n" by (simp add: div_mult2_eq)
  ultimately show ?case by simp
qed (simp add: padded.simps)

lemma padded_decimal: "10 ^ n \<le> v \<Longrightarrow> v < 10 ^ Suc n \<Longrightarrow> padded (Suc n) v = decimal v"
proof (induction n arbitrary: v)
  case 0
  then show ?case by (subst decimal.simps) simp
next
  case (Suc n)
  then have "10 ^ n \<le> v div 10" "v div 10 < 10 ^ Suc n" by (simp_all add: less_mult_imp_div_less less_eq_div_iff_mult_less_eq)
  moreover have "\<not> v < 10"
  proof -
    have "10 * 1 \<le> 10 * (10 :: nat) ^ n" by (intro mult_le_mono2 one_le_power) simp
    from order_trans [OF this Suc.prems(1) [unfolded power_Suc]] show ?thesis by simp
  qed
  ultimately show ?case using Suc.IH [of "v div 10"] padded_snoc [OF Suc.prems(2)] by (subst decimal.simps) simp
qed

lemma pow10_u32: "i \<le> 9 \<Longrightarrow> (10 :: nat) ^ i < 2 ^ 32"
  using power_increasing [of i 9 "10 :: nat"] by simp

lemma dec_step:
  assumes "v < 2 ^ 32" "i \<le> 9"
  shows "(of_nat v :: u32) div of_nat (10 ^ i) = of_nat (v div 10 ^ i)"
    "(of_nat v :: u32) - of_nat (v div 10 ^ i) * of_nat (10 ^ i) = of_nat (v mod 10 ^ i)"
proof -
  have "unat (of_nat v :: u32) = v" "unat (of_nat (10 ^ i) :: u32) = 10 ^ i"
    using assms(1) pow10_u32 [OF assms(2)] by (simp_all only: unat_of_nat mod_less word_size len_of_numeral_defs) (simp_all add: take_bit_nat_eq_self)
  then show "(of_nat v :: u32) div of_nat (10 ^ i) = of_nat (v div 10 ^ i)" by (simp only: word_arith_nat_div)
  have "of_nat v = (of_nat (v div 10 ^ i * 10 ^ i + v mod 10 ^ i) :: u32)" by (simp only: div_mult_mod_eq)
  then show "(of_nat v :: u32) - of_nat (v div 10 ^ i) * of_nat (10 ^ i) = of_nat (v mod 10 ^ i)"
    by (simp only: of_nat_add of_nat_mult add_diff_cancel_left')
qed

lemma dec_scale: "Suc i \<le> 9 \<Longrightarrow> (of_nat (10 ^ Suc i) :: u32) div 10 = of_nat (10 ^ i)"
  using dec_step(1) [of "10 ^ Suc i" 1] pow10_u32 [of "Suc i"] by simp

lemma uart_dec_all:
  assumes "v < 10 ^ n" "n \<le> 9"
  shows "piton_dec_loop n (of_nat v) (of_nat (10 ^ n) div 10) (of_nat n) = uart_bytes (padded n v)"
  using assms
proof (induction n arbitrary: v)
  case (Suc i)
  have v: "v < 2 ^ 32" "i \<le> 9" "v div 10 ^ i < 10" "v mod 10 ^ i < 10 ^ i"
    using Suc.prems pow10_u32 [of "Suc i"] by (simp_all add: less_mult_imp_div_less)
  have "(of_nat i :: u32) < of_nat (Suc i)" using v(2) by (simp add: word_less_nat_alt unat_of_nat del: of_nat_Suc)
  then show ?case
    using Suc.IH [OF v(4)] v(2) bin_to_hex_digit [OF v(3)]
    by (simp add: dec_scale [OF Suc.prems(2)] dec_step [OF v(1,2)] uart_bytes_def del: of_nat_Suc of_nat_power power_Suc)
qed (simp add: uart_bytes_def)

lemma uart_dec_decimal:
  assumes "v < 10 ^ Suc n" "v < 2 ^ 32" "n \<le> 9"
  shows "piton_dec_loop (Suc n) (of_nat v) (of_nat (10 ^ n)) 1 = uart_bytes (decimal v)"
  using assms
proof (induction n)
  case 0
  then show ?case using bin_to_hex_digit [of v] by (subst decimal.simps) (simp add: uart_bytes_def)
next
  case (Suc n)
  show ?case
  proof (cases "v < 10 ^ Suc n")
    case True
    then have "v div 10 ^ Suc n = 0" "v mod 10 ^ Suc n = v" by (simp_all del: power_Suc)
    moreover have "\<not> (of_nat (Suc n) :: u32) < 1" using Suc.prems(3) by (simp add: word_less_nat_alt unat_of_nat del: of_nat_Suc)
    ultimately show ?thesis using Suc True
      by (subst piton_dec_loop.simps) (simp add: dec_step [OF Suc.prems(2,3)] dec_scale [OF Suc.prems(3)] Let_def del: piton_dec_loop.simps of_nat_Suc of_nat_power power_Suc)
  next
    case False
    then have "decimal v = padded (Suc (Suc n)) v" using padded_decimal [of "Suc n" v, symmetric] Suc.prems(1) by (simp only: not_less)
    moreover have d: "v div 10 ^ Suc n < 10" "v mod 10 ^ Suc n < 10 ^ Suc n" using Suc.prems(1) by (simp_all add: less_mult_imp_div_less)
    moreover have "v div 10 ^ Suc n \<noteq> 0" using False by (simp add: div_eq_0_iff del: power_Suc)
    then have "(of_nat (v div 10 ^ Suc n) :: u32) \<noteq> 0" using d(1) by (simp add: word_of_nat_eq_0_iff nat_dvd_not_less del: power_Suc)
    ultimately show ?thesis using uart_dec_all [OF d(2) Suc.prems(3)] bin_to_hex_digit [OF d(1)]
      by (subst piton_dec_loop.simps)
        (simp add: dec_step [OF Suc.prems(2,3)] Let_def uart_bytes_def del: piton_dec_loop.simps of_nat_Suc of_nat_power power_Suc)
  qed
qed

lemma print_uart_dec_text: "piton_dec_loop 10 v 1000000000 1 = uart_bytes (decimal (unat v))" for v :: u32
proof -
  have "unat v < 2 ^ 32" using unsigned_less [of v] by simp
  then show ?thesis using uart_dec_decimal [of "unat v" 9] by (simp del: piton_dec_loop.simps)
qed

section \<open>Loading\<close>

lemma put_above: "p + length ys \<le> a \<Longrightarrow> map (put p ys m) [a..<c] = map m [a..<c]"
  by (simp add: put_def)

lemma copy_words_put:
  assumes "p + 8 * n \<le> a"
  shows "piton_copy_words n p a m = put p (map m [a..<a + 8 * n]) m"
  using assms
proof (induction n arbitrary: p a m)
  case (Suc n)
  let ?ys = "map m [a..<a + 8]"
  have "copy_u64 p a m = put p ?ys m" by (auto simp: copy_u64_def put_def fun_eq_iff)
  then have "piton_copy_words (Suc n) p a m = put (p + length ?ys) (map (put p ?ys m) [a + 8..<a + 8 + 8 * n]) (put p ?ys m)"
    using Suc.IH [of "p + 8" "a + 8" "put p ?ys m"] Suc.prems by simp
  also have "map (put p ?ys m) [a + 8..<a + 8 + 8 * n] = map m [a + 8..<a + 8 + 8 * n]"
    using Suc.prems by (intro put_above) simp
  also have "put (p + length ?ys) (map m [a + 8..<a + 8 + 8 * n]) (put p ?ys m) = put p (map m ([a..<a + 8] @ [a + 8..<a + 8 + 8 * n])) m"
    unfolding put_append by simp
  also have "[a..<a + 8] @ [a + 8..<a + 8 + 8 * n] = [a..<a + 8 * Suc n]"
    using upt_add_eq_append [of a "a + 8" "8 * n"] by (simp add: algebra_simps)
  finally show ?case .
qed simp

text \<open>Bytes of the card from block \<open>k\<close> on, and where its partition table says that the first partition begins.\<close>

definition sd_bytes :: "bmem \<Rightarrow> nat \<Rightarrow> nat \<Rightarrow> u8 list" where
  "sd_bytes m k n = map m [PITON_SD_BASE_ADDR + 512 * k..<PITON_SD_BASE_ADDR + 512 * k + 512 * n]"

definition table_lba :: "bmem \<Rightarrow> nat" where
  "table_lba m = unat (ucast (le_word (take 8 (drop 72 (sd_bytes m 1 1))) :: u64) :: u32)"

definition partition_lba :: "bmem \<Rightarrow> nat" where
  "partition_lba m = unat (ucast (le_word (take 8 (drop 32 (sd_bytes m (table_lba m) 1))) :: u64) :: u32)"

lemma length_sd_bytes: "length (sd_bytes m k n) = 512 * n"
  by (simp add: sd_bytes_def)

lemma sd_bytes_put: "p + length ys \<le> PITON_SD_BASE_ADDR \<Longrightarrow> sd_bytes (put p ys m) = sd_bytes m"
  unfolding sd_bytes_def by (intro ext put_above) simp

lemma sd_address: "unat (push_bit 9 (ucast lba :: u64)) = 512 * unat lba" for lba :: u32
proof -
  have "unat lba < 2 ^ 32" using unsigned_less [of lba] by simp
  then have a: "unat (ucast lba :: u64) = unat lba" by (simp add: unsigned_ucast_eq take_bit_nat_eq_self)
  have "unat (ucast lba * 512 :: u64) = unat (ucast lba :: u64) * unat (512 :: u64)"
    using \<open>unat lba < 2 ^ 32\<close> by (intro iffD1 [OF unat_mult_lem]) (simp add: a)
  then show ?thesis by (simp add: push_bit_eq_mult a)
qed

text \<open>
  What the ROM relies on: once the console is set up it takes every byte, and \<open>shown\<close> is what it has taken.
\<close>

locale console_link =
  fixes b :: "'w rom" and set_up :: "'w \<Rightarrow> bool" and shown :: "'w \<Rightarrow> u8 list"
  assumes takes: "set_up w \<Longrightarrow> \<exists>w'. piton_write_serial b x w = Some w' \<and> set_up w' \<and> shown w' = shown w @ [x]"
    and init: "set_up (piton_init_uart b f r w)"
begin

lemma writes: "set_up w \<Longrightarrow> \<exists>w'. piton_write_all b xs w = Some w' \<and> set_up w' \<and> shown w' = shown w @ xs"
proof (induction xs arbitrary: w)
  case (Cons x xs)
  obtain w1 where w1: "piton_write_serial b x w = Some w1" "set_up w1" "shown w1 = shown w @ [x]" using takes [OF Cons.prems] by blast
  from Cons.IH [OF w1(2)] w1 show ?case by auto
qed simp

lemma prints:
  "set_up w \<Longrightarrow> \<exists>w'. piton_print_uart b s w = Some (of_nat (length s), w') \<and> set_up w' \<and> shown w' = shown w @ uart_bytes s"
  using writes [of w "uart_bytes s"] by (auto simp: piton_print_uart_def piton_write_count_def uart_bytes_def)

lemma prints_dec:
  "set_up w \<Longrightarrow> \<exists>w'. piton_print_uart_dec b v 1 w = Some (of_nat (length (decimal (unat v))), w') \<and> set_up w' \<and>
    shown w' = shown w @ uart_bytes (decimal (unat v))"
  using writes [of w "uart_bytes (decimal (unat v))"]
  by (auto simp: piton_print_uart_dec_def print_uart_dec_text piton_write_count_def uart_bytes_def simp del: piton_dec_loop.simps)

lemma backspaces: "set_up w \<Longrightarrow> \<exists>w'. piton_backspaces b n w = Some w' \<and> set_up w'"
proof (induction n arbitrary: w)
  case (Suc n)
  from prints [OF Suc.prems, of "[CHR 0x08]"] obtain w1 where "piton_print_uart b [CHR 0x08] w = Some (1, w1)" "set_up w1" by auto
  with Suc.IH [of w1] show ?case by auto
qed simp

lemma progress: "set_up w \<Longrightarrow> \<exists>k w'. piton_progress b num blk n w = Some (k, w') \<and> set_up w'"
proof -
  assume "set_up w"
  then obtain w0 where w0: "piton_backspaces b (unat num) w = Some w0" "set_up w0" using backspaces by blast
  have say: "\<exists>k v'. piton_print_uart b s v = Some (k, v') \<and> set_up v'" if "set_up v" for s v using prints [OF that] by blast
  have dec: "\<exists>k v'. piton_print_uart_dec b x 1 v = Some (k, v') \<and> set_up v'" if "set_up v" for x v using prints_dec [OF that] by blast
  from say [OF w0(2)] obtain k1 w1 where w1: "piton_print_uart b ''copying block '' w0 = Some (k1, w1)" "set_up w1" by blast
  from dec [OF w1(2)] obtain k2 w2 where w2: "piton_print_uart_dec b blk 1 w1 = Some (k2, w2)" "set_up w2" by blast
  from say [OF w2(2)] obtain k3 w3 where w3: "piton_print_uart b '' of '' w2 = Some (k3, w3)" "set_up w3" by blast
  from dec [OF w3(2)] obtain k4 w4 where w4: "piton_print_uart_dec b n 1 w3 = Some (k4, w4)" "set_up w4" by blast
  from say [OF w4(2)] obtain k5 w5 where w5: "piton_print_uart b '' blocks ('' w4 = Some (k5, w5)" "set_up w5" by blast
  from dec [OF w5(2)] obtain k6 w6 where w6: "piton_print_uart_dec b ((blk * 100) div n) 1 w5 = Some (k6, w6)" "set_up w6" by blast
  from say [OF w6(2)] obtain k7 w7 where w7: "piton_print_uart b '' %)'' w6 = Some (k7, w7)" "set_up w7" by blast
  show ?thesis by (simp add: piton_progress_def w0 w1 w2 w3 w4 w5 w6 w7)
qed

lemma loop_copies:
  assumes "set_up w" "p + 512 * n \<le> a"
  shows "\<exists>w'. piton_copy_loop b n blk len p a num m w = Some (put p (map m [a..<a + 512 * n]) m, w') \<and> set_up w'"
  using assms
proof (induction n arbitrary: blk p a num m w)
  case (Suc n)
  let ?ys = "map m [a..<a + 512]"
  obtain k w1 where w1: "(if blk mod 100 = 0 then piton_progress b num blk len w else Some (num, w)) = Some (k, w1)" "set_up w1"
    using progress [OF Suc.prems(1), of num blk len] Suc.prems(1) by (cases "blk mod 100 = 0") auto
  have c: "piton_copy_words 64 p a m = put p ?ys m" using copy_words_put [of p 64 a m] Suc.prems(2) by simp
  obtain w2 where w2: "piton_copy_loop b n (blk + 1) len (p + 512) (a + 512) k (put p ?ys m) w1 =
      Some (put (p + length ?ys) (map (put p ?ys m) [a + 512..<a + 512 + 512 * n]) (put p ?ys m), w2)" "set_up w2"
    using Suc.IH [OF w1(2), of "p + 512" "a + 512" "blk + 1" k "put p ?ys m"] Suc.prems(2) by auto
  have "[a..<a + 512] @ [a + 512..<a + 512 + 512 * n] = [a..<a + 512 * Suc n]"
    using upt_add_eq_append [of a "a + 512" "512 * n"] by (simp add: algebra_simps)
  then have "?ys @ map m [a + 512..<a + 512 + 512 * n] = map m [a..<a + 512 * Suc n]" by (metis map_append)
  moreover have "map (put p ?ys m) [a + 512..<a + 512 + 512 * n] = map m [a + 512..<a + 512 + 512 * n]"
    using Suc.prems(2) by (intro put_above) simp
  ultimately have "?ys @ map (put p ?ys m) [a + 512..<a + 512 + 512 * n] = map m [a..<a + 512 * Suc n]" by (simp only:)
  then show ?case using w1(1) w2 unfolding put_append by (simp add: c)
qed simp

lemma sd_copies:
  assumes "set_up w" "dst + 512 * unat n \<le> PITON_SD_BASE_ADDR"
  shows "\<exists>w'. piton_sd_copy b dst lba n m w = Some (0, put dst (sd_bytes m (unat lba) (unat n)) m, w') \<and> set_up w'"
proof -
  obtain w1 where w1: "piton_copy_loop b (unat n) 0 n dst (PITON_SD_BASE_ADDR + 512 * unat lba) 0 m w =
      Some (put dst (sd_bytes m (unat lba) (unat n)) m, w1)" "set_up w1"
    using loop_copies [OF assms(1), of dst "unat n" "PITON_SD_BASE_ADDR + 512 * unat lba" 0 n 0 m] assms(2) by (auto simp: sd_bytes_def)
  obtain k w2 where "piton_print_uart b CRLF w1 = Some (k, w2)" "set_up w2" using prints [OF w1(2)] by blast
  with w1 show ?thesis by (simp add: piton_sd_copy_def sd_address)
qed

lemma partition_found:
  assumes "set_up w" "l1 + 512 \<le> PITON_SD_BASE_ADDR" "l2 + 512 \<le> PITON_SD_BASE_ADDR" "dest + 512 * unat n \<le> PITON_SD_BASE_ADDR"
  shows "\<exists>w'. piton_find_boot_partition b l1 l2 dest n m w = Some (0, put dest (sd_bytes m (partition_lba m) (unat n))
    (put l2 (sd_bytes m (table_lba m) 1) (put l1 (sd_bytes m 1 1) m)), w') \<and> set_up w'"
proof -
  have say: "\<exists>k v'. piton_print_uart b s v = Some (k, v') \<and> set_up v'" if "set_up v" for s v using prints [OF that] by blast
  have texts: "\<exists>v'. piton_write_all b s v = Some v' \<and> set_up v'" if "set_up v" for s v using writes [OF that] by blast
  define m1 where "m1 = put l1 (sd_bytes m 1 1) m"
  define m2 where "m2 = put l2 (sd_bytes m (table_lba m) 1) m1"
  define e f :: u32 where "e = ucast (le64 m1 (l1 + 72))" and "f = ucast (le64 m2 (l2 + 32))"
  have e: "unat e = table_lba m" "unat f = partition_lba m"
    by (simp_all add: e_def f_def m1_def m2_def le64_put length_sd_bytes table_lba_def partition_lba_def)
  have s: "sd_bytes m1 = sd_bytes m" "sd_bytes m2 = sd_bytes m"
    unfolding m2_def m1_def using assms(2,3) by (simp_all add: sd_bytes_put length_sd_bytes)
  obtain k0 w0 where w0: "piton_print_uart b (''initializing SD... '' @ CRLF) w = Some (k0, w0)" "set_up w0" using say [OF assms(1)] by blast
  obtain k1 w1 where w1: "piton_print_uart b (''sd initialized!'' @ CRLF) w0 = Some (k1, w1)" "set_up w1" using say [OF w0(2)] by blast
  obtain w2 where w2: "piton_sd_copy b l1 1 1 m w1 = Some (0, m1, w2)" "set_up w2" using sd_copies [OF w1(2), of l1 1 1 m] assms(2) by (auto simp: m1_def)
  obtain w3 where w3: "piton_write_all b (piton_header m1 l1) w2 = Some w3" "set_up w3" using texts [OF w2(2)] by blast
  obtain w4 where w4: "piton_sd_copy b l2 e 1 m1 w3 = Some (0, m2, w4)" "set_up w4"
    using sd_copies [OF w3(2), of l2 1 e m1] assms(3) by (auto simp: m2_def s e)
  obtain w5 where w5: "piton_write_all b (concat (map (piton_entry m2 l2) [0, 1, 2, 3])) w4 = Some w5" "set_up w5" using texts [OF w4(2)] by blast
  obtain k6 w6 where w6: "piton_print_uart b (''copying boot image '' @ CRLF) w5 = Some (k6, w6)" "set_up w6" using say [OF w5(2)] by blast
  obtain w7 where w7: "piton_sd_copy b dest f n m2 w6 = Some (0, put dest (sd_bytes m (partition_lba m) (unat n)) m2, w7)" "set_up w7"
    using sd_copies [OF w6(2) assms(4), of f m2] by (auto simp: s e)
  obtain k8 w8 where w8: "piton_print_uart b ('' done!'' @ CRLF) w7 = Some (k8, w8)" "set_up w8" using say [OF w7(2)] by blast
  have "piton_find_boot_partition b l1 l2 dest n m w = Some (0, put dest (sd_bytes m (partition_lba m) (unat n)) m2, w8)"
    using w0(1) w1(1) w2(1) w3(1) w4(1) w5(1) w6(1) w7(1) w8(1)
    by (simp add: piton_find_boot_partition_def piton_init_sd_def flip: e_def f_def)
  with w8(2) show ?thesis unfolding m2_def m1_def by blast
qed

lemma rom_boots:
  assumes "l1 + 512 \<le> PITON_SD_BASE_ADDR" "l2 + 512 \<le> PITON_SD_BASE_ADDR"
  shows "\<exists>w'. piton_main b freq info l1 l2 m w = Some (0, put 0x80000000 (sd_bytes m (partition_lba m) 32768)
    (put l2 (sd_bytes m (table_lba m) 1) (put l1 (sd_bytes m 1 1) m)), w') \<and> set_up w'"
proof -
  obtain k0 w0 where w0: "piton_print_uart b info (piton_init_uart b freq 115200 w) = Some (k0, w0)" "set_up w0" using prints [OF init] by blast
  obtain k1 w1 where w1: "piton_print_uart b (''sd initialized!'' @ CRLF) w0 = Some (k1, w1)" "set_up w1" using prints [OF w0(2)] by blast
  from partition_found [OF w1(2) assms, of "0x80000000" "2 * 16384" m] obtain w2 where
    "piton_find_boot_partition b l1 l2 0x80000000 (2 * 16384) m w1 = Some (0, put 0x80000000 (sd_bytes m (partition_lba m) 32768)
      (put l2 (sd_bytes m (table_lba m) 1) (put l1 (sd_bytes m 1 1) m)), w2)" "set_up w2" by auto
  with w0 w1 show ?thesis by (simp add: piton_main_def)
qed

end

section \<open>A console\<close>

text \<open>A 16550 with one byte of buffer, which is busy for \<open>u_rate\<close> polls after each byte.\<close>

record piton_uart =
  u_lcr :: u8
  u_busy :: nat
  u_rate :: nat
  u_line :: "u8 list"

definition piton_w8 :: "u64 \<Rightarrow> u8 \<Rightarrow> piton_uart \<Rightarrow> piton_uart" where
  "piton_w8 a v w =
     (if a = 0xFFF0C2C003 then w\<lparr>u_lcr := v\<rparr>
      else if a = 0xFFF0C2C000 \<and> u_lcr w AND 0x80 = 0 then w\<lparr>u_line := u_line w @ [v], u_busy := u_rate w\<rparr>
      else w)"

definition piton_r8 :: "u64 \<Rightarrow> piton_uart \<Rightarrow> u8 \<times> piton_uart" where
  "piton_r8 a w = (if a = 0xFFF0C2C005 then (if u_busy w = 0 then 0x60 else 0, w\<lparr>u_busy := u_busy w - 1\<rparr>) else (0, w))"

definition piton_bus :: "piton_uart rom" where
  "piton_bus = \<lparr>r32 = \<lambda>_ w. (0, w), w32 = \<lambda>_ _ w. w, r8 = piton_r8, w8 = piton_w8\<rparr>"

lemma piton_bus_sel [simp]: "r8 piton_bus = piton_r8" "w8 piton_bus = piton_w8"
  by (simp_all add: piton_bus_def)

lemma piton_takes:
  assumes "u_lcr w AND 0x80 = 0"
  shows "\<exists>w'. piton_write_serial piton_bus x w = Some w' \<and> u_lcr w' AND 0x80 = 0 \<and> u_line w' = u_line w @ [x]"
  using assms
proof (induction "u_busy w" arbitrary: w)
  case 0
  then show ?case by (subst piton_write_serial.simps) (simp add: piton_is_transmit_empty_def piton_r8_def piton_w8_def)
next
  case (Suc n)
  from Suc.hyps(1) [of "w\<lparr>u_busy := n\<rparr>"] Suc.prems show ?case
    by (subst piton_write_serial.simps) (simp add: piton_is_transmit_empty_def piton_r8_def flip: Suc.hyps(2))
qed

interpretation piton_console: console_link piton_bus "\<lambda>w. u_lcr w AND 0x80 = 0" u_line
  by unfold_locales (simp_all add: piton_takes piton_init_uart_def piton_w8_def)

text \<open>
  C40. The boot ROM for OpenPiton, whose card is a window of memory: whatever the console was doing and however slow it is, the
  ROM returns, and memory from \<open>0x80000000\<close> on holds the 16 MB from the beginning of the first partition that the partition
  table in the window names; besides them, only the two buffers for the table have changed. The buffers lie below the window.
\<close>

theorem piton_rom_loads_partition:
  assumes "l1 + 512 \<le> PITON_SD_BASE_ADDR" "l2 + 512 \<le> PITON_SD_BASE_ADDR"
  shows "\<exists>w'. piton_main piton_bus freq info l1 l2 m w = Some (0, put 0x80000000 (sd_bytes m (partition_lba m) 32768)
    (put l2 (sd_bytes m (table_lba m) 1) (put l1 (sd_bytes m 1 1) m)), w')"
  using piton_console.rom_boots [OF assms, of freq info m w] by blast

theorem piton_rom_loads_partition_witness:
  "\<exists>w'. piton_main piton_bus 66667000 ''boot'' 0x7000 0x7200 (\<lambda>a. of_nat (a div 512)) \<lparr>u_lcr = 0x80, u_busy = 3, u_rate = 7, u_line = []\<rparr> =
    Some (0, put 0x80000000 (sd_bytes (\<lambda>a. of_nat (a div 512)) (partition_lba (\<lambda>a. of_nat (a div 512))) 32768)
      (put 0x7200 (sd_bytes (\<lambda>a. of_nat (a div 512)) (table_lba (\<lambda>a. of_nat (a div 512))) 1)
        (put 0x7000 (sd_bytes (\<lambda>a. of_nat (a div 512)) 1 1) (\<lambda>a. of_nat (a div 512)))), w')"
  by (rule piton_rom_loads_partition) simp_all

text \<open>Numbers appear on the console as decimals.\<close>

lemma piton_prints_decimal:
  "u_lcr w AND 0x80 = 0 \<Longrightarrow> \<exists>w'. piton_print_uart_dec piton_bus v 1 w = Some (of_nat (length (decimal (unat v))), w') \<and>
    u_line w' = u_line w @ uart_bytes (decimal (unat v))"
  using piton_console.prints_dec [of w v] by blast

end
