(* ===== verification/Spec2Isabelle.thy ===== *)
theory Spec2Isabelle
  imports Emulation Device_spec Start Crypto_calls Spinlock Boot Piton_rom
begin

text \<open>
  The firmware of a RISC-V system on chip: the boot ROMs (\<open>src/fpga/src/bootrom/src\<close> and a variant), and the proxy kernel and boot
  loader of \<open>src/pk\<close> with the drivers this SoC adds for its crypto engines, fuse memory and register locks.

  \<^bold>\<open>The program.\<close> The boot ROM starts an SD card over SPI and copies the first partition to memory. A hart then
  enters machine mode in \<open>minit.c\<close>, which finds memory and devices in the flattened
  device tree (\<open>fdt.c\<close>, the \<open>query_*\<close> functions), copies the fuse data into the lock registers (\<open>pkt.c\<close>,
  \<open>reglk.c\<close>) and starts the kernel, or, in \<open>bbl.c\<close>, protects itself and starts a payload. Machine mode then emulates
  what the hart lacks: misaligned accesses,
  multiplication and division, floating point, counters (\<open>mtrap.c\<close>, \<open>emulation.c\<close>, \<open>misaligned_ldst.c\<close>,
  \<open>muldiv_emulation.c\<close>, \<open>fp_emulation.c\<close>), and serves calls to the console, the other harts and the engines
  (\<open>mtrap.c\<close>, \<open>aes.c\<close>, \<open>sha256.c\<close>, \<open>hmac.c\<close>, \<open>dma.c\<close>). The proxy kernel in supervisor mode (\<open>pk.c\<close>) sets up virtual memory
  (\<open>mmap.c\<close>), loads a program (\<open>elf.c\<close>) and lays out its stack, handles its traps (\<open>handlers.c\<close>) and serves its system
  calls (\<open>syscall.c\<close>), most of them by asking the host
  (\<open>frontend.c\<close>), with a table of open files (\<open>file.c\<close>) and a console (\<open>console.c\<close>, \<open>snprintf.c\<close>, \<open>string.c\<close>).

  \<^bold>\<open>The theories\<close>, with the files they model (under \<open>src/pk\<close> but for the last two items):
  \<^item> \<open>Prelude\<close>: word types, little-endian bytes, polling loops, the shared collections of facts.
  \<^item> \<open>Machine\<close>: the hart's registers and CSRs, trap redirection, and loads and stores on behalf of the
    interrupted context (\<open>mtrap.c\<close>, \<open>unprivileged_memory.h\<close>, \<open>emulation.h\<close>). A step of emulation returns,
    redirects a trap, or stops; the three are the cases of its result.
  \<^item> \<open>Muldiv\<close>, \<open>Misaligned\<close>, \<open>Fpregs\<close>, \<open>Softfloat_cmp\<close>, \<open>Fp_emulation\<close>, \<open>Emulation\<close>: the emulation, each
    against the meaning the instruction set gives the instruction.
  \<^item> \<open>Cstring\<close>, \<open>Snprintf\<close>: \<open>util/string.c\<close> and \<open>util/snprintf.c\<close> against plain lists of characters.
  \<^item> \<open>Drivers\<close>, \<open>Driver_spec\<close>: the drivers over a bus whose reads and writes are arguments. The locales
    \<open>reg_window\<close> and \<open>hash_engine\<close> say what the drivers rely on; they are interpreted on an engine that
    computes a hash block by block.
  \<^item> \<open>Fdt\<close>, \<open>Fdt_tree\<close>, \<open>Fdt_scans\<close>, \<open>Devices\<close>, \<open>Device_spec\<close>: the scanner over bytes, the trees a blob
    denotes, the scans and filters, the devices. The locale \<open>fdt_client\<close> is the interface between the
    scanner and its callbacks; every device query and the filter are interpretations of it.
  \<^item> \<open>Spinlock\<close>, \<open>Ipi\<close>: several harts at once (\<open>atomic.h\<close>, \<open>send_ipi_many\<close> of \<open>mtrap.c\<close>). A step is one memory
    access of one hart; the step relations are inductive and the properties hold in every interleaving.
  \<^item> \<open>Mcall\<close>: the calls of supervisor mode (\<open>mcall_trap\<close> of \<open>mtrap.c\<close>), and \<open>Boot\<close>: \<open>minit.c\<close> and \<open>bbl.c\<close>.
  \<^item> \<open>File_table\<close>, \<open>Syscalls\<close>: the table of files and the system calls on it. The locale \<open>refcounted\<close> is
    the contract of the reference counts.
  \<^item> \<open>Console\<close>: text on standard error and the dump of a trap frame.
  \<^item> \<open>Page_table\<close>: page tables over a memory of words. The locale \<open>page_map\<close> states them as a map from pages to
    entries, and its interpretation shows the tables of \<open>mmap.c\<close> to be one.
  \<^item> \<open>Vm\<close>, \<open>Vm_calls\<close>, \<open>Elf\<close>, \<open>Vm_spec\<close>, \<open>Vm_boot\<close>: the mappings of the process, their invariant and its
    preservation by every call, the loader, the properties, and a machine on which all of them apply.
  \<^item> \<open>Crypto_calls\<close>: the system calls on the engines, from the buffers of the process to the machine call.
  \<^item> \<open>Handlers\<close>, \<open>Start\<close>: \<open>handlers.c\<close> and \<open>pk.c\<close>, which compose all of the above into a kernel.
  \<^item> \<open>Bootrom\<close>, \<open>Bootrom_spec\<close>, \<open>Bootrom_card\<close>: the boot ROM (\<open>uart.c\<close>, \<open>spi.c\<close>, \<open>sd.c\<close>, \<open>gpt.c\<close>, \<open>main.c\<close>) over the registers
    of its devices, its checksum against the standard, and the whole ROM on a board. The locale \<open>spi_link\<close> is the contract
    between the SPI and console routines and the code for the card; it is interpreted on a board with controller, console
    and card.
  \<^item> \<open>Piton_rom\<close>: the variant of the ROM for OpenPiton (\<open>src/openpiton/bootrom/linux/src\<close>), whose card is a window of
    memory. The locale \<open>console_link\<close> is its contract with the console.

  \<^bold>\<open>State and effects.\<close> Each component has a record with the C variables it owns: \<open>hart\<close>, \<open>ftab\<close>, \<open>ptab\<close>, \<open>vm\<close>.
  Functions take and return it. C pointers into tables are indices (files, descriptors, mapping records)
  or addresses (memory, page tables, device tree). The host, the bus, SoftFloat's arithmetic and the
  user's memory are arguments, not definitions; where a property needs something of them it is a hypothesis,
  and a witness provides an instance.

  \<^bold>\<open>Results that are not returned.\<close> \<open>None\<close> stands for a failed assertion, a panic, behaviour that C leaves
  undefined, a loop that does not end, or a store to the kernel through a pointer of the process; the loops that may not end are \<open>partial_function (option)\<close>. That a
  call returns is therefore always stated: in the conclusion (\<open>= Some ...\<close>) for strings, formatting, device
  tree, search for addresses, faults, unmapping and the boot ROM, and as a hypothesis only where it depends on the host or on
  the number of pages left. No definition uses fuel: loops over words and strings come with a
  termination proof, and the scanner, which need not end on a malformed blob, is shown to end on well-formed ones.

  \<^bold>\<open>What is shown.\<close> Emulated instructions do what the instruction set says, or the exact cases in which they do
  not. Lookups in page tables and device trees refine lookups in maps and trees. Descriptors do not refer to a
  freed file after any fewer than \<open>2^30\<close> calls, and user pages never to kernel memory in the states reachable by calls and faults, for
  a process that passes no kernel address as a buffer to be stored to (the code does not check, and such a store may hit any
  kernel data), calls no accelerator and requests no more memory than the address space has. Interrupts between
  harts are never lost, every fair schedule of them comes to rest, and locks exclude each other. The payload of the boot loader cannot reach the firmware.
  Word-optimised routines equal their bytewise reference. Hashing feeds the engine the standard padding, except for the lengths that are named.
  The boot ROM loads the partition of any card that follows the protocol, however slow, and its variant the one of any card in the window.
  Where the code departs from its purpose a property states what it does instead.

  \<^bold>\<open>Not modelled\<close>: SoftFloat's arithmetic (vendored; an argument of \<open>Fp_emulation\<close>); printing the device tree
  (compiled out); code in assembly (\<open>mentry.S\<close>, \<open>entry.S\<close>), of which \<open>Ipi\<close> has the part that takes an interrupt; caches,
  TLB flushes and weak memory ordering; outside \<open>Spinlock\<close> and \<open>Ipi\<close> the interleaving of harts (a system
  call is a single step); the hardware description in
  \<open>src/src\<close>, the simulators and test benches, which are not part of the firmware.
\<close>

end
